(* ===== verification/Prelude.thy ===== *)
theory Prelude
  imports Main "HOL-Library.Word" "HOL-Library.Multiset" "HOL-Library.Char_ord"
    "HOL-Library.List_Lexorder"
begin

text \<open>
  The prelude of the development: Python values and strings as the components use them, the
  results of raising code, the authenticated cipher every store is built on, ordered
  listings as SQL gives them, and the induction schema for event-driven components.

  Conventions. A Python string is a \<open>string\<close>; a \<open>char\<close> is read as one code point, so the
  model covers code points below 256, and every predicate below (blank, digit, alphanumeric,
  lower case) is Python's table on that range. Times are whole microseconds
  (\<open>int\<close>), the resolution of a database timestamp. A Python \<open>assert\<close> that fails is the result
  \<open>Inl (Assertion _)\<close>, as the interpreter runs it without \<open>-O\<close>.
\<close>

named_theorems store_simps \<open>equations of the row stores\<close>
named_theorems step_intros \<open>preservation facts of state machines\<close>

section \<open>Results of code that may raise\<close>

datatype pyerr =
    Assertion string
  | ValueErr string
  | PermissionErr string
  | InvalidTag
  | Overflow
  | Gateway int string
  | Http int string
  | OtherErr string

type_synonym 'a result = "pyerr + 'a"

definition rbind :: "'a result \<Rightarrow> ('a \<Rightarrow> 'b result) \<Rightarrow> 'b result" where
  "rbind r f = (case r of Inl e \<Rightarrow> Inl e | Inr x \<Rightarrow> f x)"

lemma rbind_simps [simp]: "rbind (Inl e) f = Inl e" "rbind (Inr x) f = f x"
  by (simp_all add: rbind_def)

lemma rbind_Inr_iff: "rbind r f = Inr y \<longleftrightarrow> (\<exists>x. r = Inr x \<and> f x = Inr y)"
  by (cases r) auto

definition rmap1 :: "('a \<Rightarrow> 'b) \<Rightarrow> 'a result \<Rightarrow> 'b result" where
  "rmap1 f r = (case r of Inl e \<Rightarrow> Inl e | Inr x \<Rightarrow> Inr (f x))"

lemma rmap1_simps [simp]: "rmap1 f (Inl e) = Inl e" "rmap1 f (Inr x) = Inr (f x)"
  by (simp_all add: rmap1_def)

text \<open>A comprehension whose body may raise stops at the first exception.\<close>

fun rmap :: "('a \<Rightarrow> 'b result) \<Rightarrow> 'a list \<Rightarrow> 'b list result" where
  "rmap f [] = Inr []"
| "rmap f (x # xs) = rbind (f x) (\<lambda>y. rbind (rmap f xs) (\<lambda>ys. Inr (y # ys)))"

lemma rmap_Inr_map: "(\<And>x. x \<in> set xs \<Longrightarrow> f x = Inr (g x)) \<Longrightarrow> rmap f xs = Inr (map g xs)"
  by (induction xs) auto

lemma rmap_Inr_list_all2: "rmap f xs = Inr ys \<Longrightarrow> list_all2 (\<lambda>x y. f x = Inr y) xs ys"
  by (induction xs arbitrary: ys) (auto simp: rbind_Inr_iff)

lemma rmap_Inr_length: "rmap f xs = Inr ys \<Longrightarrow> length ys = length xs"
  using rmap_Inr_list_all2 list_all2_lengthD by fastforce

section \<open>JSON values\<close>

text \<open>
  What \<open>json.loads\<close> returns and \<open>json.dumps\<close> takes. A dict is its items in insertion order;
  a float keeps the text that denotes it, since no modelled code computes with one.
\<close>

datatype jval =
    JNull
  | JBool bool
  | JInt int
  | JFloat string
  | JStr string
  | JList "jval list"
  | JObj "(string \<times> jval) list"

type_synonym jdict = "(string \<times> jval) list"

definition is_dict :: "jval \<Rightarrow> bool" where
  "is_dict v = (case v of JObj _ \<Rightarrow> True | _ \<Rightarrow> False)"

text \<open>What counts as true in a condition.\<close>

definition truthy :: "jval \<Rightarrow> bool" where
  "truthy v = (case v of JNull \<Rightarrow> False | JBool b \<Rightarrow> b | JInt n \<Rightarrow> n \<noteq> 0
     | JFloat s \<Rightarrow> s \<noteq> ''0.0'' \<and> s \<noteq> ''-0.0'' | JStr s \<Rightarrow> s \<noteq> [] | JList vs \<Rightarrow> vs \<noteq> [] | JObj d \<Rightarrow> d \<noteq> [])"

definition has_key :: "(string \<times> 'v) list \<Rightarrow> string \<Rightarrow> bool" where
  "has_key d k \<longleftrightarrow> k \<in> fst ` set d"

lemma has_key_iff: "has_key d k \<longleftrightarrow> (\<exists>v. map_of d k = Some v)"
  by (auto simp: has_key_def) (metis map_of_eq_None_iff option.exhaust image_eqI fst_conv,
    metis map_of_eq_None_iff option.distinct(1))

text \<open>\<open>d.get(k, dflt)\<close>.\<close>

definition opt_get :: "jdict \<Rightarrow> string \<Rightarrow> jval \<Rightarrow> jval" where
  "opt_get d k dflt = (case map_of d k of Some v \<Rightarrow> v | None \<Rightarrow> dflt)"

text \<open>Assignment \<open>d[k] = v\<close>: in place for a key that is there, else appended at the end.\<close>

fun dict_set :: "('k \<times> 'v) list \<Rightarrow> 'k \<Rightarrow> 'v \<Rightarrow> ('k \<times> 'v) list" where
  "dict_set [] k v = [(k, v)]"
| "dict_set ((k', v') # d) k v = (if k' = k then (k, v) # d else (k', v') # dict_set d k v)"

lemma map_of_dict_set [simp]: "map_of (dict_set d k v) = (map_of d)(k \<mapsto> v)"
  by (induction d k v rule: dict_set.induct) auto

lemma dict_set_new: "k \<notin> fst ` set d \<Longrightarrow> dict_set d k v = d @ [(k, v)]"
  by (induction d k v rule: dict_set.induct) auto

lemma keys_dict_set [simp]: "fst ` set (dict_set d k v) = insert k (fst ` set d)"
  by (induction d k v rule: dict_set.induct) auto

lemma distinct_dict_set: "distinct (map fst d) \<Longrightarrow> distinct (map fst (dict_set d k v))"
proof (induction d k v rule: dict_set.induct)
  case (2 k' v' d k v)
  have "set (map fst (dict_set d k v)) = insert k (set (map fst d))"
    using keys_dict_set [of d k v] by simp
  with 2 show ?case by auto
qed simp

definition dict_del :: "('k \<times> 'v) list \<Rightarrow> 'k \<Rightarrow> ('k \<times> 'v) list" where
  "dict_del d k = filter (\<lambda>p. fst p \<noteq> k) d"

lemma map_of_dict_del [simp]: "map_of (dict_del d k) = (map_of d)(k := None)"
  by (induction d) (auto simp: dict_del_def)

lemma keys_dict_del [simp]: "fst ` set (dict_del d k) = fst ` set d - {k}"
  by (auto simp: dict_del_def)

lemma distinct_dict_del: "distinct (map fst d) \<Longrightarrow> distinct (map fst (dict_del d k))"
  by (induction d) (auto simp: dict_del_def)

lemma length_dict_set:
  "length (dict_set d k v) = (if k \<in> fst ` set d then length d else Suc (length d))"
  by (induction d k v rule: dict_set.induct) auto

section \<open>Python strings\<close>

definition ord :: "char \<Rightarrow> nat" where
  "ord c = of_char c"

text \<open>\<open>str.isspace\<close>, \<open>str.isdigit\<close>, \<open>str.isalnum\<close> and \<open>str.lower\<close> on one code point below 256.\<close>

definition py_isspace :: "char \<Rightarrow> bool" where
  "py_isspace c = (let n = ord c in (9 \<le> n \<and> n \<le> 13) \<or> (28 \<le> n \<and> n \<le> 32) \<or> n = 133 \<or> n = 160)"

definition ascii_digit :: "char \<Rightarrow> bool" where
  "ascii_digit c = (let n = ord c in 48 \<le> n \<and> n \<le> 57)"

definition ascii_upper :: "char \<Rightarrow> bool" where
  "ascii_upper c = (let n = ord c in 65 \<le> n \<and> n \<le> 90)"

definition ascii_lower :: "char \<Rightarrow> bool" where
  "ascii_lower c = (let n = ord c in 97 \<le> n \<and> n \<le> 122)"

definition py_isdigit :: "char \<Rightarrow> bool" where
  "py_isdigit c = (ascii_digit c \<or> ord c \<in> {178, 179, 185})"

definition py_isalnum :: "char \<Rightarrow> bool" where
  "py_isalnum c = (let n = ord c in ascii_digit c \<or> ascii_upper c \<or> ascii_lower c
     \<or> n \<in> {170, 178, 179, 181, 185, 186, 188, 189, 190}
     \<or> (192 \<le> n \<and> n \<le> 255 \<and> n \<noteq> 215 \<and> n \<noteq> 247))"

definition py_lower_char :: "char \<Rightarrow> char" where
  "py_lower_char c = (let n = ord c in
     if ascii_upper c \<or> (192 \<le> n \<and> n \<le> 222 \<and> n \<noteq> 215) then char_of (n + 32) else c)"

definition py_lower :: "string \<Rightarrow> string" where
  "py_lower = map py_lower_char"

definition lstrip :: "string \<Rightarrow> string" where
  "lstrip = dropWhile py_isspace"

definition strip :: "string \<Rightarrow> string" where
  "strip s = rev (dropWhile py_isspace (rev (lstrip s)))"

lemma strip_idem [simp]: "strip (strip s) = strip s"
proof -
  define u where "u = lstrip s"
  have u: "u = [] \<or> \<not> py_isspace (hd u)"
    unfolding u_def lstrip_def using hd_dropWhile by blast
  define v where "v = strip s"
  have v: "v = rev (dropWhile py_isspace (rev u))" by (simp add: v_def strip_def u_def)
  have suf: "u = v @ rev (takeWhile py_isspace (rev u))"
    unfolding v by (metis rev_append rev_rev_ident takeWhile_dropWhile_id)
  have "v = [] \<or> \<not> py_isspace (hd v)"
  proof (cases v)
    case (Cons c cs)
    then have "hd u = c" "u \<noteq> []" using suf by (metis append_Cons list.sel(1), metis append_Cons list.distinct(1))
    with u Cons show ?thesis by simp
  qed simp
  then have l: "lstrip v = v"
    by (cases v) (auto simp: lstrip_def)
  have "dropWhile py_isspace (rev v) = rev v" unfolding v by simp
  then have "strip v = v" unfolding strip_def [of v] l by simp
  then show ?thesis by (simp add: v_def)
qed

definition startswith :: "'a list \<Rightarrow> 'a list \<Rightarrow> bool" where
  "startswith s p = (take (length p) s = p)"

text \<open>\<open>sub in s\<close>.\<close>

fun contains :: "'a list \<Rightarrow> 'a list \<Rightarrow> bool" where
  "contains [] sub = (sub = [])"
| "contains (c # cs) sub = (startswith (c # cs) sub \<or> contains cs sub)"

text \<open>\<open>s.split()\<close>: the maximal runs of non-blank characters.\<close>

fun split_ws :: "string \<Rightarrow> string \<Rightarrow> string list" where
  "split_ws acc [] = (if acc = [] then [] else [rev acc])"
| "split_ws acc (c # cs) =
     (if py_isspace c then (if acc = [] then split_ws [] cs else rev acc # split_ws [] cs)
      else split_ws (c # acc) cs)"

definition py_split :: "string \<Rightarrow> string list" where
  "py_split s = split_ws [] s"

fun join :: "string \<Rightarrow> string list \<Rightarrow> string" where
  "join sep [] = []"
| "join sep [x] = x"
| "join sep (x # y # ys) = x @ sep @ join sep (y # ys)"

text \<open>\<open>s.split(sep)\<close> for one separator character: never empty.\<close>

fun split_on :: "char \<Rightarrow> string \<Rightarrow> string list" where
  "split_on d [] = [[]]"
| "split_on d (c # cs) =
     (if c = d then [] # split_on d cs
      else (case split_on d cs of [] \<Rightarrow> [[c]] | p # ps \<Rightarrow> (c # p) # ps))"

lemma split_on_nonempty [simp]: "split_on d s \<noteq> []"
  by (induction s) (auto split: list.splits)

text \<open>\<open>s.partition(sep)\<close> for one separator character: what is before and after the first one.\<close>

definition before :: "char \<Rightarrow> string \<Rightarrow> string" where
  "before d s = takeWhile (\<lambda>c. c \<noteq> d) s"

definition after :: "char \<Rightarrow> string \<Rightarrow> string" where
  "after d s = tl (dropWhile (\<lambda>c. c \<noteq> d) s)"

lemma before_append: "d \<notin> set p \<Longrightarrow> before d (p @ d # s) = p"
  by (induction p) (auto simp: before_def)

lemma after_append: "d \<notin> set p \<Longrightarrow> after d (p @ d # s) = s"
  by (induction p) (auto simp: after_def)

lemma before_after: "d \<in> set s \<Longrightarrow> s = before d s @ d # after d s"
  unfolding before_def after_def
  by (induction s) (auto split: if_splits)

text \<open>\<open>str(n)\<close> of an integer.\<close>

definition digit_char :: "nat \<Rightarrow> char" where
  "digit_char n = char_of (48 + n)"

function str_nat :: "nat \<Rightarrow> string" where
  "str_nat n = (if n < 10 then [digit_char n] else str_nat (n div 10) @ [digit_char (n mod 10)])"
  by pat_completeness auto
termination
  by (relation "measure id") auto

declare str_nat.simps [simp del]

lemma ord_digit_char: "n < 10 \<Longrightarrow> ord (digit_char n) = 48 + n"
  by (simp add: ord_def digit_char_def)

lemma str_nat_digits: "list_all ascii_digit (str_nat n) \<and> str_nat n \<noteq> []"
proof (induction n rule: str_nat.induct)
  case (1 n)
  have d: "k < 10 \<Longrightarrow> ascii_digit (digit_char k)" for k by (simp add: ascii_digit_def ord_digit_char)
  show ?case
  proof (cases "n < 10")
    case True
    then show ?thesis by (simp add: str_nat.simps [of n] d)
  next
    case False
    then show ?thesis using 1 by (simp add: str_nat.simps [of n] d)
  qed
qed

definition str_int :: "int \<Rightarrow> string" where
  "str_int i = (if i < 0 then CHR ''-'' # str_nat (nat (- i)) else str_nat (nat i))"

section \<open>The authenticated cipher\<close>

text \<open>
  AES-256-GCM of the \<open>cryptography\<close> package, which is not part of the repository: a parameter.
  Every store holds the object \<open>AESGCM(master_key)\<close> and calls it with a fresh 12-byte nonce
  and the row's associated data. The plaintext is the encoded JSON of the row's body (the
  encoding is injective, so the body itself stands for it), a secret's own text, or the bytes of a key.
\<close>

type_synonym bytes = "8 word list"

text \<open>ASCII text as bytes.\<close>

definition ascii_bytes :: "string \<Rightarrow> bytes" where
  "ascii_bytes = map (\<lambda>c. of_nat (ord c))"

text \<open>The UTF-8 form of a text whose characters are below 256.\<close>

definition utf8_char :: "char \<Rightarrow> bytes" where
  "utf8_char c = (let n = ord c in
     if n < 128 then [of_nat n] else [of_nat (0xC0 + n div 64), of_nat (0x80 + n mod 64)])"

definition utf8_bytes :: "string \<Rightarrow> bytes" where
  "utf8_bytes s = concat (map utf8_char s)"

text \<open>Reading such bytes back; a code point above 255, and whatever is not UTF-8, is refused.\<close>

fun utf8_decode :: "bytes \<Rightarrow> string option" where
  "utf8_decode [] = Some []"
| "utf8_decode (b # bs) =
     (if unat b < 128 then map_option (Cons (char_of (unat b))) (utf8_decode bs)
      else case bs of
          [] \<Rightarrow> None
        | c # cs \<Rightarrow>
            if (unat b = 0xC2 \<or> unat b = 0xC3) \<and> 0x80 \<le> unat c \<and> unat c < 0xC0
            then map_option (Cons (char_of ((unat b - 0xC0) * 64 + (unat c - 0x80)))) (utf8_decode cs)
            else None)"

lemma unat_byte: "n < 256 \<Longrightarrow> unat (of_nat n :: 8 word) = n"
  by (simp add: unat_of_nat)

lemma ord_byte: "ord c < 256"
  by (simp add: ord_def)

lemma char_of_ord: "char_of (ord c) = c"
  by (simp add: ord_def)

lemma utf8_decode_char: "utf8_decode (utf8_char c @ bs) = map_option (Cons c) (utf8_decode bs)"
proof (cases "ord c < 128")
  case True
  then show ?thesis using unat_byte [of "ord c"] by (simp add: utf8_char_def char_of_ord)
next
  case False
  define q where "q = ord c div 64"
  define r where "r = ord c mod 64"
  have r: "r < 64" by (simp add: r_def)
  have cqr: "ord c = q * 64 + r" by (simp add: q_def r_def)
  have q: "q = 2 \<or> q = 3" using False ord_byte [of c] cqr r by linarith
  have e: "utf8_char c = [of_nat (192 + q), of_nat (128 + r)]" using False by (simp add: utf8_char_def q_def r_def Let_def)
  have b: "unat (of_nat (192 + q) :: 8 word) = 192 + q" by (rule unat_byte) (use q in auto)
  have d: "unat (of_nat (128 + r) :: 8 word) = 128 + r" by (rule unat_byte) (use r in auto)
  show ?thesis unfolding e
    by (simp only: append.simps utf8_decode.simps list.case b d) (use q r in \<open>auto simp: char_of_ord simp flip: cqr\<close>)
qed

lemma utf8_decode_bytes: "utf8_decode (utf8_bytes s) = Some s"
proof (induction s)
  case (Cons c s)
  then show ?case using utf8_decode_char [of c "utf8_bytes s"] by (simp add: utf8_bytes_def)
qed (simp add: utf8_bytes_def)

lemma utf8_inj: "utf8_bytes s = utf8_bytes u \<Longrightarrow> s = u"
  by (metis utf8_decode_bytes option.inject)

datatype plain = PJson jval | PText string | PRaw bytes

record 'c aead =
  aes_encrypt :: "bytes \<Rightarrow> bytes \<Rightarrow> plain \<Rightarrow> string \<Rightarrow> 'c"
  aes_decrypt :: "bytes \<Rightarrow> bytes \<Rightarrow> 'c \<Rightarrow> string \<Rightarrow> plain option"

text \<open>
  The package's documented behaviour: decryption under the key, nonce and associated data of
  the encryption returns the plaintext, and under any other raises \<open>InvalidTag\<close>.
\<close>

definition aead_roundtrip :: "'c aead \<Rightarrow> bool" where
  "aead_roundtrip A \<longleftrightarrow> (\<forall>k n p a. aes_decrypt A k n (aes_encrypt A k n p a) a = Some p)"

definition aead_authentic :: "'c aead \<Rightarrow> bool" where
  "aead_authentic A \<longleftrightarrow> (\<forall>k n p a k' n' a'.
     (k', n', a') \<noteq> (k, n, a) \<longrightarrow> aes_decrypt A k' n' (aes_encrypt A k n p a) a' = None)"

text \<open>An instance on which both hold: the sealed value records what it was sealed under.\<close>

definition tagged_aead :: "(bytes \<times> bytes \<times> string \<times> plain) aead" where
  "tagged_aead = \<lparr>aes_encrypt = (\<lambda>k n p a. (k, n, a, p)),
     aes_decrypt = (\<lambda>k n c a. case c of (k', n', a', p) \<Rightarrow>
       if k' = k \<and> n' = n \<and> a' = a then Some p else None)\<rparr>"

lemma tagged_aead_roundtrip: "aead_roundtrip tagged_aead"
  by (simp add: aead_roundtrip_def tagged_aead_def)

lemma tagged_aead_authentic: "aead_authentic tagged_aead"
  by (auto simp: aead_authentic_def tagged_aead_def)

definition NONCE_BYTES :: nat where "NONCE_BYTES = 12"
definition MASTER_KEY_BYTES :: nat where "MASTER_KEY_BYTES = 32"

text \<open>\<open>_open\<close> of the JSON stores: the assert on the nonce, the decryption, \<open>json.loads\<close>.\<close>

definition aead_open :: "'c aead \<Rightarrow> bytes \<Rightarrow> bytes \<Rightarrow> 'c \<Rightarrow> string \<Rightarrow> jdict result" where
  "aead_open A key nonce c aad =
     (if length nonce \<noteq> NONCE_BYTES then Inl (Assertion ''nonce must be 12 bytes'')
      else case aes_decrypt A key nonce c aad of
        None \<Rightarrow> Inl InvalidTag
      | Some (PText _) \<Rightarrow> Inl (ValueErr ''json'')
      | Some (PRaw _) \<Rightarrow> Inl (ValueErr ''json'')
      | Some (PJson (JObj body)) \<Rightarrow> Inr body
      | Some (PJson _) \<Rightarrow> Inl (Assertion ''decrypted body must be a dict''))"

lemma aead_open_seal [store_simps]:
  "aead_roundtrip A \<Longrightarrow> length nonce = NONCE_BYTES \<Longrightarrow>
   aead_open A key nonce (aes_encrypt A key nonce (PJson (JObj body)) aad) aad = Inr body"
  by (simp add: aead_open_def aead_roundtrip_def)

lemma aead_open_wrong:
  "aead_authentic A \<Longrightarrow> length n' = NONCE_BYTES \<Longrightarrow> (k', n', a') \<noteq> (k, n, a) \<Longrightarrow>
   aead_open A k' n' (aes_encrypt A k n p a) a' = Inl InvalidTag"
  by (simp add: aead_open_def aead_authentic_def)

section \<open>Rows and the clock\<close>

text \<open>
  What a writing operation takes from its surroundings: a fresh identifier (\<open>uuid.uuid4\<close>), a
  nonce (\<open>os.urandom(12)\<close>) and the database clock. They are arguments, so every statement
  holds for all of them.
\<close>

record stamp =
  s_uid :: string
  s_nonce :: bytes
  s_now :: int

text \<open>What \<open>uuid4\<close> and \<open>urandom(12)\<close> give: some identifier, and twelve bytes.\<close>

definition stamp_ok :: "stamp \<Rightarrow> bool" where
  "stamp_ok st = (s_uid st \<noteq> [] \<and> length (s_nonce st) = 12)"

definition demo_stamp :: "string \<Rightarrow> int \<Rightarrow> stamp" where
  "demo_stamp i t = \<lparr>s_uid = i, s_nonce = replicate 12 0, s_now = t\<rparr>"

definition MICROS :: int where "MICROS = 1000000"

text \<open>\<open>date_diff('second', a, b)\<close> counts the second boundaries between two timestamps.\<close>

definition secs_between :: "int \<Rightarrow> int \<Rightarrow> int" where
  "secs_between a b = b div MICROS - a div MICROS"

lemma secs_between_mono: "b \<le> b' \<Longrightarrow> secs_between a b \<le> secs_between a b'"
  by (simp add: secs_between_def MICROS_def zdiv_mono1)

text \<open>\<open>SELECT ... WHERE id = ?\<close> on a table whose primary key is read off a row by \<open>k\<close>, and an update of it.\<close>

definition row_find :: "('r \<Rightarrow> 'k) \<Rightarrow> 'k \<Rightarrow> 'r list \<Rightarrow> 'r option" where
  "row_find k i rows = List.find (\<lambda>r. k r = i) rows"

definition row_update :: "('r \<Rightarrow> 'k) \<Rightarrow> 'k \<Rightarrow> ('r \<Rightarrow> 'r) \<Rightarrow> 'r list \<Rightarrow> 'r list" where
  "row_update k i f rows = map (\<lambda>r. if k r = i then f r else r) rows"

lemma row_find_Nil [simp, store_simps]: "row_find k i [] = None"
  by (simp add: row_find_def)

lemma row_find_Cons [store_simps]: "row_find k i (r # rows) = (if k r = i then Some r else row_find k i rows)"
  by (simp add: row_find_def)

lemma row_find_append [store_simps]:
  "row_find k i (xs @ ys) = (case row_find k i xs of None \<Rightarrow> row_find k i ys | Some r \<Rightarrow> Some r)"
  by (induction xs) (simp_all add: row_find_Cons)

lemma row_find_Some: "row_find k i rows = Some r \<Longrightarrow> r \<in> set rows \<and> k r = i"
  by (induction rows) (auto simp: row_find_Cons split: if_splits)

lemma row_find_None_iff: "row_find k i rows = None \<longleftrightarrow> i \<notin> k ` set rows"
  by (induction rows) (auto simp: row_find_Cons)

lemma row_find_in: "distinct (map k rows) \<Longrightarrow> r \<in> set rows \<Longrightarrow> row_find k (k r) rows = Some r"
  by (induction rows) (auto simp: row_find_Cons)

lemma row_find_update [store_simps]:
  "(\<And>r. k (f r) = k r) \<Longrightarrow>
   row_find k i (row_update k j f rows) = (if i = j then map_option f (row_find k i rows) else row_find k i rows)"
  by (induction rows) (auto simp: row_update_def row_find_Cons)

lemma row_find_map [store_simps]:
  "(\<And>r. k (g r) = k r) \<Longrightarrow> row_find k i (map g rows) = map_option g (row_find k i rows)"
  by (induction rows) (auto simp: row_find_Cons)

lemma row_find_filter:
  "(\<And>r. k r = i \<Longrightarrow> P r) \<Longrightarrow> row_find k i (filter P rows) = row_find k i rows"
  by (induction rows) (auto simp: row_find_Cons)

lemma keys_row_update [simp]: "(\<And>r. k (f r) = k r) \<Longrightarrow> map k (row_update k j f rows) = map k rows"
  by (induction rows) (auto simp: row_update_def)

lemma set_row_update: "set (row_update k j f rows) = (\<lambda>r. if k r = j then f r else r) ` set rows"
  by (simp add: row_update_def)

section \<open>Ordered listings\<close>

text \<open>
  \<open>ORDER BY\<close> by a relation "comes before or level with". Rows that are level keep their
  physical order, one of the orders SQL allows.
\<close>

fun insert_by :: "('a \<Rightarrow> 'a \<Rightarrow> bool) \<Rightarrow> 'a \<Rightarrow> 'a list \<Rightarrow> 'a list" where
  "insert_by le x [] = [x]"
| "insert_by le x (y # ys) = (if le x y then x # y # ys else y # insert_by le x ys)"

fun order_by :: "('a \<Rightarrow> 'a \<Rightarrow> bool) \<Rightarrow> 'a list \<Rightarrow> 'a list" where
  "order_by le [] = []"
| "order_by le (x # xs) = insert_by le x (order_by le xs)"

lemma mset_insert_by [simp]: "mset (insert_by le x xs) = add_mset x (mset xs)"
  by (induction xs) auto

lemma mset_order_by [simp]: "mset (order_by le xs) = mset xs"
  by (induction xs) auto

lemma set_order_by [simp]: "set (order_by le xs) = set xs"
  by (metis mset_order_by set_mset_mset)

lemma length_order_by [simp]: "length (order_by le xs) = length xs"
  by (metis mset_order_by size_mset)

lemma set_insert_by [simp]: "set (insert_by le x xs) = insert x (set xs)"
  by (induction xs) auto

lemma distinct_map_order_by: "distinct (map f xs) \<Longrightarrow> distinct (map f (order_by le xs))"
  by (metis mset_map mset_order_by mset_eq_imp_distinct_iff)

lemma sorted_insert_by:
  assumes "\<And>a b. le a b \<or> le b a" and "\<And>a b c. le a b \<Longrightarrow> le b c \<Longrightarrow> le a c"
    and "sorted_wrt le xs"
  shows "sorted_wrt le (insert_by le x xs)"
  using assms(3)
proof (induction xs)
  case (Cons y ys)
  then show ?case
    using assms(1,2) by (fastforce split: if_splits)
qed simp

lemma sorted_order_by:
  assumes "\<And>a b. le a b \<or> le b a" and "\<And>a b c. le a b \<Longrightarrow> le b c \<Longrightarrow> le a c"
  shows "sorted_wrt le (order_by le xs)"
  by (induction xs) (simp_all add: sorted_insert_by [OF assms])

section \<open>Cutting a list into pieces\<close>

text \<open>The slices \<open>xs[i : i + n]\<close> for \<open>i\<close> in steps of \<open>n\<close>.\<close>

function (sequential) split_every :: "nat \<Rightarrow> 'a list \<Rightarrow> 'a list list" where
  "split_every n xs = (if n = 0 \<or> xs = [] then [] else take n xs # split_every n (drop n xs))"
  by pat_completeness auto
termination
  by (relation "measure (length \<circ> snd)") auto

declare split_every.simps [simp del]

lemma split_every_Nil [simp]: "split_every n [] = []"
  by (simp add: split_every.simps)

lemma concat_split_every: "0 < n \<Longrightarrow> concat (split_every n xs) = xs"
proof (induction n xs rule: split_every.induct)
  case (1 n xs)
  then show ?case by (cases "xs = []") (simp_all add: split_every.simps [of n xs])
qed

lemma split_every_sizes: "0 < n \<Longrightarrow> n dvd length xs \<Longrightarrow> c \<in> set (split_every n xs) \<Longrightarrow> length c = n"
proof (induction n xs rule: split_every.induct)
  case (1 n xs)
  show ?case
  proof (cases "xs = []")
    case False
    then have l: "n \<le> length xs" using 1(3) by (simp add: dvd_imp_le)
    then have "n dvd length (drop n xs)" using 1(3) by (simp add: dvd_diff_nat)
    then show ?thesis using 1 False l by (auto simp: split_every.simps [of n xs])
  qed (use 1 in simp)
qed

lemma split_every_concat: "0 < n \<Longrightarrow> (\<And>c. c \<in> set cs \<Longrightarrow> length c = n) \<Longrightarrow> split_every n (concat cs) = cs"
proof (induction cs)
  case (Cons c cs)
  then have "length c = n" "c \<noteq> []" by auto
  then show ?case using Cons by (simp add: split_every.simps [of n "c @ concat cs"])
qed simp

section \<open>Event-driven components\<close>

text \<open>
  A component whose operations are a function of an event and its state, and an invariant
  that holds initially and that every admissible event keeps: it holds after any run of them.
\<close>

locale event_machine =
  fixes step :: "'e \<Rightarrow> 's \<Rightarrow> 's"
    and start :: "'s"
    and inv :: "'s \<Rightarrow> bool"
    and admissible :: "'e \<Rightarrow> bool"
  assumes inv_start: "inv start"
    and inv_step: "admissible e \<Longrightarrow> inv s \<Longrightarrow> inv (step e s)"
begin

lemma inv_run_from: "\<forall>e \<in> set es. admissible e \<Longrightarrow> inv s \<Longrightarrow> inv (fold step es s)"
  by (induction es arbitrary: s) (auto intro: inv_step)

lemma inv_run: "\<forall>e \<in> set es. admissible e \<Longrightarrow> inv (fold step es start)"
  using inv_start by (rule inv_run_from [rotated])

end

end
