(* ===== verification/Tool_Registry.thy ===== *)
theory Tool_Registry
  imports Prelude
begin

text \<open>
  The static tool registry of \<open>app/smartbrain_3000/tools.py\<close>: the risk tiers, the declared
  tools with their flat argument schemas, the import-time validation of the table and the
  name sets the scheduler strips from an unattended turn. A tool's description and handler are
  left out: the handlers are a parameter of \<open>run\<close> (theory \<open>Tool_Run\<close>).
\<close>

datatype tier = OBSERVE | REVIEWED | IRREVERSIBLE

definition tier_value :: "tier \<Rightarrow> string" where
  "tier_value t = (case t of OBSERVE \<Rightarrow> ''observe'' | REVIEWED \<Rightarrow> ''reviewed''
     | IRREVERSIBLE \<Rightarrow> ''irreversible'')"

text \<open>One property of a closed object schema: its type name and its own \<open>maxLength\<close>, if any.\<close>

record param_schema =
  p_type :: string
  p_max :: "nat option"

definition param :: "string \<Rightarrow> param_schema" where
  "param t = \<lparr>p_type = t, p_max = None\<rparr>"

definition param_max :: "string \<Rightarrow> nat \<Rightarrow> param_schema" where
  "param_max t n = \<lparr>p_type = t, p_max = Some n\<rparr>"

record tool =
  t_name :: string
  t_props :: "(string \<times> param_schema) list"
  t_required :: "string list"
  t_tier :: tier
  t_egress :: bool
  t_prevalidate :: bool

definition mk_tool :: "string \<Rightarrow> (string \<times> param_schema) list \<Rightarrow> string list \<Rightarrow> tier \<Rightarrow> bool \<Rightarrow> bool \<Rightarrow> tool" where
  "mk_tool n ps rq ti eg pv =
     \<lparr>t_name = n, t_props = ps, t_required = rq, t_tier = ti, t_egress = eg, t_prevalidate = pv\<rparr>"

definition MAX_NOTE_CHARS :: nat where "MAX_NOTE_CHARS = 100000"

section \<open>The declared tools, in the order of the table\<close>

definition tools_knowledge :: "tool list" where
  "tools_knowledge = [
     mk_tool ''kb_search'' [(''query'', param ''string''), (''limit'', param ''integer''), (''doc_id'', param ''string'')]
       [''query''] OBSERVE False False,
     mk_tool ''read_document'' [(''doc_id'', param ''string''), (''query'', param ''string''), (''title'', param ''string''),
         (''offset'', param ''integer''), (''max_chars'', param ''integer'')]
       [] OBSERVE False False,
     mk_tool ''summarize_document'' [(''doc_id'', param ''string''), (''query'', param ''string''),
         (''title'', param ''string''), (''focus'', param ''string'')]
       [] OBSERVE False False,
     mk_tool ''list_documents'' [] [] OBSERVE False False,
     mk_tool ''save_note'' [(''title'', param_max ''string'' 200), (''content'', param_max ''string'' MAX_NOTE_CHARS)]
       [''title'', ''content''] REVIEWED False False,
     mk_tool ''remember_fact'' [(''text'', param ''string'')] [''text''] REVIEWED False False]"

definition tools_planner :: "tool list" where
  "tools_planner = [
     mk_tool ''add_task'' [(''title'', param ''string''), (''notes'', param ''string''), (''due_date'', param ''string''),
         (''due_time'', param ''string''), (''priority'', param ''string''), (''recur'', param ''string'')]
       [''title''] REVIEWED False False,
     mk_tool ''list_tasks'' [] [] OBSERVE False False,
     mk_tool ''complete_task'' [(''task_id'', param ''string'')] [''task_id''] REVIEWED False False,
     mk_tool ''update_task'' [(''task_id'', param ''string''), (''title'', param ''string''), (''notes'', param ''string''),
         (''due_date'', param ''string''), (''due_time'', param ''string''), (''priority'', param ''string''),
         (''recur'', param ''string'')]
       [''task_id''] REVIEWED False False]"

definition tools_web :: "tool list" where
  "tools_web = [
     mk_tool ''web_search'' [(''query'', param ''string''), (''limit'', param ''integer'')] [''query''] REVIEWED True False,
     mk_tool ''web_fetch'' [(''url'', param ''string'')] [''url''] REVIEWED True False,
     mk_tool ''web_research'' [(''query'', param ''string''), (''pages'', param ''integer'')] [''query''] REVIEWED True False,
     mk_tool ''kb_ingest_url'' [(''url'', param ''string'')] [''url''] REVIEWED True False]"

definition tools_mail :: "tool list" where
  "tools_mail = [
     mk_tool ''delete_task'' [(''task_id'', param ''string'')] [''task_id''] IRREVERSIBLE False False,
     mk_tool ''email_send'' [(''to'', param ''string''), (''subject'', param ''string''), (''body'', param ''string'')]
       [''to'', ''subject'', ''body''] IRREVERSIBLE True False,
     mk_tool ''email_list'' [(''limit'', param ''integer'')] [] REVIEWED True False,
     mk_tool ''email_read'' [(''message_id'', param ''string'')] [''message_id''] REVIEWED True False]"

definition tools_schedules :: "tool list" where
  "tools_schedules = [
     mk_tool ''list_schedules'' [] [] OBSERVE False False,
     mk_tool ''read_schedule_output'' [(''schedule_id'', param ''string''), (''limit'', param ''integer'')] [] OBSERVE False False,
     mk_tool ''create_schedule'' [(''title'', param ''string''), (''prompt'', param ''string''),
         (''interval_minutes'', param ''integer''), (''start_in_minutes'', param ''integer''), (''model'', param ''string'')]
       [''title'', ''prompt''] REVIEWED False False,
     mk_tool ''update_schedule'' [(''schedule_id'', param ''string''), (''title'', param ''string''),
         (''prompt'', param ''string''), (''interval_minutes'', param ''integer''), (''model'', param ''string'')]
       [''schedule_id''] REVIEWED False False,
     mk_tool ''set_schedule_enabled'' [(''schedule_id'', param ''string''), (''enabled'', param ''boolean'')]
       [''schedule_id'', ''enabled''] REVIEWED False False,
     mk_tool ''delete_schedule'' [(''schedule_id'', param ''string'')] [''schedule_id''] IRREVERSIBLE False False]"

definition tools_neural :: "tool list" where
  "tools_neural = [
     mk_tool ''list_ni_items'' [] [] OBSERVE False False,
     mk_tool ''read_ni_item'' [(''item_id'', param ''string'')] [''item_id''] OBSERVE False True,
     mk_tool ''run_ni_item_now'' [(''item_id'', param ''string'')] [''item_id''] REVIEWED True True]"

definition TOOLS :: "tool list" where
  "TOOLS = tools_knowledge @ tools_planner @ tools_web @ tools_mail @ tools_schedules @ tools_neural"

definition OBSERVE_READONLY :: "string list" where
  "OBSERVE_READONLY = [''kb_search'', ''read_document'', ''summarize_document'', ''list_documents'',
     ''list_tasks'', ''list_schedules'', ''read_schedule_output'', ''list_ni_items'', ''read_ni_item'']"

definition SCHEDULE_WRITE_TOOLS :: "string list" where
  "SCHEDULE_WRITE_TOOLS = [''create_schedule'', ''update_schedule'', ''set_schedule_enabled'']"

definition NI_WRITE_TOOLS :: "string list" where
  "NI_WRITE_TOOLS = [''run_ni_item_now'']"

definition UNATTENDED_NEVER_AUTO :: "string list" where
  "UNATTENDED_NEVER_AUTO = SCHEDULE_WRITE_TOOLS @ NI_WRITE_TOOLS @ [''remember_fact'']"

section \<open>Validation of the table at import\<close>

text \<open>\<open>str.isidentifier\<close> and \<open>str.islower\<close> on code points below 256.\<close>

definition id_start :: "char \<Rightarrow> bool" where
  "id_start c = (let n = ord c in ascii_upper c \<or> ascii_lower c \<or> n = 95 \<or> n \<in> {170, 181, 186}
     \<or> (192 \<le> n \<and> n \<noteq> 215 \<and> n \<noteq> 247))"

definition py_isidentifier :: "string \<Rightarrow> bool" where
  "py_isidentifier s = (case s of [] \<Rightarrow> False
     | c # cs \<Rightarrow> id_start c \<and> list_all (\<lambda>d. id_start d \<or> ascii_digit d \<or> ord d = 183) cs)"

definition py_upper_char :: "char \<Rightarrow> bool" where
  "py_upper_char c = (let n = ord c in ascii_upper c \<or> (192 \<le> n \<and> n \<le> 222 \<and> n \<noteq> 215))"

definition py_lower_cased :: "char \<Rightarrow> bool" where
  "py_lower_cased c = (let n = ord c in ascii_lower c \<or> n \<in> {170, 181, 186} \<or> (223 \<le> n \<and> n \<noteq> 247))"

definition py_islower :: "string \<Rightarrow> bool" where
  "py_islower s = (list_ex py_lower_cased s \<and> \<not> list_ex py_upper_char s)"

text \<open>
  The loop over the table: each assert in order, then \<open>registry[tool.name] = tool\<close>. The schema
  is a closed object by construction of \<open>tool\<close>, so its assert cannot fail.
\<close>

fun build_registry_from :: "tool list \<Rightarrow> (string \<times> tool) list \<Rightarrow> (string \<times> tool) list result" where
  "build_registry_from [] reg = Inr reg"
| "build_registry_from (t # ts) reg =
     (if \<not> (py_isidentifier (t_name t) \<and> py_islower (t_name t)) then Inl (Assertion ''tool name must be snake_case'')
      else if has_key reg (t_name t) then Inl (Assertion ''duplicate tool name'')
      else if t_tier t = OBSERVE \<and> \<not> (\<not> t_egress t \<and> t_name t \<in> set OBSERVE_READONLY)
        then Inl (Assertion ''OBSERVE tools must be read-only + no egress'')
      else if t_egress t \<and> t_tier t = OBSERVE then Inl (Assertion ''egress tools cannot be OBSERVE'')
      else build_registry_from ts (dict_set reg (t_name t) t))"

definition build_registry :: "tool list \<Rightarrow> (string \<times> tool) list result" where
  "build_registry ts =
     (if ts = [] then Inl (Assertion ''at least one tool required'') else build_registry_from ts [])"

definition REGISTRY :: "(string \<times> tool) list" where
  "REGISTRY = (case build_registry TOOLS of Inl _ \<Rightarrow> [] | Inr reg \<Rightarrow> reg)"

definition get_tool :: "string \<Rightarrow> tool option" where
  "get_tool name = map_of REGISTRY name"

lemmas table_defs = TOOLS_def tools_knowledge_def tools_planner_def tools_web_def tools_mail_def
  tools_schedules_def tools_neural_def mk_tool_def

text \<open>What the validation guarantees of any table it accepts.\<close>

definition entry_ok :: "string \<times> tool \<Rightarrow> bool" where
  "entry_ok e \<longleftrightarrow> fst e = t_name (snd e) \<and>
     (t_tier (snd e) = OBSERVE \<longrightarrow> \<not> t_egress (snd e) \<and> fst e \<in> set OBSERVE_READONLY)"

lemma set_dict_set_subset: "set (dict_set d k v) \<subseteq> insert (k, v) (set d)"
  by (induction d k v rule: dict_set.induct) auto

lemma build_registry_from_sound:
  "build_registry_from ts reg = Inr r \<Longrightarrow> \<forall>e \<in> set reg. entry_ok e \<Longrightarrow> \<forall>e \<in> set r. entry_ok e"
proof (induction ts reg rule: build_registry_from.induct)
  case (2 t ts reg)
  from "2.prems" have step: "build_registry_from ts (dict_set reg (t_name t) t) = Inr r"
    and tk: "entry_ok (t_name t, t)"
    by (auto simp: entry_ok_def split: if_splits)
  have "\<forall>e \<in> set (dict_set reg (t_name t) t). entry_ok e"
    using set_dict_set_subset [of reg "t_name t" t] tk "2.prems"(2) by auto
  with "2.IH" "2.prems"(1) step show ?case by (simp split: if_splits)
qed simp

lemma build_registry_from_distinct:
  "build_registry_from ts reg = Inr r \<Longrightarrow> distinct (map fst reg) \<Longrightarrow> distinct (map fst r)"
  by (induction ts reg rule: build_registry_from.induct) (auto split: if_splits intro: distinct_dict_set)

definition tool_ok :: "tool \<Rightarrow> bool" where
  "tool_ok t \<longleftrightarrow> py_isidentifier (t_name t) \<and> py_islower (t_name t) \<and> entry_ok (t_name t, t)"

lemma build_registry_from_complete:
  "list_all tool_ok ts \<Longrightarrow> distinct (map fst reg @ map t_name ts) \<Longrightarrow>
   build_registry_from ts reg = Inr (reg @ map (\<lambda>t. (t_name t, t)) ts)"
proof (induction ts reg rule: build_registry_from.induct)
  case (2 t ts reg)
  from "2.prems"(2) have new: "t_name t \<notin> fst ` set reg" by auto
  from "2.prems"(1) have ok: "tool_ok t" "list_all tool_ok ts" by auto
  have chk: "py_isidentifier (t_name t)" "py_islower (t_name t)" "\<not> has_key reg (t_name t)"
    "\<not> (t_tier t = OBSERVE \<and> \<not> (\<not> t_egress t \<and> t_name t \<in> set OBSERVE_READONLY))"
    "\<not> (t_egress t \<and> t_tier t = OBSERVE)"
    using ok(1) new by (auto simp: has_key_def tool_ok_def entry_ok_def)
  have dist: "distinct (map fst (dict_set reg (t_name t) t) @ map t_name ts)"
    using "2.prems"(2) new by (auto simp: dict_set_new)
  have "build_registry_from ts (dict_set reg (t_name t) t)
      = Inr (dict_set reg (t_name t) t @ map (\<lambda>t. (t_name t, t)) ts)"
    using chk ok(2) dist by (intro "2.IH") auto
  with chk new show ?case by (simp add: dict_set_new)
qed simp

lemmas char_defs = ord_def id_start_def ascii_upper_def ascii_lower_def ascii_digit_def
  py_lower_cased_def py_upper_char_def Let_def

lemmas tool_ok_defs = tool_ok_def entry_ok_def mk_tool_def py_isidentifier_def py_islower_def
  OBSERVE_READONLY_def char_defs

lemma tools_knowledge_ok: "list_all tool_ok tools_knowledge"
  by (simp add: tools_knowledge_def tool_ok_defs)

lemma tools_planner_ok: "list_all tool_ok tools_planner"
  by (simp add: tools_planner_def tool_ok_defs)

lemma tools_web_ok: "list_all tool_ok tools_web"
  by (simp add: tools_web_def tool_ok_defs)

lemma tools_mail_ok: "list_all tool_ok tools_mail"
  by (simp add: tools_mail_def tool_ok_defs)

lemma tools_schedules_ok: "list_all tool_ok tools_schedules"
  by (simp add: tools_schedules_def tool_ok_defs)

lemma tools_neural_ok: "list_all tool_ok tools_neural"
  by (simp add: tools_neural_def tool_ok_defs)

lemma build_registry_TOOLS: "build_registry TOOLS = Inr (map (\<lambda>t. (t_name t, t)) TOOLS)"
proof -
  have "list_all tool_ok TOOLS"
    by (simp add: TOOLS_def tools_knowledge_ok tools_planner_ok tools_web_ok tools_mail_ok
        tools_schedules_ok tools_neural_ok)
  moreover have "distinct (map t_name TOOLS)"
    by (simp add: table_defs)
  moreover have "TOOLS \<noteq> []"
    by (simp add: table_defs)
  ultimately show ?thesis
    using build_registry_from_complete [of TOOLS "[]"] by (simp add: build_registry_def)
qed

lemma REGISTRY_eq: "REGISTRY = map (\<lambda>t. (t_name t, t)) TOOLS"
  by (simp add: REGISTRY_def build_registry_TOOLS)

lemma get_tool_name: "get_tool n = Some t \<Longrightarrow> t_name t = n"
  by (auto simp: get_tool_def REGISTRY_eq dest!: map_of_SomeD)

lemma get_tool_in_TOOLS: "get_tool n = Some t \<Longrightarrow> t \<in> set TOOLS"
  by (auto simp: get_tool_def REGISTRY_eq dest!: map_of_SomeD)

lemma REGISTRY_entry_ok: "e \<in> set REGISTRY \<Longrightarrow> entry_ok e"
proof -
  assume e: "e \<in> set REGISTRY"
  have "build_registry_from TOOLS [] = Inr REGISTRY"
    using build_registry_TOOLS unfolding build_registry_def REGISTRY_eq by (simp split: if_splits)
  from build_registry_from_sound [OF this] e show ?thesis by simp
qed

lemma UNATTENDED_not_site: "n \<in> set UNATTENDED_NEVER_AUTO \<Longrightarrow> CHR ''@'' \<notin> set n"
  by (auto simp: UNATTENDED_NEVER_AUTO_def SCHEDULE_WRITE_TOOLS_def NI_WRITE_TOOLS_def)

end
