(* ===== verification/Tool_Args.thy ===== *)
theory Tool_Args
  imports Tool_Registry
begin

text \<open>
  The argument gate of \<open>app/smartbrain_3000/tools.py\<close>: coercion of stringified scalars, the
  scalar type check, \<open>validate_args\<close>, the redaction and summary of what is audited, and the
  pre-park check of a Neural Interface item id. Messages of raised errors are abbreviated.
\<close>

definition MAX_STR :: nat where "MAX_STR = 8000"
definition MAX_ARGS :: nat where "MAX_ARGS = 32"
definition SUMMARY_CAP :: nat where "SUMMARY_CAP = 2000"

definition REDACT_KEYS :: "string list" where
  "REDACT_KEYS = [''api_key'', ''apikey'', ''token'', ''password'', ''passphrase'', ''secret'',
     ''recovery_key'', ''authorization'']"

section \<open>Numbers in text\<close>

text \<open>
  \<open>int(s)\<close> of a signed run that \<open>isdigit\<close> accepts: the superscripts are digits to \<open>isdigit\<close>
  but not to \<open>int\<close>, and a run of more than 4300 digits is refused by the interpreter.
\<close>

definition digit_val :: "char \<Rightarrow> int" where
  "digit_val c = int (ord c) - 48"

definition int_of_digits :: "string \<Rightarrow> int" where
  "int_of_digits ds = foldl (\<lambda>n c. 10 * n + digit_val c) 0 ds"

definition py_int_of_signed :: "string \<Rightarrow> int result" where
  "py_int_of_signed s = (let neg = (take 1 s = ''-''); ds = (if take 1 s = ''-'' \<or> take 1 s = ''+'' then tl s else s)
     in if \<not> list_all ascii_digit ds \<or> ds = [] then Inl (ValueErr ''invalid literal for int()'')
        else if length ds > 4300 then Inl (ValueErr ''Exceeds the limit (4300 digits)'')
        else Inr (if neg then - int_of_digits ds else int_of_digits ds))"

text \<open>The literals \<open>float(s)\<close> accepts, for a stripped \<open>s\<close> of code points below 256.\<close>

fun digit_part :: "string \<Rightarrow> string option" where
  "digit_part (a # b # s) =
     (if \<not> ascii_digit a then None
      else if ascii_digit b then digit_part (b # s)
      else if b = CHR ''_'' \<and> (case s of [] \<Rightarrow> False | c # _ \<Rightarrow> ascii_digit c) then digit_part s
      else Some (b # s))"
| "digit_part [a] = (if ascii_digit a then Some [] else None)"
| "digit_part [] = None"

definition drop_sign :: "string \<Rightarrow> string" where
  "drop_sign s = (case s of c # r \<Rightarrow> if c = CHR ''+'' \<or> c = CHR ''-'' then r else s | [] \<Rightarrow> s)"

definition exponent_ok :: "string \<Rightarrow> bool" where
  "exponent_ok s = (case s of [] \<Rightarrow> True
     | c # r \<Rightarrow> (c = CHR ''e'' \<or> c = CHR ''E'') \<and> digit_part (drop_sign r) = Some [])"

definition mantissa_rest :: "string \<Rightarrow> string option" where
  "mantissa_rest s = (case digit_part s of
       Some (c # r) \<Rightarrow> if c = CHR ''.'' then (case digit_part r of Some r' \<Rightarrow> Some r' | None \<Rightarrow> Some r) else Some (c # r)
     | Some [] \<Rightarrow> Some []
     | None \<Rightarrow> (case s of c # r \<Rightarrow> if c = CHR ''.'' then digit_part r else None | [] \<Rightarrow> None))"

definition is_float_literal :: "string \<Rightarrow> bool" where
  "is_float_literal s = (let b = drop_sign s in
     py_lower b \<in> {''inf'', ''infinity'', ''nan''} \<or>
     (case mantissa_rest b of None \<Rightarrow> False | Some r \<Rightarrow> exponent_ok r))"

section \<open>Coercion and validation\<close>

definition coerce_scalar :: "string \<Rightarrow> jval \<Rightarrow> jval result" where
  "coerce_scalar expected v = (case v of
       JStr str \<Rightarrow>
         (let s = strip str in
          if expected = ''integer'' then
            (let body = (if s = [] \<or> hd s = CHR ''+'' \<or> hd s = CHR ''-'' then tl s else s)
             in if body \<noteq> [] \<and> list_all py_isdigit body
                then rbind (py_int_of_signed s) (\<lambda>n. Inr (JInt n)) else Inr v)
          else if expected = ''number'' then (if is_float_literal s then Inr (JFloat s) else Inr v)
          else if expected = ''boolean'' \<and> (py_lower s = ''true'' \<or> py_lower s = ''false'')
            then Inr (JBool (py_lower s = ''true''))
          else Inr v)
     | _ \<Rightarrow> Inr v)"

definition type_ok :: "string \<Rightarrow> jval \<Rightarrow> bool" where
  "type_ok expected v =
     (if expected = ''string'' then (case v of JStr _ \<Rightarrow> True | _ \<Rightarrow> False)
      else if expected = ''integer'' then (case v of JInt _ \<Rightarrow> True | _ \<Rightarrow> False)
      else if expected = ''number'' then (case v of JInt _ \<Rightarrow> True | JFloat _ \<Rightarrow> True | _ \<Rightarrow> False)
      else if expected = ''boolean'' then (case v of JBool _ \<Rightarrow> True | _ \<Rightarrow> False)
      else if expected = ''object'' then (case v of JObj _ \<Rightarrow> True | _ \<Rightarrow> False)
      else if expected = ''array'' then (case v of JList _ \<Rightarrow> True | _ \<Rightarrow> False)
      else False)"

definition too_long :: "nat \<Rightarrow> jval \<Rightarrow> bool" where
  "too_long n v = (case v of JStr s \<Rightarrow> length s > n | _ \<Rightarrow> False)"

definition max_len :: "param_schema \<Rightarrow> nat" where
  "max_len p = (case p_max p of Some n \<Rightarrow> n | None \<Rightarrow> MAX_STR)"

fun missing_required :: "string list \<Rightarrow> jdict \<Rightarrow> string option" where
  "missing_required [] args = None"
| "missing_required (k # ks) args = (if \<not> has_key args k then Some k else missing_required ks args)"

definition check_arg :: "tool \<Rightarrow> string \<times> jval \<Rightarrow> (string \<times> jval) result" where
  "check_arg t kv = (case map_of (t_props t) (fst kv) of
       None \<Rightarrow> Inl (ValueErr ''unknown argument'')
     | Some p \<Rightarrow> rbind (coerce_scalar (p_type p) (snd kv)) (\<lambda>v.
         if \<not> type_ok (p_type p) v then Inl (ValueErr ''argument has the wrong type'')
         else if too_long (max_len p) v then Inl (ValueErr ''argument too long'')
         else Inr (fst kv, v)))"

definition validate_args :: "tool \<Rightarrow> jdict \<Rightarrow> jdict result" where
  "validate_args t args =
     (if length args > MAX_ARGS then Inl (ValueErr ''too many arguments'')
      else case missing_required (t_required t) args of
        Some k \<Rightarrow> Inl (ValueErr (''missing required argument: '' @ k))
      | None \<Rightarrow> rmap (check_arg t) args)"

section \<open>Redaction and summaries\<close>

definition secret_key :: "string \<Rightarrow> bool" where
  "secret_key k = (py_lower k \<in> set REDACT_KEYS)"

function redact :: "jval \<Rightarrow> jval" where
  "redact (JObj kvs) = JObj (map (\<lambda>(k, v). (k, if secret_key k then JStr ''***'' else redact v)) kvs)"
| "redact (JList vs) = JList (map redact (take MAX_ARGS vs))"
| "redact JNull = JNull"
| "redact (JBool b) = JBool b"
| "redact (JInt n) = JInt n"
| "redact (JFloat s) = JFloat s"
| "redact (JStr s) = JStr s"
  by pat_completeness auto
termination
  by (relation "measure size")
    (auto dest!: in_set_takeD simp: less_Suc_eq_le size_list_estimation' intro!: size_list_estimation')

text \<open>\<open>json.dumps\<close> with its defaults: \<open>ensure_ascii\<close>, the separators with a blank.\<close>

definition hex_digit :: "nat \<Rightarrow> char" where
  "hex_digit n = (if n < 10 then char_of (48 + n) else char_of (87 + n))"

definition json_escape :: "char \<Rightarrow> string" where
  "json_escape c = (let n = ord c in
     if n = 34 then [char_of (92::nat), char_of (34::nat)]
     else if n = 92 then [char_of (92::nat), char_of (92::nat)]
     else if n = 10 then char_of (92::nat) # ''n''
     else if n = 13 then char_of (92::nat) # ''r''
     else if n = 9 then char_of (92::nat) # ''t''
     else if n = 8 then char_of (92::nat) # ''b''
     else if n = 12 then char_of (92::nat) # ''f''
     else if 32 \<le> n \<and> n \<le> 126 then [c]
     else char_of (92::nat) # ''u00'' @ [hex_digit (n div 16), hex_digit (n mod 16)])"

definition json_quote :: "string \<Rightarrow> string" where
  "json_quote s = [char_of (34::nat)] @ concat (map json_escape s) @ [char_of (34::nat)]"

fun json_dumps :: "jval \<Rightarrow> string" where
  "json_dumps JNull = ''null''"
| "json_dumps (JBool b) = (if b then ''true'' else ''false'')"
| "json_dumps (JInt n) = str_int n"
| "json_dumps (JFloat s) = s"
| "json_dumps (JStr s) = json_quote s"
| "json_dumps (JList vs) = ''['' @ join '', '' (map json_dumps vs) @ '']''"
| "json_dumps (JObj kvs) =
     ''{'' @ join '', '' (map (\<lambda>(k, v). json_quote k @ '': '' @ json_dumps v) kvs) @ ''}''"

definition summarize :: "jval \<Rightarrow> string" where
  "summarize v = take SUMMARY_CAP (case v of JStr s \<Rightarrow> s | _ \<Rightarrow> json_dumps (redact v))"

section \<open>The pre-park check of an item id\<close>

definition ascii_hex :: "char \<Rightarrow> bool" where
  "ascii_hex c = (let n = ord c in ascii_digit c \<or> (65 \<le> n \<and> n \<le> 70) \<or> (97 \<le> n \<and> n \<le> 102))"

text \<open>The pattern \<open>_ITEM_ID_RE\<close>: five hex groups of 8, 4, 4, 4, 12; \<open>$\<close> also matches before a final line feed.\<close>

definition item_id_match :: "string \<Rightarrow> bool" where
  "item_id_match s = (let b = (if length s = 37 \<and> last s = char_of (10::nat) then butlast s else s) in
     length b = 36 \<and> map length (split_on (CHR ''-'') b) = [8, 4, 4, 4, 12] \<and>
     list_all (list_all ascii_hex) (split_on (CHR ''-'') b))"

definition require_item_id_shape :: "jdict \<Rightarrow> unit result" where
  "require_item_id_shape args = (case map_of args ''item_id'' of
       None \<Rightarrow> Inl (ValueErr ''item_id required'')
     | Some v \<Rightarrow>
         if \<not> truthy v then Inl (ValueErr ''item_id required'')
         else (case v of JStr s \<Rightarrow> if item_id_match s then Inr () else Inl (ValueErr ''item_id is not a card id'')
               | _ \<Rightarrow> Inl (ValueErr ''item_id is not a card id'')))"

section \<open>Facts\<close>

lemma missing_required_None: "missing_required ks args = None \<longleftrightarrow> (\<forall>k \<in> set ks. has_key args k)"
  by (induction ks) auto

lemma check_arg_Inr:
  "check_arg t kv = Inr kv' \<Longrightarrow>
   fst kv' = fst kv \<and> (\<exists>p. map_of (t_props t) (fst kv) = Some p \<and>
     coerce_scalar (p_type p) (snd kv) = Inr (snd kv') \<and>
     type_ok (p_type p) (snd kv') \<and> \<not> too_long (max_len p) (snd kv'))"
  by (auto simp: check_arg_def rbind_Inr_iff split: option.splits if_splits)

lemma validate_args_Inr:
  "validate_args t args = Inr out \<longleftrightarrow>
   length args \<le> MAX_ARGS \<and> (\<forall>k \<in> set (t_required t). has_key args k) \<and> rmap (check_arg t) args = Inr out"
  by (auto simp: validate_args_def missing_required_None [symmetric] split: option.splits)

lemma rmap_Inl: "rmap f xs = Inl e \<Longrightarrow> \<exists>x \<in> set xs. f x = Inl e"
proof (induction xs)
  case (Cons x xs)
  then show ?case by (cases "f x"; cases "rmap f xs") auto
qed simp

lemma coerce_scalar_errors: "coerce_scalar ty v = Inl e \<Longrightarrow> \<exists>m. e = ValueErr m"
  by (cases v) (auto simp: coerce_scalar_def Let_def rbind_def py_int_of_signed_def split: if_splits)

lemma check_arg_errors: "check_arg t kv = Inl e \<Longrightarrow> \<exists>m. e = ValueErr m"
  by (auto simp: check_arg_def rbind_def split: option.splits sum.splits if_splits dest: coerce_scalar_errors)

lemma validate_args_errors: "validate_args t args = Inl e \<Longrightarrow> \<exists>m. e = ValueErr m"
  by (auto simp: validate_args_def split: option.splits if_splits dest!: rmap_Inl check_arg_errors)

lemma list_all2_map_fst:
  "list_all2 (\<lambda>x y. check_arg t x = Inr y) args out \<Longrightarrow> map fst out = map fst args"
  by (induction rule: list_all2_induct) (auto dest: check_arg_Inr)

lemma rmap_check_keys: "rmap (check_arg t) args = Inr out \<Longrightarrow> map fst out = map fst args"
  by (rule list_all2_map_fst [OF rmap_Inr_list_all2])

lemma rmap_check_values:
  "rmap (check_arg t) args = Inr out \<Longrightarrow> kv \<in> set out \<Longrightarrow>
   \<exists>p. map_of (t_props t) (fst kv) = Some p \<and> type_ok (p_type p) (snd kv) \<and> \<not> too_long (max_len p) (snd kv)"
proof (induction args arbitrary: out)
  case (Cons a args)
  then show ?case by (fastforce simp: rbind_Inr_iff dest: check_arg_Inr)
qed simp

lemma coerce_scalar_typed: "type_ok ty v \<Longrightarrow> coerce_scalar ty v = Inr v"
  by (auto simp: coerce_scalar_def type_ok_def split: jval.splits if_splits)

lemma check_arg_stable:
  assumes "check_arg t kv = Inr kv'"
  shows "check_arg t kv' = Inr kv'"
  using check_arg_Inr [OF assms] by (auto simp: check_arg_def coerce_scalar_typed prod_eq_iff)

lemma rmap_check_stable: "rmap (check_arg t) args = Inr out \<Longrightarrow> rmap (check_arg t) out = Inr out"
proof (induction args arbitrary: out)
  case (Cons a args)
  then show ?case by (auto simp: rbind_Inr_iff dest: check_arg_stable)
qed simp

lemma has_key_map_fst: "has_key d k \<longleftrightarrow> k \<in> set (map fst d)"
  by (simp add: has_key_def)

text \<open>
  C13: the argument gate. What \<open>validate_args\<close> lets through to a handler has exactly the keys it was
  given, in order, at most 32 of them, every required key among them, and every value has its
  declared scalar type and, if a string, at most its declared (or the default) length; and
  validating it again changes nothing.
\<close>

theorem validate_args_sound:
  assumes "validate_args t args = Inr out"
  shows "map fst out = map fst args \<and> length out \<le> 32 \<and> (\<forall>k \<in> set (t_required t). has_key out k) \<and>
    (\<forall>(k, v) \<in> set out. \<exists>p. map_of (t_props t) k = Some p \<and> type_ok (p_type p) v \<and>
       (\<forall>s. v = JStr s \<longrightarrow> length s \<le> max_len p)) \<and>
    validate_args t out = Inr out"
proof -
  from assms have len: "length args \<le> MAX_ARGS" and req: "\<forall>k \<in> set (t_required t). has_key args k"
    and ok: "rmap (check_arg t) args = Inr out"
    by (auto simp: validate_args_Inr)
  note keys = rmap_check_keys [OF ok]
  from keys have len_out: "length out = length args" by (metis length_map)
  from req keys have req_out: "\<forall>k \<in> set (t_required t). has_key out k"
    by (simp add: has_key_map_fst)
  have vals: "\<exists>p. map_of (t_props t) k = Some p \<and> type_ok (p_type p) v \<and> (\<forall>s. v = JStr s \<longrightarrow> length s \<le> max_len p)"
    if "(k, v) \<in> set out" for k v
    using rmap_check_values [OF ok that] by (auto simp: too_long_def)
  have "validate_args t out = Inr out"
    using len len_out req_out rmap_check_stable [OF ok] by (simp add: validate_args_Inr)
  with keys len len_out req_out vals show ?thesis by (auto simp: MAX_ARGS_def)
qed

definition demo_tool :: tool where
  "demo_tool = mk_tool ''kb_search'' [(''query'', param ''string''), (''limit'', param ''integer'')] [''query''] OBSERVE False False"

definition demo_args :: jdict where
  "demo_args = [(''query'', JStr ''lease''), (''limit'', JStr '' +3 '')]"

lemma demo_validates:
  "validate_args demo_tool demo_args = Inr [(''query'', JStr ''lease''), (''limit'', JInt 3)]"
  by (simp add: validate_args_Inr demo_tool_def demo_args_def mk_tool_def param_def MAX_ARGS_def has_key_def
      check_arg_def coerce_scalar_def type_ok_def too_long_def max_len_def MAX_STR_def strip_def lstrip_def
      py_isspace_def py_isdigit_def ascii_digit_def py_int_of_signed_def int_of_digits_def digit_val_def ord_def)

theorem validate_args_sound_witness:
  "validate_args demo_tool [(''query'', JStr ''lease''), (''limit'', JInt 3)]
     = Inr [(''query'', JStr ''lease''), (''limit'', JInt 3)]"
  using validate_args_sound [OF demo_validates] by simp

text \<open>No value of a secret-named key survives anywhere in a value.\<close>

fun no_secret :: "jval \<Rightarrow> bool" where
  "no_secret (JObj kvs) = list_all (\<lambda>(k, v). if secret_key k then v = JStr ''***'' else no_secret v) kvs"
| "no_secret (JList vs) = list_all no_secret vs"
| "no_secret _ = True"

text \<open>
  redaction. The copy of a value that reaches an approval tile, a progress line or the audit
  body holds \<open>***\<close> under every secret-named key at any depth (whatever the case of the key), and
  redacting twice is redacting once.
\<close>

theorem redact_hides_secrets: "no_secret (redact v) \<and> redact (redact v) = redact v"
proof (induction v rule: redact.induct)
  case (1 kvs)
  have "list_all (\<lambda>(k, v). if secret_key k then v = JStr ''***'' else no_secret v)
      (map (\<lambda>(k, v). (k, if secret_key k then JStr ''***'' else redact v)) kvs)"
    using 1 by (auto simp: list_all_iff)
  moreover have "map (\<lambda>(k, v). (k, if secret_key k then JStr ''***'' else redact v))
      (map (\<lambda>(k, v). (k, if secret_key k then JStr ''***'' else redact v)) kvs)
    = map (\<lambda>(k, v). (k, if secret_key k then JStr ''***'' else redact v)) kvs"
    using 1 by auto
  ultimately show ?case by simp
next
  case (2 vs)
  have "map redact (map redact (take MAX_ARGS vs)) = map redact (take MAX_ARGS vs)"
    unfolding map_map by (rule map_cong) (use 2 in auto)
  then have "map redact (take MAX_ARGS (map redact (take MAX_ARGS vs))) = map redact (take MAX_ARGS vs)"
    by (simp add: take_map)
  moreover have "list_all no_secret (map redact (take MAX_ARGS vs))"
    using 2 by (auto simp: list_all_iff)
  ultimately show ?case by simp
qed simp_all

lemma summarize_length: "length (summarize v) \<le> SUMMARY_CAP"
  by (simp add: summarize_def)

end
