(* ===== verification/Consent.thy ===== *)
theory Consent
  imports Tool_Args
begin

text \<open>
  Remembered consent (\<open>app/smartbrain_3000/consent.py\<close>): which tools may be remembered and how,
  the host of a URL as \<open>urllib.parse.urlsplit\<close> reads it, the entries the one meta row holds
  and the check an agent turn makes for every proposed call. A stored text is identified with
  what \<open>json.loads\<close> makes of it; the meta table is a map.
\<close>

datatype json_text = NotJson string | JsonOf jval

type_synonym meta = "string \<rightharpoonup> json_text"

definition CONSENT_META_KEY :: string where "CONSENT_META_KEY = ''remembered_tools''"

definition FIXED_DESTINATION_EGRESS :: "string list" where
  "FIXED_DESTINATION_EGRESS = [''web_search'', ''web_research'', ''email_list'', ''email_read'']"

definition SITE_SCOPED_EGRESS :: "string list" where
  "SITE_SCOPED_EGRESS = [''web_fetch'', ''kb_ingest_url'']"

definition MAX_HOST_LEN :: nat where "MAX_HOST_LEN = 253"

definition at_sign :: char where "at_sign = CHR ''@''"

section \<open>Hosts\<close>

definition host_forbidden :: "char \<Rightarrow> bool" where
  "host_forbidden c = (c \<in> {CHR ''@'', CHR '':'', CHR ''/'', CHR '' ''} \<or> ord c \<in> {9, 10, 13})"

definition label_ok :: "string \<Rightarrow> bool" where
  "label_ok p = (p \<noteq> [] \<and> list_all (\<lambda>c. py_isalnum c \<or> c = CHR ''-'') p)"

definition is_valid_host :: "string \<Rightarrow> bool" where
  "is_valid_host host =
     (if host = [] \<or> length host > MAX_HOST_LEN then False
      else if list_ex host_forbidden host then False
      else list_all label_ok (split_on (CHR ''.'') host))"

text \<open>
  \<open>urlsplit(url).hostname\<close>: leading control characters and blanks and every tab, CR and LF are
  dropped; a scheme is a letter and scheme characters before the first colon; the network
  location runs from \<open>//\<close> to the first of \<open>/ ? #\<close>; the host is what follows the last \<open>@\<close>, up
  to a colon, or what stands in brackets. Unbalanced brackets, text before the bracket or other
  than a port after it, and a bracketed host that is neither an IPv6 address nor an
  \<open>IPvFuture\<close> one raise \<open>ValueError\<close>. A bracketed IPv6 address always holds a colon, so it never passes
  \<open>is_valid_host\<close>: \<open>url_hostname\<close> leaves it out. The NFKC check refuses nothing below code point 256.
\<close>

definition ascii_alpha :: "char \<Rightarrow> bool" where
  "ascii_alpha c = (ascii_upper c \<or> ascii_lower c)"

definition scheme_char :: "char \<Rightarrow> bool" where
  "scheme_char c = (ascii_alpha c \<or> ascii_digit c \<or> c \<in> {CHR ''+'', CHR ''-'', CHR ''.''})"

definition url_clean :: "string \<Rightarrow> string" where
  "url_clean u = filter (\<lambda>c. ord c \<notin> {9, 10, 13}) (dropWhile (\<lambda>c. ord c \<le> 32) u)"

definition url_after_scheme :: "string \<Rightarrow> string" where
  "url_after_scheme u =
     (if CHR '':'' \<in> set u \<and> before (CHR '':'') u \<noteq> [] \<and> ascii_alpha (hd u) \<and> list_all scheme_char (before (CHR '':'') u)
      then after (CHR '':'') u else u)"

definition url_netloc :: "string \<Rightarrow> string" where
  "url_netloc u = (if take 2 u = ''//'' then takeWhile (\<lambda>c. c \<notin> {CHR ''/'', CHR ''?'', CHR ''#''}) (drop 2 u) else [])"

definition after_last :: "char \<Rightarrow> string \<Rightarrow> string" where
  "after_last d s = rev (takeWhile (\<lambda>c. c \<noteq> d) (rev s))"

definition ip_future :: "string \<Rightarrow> bool" where
  "ip_future h = (case h of c # r \<Rightarrow>
       c = CHR ''v'' \<and> takeWhile ascii_hex r \<noteq> [] \<and>
       (case dropWhile ascii_hex r of d # q \<Rightarrow> d = CHR ''.'' \<and> q \<noteq> [] | [] \<Rightarrow> False)
     | [] \<Rightarrow> False)"

definition lower_host :: "string \<Rightarrow> string" where
  "lower_host h = (if CHR ''%'' \<in> set h then py_lower (before (CHR ''%'') h) @ CHR ''%'' # after (CHR ''%'') h else py_lower h)"

definition url_hostname :: "string \<Rightarrow> string option" where
  "url_hostname url =
     (let n = url_netloc (url_after_scheme (url_clean url));
          opened = CHR ''['' \<in> set n; closed = CHR '']'' \<in> set n;
          info = after_last at_sign n
      in if opened \<noteq> closed then None
         else if CHR ''['' \<in> set info then
           (let h = before (CHR '']'') (after (CHR ''['') info);
                port = after (CHR '']'') (after (CHR ''['') info)
            in if before (CHR ''['') info \<noteq> [] \<or> \<not> (port = [] \<or> hd port = CHR '':'') \<or> \<not> ip_future h then None
               else Some (lower_host h))
         else
           (let h = before (CHR '':'') info
            in if opened \<and> \<not> ip_future h then None
               else if h = [] then None else Some (lower_host h)))"

definition host_from_url :: "string \<Rightarrow> string option" where
  "host_from_url url = (case url_hostname url of
       None \<Rightarrow> None
     | Some host \<Rightarrow> if host = [] \<or> \<not> is_valid_host host then None else Some host)"

section \<open>Consent modes and entries\<close>

definition parse_entry :: "string \<Rightarrow> (string \<times> string option) option" where
  "parse_entry entry =
     (if entry = [] then None
      else if at_sign \<notin> set entry then Some (entry, None)
      else let tool = before at_sign entry; host = after at_sign entry
           in if tool = [] \<or> host = [] \<or> at_sign \<in> set host then None else Some (tool, Some host))"

datatype consent_mode = Whole_tool | Per_site

text \<open>A name is a tool's, so not empty: the empty name is no tool and has no mode.\<close>

definition remember_mode :: "string \<Rightarrow> consent_mode option" where
  "remember_mode name = (case get_tool name of
       None \<Rightarrow> None
     | Some t \<Rightarrow>
         if t_tier t \<noteq> REVIEWED then None
         else if \<not> t_egress t \<or> name \<in> set FIXED_DESTINATION_EGRESS then Some Whole_tool
         else if name \<in> set SITE_SCOPED_EGRESS then Some Per_site
         else None)"

definition is_rememberable :: "string \<Rightarrow> bool" where
  "is_rememberable name = (remember_mode name = Some Whole_tool)"

text \<open>The loop of \<open>remembered\<close>: the entries it keeps of the decoded list.\<close>

definition entry_kept :: "string \<Rightarrow> bool" where
  "entry_kept entry = (case parse_entry entry of
       None \<Rightarrow> False
     | Some (name, None) \<Rightarrow> remember_mode name = Some Whole_tool
     | Some (name, Some host) \<Rightarrow> remember_mode name = Some Per_site \<and> is_valid_host host)"

fun string_items :: "jval list \<Rightarrow> string list" where
  "string_items [] = []"
| "string_items (v # vs) = (case v of JStr s \<Rightarrow> s # string_items vs | _ \<Rightarrow> string_items vs)"

definition remembered :: "meta \<Rightarrow> string set" where
  "remembered m = (case m CONSENT_META_KEY of
       Some (JsonOf (JList es)) \<Rightarrow> set (filter entry_kept (string_items es))
     | _ \<Rightarrow> {})"

definition write_entries :: "string set \<Rightarrow> meta \<Rightarrow> meta" where
  "write_entries E m = m(CONSENT_META_KEY \<mapsto> JsonOf (JList (map JStr (sorted_list_of_set E))))"

definition remember :: "string \<Rightarrow> meta \<Rightarrow> bool \<times> meta" where
  "remember name m =
     (if remember_mode name \<noteq> Some Whole_tool then (False, m)
      else (True, write_entries (insert name (remembered m)) m))"

definition site_entry :: "string \<Rightarrow> string \<Rightarrow> string" where
  "site_entry name host = name @ at_sign # host"

definition remember_site :: "string \<Rightarrow> jval \<Rightarrow> meta \<Rightarrow> bool \<times> meta" where
  "remember_site name url m =
     (if remember_mode name \<noteq> Some Per_site then (False, m)
      else case url of
        JStr u \<Rightarrow> (case host_from_url u of
            None \<Rightarrow> (False, m)
          | Some host \<Rightarrow> (True, write_entries (insert (site_entry name host) (remembered m)) m))
      | _ \<Rightarrow> (False, m))"

definition forget :: "string \<Rightarrow> meta \<Rightarrow> meta" where
  "forget name m = write_entries (remembered m - {name}) m"

definition forget_site :: "string \<Rightarrow> jval \<Rightarrow> meta \<Rightarrow> meta" where
  "forget_site name host m = (case host of
       JStr h \<Rightarrow> if h = [] then m else write_entries (remembered m - {site_entry name h}) m
     | _ \<Rightarrow> m)"

definition allowed_in :: "string set \<Rightarrow> string \<Rightarrow> jval \<Rightarrow> bool" where
  "allowed_in entries name args = (case args of
       JObj d \<Rightarrow>
         if name \<in> entries then True
         else if remember_mode name \<noteq> Some Per_site then False
         else (case map_of d ''url'' of
             Some (JStr url) \<Rightarrow> (case host_from_url url of
                 None \<Rightarrow> False
               | Some host \<Rightarrow> site_entry name host \<in> entries)
           | _ \<Rightarrow> False)
     | _ \<Rightarrow> False)"

definition allowed :: "meta \<Rightarrow> string \<Rightarrow> jval \<Rightarrow> bool" where
  "allowed m name args = allowed_in (remembered m) name args"

section \<open>Facts\<close>

lemma TOOLS_ok: "t \<in> set TOOLS \<Longrightarrow> tool_ok t"
  using tools_knowledge_ok tools_planner_ok tools_web_ok tools_mail_ok tools_schedules_ok tools_neural_ok
  by (auto simp: TOOLS_def list_all_iff)

lemma identifier_no_at: "py_isidentifier n \<Longrightarrow> at_sign \<notin> set n"
  by (cases n) (auto simp: py_isidentifier_def at_sign_def list_all_iff char_defs)

lemma get_tool_no_at: "get_tool n = Some t \<Longrightarrow> at_sign \<notin> set n"
  using TOOLS_ok [OF get_tool_in_TOOLS, of n t] get_tool_name [of n t]
  by (auto simp: tool_ok_def dest: identifier_no_at)

lemma get_tool_nonempty: "get_tool n = Some t \<Longrightarrow> n \<noteq> []"
  using TOOLS_ok [OF get_tool_in_TOOLS, of n t] get_tool_name [of n t]
  by (auto simp: tool_ok_def py_isidentifier_def)

lemma remember_mode_Some:
  "remember_mode name = Some md \<Longrightarrow>
   \<exists>t. get_tool name = Some t \<and> t_tier t = REVIEWED \<and>
     (md = Whole_tool \<longrightarrow> \<not> t_egress t \<or> name \<in> set FIXED_DESTINATION_EGRESS) \<and>
     (md = Per_site \<longrightarrow> t_egress t \<and> name \<in> set SITE_SCOPED_EGRESS)"
  by (auto simp: remember_mode_def split: option.splits if_splits)

lemma remember_mode_no_at: "remember_mode name = Some md \<Longrightarrow> at_sign \<notin> set name \<and> name \<noteq> []"
  using get_tool_no_at get_tool_nonempty by (fastforce dest: remember_mode_Some)

lemma valid_host_no_at: "is_valid_host h \<Longrightarrow> at_sign \<notin> set h \<and> h \<noteq> []"
  by (auto simp: is_valid_host_def host_forbidden_def at_sign_def list_ex_iff split: if_splits)

lemma parse_site_entry:
  "at_sign \<notin> set n \<Longrightarrow> n \<noteq> [] \<Longrightarrow> at_sign \<notin> set h \<Longrightarrow> h \<noteq> [] \<Longrightarrow>
   parse_entry (site_entry n h) = Some (n, Some h)"
  by (simp add: parse_entry_def site_entry_def before_append after_append)

lemma entry_kept_site:
  "remember_mode n = Some Per_site \<Longrightarrow> is_valid_host h \<Longrightarrow> entry_kept (site_entry n h)"
  using remember_mode_no_at valid_host_no_at by (simp add: entry_kept_def parse_site_entry)

lemma entry_kept_plain: "remember_mode n = Some Whole_tool \<Longrightarrow> entry_kept n"
  using remember_mode_no_at by (auto simp: entry_kept_def parse_entry_def)

lemma parse_entry_plain: "parse_entry e = Some (n, None) \<Longrightarrow> n = e \<and> at_sign \<notin> set e"
  by (auto simp: parse_entry_def Let_def split: if_splits)

lemma parse_entry_host: "parse_entry e = Some (n, Some h) \<Longrightarrow> e = site_entry n h \<and> n \<noteq> []"
  using before_after [of at_sign e]
  by (auto simp: parse_entry_def site_entry_def Let_def split: if_splits)

lemma entry_kept_cases:
  assumes "entry_kept e"
  shows "(remember_mode e = Some Whole_tool \<and> at_sign \<notin> set e) \<or>
    (\<exists>n h. e = site_entry n h \<and> remember_mode n = Some Per_site \<and> is_valid_host h)"
  using assms parse_entry_plain [of e] parse_entry_host [of e]
  by (auto simp: entry_kept_def split: option.splits prod.splits)

lemma site_entry_has_at: "at_sign \<in> set (site_entry n h)"
  by (simp add: site_entry_def)

lemma site_entry_inject:
  "at_sign \<notin> set n \<Longrightarrow> at_sign \<notin> set n' \<Longrightarrow> site_entry n h = site_entry n' h' \<longleftrightarrow> n = n' \<and> h = h'"
  unfolding site_entry_def using before_append [of at_sign n h] before_append [of at_sign n' h']
  by (metis after_append)

lemma remembered_kept: "e \<in> remembered m \<Longrightarrow> entry_kept e"
  by (auto simp: remembered_def split: option.splits json_text.splits jval.splits)

lemma finite_remembered [simp]: "finite (remembered m)"
  by (auto simp: remembered_def split: option.splits json_text.splits jval.splits)

lemma string_items_map [simp]: "string_items (map JStr xs) = xs"
  by (induction xs) auto

lemma remembered_write:
  "finite E \<Longrightarrow> (\<And>e. e \<in> E \<Longrightarrow> entry_kept e) \<Longrightarrow> remembered (write_entries E m) = E"
  by (auto simp: remembered_def write_entries_def CONSENT_META_KEY_def)

lemma host_from_url_valid: "host_from_url u = Some h \<Longrightarrow> is_valid_host h"
  by (auto simp: host_from_url_def split: option.splits if_splits)

section \<open>The entry set as a store\<close>

text \<open>
  What the agent and the consent pages rely on: reading back exactly what was granted, an entry
  that is not admissible is never read, forgetting removes one entry and no other.
\<close>

locale grant_store =
  fixes grants :: "'m \<Rightarrow> 'e set"
    and grant :: "'e \<Rightarrow> 'm \<Rightarrow> 'm"
    and revoke :: "'e \<Rightarrow> 'm \<Rightarrow> 'm"
    and admissible :: "'e \<Rightarrow> bool"
  assumes grants_admissible: "e \<in> grants m \<Longrightarrow> admissible e"
    and grants_grant: "grants (grant e m) = (if admissible e then insert e (grants m) else grants m)"
    and grants_revoke: "grants (revoke e m) = grants m - {e}"
begin

lemma grant_then_revoke: "grants (revoke e (grant e m)) = grants m - {e}"
  by (simp add: grants_revoke grants_grant)

lemma revoke_then_grant: "admissible e \<Longrightarrow> grants (grant e (revoke e m)) = insert e (grants m)"
  by (auto simp: grants_revoke grants_grant)

lemma grants_after_run:
  "e \<in> grants (fold (\<lambda>(g, x) m. if g then grant x m else revoke x m) ops m) \<longleftrightarrow>
   (case filter (\<lambda>op. snd op = e) (rev ops) of
      [] \<Rightarrow> e \<in> grants m
    | op # _ \<Rightarrow> fst op \<and> admissible e)"
proof (induction ops arbitrary: m rule: rev_induct)
  case (snoc op ops)
  obtain g x where op: "op = (g, x)" by (cases op)
  show ?case
  proof (cases "x = e")
    case True
    let ?m = "fold (\<lambda>(g, x) m. if g then grant x m else revoke x m) ops m"
    have "e \<in> grants ?m \<Longrightarrow> admissible e" by (rule grants_admissible)
    with True op show ?thesis by (auto simp: grants_grant grants_revoke)
  next
    case False
    with snoc op show ?thesis by (auto simp: grants_grant grants_revoke)
  qed
qed simp

end

text \<open>Granting an entry as \<open>remember\<close> and \<open>remember_site\<close> do it: only what the reader keeps is written.\<close>

definition grant_entry :: "string \<Rightarrow> meta \<Rightarrow> meta" where
  "grant_entry e m = (if entry_kept e then write_entries (insert e (remembered m)) m else m)"

definition revoke_entry :: "string \<Rightarrow> meta \<Rightarrow> meta" where
  "revoke_entry e m = write_entries (remembered m - {e}) m"

interpretation consents: grant_store remembered grant_entry revoke_entry entry_kept
proof unfold_locales
  fix e m
  show "e \<in> remembered m \<Longrightarrow> entry_kept e" by (rule remembered_kept)
  show "remembered (grant_entry e m) = (if entry_kept e then insert e (remembered m) else remembered m)"
  proof (cases "entry_kept e")
    case True
    then have "\<And>x. x \<in> insert e (remembered m) \<Longrightarrow> entry_kept x" using remembered_kept by blast
    then show ?thesis using True by (simp add: grant_entry_def remembered_write del: insert_iff)
  qed (simp add: grant_entry_def)
  show "remembered (revoke_entry e m) = remembered m - {e}"
    unfolding revoke_entry_def by (rule remembered_write) (auto dest: remembered_kept)
qed

lemma remember_grant: "remember_mode n = Some Whole_tool \<Longrightarrow> remember n m = (True, grant_entry n m)"
  by (simp add: remember_def grant_entry_def entry_kept_plain)

lemma remember_site_grant:
  "remember_mode n = Some Per_site \<Longrightarrow> host_from_url u = Some h \<Longrightarrow>
   remember_site n (JStr u) m = (True, grant_entry (site_entry n h) m)"
  using host_from_url_valid by (simp add: remember_site_def grant_entry_def entry_kept_site)

lemma forget_revoke: "forget n m = revoke_entry n m"
  by (simp add: forget_def revoke_entry_def)

lemma forget_site_revoke: "h \<noteq> [] \<Longrightarrow> forget_site n (JStr h) m = revoke_entry (site_entry n h) m"
  by (simp add: forget_site_def revoke_entry_def)

section \<open>What a grant can let through\<close>

lemma allowed_in_sound:
  assumes "allowed_in E name args" and "\<And>e. e \<in> E \<Longrightarrow> entry_kept e" and "get_tool name = Some t"
  shows "t_tier t = REVIEWED \<and>
    (name \<in> E \<and> (\<not> t_egress t \<or> name \<in> set FIXED_DESTINATION_EGRESS) \<or>
     name \<in> set SITE_SCOPED_EGRESS \<and>
       (\<exists>d u h. args = JObj d \<and> map_of d ''url'' = Some (JStr u) \<and> host_from_url u = Some h \<and> site_entry name h \<in> E))"
proof (cases "name \<in> E")
  case True
  from assms(2) [OF True] have "remember_mode name = Some Whole_tool"
    using get_tool_no_at [OF assms(3)] site_entry_has_at by (auto dest: entry_kept_cases)
  with True assms(3) show ?thesis by (auto dest: remember_mode_Some)
next
  case False
  with assms(1) show ?thesis
    using assms(3) by (auto simp: allowed_in_def split: jval.splits option.splits if_splits dest: remember_mode_Some)
qed

text \<open>
  C11: remembered consent cannot be stretched. Whatever the stored row holds (corrupt, hand-edited,
  written by an older version), a call it pre-approves is to a REVIEWED tool, never an
  IRREVERSIBLE one; and either the user remembered the whole tool, which then reaches no
  destination or only one the user configured, or it is a site-scoped tool and the very host of
  the call's own URL is a remembered entry.
\<close>

theorem consent_confined:
  assumes "allowed m name args" and "get_tool name = Some t"
  shows "t_tier t = REVIEWED \<and>
    (name \<in> remembered m \<and> (\<not> t_egress t \<or> name \<in> set FIXED_DESTINATION_EGRESS) \<or>
     name \<in> set SITE_SCOPED_EGRESS \<and>
       (\<exists>d u h. args = JObj d \<and> map_of d ''url'' = Some (JStr u) \<and> host_from_url u = Some h \<and>
          site_entry name h \<in> remembered m))"
  using assms remembered_kept unfolding allowed_def by (rule_tac allowed_in_sound) auto

lemma get_tool_web_fetch:
  "get_tool ''web_fetch'' = Some (mk_tool ''web_fetch'' [(''url'', param ''string'')] [''url''] REVIEWED True False)"
  by (simp add: get_tool_def REGISTRY_eq table_defs)

lemma mode_web_fetch: "remember_mode ''web_fetch'' = Some Per_site"
  by (simp add: remember_mode_def get_tool_web_fetch mk_tool_def FIXED_DESTINATION_EGRESS_def SITE_SCOPED_EGRESS_def)

lemmas url_defs = host_from_url_def url_hostname_def url_clean_def url_after_scheme_def url_netloc_def
  after_last_def before_def after_def lower_host_def scheme_char_def ascii_alpha_def py_lower_def py_lower_char_def
  is_valid_host_def host_forbidden_def label_ok_def py_isalnum_def at_sign_def MAX_HOST_LEN_def char_defs

definition demo_url :: string where "demo_url = ''https://user@news.example:443/a?b''"

lemma demo_host: "host_from_url demo_url = Some ''news.example''"
  by (simp add: demo_url_def url_defs)

definition demo_meta :: meta where
  "demo_meta = grant_entry (site_entry ''web_fetch'' ''news.example'') Map.empty"

lemma demo_meta_remembered: "remembered demo_meta = {site_entry ''web_fetch'' ''news.example''}"
  using host_from_url_valid [OF demo_host]
  by (simp add: demo_meta_def consents.grants_grant entry_kept_site mode_web_fetch) (simp add: remembered_def)

lemma demo_allowed: "allowed demo_meta ''web_fetch'' (JObj [(''url'', JStr demo_url)])"
  by (simp add: allowed_def allowed_in_def demo_meta_remembered mode_web_fetch demo_host)

theorem consent_confined_witness:
  "t_tier (mk_tool ''web_fetch'' [(''url'', param ''string'')] [''url''] REVIEWED True False) = REVIEWED \<and>
   ''web_fetch'' \<in> set SITE_SCOPED_EGRESS"
  using consent_confined [OF demo_allowed get_tool_web_fetch]
  by (auto simp: SITE_SCOPED_EGRESS_def mk_tool_def)

text \<open>
  a remembered site opens one host and no other. After the user remembers a URL for a
  site-scoped tool, a later call is newly let through exactly when its own URL has that same host;
  no other tool, no other host (a subdomain or parent is another host) becomes allowed.
\<close>

theorem remember_site_one_host:
  assumes "remember_mode n = Some Per_site" and "host_from_url u = Some h"
    and "get_tool n' = Some t'"
  shows "allowed (snd (remember_site n (JStr u) m)) n' (JObj [(''url'', JStr u')]) \<longleftrightarrow>
    allowed m n' (JObj [(''url'', JStr u')]) \<or> (n' = n \<and> host_from_url u' = Some h)"
proof -
  have at: "at_sign \<notin> set n" "at_sign \<notin> set n'"
    using remember_mode_no_at [OF assms(1)] get_tool_no_at [OF assms(3)] by auto
  have E: "remembered (snd (remember_site n (JStr u) m)) = insert (site_entry n h) (remembered m)"
    using assms(1,2) host_from_url_valid [OF assms(2)]
    by (simp add: remember_site_grant consents.grants_grant entry_kept_site)
  have "n' \<noteq> site_entry n h"
    using at site_entry_has_at by metis
  then show ?thesis
    unfolding allowed_def E
    using at assms(1) by (auto simp: allowed_in_def site_entry_inject split: option.splits)
qed

theorem remember_site_one_host_witness:
  "allowed (snd (remember_site ''web_fetch'' (JStr demo_url) Map.empty)) ''web_fetch'' (JObj [(''url'', JStr demo_url)])"
  using remember_site_one_host [OF mode_web_fetch demo_host get_tool_web_fetch, of Map.empty demo_url]
  by (simp add: demo_host)

end
