(* ===== verification/Audit_Log.thy ===== *)
theory Audit_Log
  imports Prelude
begin

text \<open>
  The append-only audit log (\<open>app/smartbrain_3000/audit.py\<close>): the table \<open>audit_log\<close> as a list of
  rows with their plaintext columns and sealed body, \<open>append\<close> with its checks and the
  \<open>via\<close> stamp, and the bounded listing. The columns are not sealed; the body is sealed under
  \<open>audit:\<close> and the row's id.
\<close>

record 'c audit_row =
  au_id :: string
  au_ts :: int
  au_actor :: string
  au_tool :: string
  au_tier :: string
  au_decision :: string
  au_ok :: bool
  au_conv :: "string option"
  au_nonce :: bytes
  au_ct :: 'c

record audit_call =
  ac_actor :: string
  ac_tool :: string
  ac_tier :: string
  ac_decision :: string
  ac_ok :: bool
  ac_conv :: "string option"
  ac_args :: string
  ac_result :: string
  ac_error :: string

record audit_entry =
  ae_id :: string
  ae_ts :: int
  ae_actor :: string
  ae_tool :: string
  ae_tier :: string
  ae_decision :: string
  ae_ok :: bool
  ae_conv :: "string option"
  ae_args :: jval
  ae_result :: jval
  ae_error :: jval
  ae_via :: jval

definition AUDIT_LIST_LIMIT :: nat where "AUDIT_LIST_LIMIT = 500"

definition DECISIONS :: "string list" where
  "DECISIONS = [''proposed'', ''auto'', ''approved'', ''denied'', ''executed'', ''errored'']"

definition ACTORS :: "string list" where
  "ACTORS = [''assistant'', ''user'']"

definition audit_aad :: "string \<Rightarrow> string" where
  "audit_aad aid = ''audit:'' @ aid"

text \<open>\<open>request_via\<close> is the origin of the request being served, \<open>None\<close> off a phone or LAN request.\<close>

definition audit_via :: "string option \<Rightarrow> string \<Rightarrow> string" where
  "audit_via request_via actor =
     (if actor = ''user'' then (case request_via of None \<Rightarrow> [] | Some v \<Rightarrow> v) else [])"

definition audit_body :: "string option \<Rightarrow> audit_call \<Rightarrow> jdict" where
  "audit_body request_via c =
     [(''args_summary'', JStr (ac_args c)), (''result_summary'', JStr (ac_result c)),
      (''error'', JStr (ac_error c)), (''via'', JStr (audit_via request_via (ac_actor c)))]"

definition audit_append ::
  "'c aead \<Rightarrow> bytes \<Rightarrow> stamp \<Rightarrow> string option \<Rightarrow> audit_call \<Rightarrow> 'c audit_row list \<Rightarrow> (string \<times> 'c audit_row list) result" where
  "audit_append A key st request_via c rows =
     (if ac_actor c \<notin> set ACTORS then Inl (Assertion ''unknown actor'')
      else if ac_decision c \<notin> set DECISIONS then Inl (Assertion ''unknown decision'')
      else if s_uid st \<in> au_id ` set rows then Inl (OtherErr ''duplicate key'')
      else Inr (s_uid st, rows @ [\<lparr>au_id = s_uid st, au_ts = s_now st, au_actor = ac_actor c, au_tool = ac_tool c,
        au_tier = ac_tier c, au_decision = ac_decision c, au_ok = ac_ok c, au_conv = ac_conv c, au_nonce = s_nonce st,
        au_ct = aes_encrypt A key (s_nonce st) (PJson (JObj (audit_body request_via c))) (audit_aad (s_uid st))\<rparr>]))"

definition audit_open :: "'c aead \<Rightarrow> bytes \<Rightarrow> string \<Rightarrow> bytes \<Rightarrow> 'c \<Rightarrow> jdict result" where
  "audit_open A key aid nonce c =
     (if aid = [] then Inl (Assertion ''audit id required'') else aead_open A key nonce c (audit_aad aid))"

text \<open>\<open>body[k]\<close>, a \<open>KeyError\<close> when it is missing.\<close>

definition dict_at :: "jdict \<Rightarrow> string \<Rightarrow> jval result" where
  "dict_at d k = (case map_of d k of None \<Rightarrow> Inl (OtherErr ''KeyError'') | Some v \<Rightarrow> Inr v)"

text \<open>\<open>str(body.get("via") or "")\<close>: \<open>append\<close> only ever writes a string there, on which \<open>str\<close> is the identity.\<close>

definition via_of :: "jdict \<Rightarrow> jval" where
  "via_of d = (case map_of d ''via'' of Some v \<Rightarrow> (if v = JNull then JStr [] else v) | None \<Rightarrow> JStr [])"

definition audit_entry_of :: "'c aead \<Rightarrow> bytes \<Rightarrow> 'c audit_row \<Rightarrow> audit_entry result" where
  "audit_entry_of A key r =
     rbind (audit_open A key (au_id r) (au_nonce r) (au_ct r)) (\<lambda>body.
     rbind (dict_at body ''args_summary'') (\<lambda>a.
     rbind (dict_at body ''result_summary'') (\<lambda>res.
     rbind (dict_at body ''error'') (\<lambda>e.
       Inr \<lparr>ae_id = au_id r, ae_ts = au_ts r, ae_actor = au_actor r, ae_tool = au_tool r, ae_tier = au_tier r,
         ae_decision = au_decision r, ae_ok = au_ok r, ae_conv = au_conv r, ae_args = a, ae_result = res,
         ae_error = e, ae_via = via_of body\<rparr>))))"

text \<open>\<open>ORDER BY ts DESC, id DESC\<close>.\<close>

definition newest_first :: "('r \<Rightarrow> int) \<Rightarrow> ('r \<Rightarrow> string) \<Rightarrow> 'r \<Rightarrow> 'r \<Rightarrow> bool" where
  "newest_first ts i a b = (ts b < ts a \<or> (ts a = ts b \<and> i b \<le> i a))"

definition audit_list :: "'c aead \<Rightarrow> bytes \<Rightarrow> int \<Rightarrow> 'c audit_row list \<Rightarrow> audit_entry list result" where
  "audit_list A key limit rows =
     (if \<not> (1 \<le> limit \<and> limit \<le> int AUDIT_LIST_LIMIT) then Inl (Assertion ''limit out of range'')
      else rmap (audit_entry_of A key) (take (nat limit) (order_by (newest_first au_ts au_id) rows)))"

section \<open>The log as a sequence of calls\<close>

text \<open>
  The contract: the log is the sequence of accepted calls. \<open>audit_exec\<close> runs a sequence of
  \<open>append\<close> calls (a call that raises leaves the table as it was); \<open>audit_history\<close> is the same sequence
  with nothing sealed.
\<close>

type_synonym audit_event = "stamp \<times> string option \<times> audit_call"

fun audit_exec :: "'c aead \<Rightarrow> bytes \<Rightarrow> audit_event list \<Rightarrow> 'c audit_row list \<Rightarrow> 'c audit_row list" where
  "audit_exec A key [] rows = rows"
| "audit_exec A key ((st, via, c) # es) rows =
     audit_exec A key es (case audit_append A key st via c rows of Inl _ \<Rightarrow> rows | Inr (_, rows') \<Rightarrow> rows')"

definition call_entry :: "audit_event \<Rightarrow> audit_entry" where
  "call_entry ev = (case ev of (st, via, c) \<Rightarrow>
     \<lparr>ae_id = s_uid st, ae_ts = s_now st, ae_actor = ac_actor c, ae_tool = ac_tool c, ae_tier = ac_tier c,
      ae_decision = ac_decision c, ae_ok = ac_ok c, ae_conv = ac_conv c, ae_args = JStr (ac_args c),
      ae_result = JStr (ac_result c), ae_error = JStr (ac_error c), ae_via = JStr (audit_via via (ac_actor c))\<rparr>)"

fun audit_history :: "audit_event list \<Rightarrow> audit_entry list \<Rightarrow> audit_entry list" where
  "audit_history [] h = h"
| "audit_history ((st, via, c) # es) h = audit_history es
     (if ac_actor c \<in> set ACTORS \<and> ac_decision c \<in> set DECISIONS \<and> s_uid st \<notin> ae_id ` set h
      then h @ [call_entry (st, via, c)] else h)"

definition audit_rep :: "'c aead \<Rightarrow> bytes \<Rightarrow> 'c audit_row \<Rightarrow> audit_entry \<Rightarrow> bool" where
  "audit_rep A key r e \<longleftrightarrow> audit_entry_of A key r = Inr e \<and> au_id r = ae_id e \<and> au_ts r = ae_ts e"

lemma audit_append_rep:
  assumes "aead_roundtrip A" and "stamp_ok st" and "audit_append A key st via c rows = Inr (i, rows')"
  shows "\<exists>r. rows' = rows @ [r] \<and> audit_rep A key r (call_entry (st, via, c))"
  using assms unfolding audit_append_def
  by (auto split: if_splits intro!: exI conjI [OF refl])
    (simp add: audit_rep_def audit_entry_of_def audit_open_def store_simps stamp_ok_def NONCE_BYTES_def
      audit_body_def dict_at_def via_of_def call_entry_def)

lemma audit_append_accepts:
  "(\<exists>i rows'. audit_append A key st via c rows = Inr (i, rows')) \<longleftrightarrow>
   ac_actor c \<in> set ACTORS \<and> ac_decision c \<in> set DECISIONS \<and> s_uid st \<notin> au_id ` set rows"
  by (auto simp: audit_append_def)

lemma rep_ids: "list_all2 (audit_rep A key) rows h \<Longrightarrow> au_id ` set rows = ae_id ` set h"
  by (induction rule: list_all2_induct) (auto simp: audit_rep_def)

lemma audit_exec_rep:
  assumes "aead_roundtrip A"
    and "\<forall>ev \<in> set es. stamp_ok (fst ev)"
    and "list_all2 (audit_rep A key) rows h"
  shows "list_all2 (audit_rep A key) (audit_exec A key es rows) (audit_history es h)"
  using assms(2,3)
proof (induction es arbitrary: rows h)
  case (Cons ev es)
  obtain st via c where ev: "ev = (st, via, c)" by (cases ev)
  have ids: "au_id ` set rows = ae_id ` set h" by (rule rep_ids) (rule Cons.prems)
  show ?case
  proof (cases "audit_append A key st via c rows")
    case (Inl e)
    then have "\<not> (\<exists>i rows'. audit_append A key st via c rows = Inr (i, rows'))" by simp
    then have "\<not> (ac_actor c \<in> set ACTORS \<and> ac_decision c \<in> set DECISIONS \<and> s_uid st \<notin> ae_id ` set h)"
      by (simp add: audit_append_accepts ids)
    then have "audit_history (ev # es) h = audit_history es h" by (auto simp: ev)
    moreover have "audit_exec A key (ev # es) rows = audit_exec A key es rows" by (simp add: ev Inl)
    ultimately show ?thesis using Cons.IH [of rows h] Cons.prems by simp
  next
    case (Inr p)
    obtain i rows' where p: "p = (i, rows')" by (cases p)
    with Inr have app: "audit_append A key st via c rows = Inr (i, rows')" by simp
    then have acc: "ac_actor c \<in> set ACTORS \<and> ac_decision c \<in> set DECISIONS \<and> s_uid st \<notin> ae_id ` set h"
      using audit_append_accepts [of A key st via c rows] ids by simp
    obtain r where r: "rows' = rows @ [r]" "audit_rep A key r (call_entry (st, via, c))"
      using audit_append_rep [OF assms(1) _ app] Cons.prems(1) ev by auto
    then have "list_all2 (audit_rep A key) rows' (h @ [call_entry (st, via, c)])"
      using Cons.prems(2) by (simp add: list_all2_appendI)
    with Cons.IH [of rows' "h @ [call_entry (st, via, c)]"] Cons.prems(1) app acc ev show ?thesis by simp
  qed
qed simp

lemma order_by_rep:
  assumes "\<And>a b x y. R a x \<Longrightarrow> R b y \<Longrightarrow> le a b = le' x y" and "list_all2 R xs ys"
  shows "list_all2 R (order_by le xs) (order_by le' ys)"
proof -
  have ins: "list_all2 R (insert_by le a xs) (insert_by le' x ys)" if "R a x" "list_all2 R xs ys" for a x xs ys
    using that(2,1) by (induction rule: list_all2_induct) (auto simp: assms(1))
  from assms(2) show ?thesis
    by (induction rule: list_all2_induct) (auto intro: ins)
qed

lemma rep_rmap: "list_all2 (audit_rep A key) rows h \<Longrightarrow> rmap (audit_entry_of A key) rows = Inr h"
  by (induction rule: list_all2_induct) (auto simp: audit_rep_def)

text \<open>
  C12: the audit log is a faithful record. After any sequence of \<open>append\<close> calls on an empty log,
  whatever ids, clocks and origins they ran with, listing returns exactly the accepted calls: every
  field as it was passed, the origin stamped on user rows only, newest first, cut to the limit. No
  call that was accepted is altered, reordered against its time or lost by a later one.
\<close>

theorem audit_list_refines:
  assumes "aead_roundtrip A" and "1 \<le> limit" and "limit \<le> 500"
    and "\<forall>ev \<in> set es. stamp_ok (fst ev)"
  shows "audit_list A key limit (audit_exec A key es []) =
    Inr (take (nat limit) (order_by (newest_first ae_ts ae_id) (audit_history es [])))"
proof -
  have rep: "list_all2 (audit_rep A key) (audit_exec A key es []) (audit_history es [])"
    using audit_exec_rep [OF assms(1,4)] by simp
  have "list_all2 (audit_rep A key) (order_by (newest_first au_ts au_id) (audit_exec A key es []))
      (order_by (newest_first ae_ts ae_id) (audit_history es []))"
    by (rule order_by_rep [OF _ rep]) (simp add: audit_rep_def newest_first_def)
  then have "list_all2 (audit_rep A key) (take (nat limit) (order_by (newest_first au_ts au_id) (audit_exec A key es [])))
      (take (nat limit) (order_by (newest_first ae_ts ae_id) (audit_history es [])))"
    by (rule list_all2_takeI)
  with assms(2,3) show ?thesis
    by (simp add: audit_list_def AUDIT_LIST_LIMIT_def rep_rmap)
qed

definition demo_call :: "string \<Rightarrow> string \<Rightarrow> audit_call" where
  "demo_call actor decision = \<lparr>ac_actor = actor, ac_tool = ''task_add'', ac_tier = ''reviewed'', ac_decision = decision,
     ac_ok = True, ac_conv = None, ac_args = ''{}'', ac_result = [], ac_error = []\<rparr>"

definition demo_events :: "audit_event list" where
  "demo_events = [(demo_stamp ''a'' 5, Some ''LAN browser'', demo_call ''user'' ''approved''),
     (demo_stamp ''b'' 9, Some ''LAN browser'', demo_call ''assistant'' ''auto''),
     (demo_stamp ''c'' 7, None, demo_call ''nobody'' ''auto'')]"

theorem audit_list_refines_witness:
  "rmap (\<lambda>e. Inr (ae_id e, ae_via e)) (case audit_list tagged_aead (replicate 32 0) 10
      (audit_exec tagged_aead (replicate 32 0) demo_events []) of Inr out \<Rightarrow> out | Inl _ \<Rightarrow> [])
    = Inr [(''b'', JStr []), (''a'', JStr ''LAN browser'')]"
  by (subst audit_list_refines [OF tagged_aead_roundtrip])
    (auto simp: demo_events_def demo_stamp_def stamp_ok_def demo_call_def ACTORS_def DECISIONS_def call_entry_def
      audit_via_def newest_first_def)

lemma audit_append_length: "audit_append A key st via c rows = Inr (i, rows') \<Longrightarrow> length rows' = Suc (length rows)"
  by (auto simp: audit_append_def split: if_splits)

end
