(* ===== verification/Approvals.thy ===== *)
theory Approvals
  imports Prelude "HOL-Library.Sublist"
begin

text \<open>
  The pending-approval state machine (\<open>app/smartbrain_3000/approvals.py\<close>): the table
  \<open>pending_actions\<close>, every operation of \<open>ApprovalStore\<close>, and runs of operations. Each operation
  takes the cipher, the master key and the unlock session the store was built with. The
  process-wide lock makes each transition atomic, so an interleaving of threads is a
  sequence of operations.
\<close>

record 'c pending_row =
  pa_id :: string
  pa_turn :: "string option"
  pa_conv :: "string option"
  pa_call :: "string option"
  pa_tool :: string
  pa_tier :: string
  pa_status :: string
  pa_nonce :: bytes
  pa_ct :: 'c
  pa_created :: int
  pa_resolved :: "int option"

definition PENDING_LIST_LIMIT :: nat where "PENDING_LIST_LIMIT = 200"
definition CHAT_TTL_SECONDS :: int where "CHAT_TTL_SECONDS = 3600"
definition SCHEDULED_TTL_SECONDS :: int where "SCHEDULED_TTL_SECONDS = 30 * 86400"

definition pending_aad :: "string \<Rightarrow> string" where
  "pending_aad pid = ''pending:'' @ pid"

text \<open>The arguments of \<open>create_pending\<close>; \<open>turn_state\<close> is \<open>JNull\<close> when none is given.\<close>

record park =
  pk_tool :: string
  pk_tier :: string
  pk_args :: jval
  pk_conv :: "string option"
  pk_turn :: "string option"
  pk_call :: "string option"
  pk_state :: jval

definition pending_body :: "string \<Rightarrow> park \<Rightarrow> jdict" where
  "pending_body session p =
     [(''args'', pk_args p), (''session'', JStr session), (''turn_state'', pk_state p)]"

definition create_pending ::
  "'c aead \<Rightarrow> bytes \<Rightarrow> string \<Rightarrow> stamp \<Rightarrow> park \<Rightarrow> 'c pending_row list \<Rightarrow> (string \<times> 'c pending_row list) result" where
  "create_pending A key session st p rows =
     (if pk_tool p = [] then Inl (Assertion ''tool name required'')
      else if \<not> is_dict (pk_args p) then Inl (Assertion ''args must be a dict'')
      else if s_uid st \<in> pa_id ` set rows then Inl (OtherErr ''duplicate key'')
      else Inr (s_uid st, rows @ [\<lparr>pa_id = s_uid st, pa_turn = pk_turn p, pa_conv = pk_conv p, pa_call = pk_call p,
        pa_tool = pk_tool p, pa_tier = pk_tier p, pa_status = ''pending'', pa_nonce = s_nonce st,
        pa_ct = aes_encrypt A key (s_nonce st) (PJson (JObj (pending_body session p))) (pending_aad (s_uid st)),
        pa_created = s_now st, pa_resolved = None\<rparr>]))"

definition ttl_for :: "string option \<Rightarrow> int" where
  "ttl_for conversation_id = (if conversation_id \<noteq> None then CHAT_TTL_SECONDS else SCHEDULED_TTL_SECONDS)"

definition pending_open :: "'c aead \<Rightarrow> bytes \<Rightarrow> string \<Rightarrow> bytes \<Rightarrow> 'c \<Rightarrow> jdict result" where
  "pending_open A key pid nonce c =
     (if pid = [] then Inl (Assertion ''pending id required'')
      else rbind (aead_open A key nonce c (pending_aad pid)) (\<lambda>body.
        if has_key body ''args'' \<and> has_key body ''session'' then Inr body
        else Inl (Assertion ''pending body malformed'')))"

text \<open>\<open>body["session"] == self._session\<close>, and \<open>body[k]\<close> or \<open>body.get(k)\<close> for a key that may be absent.\<close>

definition same_session :: "string \<Rightarrow> jdict \<Rightarrow> bool" where
  "same_session session body = (map_of body ''session'' = Some (JStr session))"

definition body_get :: "jdict \<Rightarrow> string \<Rightarrow> jval" where
  "body_get body k = (case map_of body k of None \<Rightarrow> JNull | Some v \<Rightarrow> v)"

definition sweep_row :: "int \<Rightarrow> 'c pending_row \<Rightarrow> 'c pending_row" where
  "sweep_row now r =
     (if pa_status r = ''pending'' \<and> secs_between (pa_created r) now > ttl_for (pa_conv r)
      then r\<lparr>pa_status := ''expired'', pa_resolved := Some now\<rparr> else r)"

record tile =
  tl_id :: string
  tl_tool :: string
  tl_tier :: string
  tl_created :: int
  tl_turn :: "string option"
  tl_conv :: "string option"
  tl_args :: jval

definition tile_of :: "'c pending_row \<Rightarrow> jdict \<Rightarrow> tile" where
  "tile_of r body = \<lparr>tl_id = pa_id r, tl_tool = pa_tool r, tl_tier = pa_tier r, tl_created = pa_created r,
     tl_turn = pa_turn r, tl_conv = pa_conv r, tl_args = body_get body ''args''\<rparr>"

definition created_desc :: "'c pending_row \<Rightarrow> 'c pending_row \<Rightarrow> bool" where
  "created_desc a b = (pa_created b \<le> pa_created a)"

definition created_asc :: "'c pending_row \<Rightarrow> 'c pending_row \<Rightarrow> bool" where
  "created_asc a b = (pa_created a \<le> pa_created b)"

definition open_row :: "'c aead \<Rightarrow> bytes \<Rightarrow> 'c pending_row \<Rightarrow> ('c pending_row \<times> jdict) result" where
  "open_row A key r = rbind (pending_open A key (pa_id r) (pa_nonce r) (pa_ct r)) (\<lambda>body. Inr (r, body))"

definition list_pending ::
  "'c aead \<Rightarrow> bytes \<Rightarrow> string \<Rightarrow> int \<Rightarrow> 'c pending_row list \<Rightarrow> tile list result \<times> 'c pending_row list" where
  "list_pending A key session now rows =
     (let swept = map (sweep_row now) rows;
          page = take PENDING_LIST_LIMIT (order_by created_desc (filter (\<lambda>r. pa_status r = ''pending'') swept))
      in (rbind (rmap (open_row A key) page) (\<lambda>opened.
            Inr [tile_of r body. (r, body) \<leftarrow> opened, same_session session body]), swept))"

record pending_view =
  pv_id :: string
  pv_tool :: string
  pv_tier :: string
  pv_status :: string
  pv_args :: jval
  pv_result :: jval
  pv_state :: jval
  pv_turn :: "string option"
  pv_expired :: bool

definition get_pending ::
  "'c aead \<Rightarrow> bytes \<Rightarrow> string \<Rightarrow> int \<Rightarrow> string \<Rightarrow> 'c pending_row list \<Rightarrow> pending_view option result" where
  "get_pending A key session now pid rows =
     (if pid = [] then Inl (Assertion ''pending id required'')
      else case row_find pa_id pid rows of
        None \<Rightarrow> Inr None
      | Some r \<Rightarrow> rbind (pending_open A key pid (pa_nonce r) (pa_ct r)) (\<lambda>body. Inr (
          if \<not> same_session session body then None
          else Some \<lparr>pv_id = pid, pv_tool = pa_tool r, pv_tier = pa_tier r, pv_status = pa_status r,
            pv_args = body_get body ''args'', pv_result = body_get body ''result'',
            pv_state = body_get body ''turn_state'', pv_turn = pa_turn r,
            pv_expired = (secs_between (pa_created r) now > ttl_for (pa_conv r))\<rparr>)))"

record turn_row =
  tr_id :: string
  tr_call :: "string option"
  tr_tool :: string
  tr_tier :: string
  tr_status :: string
  tr_args :: jval
  tr_result :: jval
  tr_state :: jval
  tr_claimed :: "int option"

definition turn_row_of :: "int \<Rightarrow> 'c pending_row \<Rightarrow> jdict \<Rightarrow> turn_row" where
  "turn_row_of now r body = \<lparr>tr_id = pa_id r, tr_call = pa_call r, tr_tool = pa_tool r, tr_tier = pa_tier r,
     tr_status = pa_status r, tr_args = body_get body ''args'', tr_result = body_get body ''result'',
     tr_state = body_get body ''turn_state'',
     tr_claimed = map_option (\<lambda>t. secs_between t now) (pa_resolved r)\<rparr>"

definition list_for_turn ::
  "'c aead \<Rightarrow> bytes \<Rightarrow> string \<Rightarrow> int \<Rightarrow> string \<Rightarrow> 'c pending_row list \<Rightarrow> turn_row list result" where
  "list_for_turn A key session now turn_id rows =
     (if turn_id = [] then Inl (Assertion ''turn id required'')
      else rbind (rmap (open_row A key)
              (take PENDING_LIST_LIMIT (order_by created_asc (filter (\<lambda>r. pa_turn r = Some turn_id) rows))))
            (\<lambda>opened. Inr [turn_row_of now r body. (r, body) \<leftarrow> opened, same_session session body]))"

definition store_result ::
  "'c aead \<Rightarrow> bytes \<Rightarrow> bytes \<Rightarrow> string \<Rightarrow> jval \<Rightarrow> 'c pending_row list \<Rightarrow> 'c pending_row list result" where
  "store_result A key nonce pid res rows =
     (if pid = [] then Inl (Assertion ''pending id required'')
      else if \<not> is_dict res then Inl (Assertion ''result must be a dict'')
      else case row_find pa_id pid rows of
        None \<Rightarrow> Inr rows
      | Some r \<Rightarrow>
          if pa_status r \<noteq> ''executed'' then Inr rows
          else rbind (pending_open A key pid (pa_nonce r) (pa_ct r)) (\<lambda>body.
            if body_get body ''result'' \<noteq> JNull then Inr rows
            else Inr (row_update pa_id pid (\<lambda>r. r\<lparr>pa_nonce := nonce,
              pa_ct := aes_encrypt A key nonce (PJson (JObj (dict_set body ''result'' res))) (pending_aad pid)\<rparr>) rows)))"

definition cas :: "int \<Rightarrow> string \<Rightarrow> string \<Rightarrow> string \<Rightarrow> 'c pending_row list \<Rightarrow> (bool \<times> 'c pending_row list) result" where
  "cas now pid expected new rows =
     (if pid = [] \<or> expected = [] \<or> new = [] then Inl (Assertion ''cas args required'')
      else case row_find pa_id pid rows of
        None \<Rightarrow> Inr (False, rows)
      | Some r \<Rightarrow>
          if pa_status r \<noteq> expected \<or> secs_between (pa_created r) now > ttl_for (pa_conv r) then Inr (False, rows)
          else Inr (True, row_update pa_id pid (\<lambda>r. r\<lparr>pa_status := new, pa_resolved := Some now\<rparr>) rows))"

definition approve :: "int \<Rightarrow> string \<Rightarrow> 'c pending_row list \<Rightarrow> (bool \<times> 'c pending_row list) result" where
  "approve now pid rows = cas now pid ''pending'' ''approved'' rows"

definition deny :: "int \<Rightarrow> string \<Rightarrow> 'c pending_row list \<Rightarrow> (bool \<times> 'c pending_row list) result" where
  "deny now pid rows = cas now pid ''pending'' ''denied'' rows"

definition claim :: "int \<Rightarrow> string \<Rightarrow> 'c pending_row list \<Rightarrow> (bool \<times> 'c pending_row list) result" where
  "claim now pid rows = cas now pid ''approved'' ''executed'' rows"

section \<open>Runs of operations\<close>

text \<open>
  The operations that change the table, by any store (any unlock session) on it. The boolean is the
  answer: whether the transition, the insert or the write of a result happened.
\<close>

datatype pa_event =
    Create string stamp park
  | ListAt string int
  | Approve int string
  | Deny int string
  | Claim int string
  | Result bytes string jval

definition done_in :: "'c pending_row list \<Rightarrow> (bool \<times> 'c pending_row list) result \<Rightarrow> bool \<times> 'c pending_row list" where
  "done_in rows r = (case r of Inl _ \<Rightarrow> (False, rows) | Inr x \<Rightarrow> x)"

definition pa_exec :: "'c aead \<Rightarrow> bytes \<Rightarrow> pa_event \<Rightarrow> 'c pending_row list \<Rightarrow> bool \<times> 'c pending_row list" where
  "pa_exec A key ev rows = (case ev of
       Create session st p \<Rightarrow> done_in rows (rbind (create_pending A key session st p rows) (\<lambda>(_, rows'). Inr (True, rows')))
     | ListAt session now \<Rightarrow> (False, snd (list_pending A key session now rows))
     | Approve now pid \<Rightarrow> done_in rows (approve now pid rows)
     | Deny now pid \<Rightarrow> done_in rows (deny now pid rows)
     | Claim now pid \<Rightarrow> done_in rows (claim now pid rows)
     | Result nonce pid res \<Rightarrow> done_in rows (rbind (store_result A key nonce pid res rows) (\<lambda>rows'. Inr (False, rows'))))"

definition pa_step :: "'c aead \<Rightarrow> bytes \<Rightarrow> pa_event \<Rightarrow> 'c pending_row list \<Rightarrow> 'c pending_row list" where
  "pa_step A key ev rows = snd (pa_exec A key ev rows)"

fun pa_trace :: "'c aead \<Rightarrow> bytes \<Rightarrow> pa_event list \<Rightarrow> 'c pending_row list \<Rightarrow> (pa_event \<times> bool) list" where
  "pa_trace A key [] rows = []"
| "pa_trace A key (ev # evs) rows = (ev, fst (pa_exec A key ev rows)) # pa_trace A key evs (pa_step A key ev rows)"

section \<open>The life of one row\<close>

datatype move = Created | Approved | Denied | Executed

definition move_of :: "string \<Rightarrow> pa_event \<times> bool \<Rightarrow> move list" where
  "move_of pid t = (case t of
       (Create _ st _, True) \<Rightarrow> if s_uid st = pid then [Created] else []
     | (Approve _ p, True) \<Rightarrow> if p = pid then [Approved] else []
     | (Deny _ p, True) \<Rightarrow> if p = pid then [Denied] else []
     | (Claim _ p, True) \<Rightarrow> if p = pid then [Executed] else []
     | _ \<Rightarrow> [])"

definition moves_of :: "string \<Rightarrow> (pa_event \<times> bool) list \<Rightarrow> move list" where
  "moves_of pid tr = concat (map (move_of pid) tr)"

definition status_of :: "string \<Rightarrow> 'c pending_row list \<Rightarrow> string option" where
  "status_of pid rows = map_option pa_status (row_find pa_id pid rows)"

text \<open>The life cycle: what one operation may do to the status of one id, with the transition it reports.\<close>

inductive life :: "string option \<Rightarrow> move list \<Rightarrow> string option \<Rightarrow> bool" where
  life_stay: "life s [] s"
| life_create: "life None [Created] (Some ''pending'')"
| life_approve: "life (Some ''pending'') [Approved] (Some ''approved'')"
| life_deny: "life (Some ''pending'') [Denied] (Some ''denied'')"
| life_claim: "life (Some ''approved'') [Executed] (Some ''executed'')"
| life_expire: "life (Some ''pending'') [] (Some ''expired'')"

inductive_cases life_noneE: "life None ms s"
inductive_cases life_someE: "life (Some x) ms s"

lemma status_of_cas:
  assumes "cas now pid expected new rows = Inr (ok, rows')"
  shows "(ok \<longrightarrow> status_of pid rows = Some expected \<and> status_of pid rows' = Some new) \<and>
    (\<not> ok \<longrightarrow> rows' = rows) \<and> (q \<noteq> pid \<longrightarrow> status_of q rows' = status_of q rows)"
  using assms by (auto simp: cas_def status_of_def store_simps split: option.splits if_splits)

lemma life_cas:
  assumes "cas now pid expected new rows = r" and "life (Some expected) [mv] (Some new)"
  shows "life (status_of q rows) (if fst (done_in rows r) \<and> pid = q then [mv] else []) (status_of q (snd (done_in rows r)))"
proof (cases r)
  case (Inl e)
  then show ?thesis by (simp add: done_in_def life_stay)
next
  case (Inr x)
  with assms(1) have "cas now pid expected new rows = Inr (fst x, snd x)" by simp
  from status_of_cas [OF this, of q] Inr assms(2) show ?thesis
    by (cases "fst x"; cases "pid = q") (auto simp: done_in_def intro: life_stay)
qed

lemma move_of_cas:
  "move_of q (Approve now pid, ok) = (if ok \<and> pid = q then [Approved] else [])"
  "move_of q (Deny now pid, ok) = (if ok \<and> pid = q then [Denied] else [])"
  "move_of q (Claim now pid, ok) = (if ok \<and> pid = q then [Executed] else [])"
  "move_of q (Create s st p, ok) = (if ok \<and> s_uid st = q then [Created] else [])"
  "move_of q (ListAt s now, ok) = []"
  "move_of q (Result nonce pid res, ok) = []"
  by (auto simp: move_of_def split: bool.splits)

lemma status_of_sweep:
  "status_of q (map (sweep_row now) rows) = status_of q rows \<or>
   (status_of q rows = Some ''pending'' \<and> status_of q (map (sweep_row now) rows) = Some ''expired'')"
  by (cases "row_find pa_id q rows") (auto simp: status_of_def store_simps sweep_row_def)

lemma status_of_store_result: "store_result A key nonce pid res rows = Inr rows' \<Longrightarrow> status_of q rows' = status_of q rows"
  by (auto simp: store_result_def status_of_def store_simps rbind_Inr_iff option.map_comp comp_def split: option.splits if_splits)

lemma status_of_create:
  "create_pending A key s st p rows = Inr (i, rows') \<Longrightarrow>
   i = s_uid st \<and> status_of i rows = None \<and> status_of i rows' = Some ''pending'' \<and> (q \<noteq> i \<longrightarrow> status_of q rows' = status_of q rows)"
  by (auto simp: create_pending_def status_of_def row_find_append row_find_Cons simp flip: row_find_None_iff
      split: if_splits option.splits)

lemma pa_exec_life: "life (status_of q rows) (move_of q (ev, fst (pa_exec A key ev rows))) (status_of q (snd (pa_exec A key ev rows)))"
proof (cases ev)
  case (Create s st p)
  show ?thesis
  proof (cases "create_pending A key s st p rows")
    case (Inl e)
    with Create show ?thesis by (simp add: pa_exec_def done_in_def move_of_cas life_stay)
  next
    case (Inr x)
    then have "create_pending A key s st p rows = Inr (fst x, snd x)" by simp
    from status_of_create [OF this, of q] Inr Create show ?thesis
      by (cases "q = s_uid st") (auto simp: pa_exec_def done_in_def move_of_cas split: prod.splits intro: life.intros)
  qed
next
  case (ListAt s now)
  have "life (status_of q rows) [] (status_of q (map (sweep_row now) rows))"
    using status_of_sweep [of q now rows] by (auto intro: life.intros)
  with ListAt show ?thesis by (simp add: pa_exec_def move_of_cas list_pending_def Let_def)
next
  case (Result nonce pid res)
  then show ?thesis
    by (cases "store_result A key nonce pid res rows")
      (auto simp: pa_exec_def done_in_def move_of_cas status_of_store_result intro: life_stay)
qed (simp_all add: pa_exec_def move_of_cas life_cas [OF _ life_approve] life_cas [OF _ life_deny] life_cas [OF _ life_claim]
    approve_def deny_def claim_def)

text \<open>The transitions one id has gone through, read off its status.\<close>

definition past_of :: "string option \<Rightarrow> move list \<Rightarrow> bool" where
  "past_of s ms = ((s = None \<and> ms = []) \<or>
     ((s = Some ''pending'' \<or> s = Some ''expired'') \<and> ms = [Created]) \<or>
     (s = Some ''approved'' \<and> ms = [Created, Approved]) \<or>
     (s = Some ''denied'' \<and> ms = [Created, Denied]) \<or>
     (s = Some ''executed'' \<and> ms = [Created, Approved, Executed]))"

lemma past_of_life: "life s ms' s' \<Longrightarrow> past_of s ms \<Longrightarrow> past_of s' (ms @ ms')"
  by (induction rule: life.induct) (auto simp: past_of_def)

lemma past_of_trace:
  "past_of (status_of q rows) ms \<Longrightarrow> past_of (status_of q (fold (pa_step A key) evs rows)) (ms @ moves_of q (pa_trace A key evs rows))"
proof (induction evs arbitrary: rows ms)
  case (Cons ev evs)
  have "past_of (status_of q (pa_step A key ev rows)) (ms @ move_of q (ev, fst (pa_exec A key ev rows)))"
    using past_of_life [OF pa_exec_life Cons.prems] by (simp add: pa_step_def)
  from Cons.IH [OF this] show ?case by (simp add: moves_of_def)
qed (simp add: moves_of_def)

lemma status_of_Nil [simp]: "status_of q [] = None"
  by (simp add: status_of_def)

text \<open>
  C3: the approval state machine. In any interleaving of operations, by any number of stores and
  unlock sessions, at any clock, the transitions that succeed on one id are, in order, a prefix of
  created, approved, executed, or of created, denied. So an action is claimed for execution at most
  once, only after it was approved, never after a denial, and nothing is approved that was not parked.
\<close>

theorem pending_lifecycle:
  "prefix (moves_of pid (pa_trace A key evs [])) [Created, Approved, Executed] \<or>
   prefix (moves_of pid (pa_trace A key evs [])) [Created, Denied]"
proof -
  have "past_of (status_of pid []) []" by (simp add: past_of_def)
  from past_of_trace [OF this, of A key evs]
  show ?thesis by (auto simp: past_of_def)
qed

section \<open>The expiry clock\<close>

definition stale :: "int \<Rightarrow> 'c pending_row \<Rightarrow> bool" where
  "stale now r = (secs_between (pa_created r) now > ttl_for (pa_conv r))"

text \<open>
  expiry. Once more seconds have passed than the row's clock allows (an hour for a chat
  park, thirty days for a scheduled one), no approval, denial or claim of it succeeds at that or any later
  time, and each leaves the table as it was.
\<close>

theorem expired_never_moves:
  assumes "row_find pa_id pid rows = Some r" and "pid \<noteq> []" and "now \<le> later"
    and "secs_between (pa_created r) now > (if pa_conv r = None then 30 * 86400 else 3600)"
  shows "approve later pid rows = Inr (False, rows) \<and> deny later pid rows = Inr (False, rows) \<and>
    claim later pid rows = Inr (False, rows)"
proof -
  have "secs_between (pa_created r) later > ttl_for (pa_conv r)"
    using assms(4) secs_between_mono [OF assms(3), of "pa_created r"]
    by (auto simp: ttl_for_def CHAT_TTL_SECONDS_def SCHEDULED_TTL_SECONDS_def split: if_splits)
  with assms(1,2) show ?thesis by (simp add: approve_def deny_def claim_def cas_def)
qed

definition demo_park :: "string option \<Rightarrow> park" where
  "demo_park conv = \<lparr>pk_tool = ''task_add'', pk_tier = ''reviewed'', pk_args = JObj [(''title'', JStr ''rent'')],
     pk_conv = conv, pk_turn = Some ''t1'', pk_call = Some ''call_0'', pk_state = JNull\<rparr>"

definition demo_rows :: "(bytes \<times> bytes \<times> string \<times> plain) pending_row list" where
  "demo_rows = (case create_pending tagged_aead (replicate 32 0) ''s1'' (demo_stamp ''p1'' 0) (demo_park (Some ''c1'')) [] of
     Inr (_, rows) \<Rightarrow> rows | Inl _ \<Rightarrow> [])"

lemmas demo_pending_defs = demo_rows_def demo_park_def demo_stamp_def create_pending_def is_dict_def

theorem expired_never_moves_witness:
  "fst (done_in demo_rows (approve 3600000000 ''p1'' demo_rows)) \<and> approve 3601000000 ''p1'' demo_rows = Inr (False, demo_rows)"
proof -
  have "approve 3601000000 ''p1'' demo_rows = Inr (False, demo_rows)"
    using expired_never_moves [of "''p1''" demo_rows "hd demo_rows" 3601000000 3601000000]
    by (simp add: demo_pending_defs row_find_Cons secs_between_def MICROS_def)
  then show ?thesis
    by (simp add: done_in_def approve_def cas_def demo_pending_defs row_find_Cons secs_between_def MICROS_def
        ttl_for_def CHAT_TTL_SECONDS_def)
qed

section \<open>What a row holds\<close>

text \<open>
  A row that opens to the call parked as \<open>p\<close> under a session, with the result \<open>res\<close> (\<open>JNull\<close> while there
  is none).
\<close>

definition holds :: "'c aead \<Rightarrow> bytes \<Rightarrow> string \<Rightarrow> park \<Rightarrow> jval \<Rightarrow> 'c pending_row \<Rightarrow> bool" where
  "holds A key session p res r \<longleftrightarrow>
     (\<exists>body. pending_open A key (pa_id r) (pa_nonce r) (pa_ct r) = Inr body \<and> map_of body ''args'' = Some (pk_args p) \<and>
        map_of body ''session'' = Some (JStr session) \<and> body_get body ''turn_state'' = pk_state p \<and>
        body_get body ''result'' = res) \<and>
     pa_tool r = pk_tool p \<and> pa_tier r = pk_tier p \<and> pa_turn r = pk_turn p \<and> pa_conv r = pk_conv p \<and> pa_call r = pk_call p"

definition event_ok :: "pa_event \<Rightarrow> bool" where
  "event_ok ev = (case ev of Create _ st _ \<Rightarrow> stamp_ok st | Result nonce _ _ \<Rightarrow> length nonce = 12 | _ \<Rightarrow> True)"

definition row_kept :: "'c aead \<Rightarrow> bytes \<Rightarrow> string \<Rightarrow> string \<Rightarrow> park \<Rightarrow> jval \<Rightarrow> 'c pending_row list \<Rightarrow> bool" where
  "row_kept A key pid session p res rows = (\<exists>r. row_find pa_id pid rows = Some r \<and> holds A key session p res r)"

lemma holds_cong: "pa_id r' = pa_id r \<Longrightarrow> pa_nonce r' = pa_nonce r \<Longrightarrow> pa_ct r' = pa_ct r \<Longrightarrow> pa_tool r' = pa_tool r \<Longrightarrow>
    pa_tier r' = pa_tier r \<Longrightarrow> pa_turn r' = pa_turn r \<Longrightarrow> pa_conv r' = pa_conv r \<Longrightarrow> pa_call r' = pa_call r \<Longrightarrow>
    holds A key s p res r' = holds A key s p res r"
  by (simp add: holds_def)

lemma has_key_map_of: "map_of d k = Some v \<Longrightarrow> has_key d k"
  by (auto simp: has_key_iff)

lemma pending_open_seal:
  assumes "aead_roundtrip A" and "pid \<noteq> []" and "length nonce = 12" and "has_key body ''args''" and "has_key body ''session''"
  shows "pending_open A key pid nonce (aes_encrypt A key nonce (PJson (JObj body)) (pending_aad pid)) = Inr body"
  using assms by (simp add: pending_open_def aead_open_seal NONCE_BYTES_def)

lemma pending_body_fields [simp]:
  "map_of (pending_body s p) ''args'' = Some (pk_args p)" "map_of (pending_body s p) ''session'' = Some (JStr s)"
  "body_get (pending_body s p) ''turn_state'' = pk_state p" "body_get (pending_body s p) ''result'' = JNull"
  "has_key (pending_body s p) ''args''" "has_key (pending_body s p) ''session''"
  by (simp_all add: pending_body_def body_get_def has_key_def)

lemma create_row:
  assumes "aead_roundtrip A" and "stamp_ok st" and "create_pending A key s st p rows = Inr (pid, rows')"
  shows "\<exists>r. rows' = rows @ [r] \<and> holds A key s p JNull r \<and> pa_status r = ''pending'' \<and> pa_id r = s_uid st \<and> pa_created r = s_now st"
  using assms by (auto simp: create_pending_def holds_def pending_open_seal stamp_ok_def split: if_splits)

lemma create_kept:
  assumes "aead_roundtrip A" and "stamp_ok st" and "create_pending A key s st p rows = Inr (pid, rows')"
  shows "row_kept A key pid s p JNull rows' \<and> pid = s_uid st"
  using assms
  by (auto simp: create_pending_def row_kept_def row_find_append row_find_Cons holds_def pending_open_seal stamp_ok_def
      simp flip: row_find_None_iff split: if_splits option.splits)

lemma cas_kept: "cas now q e n rows = Inr (ok, rows') \<Longrightarrow> row_kept A key pid s p res rows \<Longrightarrow> row_kept A key pid s p res rows'"
  by (auto simp: cas_def row_kept_def row_find_update split: option.splits if_splits cong: holds_cong)

lemma sweep_fields [simp]:
  "pa_id (sweep_row now r) = pa_id r" "pa_created (sweep_row now r) = pa_created r" "pa_conv (sweep_row now r) = pa_conv r"
  "pa_nonce (sweep_row now r) = pa_nonce r" "pa_ct (sweep_row now r) = pa_ct r"
  by (simp_all add: sweep_row_def)

lemma holds_sweep: "holds A key s p res (sweep_row now r) = holds A key s p res r"
  by (rule holds_cong) (simp_all add: sweep_row_def)

lemma sweep_kept: "row_kept A key pid s p res rows \<Longrightarrow> row_kept A key pid s p res (map (sweep_row now) rows)"
  by (auto simp: row_kept_def row_find_map holds_sweep)

lemma pending_open_keys: "pending_open A key pid n c = Inr body \<Longrightarrow> has_key body ''args'' \<and> has_key body ''session'' \<and> pid \<noteq> []"
  by (auto simp: pending_open_def rbind_Inr_iff split: if_splits)

lemma has_key_dict_set: "has_key (dict_set d k v) k' \<longleftrightarrow> k' = k \<or> has_key d k'"
  by (simp add: has_key_def)

lemma holds_result:
  assumes "aead_roundtrip A" and "length nonce = 12" and "holds A key s p res r"
    and "pending_open A key (pa_id r) (pa_nonce r) (pa_ct r) = Inr body"
  shows "holds A key s p v (r\<lparr>pa_nonce := nonce,
    pa_ct := aes_encrypt A key nonce (PJson (JObj (dict_set body ''result'' v))) (pending_aad (pa_id r))\<rparr>)"
proof -
  have "pending_open A key (pa_id r) nonce
      (aes_encrypt A key nonce (PJson (JObj (dict_set body ''result'' v))) (pending_aad (pa_id r))) = Inr (dict_set body ''result'' v)"
    by (rule pending_open_seal [OF assms(1) _ assms(2)]) (use pending_open_keys [OF assms(4)] in \<open>auto simp: has_key_dict_set\<close>)
  with assms(3,4) show ?thesis by (simp add: holds_def body_get_def)
qed

lemma store_result_written:
  assumes "aead_roundtrip A" and "length nonce = 12" and "row_kept A key pid s p JNull rows"
    and "status_of pid rows = Some ''executed''" and "store_result A key nonce pid v rows = Inr rows'"
  shows "row_kept A key pid s p v rows'"
proof -
  from assms(3) obtain r where r: "row_find pa_id pid rows = Some r" and h: "holds A key s p JNull r"
    by (auto simp: row_kept_def)
  then have id: "pa_id r = pid" by (auto dest: row_find_Some)
  from h obtain body where body: "pending_open A key (pa_id r) (pa_nonce r) (pa_ct r) = Inr body" "body_get body ''result'' = JNull"
    by (auto simp: holds_def)
  from holds_result [OF assms(1,2) h body(1), of v] assms(4,5) r id body show ?thesis
    by (auto simp: store_result_def status_of_def row_kept_def row_find_update split: if_splits)
qed

lemma store_result_other: "store_result A key nonce q v rows = Inr rows' \<Longrightarrow> q \<noteq> pid \<Longrightarrow> row_find pa_id pid rows' = row_find pa_id pid rows"
  by (auto simp: store_result_def rbind_Inr_iff row_find_update split: option.splits if_splits)

lemma store_result_again:
  assumes "store_result A key nonce pid v rows = Inr rows'" and "row_kept A key pid s p res rows"
    and "res \<noteq> JNull \<or> status_of pid rows \<noteq> Some ''executed''"
  shows "rows' = rows"
proof -
  from assms(2) obtain r where r: "row_find pa_id pid rows = Some r" "holds A key s p res r" by (auto simp: row_kept_def)
  then have "pa_id r = pid" by (auto dest: row_find_Some)
  with r assms(1,3) show ?thesis
    by (auto simp: store_result_def status_of_def holds_def rbind_Inr_iff split: if_splits)
qed

lemma store_result_kept_out:
  "store_result A key nonce q v rows = Inr rows' \<Longrightarrow> row_kept A key pid s p res rows \<Longrightarrow>
   res \<noteq> JNull \<or> q \<noteq> pid \<or> status_of pid rows \<noteq> Some ''executed'' \<Longrightarrow> row_kept A key pid s p res rows'"
  using store_result_again [of A key nonce pid v rows rows'] store_result_other [of A key nonce q v rows rows' pid]
  by (cases "q = pid") (auto simp: row_kept_def)

lemma result_kept:
  assumes "aead_roundtrip A" and "length nonce = 12" and "store_result A key nonce q v rows = Inr rows'"
    and kept: "row_kept A key pid s p res rows"
  shows "\<exists>res'. row_kept A key pid s p res' rows' \<and> (res \<noteq> JNull \<longrightarrow> res' = res)"
proof (cases "res \<noteq> JNull \<or> q \<noteq> pid \<or> status_of pid rows \<noteq> Some ''executed''")
  case True
  with store_result_kept_out [OF assms(3) kept] show ?thesis by blast
next
  case False
  with store_result_written [OF assms(1,2), of key pid s p rows v rows'] assms(3) kept show ?thesis by blast
qed

lemma step_kept:
  assumes "aead_roundtrip A" and "event_ok ev" and "row_kept A key pid s p res rows"
  shows "\<exists>res'. row_kept A key pid s p res' (pa_step A key ev rows) \<and> (res \<noteq> JNull \<longrightarrow> res' = res)"
proof (cases ev)
  case (Create s' st p')
  have "row_kept A key pid s p res (pa_step A key ev rows)"
    using assms(3) Create
    by (auto simp: pa_step_def pa_exec_def done_in_def create_pending_def row_kept_def row_find_append split: if_splits)
  then show ?thesis by blast
next
  case (ListAt s' now)
  with assms(3) show ?thesis by (auto simp: pa_step_def pa_exec_def list_pending_def Let_def intro: sweep_kept)
next
  case (Result nonce q v)
  show ?thesis
  proof (cases "store_result A key nonce q v rows")
    case (Inl e)
    with Result assms(3) show ?thesis by (auto simp: pa_step_def pa_exec_def done_in_def)
  next
    case (Inr rows')
    with Result result_kept [OF assms(1) _ Inr assms(3)] assms(2) show ?thesis
      by (simp add: pa_step_def pa_exec_def done_in_def event_ok_def)
  qed
qed (use assms(3) in \<open>auto simp: pa_step_def pa_exec_def done_in_def approve_def deny_def claim_def
      split: sum.splits intro: cas_kept\<close>)

lemma run_kept:
  "aead_roundtrip A \<Longrightarrow> \<forall>ev \<in> set evs. event_ok ev \<Longrightarrow> row_kept A key pid s p res rows \<Longrightarrow>
   \<exists>res'. row_kept A key pid s p res' (fold (pa_step A key) evs rows) \<and> (res \<noteq> JNull \<longrightarrow> res' = res)"
proof (induction evs arbitrary: rows res)
  case (Cons ev evs)
  from step_kept [OF Cons.prems(1) _ Cons.prems(3)] Cons.prems(2)
  obtain res1 where 1: "row_kept A key pid s p res1 (pa_step A key ev rows)" "res \<noteq> JNull \<longrightarrow> res1 = res"
    by auto
  from Cons.IH [OF Cons.prems(1) _ 1(1)] Cons.prems(2) 1(2) show ?case by auto
qed auto

lemma get_kept:
  assumes "row_kept A key pid s p res rows" and "pid \<noteq> []"
  shows "\<exists>r. row_find pa_id pid rows = Some r \<and> get_pending A key s' now pid rows = Inr (if s' = s then Some \<lparr>pv_id = pid,
      pv_tool = pk_tool p, pv_tier = pk_tier p, pv_status = pa_status r, pv_args = pk_args p, pv_result = res,
      pv_state = pk_state p, pv_turn = pk_turn p, pv_expired = stale now r\<rparr> else None)"
proof -
  from assms(1) obtain r where "row_find pa_id pid rows = Some r" "holds A key s p res r" by (auto simp: row_kept_def)
  with assms(2) show ?thesis
    by (auto simp: get_pending_def holds_def same_session_def body_get_def stale_def dest: row_find_Some)
qed

text \<open>
  what is approved is what was parked. After any further operations, by any sessions, the row
  still reads back with the very tool, tier, arguments, turn and turn state it was parked with, to the unlock
  session that parked it and to no other: every other session sees no such action.
\<close>

theorem parked_call_fixed:
  assumes "aead_roundtrip A" and "stamp_ok st" and "create_pending A key session st p rows = Inr (pid, rows1)"
    and "\<forall>ev \<in> set evs. event_ok ev"
  shows "\<exists>v. get_pending A key session now pid (fold (pa_step A key) evs rows1) = Inr (Some v) \<and>
      pv_tool v = pk_tool p \<and> pv_tier v = pk_tier p \<and> pv_args v = pk_args p \<and> pv_state v = pk_state p \<and> pv_turn v = pk_turn p \<and>
      (\<forall>other. other \<noteq> session \<longrightarrow> get_pending A key other now pid (fold (pa_step A key) evs rows1) = Inr None)"
proof -
  from create_kept [OF assms(1,2,3)] assms(2)
  have "row_kept A key pid session p JNull rows1" and pid: "pid \<noteq> []" by (auto simp: stamp_ok_def)
  from run_kept [OF assms(1,4) this(1)]
  obtain res where k: "row_kept A key pid session p res (fold (pa_step A key) evs rows1)" by blast
  show ?thesis
    using get_kept [OF k pid, of session now] get_kept [OF k pid, of _ now] by fastforce
qed

definition demo_evs :: "pa_event list" where
  "demo_evs = [ListAt ''s2'' 10, Approve 20 ''p1'', Claim 30 ''p1'', Result (replicate 12 1) ''p1'' (JObj [(''ok'', JBool True)]),
     Result (replicate 12 2) ''p1'' (JObj [(''ok'', JBool False)])]"

lemma demo_create: "create_pending tagged_aead (replicate 32 0) ''s1'' (demo_stamp ''p1'' 0) (demo_park (Some ''c1'')) [] = Inr (''p1'', demo_rows)"
  by (simp add: demo_pending_defs)

theorem parked_call_fixed_witness:
  "get_pending tagged_aead (replicate 32 0) ''s2'' 40 ''p1'' (fold (pa_step tagged_aead (replicate 32 0)) demo_evs demo_rows) = Inr None"
  using parked_call_fixed [OF tagged_aead_roundtrip _ demo_create, of demo_evs 40]
  by (auto simp: demo_stamp_def stamp_ok_def demo_evs_def event_ok_def)

text \<open>
  a result is written once. When an executed action has a result stored, no later operation
  (a second execution's result, a sweep, any transition attempt) changes what the parked turn
  resumes with.
\<close>

theorem result_written_once:
  assumes "aead_roundtrip A" and "stamp_ok st" and "create_pending A key session st p rows = Inr (pid, rows1)"
    and "\<forall>ev \<in> set (evs @ evs'). event_ok ev"
    and "get_pending A key session now pid (fold (pa_step A key) evs rows1) = Inr (Some v)" and "pv_result v \<noteq> JNull"
  shows "\<exists>v'. get_pending A key session later pid (fold (pa_step A key) (evs @ evs') rows1) = Inr (Some v') \<and> pv_result v' = pv_result v"
proof -
  from create_kept [OF assms(1,2,3)] assms(2)
  have "row_kept A key pid session p JNull rows1" and pid: "pid \<noteq> []" by (auto simp: stamp_ok_def)
  from run_kept [OF assms(1) _ this(1), of evs] assms(4)
  obtain res where k: "row_kept A key pid session p res (fold (pa_step A key) evs rows1)" by auto
  from get_kept [OF k pid, of session now] assms(5) have res: "pv_result v = res" by auto
  from run_kept [OF assms(1) _ k, of evs'] assms(4,6) res
  have "row_kept A key pid session p res (fold (pa_step A key) (evs @ evs') rows1)" by auto
  from get_kept [OF this pid, of session later] res show ?thesis by auto
qed

lemma demo_first_result:
  "\<exists>v. get_pending tagged_aead (replicate 32 0) ''s1'' 40 ''p1'' (fold (pa_step tagged_aead (replicate 32 0)) (take 4 demo_evs) demo_rows) = Inr (Some v) \<and>
     pv_result v = JObj [(''ok'', JBool True)]"
proof -
  have "(case get_pending tagged_aead (replicate 32 0) ''s1'' 40 ''p1'' (fold (pa_step tagged_aead (replicate 32 0)) (take 4 demo_evs) demo_rows) of
      Inr (Some v) \<Rightarrow> pv_result v = JObj [(''ok'', JBool True)] | _ \<Rightarrow> False)"
    by code_simp
  then show ?thesis by (auto split: sum.splits option.splits)
qed

theorem result_written_once_witness:
  "\<exists>v. get_pending tagged_aead (replicate 32 0) ''s1'' 50 ''p1'' (fold (pa_step tagged_aead (replicate 32 0)) demo_evs demo_rows) = Inr (Some v) \<and>
     pv_result v = JObj [(''ok'', JBool True)]"
proof -
  obtain v where v: "get_pending tagged_aead (replicate 32 0) ''s1'' 40 ''p1'' (fold (pa_step tagged_aead (replicate 32 0)) (take 4 demo_evs) demo_rows) = Inr (Some v)"
    "pv_result v = JObj [(''ok'', JBool True)]"
    using demo_first_result by blast
  have ok: "stamp_ok (demo_stamp ''p1'' 0)" "\<forall>ev \<in> set (take 4 demo_evs @ drop 4 demo_evs). event_ok ev"
    by (auto simp: demo_stamp_def stamp_ok_def demo_evs_def event_ok_def)
  show ?thesis
    using result_written_once [OF tagged_aead_roundtrip ok(1) demo_create ok(2) v(1), of 50] v(2) by auto
qed

section \<open>The list and the button\<close>

lemma open_row_Inr: "open_row A key r = Inr rb \<longleftrightarrow> (\<exists>body. pending_open A key (pa_id r) (pa_nonce r) (pa_ct r) = Inr body \<and> rb = (r, body))"
  by (auto simp: open_row_def rbind_Inr_iff)

lemma rmap_open_set:
  "rmap (open_row A key) rs = Inr opened \<Longrightarrow>
   (r, body) \<in> set opened \<longleftrightarrow> r \<in> set rs \<and> pending_open A key (pa_id r) (pa_nonce r) (pa_ct r) = Inr body"
  by (induction rs arbitrary: opened) (auto simp: rbind_Inr_iff open_row_Inr)

lemma tiles_iff:
  assumes "list_pending A key s now rows = (Inr tiles, rows')"
    and "length (filter (\<lambda>r. pa_status r = ''pending'') rows') \<le> 200"
  shows "e \<in> set tiles \<longleftrightarrow> (\<exists>r body. r \<in> set rows' \<and> pa_status r = ''pending'' \<and>
      pending_open A key (pa_id r) (pa_nonce r) (pa_ct r) = Inr body \<and> same_session s body \<and> e = tile_of r body)"
proof -
  let ?page = "order_by created_desc (filter (\<lambda>r. pa_status r = ''pending'') rows')"
  from assms have rows': "rows' = map (sweep_row now) rows" by (simp add: list_pending_def Let_def)
  from assms(2) have "take PENDING_LIST_LIMIT ?page = ?page" by (simp add: PENDING_LIST_LIMIT_def)
  with assms(1) obtain opened where o: "rmap (open_row A key) ?page = Inr opened"
    and t: "tiles = [tile_of r body. (r, body) \<leftarrow> opened, same_session s body]"
    by (auto simp: list_pending_def Let_def rbind_Inr_iff rows')
  from rmap_open_set [OF o] show ?thesis unfolding t by force
qed

lemma sweep_pending: "pa_status (sweep_row now r) = ''pending'' \<Longrightarrow> pa_status r = ''pending'' \<and> \<not> stale now (sweep_row now r)"
  by (auto simp: sweep_row_def stale_def split: if_splits)

lemma cas_True:
  "pid \<noteq> [] \<Longrightarrow> e \<noteq> [] \<Longrightarrow> n \<noteq> [] \<Longrightarrow>
   (\<exists>rows'. cas now pid e n rows = Inr (True, rows')) \<longleftrightarrow>
   (\<exists>r. row_find pa_id pid rows = Some r \<and> pa_status r = e \<and> \<not> stale now r)"
  by (auto simp: cas_def stale_def split: option.splits)

lemma get_Some_iff:
  assumes "pid \<noteq> []" and "row_find pa_id pid rows = Some r"
  shows "(\<exists>v. get_pending A key s now pid rows = Inr (Some v)) \<longleftrightarrow>
    (\<exists>body. pending_open A key (pa_id r) (pa_nonce r) (pa_ct r) = Inr body \<and> same_session s body)"
  using assms row_find_Some [OF assms(2)] by (auto simp: get_pending_def rbind_Inr_iff)

text \<open>
  the list and the button agree. With at most two hundred actions waiting, what \<open>list_pending\<close> shows a
  session at an instant is exactly what that session can read and approve at that instant: no tile the
  approve step would refuse as expired or resolved, and nothing approvable that is not shown.
\<close>

theorem list_matches_approve:
  assumes "list_pending A key s now rows = (Inr tiles, rows')" and "distinct (map pa_id rows)" and "pid \<noteq> []"
    and "length (filter (\<lambda>r. pa_status r = ''pending'') rows') \<le> 200"
  shows "(\<exists>e \<in> set tiles. tl_id e = pid) \<longleftrightarrow>
    (\<exists>v. get_pending A key s now pid rows' = Inr (Some v)) \<and> (\<exists>rows''. approve now pid rows' = Inr (True, rows''))"
proof -
  from assms(1) have rows': "rows' = map (sweep_row now) rows" by (simp add: list_pending_def Let_def)
  have "map pa_id rows' = map pa_id rows" by (simp add: rows')
  with assms(2) have d: "distinct (map pa_id rows')" by simp
  have fresh: "\<not> stale now r" if "r \<in> set rows'" "pa_status r = ''pending''" for r
    using that sweep_pending by (auto simp: rows')
  show ?thesis (is "?l \<longleftrightarrow> ?r")
  proof
    assume ?l
    then obtain r body where r: "r \<in> set rows'" "pa_status r = ''pending''" "pa_id r = pid"
      "pending_open A key (pa_id r) (pa_nonce r) (pa_ct r) = Inr body" "same_session s body"
      by (auto simp: tiles_iff [OF assms(1,4)] tile_of_def)
    from row_find_in [OF d r(1)] r(3) have f: "row_find pa_id pid rows' = Some r" by simp
    with r fresh assms(3) show ?r
      by (auto simp: get_Some_iff approve_def cas_True)
  next
    assume ?r
    then obtain r where f: "row_find pa_id pid rows' = Some r" "pa_status r = ''pending''"
      using assms(3) by (auto simp: approve_def cas_True)
    from row_find_Some [OF f(1)] have r: "r \<in> set rows'" "pa_id r = pid" by auto
    from \<open>?r\<close> get_Some_iff [OF assms(3) f(1)] obtain body
      where b: "pending_open A key (pa_id r) (pa_nonce r) (pa_ct r) = Inr body" "same_session s body" by auto
    then have "tile_of r body \<in> set tiles"
      unfolding tiles_iff [OF assms(1,4)] using r f(2) by blast
    moreover have "tl_id (tile_of r body) = pid" by (simp add: tile_of_def r(2))
    ultimately show ?l by blast
  qed
qed

lemma demo_list: "list_pending tagged_aead (replicate 32 0) ''s1'' 7 demo_rows =
    (Inr [tile_of (hd demo_rows) (pending_body ''s1'' (demo_park (Some ''c1'')))], demo_rows)"
  by (simp add: list_pending_def demo_pending_defs sweep_row_def secs_between_def MICROS_def ttl_for_def CHAT_TTL_SECONDS_def
      PENDING_LIST_LIMIT_def open_row_def pending_open_seal [OF tagged_aead_roundtrip] same_session_def)

theorem list_matches_approve_witness:
  "\<exists>v. get_pending tagged_aead (replicate 32 0) ''s1'' 7 ''p1'' demo_rows = Inr (Some v)"
  using list_matches_approve [OF demo_list, of "''p1''"]
  by (simp add: tile_of_def) (simp add: demo_pending_defs)

lemma executed_final: "status_of q rows = Some ''executed'' \<Longrightarrow> status_of q (fold (pa_step A key) evs rows) = Some ''executed''"
proof (induction evs arbitrary: rows)
  case (Cons ev evs)
  have "life (Some ''executed'') (move_of q (ev, fst (pa_exec A key ev rows))) (status_of q (pa_step A key ev rows))"
    using pa_exec_life [of q rows ev A key] Cons.prems by (simp add: pa_step_def)
  then have "status_of q (pa_step A key ev rows) = Some ''executed''"
    by (rule life_someE) auto
  with Cons.IH show ?case by simp
qed simp

lemma denied_final: "status_of q rows = Some ''denied'' \<Longrightarrow> status_of q (fold (pa_step A key) evs rows) = Some ''denied''"
proof (induction evs arbitrary: rows)
  case (Cons ev evs)
  have "life (Some ''denied'') (move_of q (ev, fst (pa_exec A key ev rows))) (status_of q (pa_step A key ev rows))"
    using pa_exec_life [of q rows ev A key] Cons.prems by (simp add: pa_step_def)
  then have "status_of q (pa_step A key ev rows) = Some ''denied''"
    by (rule life_someE) auto
  with Cons.IH show ?case by simp
qed simp

lemma cas_won:
  "cas now pid e n rows = Inr (True, rows') \<Longrightarrow>
   \<exists>r. row_find pa_id pid rows = Some r \<and> pa_status r = e \<and> \<not> stale now r \<and> status_of pid rows' = Some n"
  by (auto simp: cas_def stale_def status_of_def row_find_update split: option.splits if_splits)

lemma cas_ids: "cas now pid e n rows = Inr (ok, rows') \<Longrightarrow> map pa_id rows' = map pa_id rows"
  by (auto simp: cas_def split: option.splits if_splits)

end
