(* ===== verification/Tool_Run.thy ===== *)
theory Tool_Run
  imports Consent Audit_Log Approvals
begin

text \<open>
  The one path to a tool handler: \<open>tools.run\<close> of \<open>app/smartbrain_3000/tools.py\<close>, over the audit
  log, the approval store and the handlers. A handler is code of other components: a parameter that
  takes the validated arguments and the world it acts on, and returns or raises. Identifiers,
  nonces and clock readings come from a supply, one per use, so a statement holds whatever they are.
\<close>

text \<open>What a request runs with: the cipher, the key, the unlock session, the supply, the origin, the handlers.\<close>

record ('c, 'w) env =
  e_aead :: "'c aead"
  e_key :: bytes
  e_session :: string
  e_stamp :: "nat \<Rightarrow> stamp"
  e_via :: "string option"
  e_handler :: "string \<Rightarrow> jdict \<Rightarrow> 'w \<Rightarrow> jval result \<times> 'w"
  e_prevalidate :: "string \<Rightarrow> jdict \<Rightarrow> string option"

text \<open>
  What it changes: the supply's position, the three tables, the handlers' world, and the guard set of
  the automatic resume with the worker threads it started.
\<close>

record ('c, 'w) sys =
  y_tick :: nat
  y_audit :: "'c audit_row list"
  y_pending :: "'c pending_row list"
  y_meta :: meta
  y_world :: 'w
  y_resuming :: "string set"
  y_started :: "(string \<times> string) list"

definition now_stamp :: "('c, 'w) env \<Rightarrow> ('c, 'w) sys \<Rightarrow> stamp" where
  "now_stamp E s = e_stamp E (y_tick s)"

definition ticked :: "('c, 'w) sys \<Rightarrow> ('c, 'w) sys" where
  "ticked s = s\<lparr>y_tick := Suc (y_tick s)\<rparr>"

definition audit_log :: "('c, 'w) env \<Rightarrow> audit_call \<Rightarrow> ('c, 'w) sys \<Rightarrow> string result \<times> ('c, 'w) sys" where
  "audit_log E c s = (case audit_append (e_aead E) (e_key E) (now_stamp E s) (e_via E) c (y_audit s) of
       Inl e \<Rightarrow> (Inl e, ticked s)
     | Inr (aid, rows) \<Rightarrow> (Inr aid, ticked s\<lparr>y_audit := rows\<rparr>))"

text \<open>The claims the callers pass: none, the standing \<open>GRANTED\<close>, or the claim of a pending row.\<close>

datatype claim_arg = No_claim | Granted | Claim_row string

definition take_claim :: "('c, 'w) env \<Rightarrow> claim_arg \<Rightarrow> ('c, 'w) sys \<Rightarrow> bool result \<times> ('c, 'w) sys" where
  "take_claim E c s = (case c of
       Claim_row pid \<Rightarrow> (case claim (s_now (now_stamp E s)) pid (y_pending s) of
           Inl e \<Rightarrow> (Inl e, ticked s)
         | Inr (ok, rows) \<Rightarrow> (Inr ok, ticked s\<lparr>y_pending := rows\<rparr>))
     | _ \<Rightarrow> (Inr True, s))"

text \<open>\<open>str(exc)\<close>.\<close>

definition err_text :: "pyerr \<Rightarrow> string" where
  "err_text e = (case e of Assertion m \<Rightarrow> m | ValueErr m \<Rightarrow> m | PermissionErr m \<Rightarrow> m | InvalidTag \<Rightarrow> []
     | Overflow \<Rightarrow> ''date value out of range'' | Gateway _ m \<Rightarrow> m | Http _ m \<Rightarrow> m | OtherErr m \<Rightarrow> m)"

record run_args =
  rn_actor :: string
  rn_tool :: string
  rn_args :: jval
  rn_conv :: "string option"
  rn_claim :: claim_arg

definition run_call :: "run_args \<Rightarrow> tool \<Rightarrow> string \<Rightarrow> bool \<Rightarrow> jval \<Rightarrow> string \<Rightarrow> string \<Rightarrow> audit_call" where
  "run_call a t decision ok args result err =
     \<lparr>ac_actor = rn_actor a, ac_tool = rn_tool a, ac_tier = tier_value (t_tier t), ac_decision = decision, ac_ok = ok,
      ac_conv = rn_conv a, ac_args = summarize args, ac_result = result, ac_error = err\<rparr>"

text \<open>Audit a refusal, then raise: an exception of \<open>append\<close> itself comes first.\<close>

definition refuse :: "('c, 'w) env \<Rightarrow> audit_call \<Rightarrow> pyerr \<Rightarrow> ('c, 'w) sys \<Rightarrow> jval result \<times> ('c, 'w) sys" where
  "refuse E c e s = (let l = audit_log E c s in ((case fst l of Inl e' \<Rightarrow> Inl e' | Inr _ \<Rightarrow> Inl e), snd l))"

text \<open>The \<open>try\<close> block around the handler: the success row is written inside it.\<close>

definition call_handler ::
  "('c, 'w) env \<Rightarrow> run_args \<Rightarrow> tool \<Rightarrow> jdict \<Rightarrow> ('c, 'w) sys \<Rightarrow> jval result \<times> ('c, 'w) sys" where
  "call_handler E a t validated s =
     (let decision = (if t_tier t = OBSERVE then ''auto'' else ''executed'');
          failed = (\<lambda>e s. refuse E (run_call a t ''errored'' False (JObj validated) [] (err_text e)) e s);
          h = e_handler E (rn_tool a) validated (y_world s);
          s1 = s\<lparr>y_world := snd h\<rparr>
      in case fst h of
           Inl e \<Rightarrow> failed e s1
         | Inr result \<Rightarrow>
             (let l = audit_log E (run_call a t decision True (JObj validated) (summarize result) []) s1
              in case fst l of Inr _ \<Rightarrow> (Inr result, snd l) | Inl e \<Rightarrow> failed e (snd l)))"

definition validate_any :: "tool \<Rightarrow> jval \<Rightarrow> jdict result" where
  "validate_any t v = (case v of JObj args \<Rightarrow> validate_args t args | _ \<Rightarrow> Inl (Assertion ''args must be a dict''))"

definition tool_run :: "('c, 'w) env \<Rightarrow> run_args \<Rightarrow> ('c, 'w) sys \<Rightarrow> jval result \<times> ('c, 'w) sys" where
  "tool_run E a s = (case get_tool (rn_tool a) of
       None \<Rightarrow> (Inl (Assertion ''unknown tool''), s)
     | Some t \<Rightarrow>
         if t_tier t \<noteq> OBSERVE \<and> rn_claim a = No_claim
           then (Inl (Assertion ''non-OBSERVE tools require an approval claim''), s)
         else if t_tier t = IRREVERSIBLE \<and> rn_claim a = Granted
           then refuse E (run_call a t ''errored'' False (rn_args a) [] ''irreversible tools require per-action approval'')
                  (PermissionErr (rn_tool a @ '': irreversible tools cannot use a standing claim'')) s
         else case validate_any t (rn_args a) of
           Inl e \<Rightarrow> (case e of
               ValueErr m \<Rightarrow> refuse E (run_call a t ''errored'' False (rn_args a) [] (''invalid args: '' @ m)) e s
             | _ \<Rightarrow> (Inl e, s))
         | Inr validated \<Rightarrow>
             (let c = (if t_tier t = OBSERVE then (Inr True, s) else take_claim E (rn_claim a) s)
              in case fst c of
                Inl e \<Rightarrow> (Inl e, snd c)
              | Inr won \<Rightarrow>
                  if \<not> won then refuse E (run_call a t ''errored'' False (JObj validated) [] ''approval not claimable'')
                    (PermissionErr (rn_tool a @ '': approval not claimable'')) (snd c)
                  else call_handler E a t validated (snd c)))"

section \<open>Who may reach a handler\<close>

text \<open>The supply gives usable stamps whose identifiers are new, as \<open>uuid4\<close> does.\<close>

definition supply_ok :: "('c, 'w) env \<Rightarrow> ('c, 'w) sys \<Rightarrow> bool" where
  "supply_ok E s \<longleftrightarrow> (\<forall>n. stamp_ok (e_stamp E n)) \<and> inj (\<lambda>n. s_uid (e_stamp E n)) \<and>
     (\<forall>n \<ge> y_tick s. s_uid (e_stamp E n) \<notin> au_id ` set (y_audit s) \<and> s_uid (e_stamp E n) \<notin> pa_id ` set (y_pending s))"

lemma ticked_fields [simp]:
  "y_tick (ticked s) = Suc (y_tick s)" "y_audit (ticked s) = y_audit s" "y_pending (ticked s) = y_pending s"
  "y_meta (ticked s) = y_meta s" "y_world (ticked s) = y_world s" "y_resuming (ticked s) = y_resuming s"
  "y_started (ticked s) = y_started s"
  by (simp_all add: ticked_def)

lemma refuse_result: "\<exists>e'. fst (refuse E c e s) = Inl e'"
  by (simp add: refuse_def Let_def split: sum.splits)

lemma refuse_raises [simp]: "fst (refuse E c e s) \<noteq> Inr v"
  using refuse_result [of E c e s] by auto

lemma audit_log_fields [simp]:
  "y_pending (snd (audit_log E c s)) = y_pending s" "y_meta (snd (audit_log E c s)) = y_meta s"
  "y_world (snd (audit_log E c s)) = y_world s" "y_tick (snd (audit_log E c s)) = Suc (y_tick s)"
  by (auto simp: audit_log_def split: sum.split prod.split)

lemma refuse_fields [simp]:
  "y_pending (snd (refuse E c e s)) = y_pending s" "y_meta (snd (refuse E c e s)) = y_meta s"
  "y_world (snd (refuse E c e s)) = y_world s" "y_tick (snd (refuse E c e s)) = Suc (y_tick s)"
  by (simp_all add: refuse_def Let_def)

lemma call_handler_fields [simp]:
  "y_world (snd (call_handler E a t v s)) = snd (e_handler E (rn_tool a) v (y_world s))"
  "y_pending (snd (call_handler E a t v s)) = y_pending s" "y_meta (snd (call_handler E a t v s)) = y_meta s"
  by (simp_all add: call_handler_def Let_def split: sum.split)

lemma take_claim_fields [simp]:
  "y_world (snd (take_claim E c s)) = y_world s" "y_audit (snd (take_claim E c s)) = y_audit s"
  "y_meta (snd (take_claim E c s)) = y_meta s" "y_tick s \<le> y_tick (snd (take_claim E c s))"
  by (auto simp: take_claim_def split: claim_arg.split sum.split)

lemma take_claim_won:
  assumes "fst (take_claim E (Claim_row pid) s) = Inr True"
  shows "\<exists>r. row_find pa_id pid (y_pending s) = Some r \<and> pa_status r = ''approved'' \<and> \<not> stale (s_now (now_stamp E s)) r \<and>
    status_of pid (y_pending (snd (take_claim E (Claim_row pid) s))) = Some ''executed''"
  using assms by (auto simp: take_claim_def claim_def dest: cas_won split: sum.splits prod.splits)

lemma tool_run_cases:
  assumes "y_world (snd (tool_run E a s)) \<noteq> y_world s"
  obtains t d v s1 where "get_tool (rn_tool a) = Some t" "rn_args a = JObj d" "validate_args t d = Inr v"
    "tool_run E a s = call_handler E a t v s1" "y_world s1 = y_world s"
    "t_tier t = OBSERVE \<or> fst (take_claim E (rn_claim a) s) = Inr True \<and> s1 = snd (take_claim E (rn_claim a) s)"
    "t_tier t = IRREVERSIBLE \<Longrightarrow> rn_claim a \<noteq> Granted" "t_tier t \<noteq> OBSERVE \<Longrightarrow> rn_claim a \<noteq> No_claim"
proof -
  from assms obtain t where t: "get_tool (rn_tool a) = Some t"
    by (cases "get_tool (rn_tool a)") (auto simp: tool_run_def)
  from assms t have c1: "\<not> (t_tier t \<noteq> OBSERVE \<and> rn_claim a = No_claim)" and c2: "\<not> (t_tier t = IRREVERSIBLE \<and> rn_claim a = Granted)"
    by (auto simp: tool_run_def)
  from assms t c1 c2 obtain v where v: "validate_any t (rn_args a) = Inr v"
    by (cases "validate_any t (rn_args a)") (auto simp: tool_run_def split: pyerr.splits)
  then obtain d where d: "rn_args a = JObj d" "validate_args t d = Inr v"
    by (auto simp: validate_any_def split: jval.splits)
  let ?c = "if t_tier t = OBSERVE then (Inr True, s) else take_claim E (rn_claim a) s"
  have won: "fst ?c = Inr True"
    using assms t c1 c2 v by (cases "fst ?c") (auto simp: tool_run_def Let_def split: if_splits)
  then have run: "tool_run E a s = call_handler E a t v (snd ?c)"
    using t c1 c2 v by (auto simp: tool_run_def Let_def)
  show thesis
    by (rule that [OF t d run]) (use won c1 c2 in \<open>auto split: if_splits\<close>)
qed

lemma run_outcome:
  assumes "y_world (snd (tool_run E a s)) \<noteq> y_world s"
  shows "\<exists>t d v. get_tool (rn_tool a) = Some t \<and> rn_args a = JObj d \<and> validate_args t d = Inr v \<and>
    y_world (snd (tool_run E a s)) = snd (e_handler E (rn_tool a) v (y_world s))"
  using assms by (rule tool_run_cases) auto

text \<open>
  C8: authority lives in the registry. If a call of \<open>run\<close> touches the world at all, it did so by one call of
  that tool's handler on arguments that passed validation, and the tool is one that only observes, or a
  reviewed one under a standing consent, or the call won the claim of a row the user had approved, unexpired at
  that instant, which is now spent. For an irreversible tool only the last is possible.
\<close>

theorem run_authority:
  assumes "y_world (snd (tool_run E a s)) \<noteq> y_world s"
  shows "\<exists>t d v. get_tool (rn_tool a) = Some t \<and> rn_args a = JObj d \<and> validate_args t d = Inr v \<and>
    y_world (snd (tool_run E a s)) = snd (e_handler E (rn_tool a) v (y_world s)) \<and>
    (t_tier t = OBSERVE \<or> (t_tier t = REVIEWED \<and> rn_claim a = Granted) \<or>
     (\<exists>pid r. rn_claim a = Claim_row pid \<and> row_find pa_id pid (y_pending s) = Some r \<and> pa_status r = ''approved'' \<and>
        \<not> stale (s_now (now_stamp E s)) r \<and> status_of pid (y_pending (snd (tool_run E a s))) = Some ''executed''))"
  using assms
proof (rule tool_run_cases)
  fix t d v s1
  assume *: "get_tool (rn_tool a) = Some t" "rn_args a = JObj d" "validate_args t d = Inr v"
    "tool_run E a s = call_handler E a t v s1" "y_world s1 = y_world s"
    "t_tier t = OBSERVE \<or> fst (take_claim E (rn_claim a) s) = Inr True \<and> s1 = snd (take_claim E (rn_claim a) s)"
    "t_tier t = IRREVERSIBLE \<Longrightarrow> rn_claim a \<noteq> Granted" "t_tier t \<noteq> OBSERVE \<Longrightarrow> rn_claim a \<noteq> No_claim"
  show ?thesis
  proof (cases "\<exists>pid. rn_claim a = Claim_row pid")
    case True
    with * take_claim_won [of E _ s] show ?thesis by auto
  next
    case False
    then have "rn_claim a = Granted \<or> rn_claim a = No_claim" by (cases "rn_claim a") auto
    with * show ?thesis by (cases "t_tier t") auto
  qed
qed

text \<open>
  C4: an approved action runs at most once. After a run under the claim of a row reached a handler that is
  not an observer, no later run under the same claim reaches one, whatever operations on the
  approval table (by any session, in any order) come between.
\<close>

theorem claimed_run_once:
  assumes "rn_claim a = Claim_row pid" and "get_tool (rn_tool a) = Some t" and "t_tier t \<noteq> OBSERVE"
    and "y_world (snd (tool_run E a s)) \<noteq> y_world s"
    and "y_pending s' = fold (pa_step (e_aead E) (e_key E)) evs (y_pending (snd (tool_run E a s)))"
    and "rn_claim a' = Claim_row pid" and "get_tool (rn_tool a') = Some t'" and "t_tier t' \<noteq> OBSERVE"
  shows "y_world (snd (tool_run E' a' s')) = y_world s'"
proof (rule ccontr)
  assume "y_world (snd (tool_run E' a' s')) \<noteq> y_world s'"
  then have won: "fst (take_claim E' (Claim_row pid) s') = Inr True"
    by (rule tool_run_cases) (use assms(6-8) in auto)
  from take_claim_won [OF this] have approved: "status_of pid (y_pending s') = Some ''approved''"
    by (auto simp: status_of_def)
  have "status_of pid (y_pending (snd (tool_run E a s))) = Some ''executed''"
    using assms(4) by (rule tool_run_cases) (use assms(1-3) take_claim_won [of E pid s] in auto)
  with executed_final assms(5) have "status_of pid (y_pending s') = Some ''executed''" by simp
  with approved show False by simp
qed

section \<open>One audit row for every attempt\<close>

lemma audit_log_ok:
  assumes "supply_ok E s" and "ac_actor c \<in> set ACTORS" and "ac_decision c \<in> set DECISIONS"
  shows "\<exists>row aid. audit_log E c s = (Inr aid, ticked s\<lparr>y_audit := y_audit s @ [row]\<rparr>) \<and> au_tool row = ac_tool c \<and>
    au_tier row = ac_tier c \<and> au_decision row = ac_decision c \<and> au_ok row = ac_ok c \<and> au_actor row = ac_actor c"
proof -
  have "s_uid (now_stamp E s) \<notin> au_id ` set (y_audit s)"
    using assms(1) by (auto simp: supply_ok_def now_stamp_def)
  with assms(2,3) show ?thesis
    by (auto simp: audit_log_def audit_append_def intro!: exI conjI [OF refl])
qed

lemma audit_log_fresh:
  assumes "supply_ok E s" and "ac_actor c \<in> set ACTORS" and "ac_decision c \<in> set DECISIONS"
  shows "\<exists>log i. audit_log E c s = (Inr i, ticked s\<lparr>y_audit := log\<rparr>) \<and>
    (\<forall>n \<ge> Suc (y_tick s). s_uid (e_stamp E n) \<notin> au_id ` set log)"
proof -
  have *: "s_uid (now_stamp E s) \<notin> au_id ` set (y_audit s)" and inj: "inj (\<lambda>n. s_uid (e_stamp E n))"
    using assms(1) by (auto simp: supply_ok_def now_stamp_def)
  have new: "s_uid (e_stamp E n) \<noteq> s_uid (now_stamp E s)" if "Suc (y_tick s) \<le> n" for n
    using injD [OF inj, of n "y_tick s"] that by (auto simp: now_stamp_def)
  have old: "s_uid (e_stamp E n) \<notin> au_id ` set (y_audit s)" if "Suc (y_tick s) \<le> n" for n
    using assms(1) that by (simp add: supply_ok_def)
  from * assms(2,3) obtain row where
    "audit_log E c s = (Inr (s_uid (now_stamp E s)), ticked s\<lparr>y_audit := y_audit s @ [row]\<rparr>)" "au_id row = s_uid (now_stamp E s)"
    by (auto simp: audit_log_def audit_append_def intro!: that)
  with new old show ?thesis
    by (intro exI [of _ "y_audit s @ [row]"] exI [of _ "s_uid (now_stamp E s)"]) auto
qed

lemma supply_ok_later:
  assumes "supply_ok E s" and "y_tick s \<le> y_tick s'" and "y_audit s' = y_audit s" and "pa_id ` set (y_pending s') = pa_id ` set (y_pending s)"
  shows "supply_ok E s'"
  using assms by (auto simp: supply_ok_def)

lemma claim_ids: "claim now pid rows = Inr (ok, rows') \<Longrightarrow> pa_id ` set rows' = pa_id ` set rows"
  unfolding claim_def by (drule cas_ids) (metis list.set_map)

lemma supply_ok_claim: "supply_ok E s \<Longrightarrow> supply_ok E (snd (take_claim E c s))"
  by (rule supply_ok_later, assumption)
    (auto simp: take_claim_def split: claim_arg.split sum.split prod.split dest!: claim_ids)

lemma run_call_fields [simp]:
  "ac_actor (run_call a t dec ok args res err) = rn_actor a" "ac_tool (run_call a t dec ok args res err) = rn_tool a"
  "ac_tier (run_call a t dec ok args res err) = tier_value (t_tier t)" "ac_decision (run_call a t dec ok args res err) = dec"
  "ac_ok (run_call a t dec ok args res err) = ok"
  by (simp_all add: run_call_def)

text \<open>The row an attempt leaves: its tool and tier, and whether it returned.\<close>

definition audits :: "run_args \<Rightarrow> tool \<Rightarrow> jval result \<Rightarrow> 'c audit_row list \<Rightarrow> 'c audit_row list \<Rightarrow> bool" where
  "audits a t r log log' = (\<exists>row. log' = log @ [row] \<and> au_actor row = rn_actor a \<and> au_tool row = rn_tool a \<and>
     au_tier row = tier_value (t_tier t) \<and> au_ok row = (\<exists>v. r = Inr v) \<and>
     au_decision row = (if \<exists>v. r = Inr v then (if t_tier t = OBSERVE then ''auto'' else ''executed'') else ''errored''))"

lemma refuse_audits:
  assumes "supply_ok E s" and "rn_actor a \<in> set ACTORS"
  shows "audits a t (fst (refuse E (run_call a t ''errored'' False args [] err) e s)) (y_audit s)
    (y_audit (snd (refuse E (run_call a t ''errored'' False args [] err) e s)))"
  using audit_log_ok [OF assms(1), of "run_call a t ''errored'' False args [] err"] assms(2)
  by (auto simp: refuse_def audits_def DECISIONS_def)

lemma call_handler_audits:
  assumes "supply_ok E s" and "rn_actor a \<in> set ACTORS"
  shows "audits a t (fst (call_handler E a t v s)) (y_audit s) (y_audit (snd (call_handler E a t v s)))"
proof -
  let ?h = "e_handler E (rn_tool a) v (y_world s)"
  let ?s = "s\<lparr>y_world := snd ?h\<rparr>"
  have ok: "supply_ok E ?s" by (rule supply_ok_later [OF assms(1)]) auto
  show ?thesis
  proof (cases "fst ?h")
    case (Inl e)
    with refuse_audits [OF ok assms(2), of t "JObj v" "err_text e" e] show ?thesis
      by (simp add: call_handler_def Let_def)
  next
    case (Inr res)
    let ?c = "run_call a t (if t_tier t = OBSERVE then ''auto'' else ''executed'') True (JObj v) (summarize res) []"
    have "ac_decision ?c \<in> set DECISIONS" by (simp add: DECISIONS_def)
    with audit_log_ok [OF ok, of ?c] assms(2) Inr show ?thesis
      by (auto simp: call_handler_def Let_def audits_def)
  qed
qed

text \<open>
  C9: no attempt is unaudited and none is audited twice. Whenever \<open>run\<close> gets past its precondition
  checks (a known tool, a claim for a tool that is not an observer), it appends exactly one row, of that tool and
  tier, saying \<open>auto\<close> or \<open>executed\<close> exactly when it returned a result and \<open>errored\<close> when it raised:
  for invalid arguments, a refused standing claim, a lost claim and a raising handler alike.
\<close>

theorem run_audits_once:
  assumes "supply_ok E s" and "rn_actor a \<in> {''assistant'', ''user''}" and "get_tool (rn_tool a) = Some t"
    and "rn_args a = JObj d" and "t_tier t = OBSERVE \<or> rn_claim a \<notin> {No_claim, Claim_row []}"
  shows "\<exists>row. y_audit (snd (tool_run E a s)) = y_audit s @ [row] \<and> au_actor row = rn_actor a \<and> au_tool row = rn_tool a \<and>
    au_tier row = tier_value (t_tier t) \<and> au_ok row = (\<exists>v. fst (tool_run E a s) = Inr v) \<and>
    au_decision row = (if \<exists>v. fst (tool_run E a s) = Inr v then (if t_tier t = OBSERVE then ''auto'' else ''executed'') else ''errored'')"
proof -
  from assms(2) have act: "rn_actor a \<in> set ACTORS" by (simp add: ACTORS_def)
  note ref = refuse_audits [OF assms(1) act]
  have errs: "\<exists>m. e = ValueErr m" if "validate_args t d = Inl e" for e
    using validate_args_errors [OF that] .
  have "audits a t (fst (tool_run E a s)) (y_audit s) (y_audit (snd (tool_run E a s)))"
  proof (cases "t_tier t = IRREVERSIBLE \<and> rn_claim a = Granted")
    case True
    with ref assms(3) show ?thesis by (simp add: tool_run_def)
  next
    case standing: False
    show ?thesis
    proof (cases "validate_args t d")
      case (Inl e)
      with errs ref assms(3,4,5) standing show ?thesis by (auto simp: tool_run_def validate_any_def)
    next
      case (Inr v)
      let ?c = "if t_tier t = OBSERVE then (Inr True, s) else take_claim E (rn_claim a) s"
      have ok: "supply_ok E (snd ?c)" using assms(1) supply_ok_claim [OF assms(1), of "rn_claim a"] by simp
      have log: "y_audit (snd ?c) = y_audit s" by simp
      have "\<exists>b. fst ?c = Inr b"
        using assms(5) by (auto simp: take_claim_def claim_def cas_def split: claim_arg.split option.split)
      with Inr standing assms(3,4,5) refuse_audits [OF ok act] call_handler_audits [OF ok act] log show ?thesis
        by (auto simp: tool_run_def validate_any_def Let_def)
    qed
  qed
  then show ?thesis by (simp add: audits_def)
qed

section \<open>A run to look at\<close>

definition demo_env :: "(bytes \<times> bytes \<times> string \<times> plain, string list) env" where
  "demo_env = \<lparr>e_aead = tagged_aead, e_key = replicate 32 0, e_session = ''s1'',
     e_stamp = (\<lambda>n. demo_stamp (replicate (Suc n) CHR ''z'') (int n)), e_via = None,
     e_handler = (\<lambda>name args w. (Inr (JObj [(''ok'', JBool True)]), w @ [name])), e_prevalidate = (\<lambda>_ _. None)\<rparr>"

definition demo_approved :: "(bytes \<times> bytes \<times> string \<times> plain) pending_row list" where
  "demo_approved = snd (done_in demo_rows (approve 5 ''p1'' demo_rows))"

definition demo_sys :: "(bytes \<times> bytes \<times> string \<times> plain, string list) sys" where
  "demo_sys = \<lparr>y_tick = 0, y_audit = [], y_pending = demo_approved, y_meta = Map.empty, y_world = [], y_resuming = {}, y_started = []\<rparr>"

definition demo_run :: "claim_arg \<Rightarrow> run_args" where
  "demo_run c = \<lparr>rn_actor = ''user'', rn_tool = ''web_fetch'', rn_args = JObj [(''url'', JStr ''https://a.b'')],
     rn_conv = None, rn_claim = c\<rparr>"

lemma demo_approved_eq: "demo_approved = [(hd demo_rows)\<lparr>pa_status := ''approved'', pa_resolved := Some 5\<rparr>]"
  by (simp add: demo_approved_def done_in_def approve_def cas_def demo_pending_defs row_find_Cons secs_between_def MICROS_def
      ttl_for_def CHAT_TTL_SECONDS_def row_update_def)

lemma demo_web_fetch_args: "t_props t = [(''url'', param ''string'')] \<Longrightarrow> t_required t = [''url''] \<Longrightarrow>
    validate_args t [(''url'', JStr ''https://a.b'')] = Inr [(''url'', JStr ''https://a.b'')]"
  by (simp add: validate_args_Inr param_def MAX_ARGS_def has_key_def check_arg_def coerce_scalar_def type_ok_def too_long_def
      max_len_def MAX_STR_def)

lemma demo_supply: "supply_ok demo_env demo_sys"
proof -
  have inj: "inj (\<lambda>n. s_uid (e_stamp demo_env n))"
    by (rule injI) (auto simp: demo_env_def demo_stamp_def dest: arg_cong [where f = length])
  have "replicate (Suc n) CHR ''z'' \<noteq> ''p1''" for n by (cases n) auto
  with inj show ?thesis
    by (simp add: supply_ok_def demo_env_def demo_sys_def stamp_ok_def demo_stamp_def demo_approved_eq)
      (simp add: demo_pending_defs)
qed

lemma demo_run_won: "y_world (snd (tool_run demo_env (demo_run (Claim_row ''p1'')) demo_sys)) = [''web_fetch'']"
  by (simp add: tool_run_def demo_run_def get_tool_web_fetch mk_tool_def validate_any_def demo_web_fetch_args Let_def take_claim_def
      claim_def cas_def demo_sys_def demo_approved_eq row_find_Cons)
    (simp add: demo_pending_defs secs_between_def MICROS_def ttl_for_def CHAT_TTL_SECONDS_def now_stamp_def demo_env_def)

theorem run_authority_witness:
  "\<exists>r. row_find pa_id ''p1'' (y_pending demo_sys) = Some r \<and> pa_status r = ''approved''"
  using run_authority [of demo_env "demo_run (Claim_row ''p1'')" demo_sys] demo_run_won
  by (auto simp: demo_sys_def demo_run_def get_tool_web_fetch mk_tool_def)

lemma demo_run_tool: "get_tool (rn_tool (demo_run c)) = Some (mk_tool ''web_fetch'' [(''url'', param ''string'')] [''url''] REVIEWED True False)"
  by (simp add: demo_run_def get_tool_web_fetch)

lemma demo_run_fields [simp]: "rn_claim (demo_run c) = c" "rn_actor (demo_run c) = ''user''"
    "rn_args (demo_run c) = JObj [(''url'', JStr ''https://a.b'')]"
  by (simp_all add: demo_run_def)

lemma demo_sys_fields [simp]: "y_world demo_sys = []" "y_audit demo_sys = []"
  by (simp_all add: demo_sys_def)

lemma demo_run_reviewed: "t_tier (mk_tool ''web_fetch'' ps rs REVIEWED e p) \<noteq> OBSERVE"
  by (simp add: mk_tool_def)

theorem claimed_run_once_witness:
  "y_world (snd (tool_run demo_env (demo_run (Claim_row ''p1'')) (snd (tool_run demo_env (demo_run (Claim_row ''p1'')) demo_sys))))
     = [''web_fetch'']"
  using claimed_run_once [of "demo_run (Claim_row ''p1'')" "''p1''" _ demo_env demo_sys, OF _ demo_run_tool demo_run_reviewed,
      of "snd (tool_run demo_env (demo_run (Claim_row ''p1'')) demo_sys)" "[]" "demo_run (Claim_row ''p1'')" _ demo_env,
      OF _ _ _ _ demo_run_tool demo_run_reviewed] demo_run_won
  by simp

theorem run_audits_once_witness:
  "length (y_audit (snd (tool_run demo_env (demo_run (Claim_row ''p9'')) demo_sys))) = 1"
  using run_audits_once [OF demo_supply _ demo_run_tool, of "Claim_row ''p9''"]
  by (auto simp: mk_tool_def)

end
