(* ===== verification/Approve_Route.thy ===== *)
theory Approve_Route
  imports Tool_Run
begin

text \<open>
  The user's side of an approval (\<open>app/smartbrain_3000/agent_routes.py\<close>): the approve and deny
  routes, the automatic resume of a scheduled turn whose last action was resolved, and the
  consent pages; with the row predicates of \<open>agent.py\<close> they rest on. An \<open>HTTPException\<close> is
  \<open>Inl (Http status detail)\<close>. A worker thread that is started is recorded, not run.
\<close>

definition IN_FLIGHT_TTL_SECONDS :: int where "IN_FLIGHT_TTL_SECONDS = 15 * 60"

definition in_flight :: "turn_row \<Rightarrow> bool result" where
  "in_flight row =
     (if tr_status row \<noteq> ''executed'' \<or> tr_result row \<noteq> JNull then Inr False
      else case tr_claimed row of
        None \<Rightarrow> Inr True
      | Some age \<Rightarrow> if age < 0 then Inl (Assertion ''claim age is non-negative'') else Inr (age \<le> IN_FLIGHT_TTL_SECONDS))"

definition unresolved :: "turn_row \<Rightarrow> bool result" where
  "unresolved row = (if tr_status row \<in> {''pending'', ''approved''} then Inr True else in_flight row)"

text \<open>\<open>any(f(r) for r in rows)\<close>: stops at the first \<open>True\<close> or the first exception.\<close>

fun rany :: "('a \<Rightarrow> bool result) \<Rightarrow> 'a list \<Rightarrow> bool result" where
  "rany f [] = Inr False"
| "rany f (x # xs) = rbind (f x) (\<lambda>b. if b then Inr True else rany f xs)"

lemma rany_False: "rany f xs = Inr False \<longleftrightarrow> (\<forall>x \<in> set xs. f x = Inr False)"
  by (induction xs) (auto simp: rbind_Inr_iff)

lemma rany_True: "rany f xs = Inr True \<Longrightarrow> \<exists>x \<in> set xs. f x = Inr True"
  by (induction xs) (auto simp: rbind_Inr_iff split: if_splits)

section \<open>The automatic resume of a scheduled turn\<close>

definition origin_of :: "jval \<Rightarrow> jdict option" where
  "origin_of turn_state = (case turn_state of
       JObj st \<Rightarrow> (case map_of st ''origin'' of
           Some (JObj org) \<Rightarrow> if map_of org ''kind'' = Some (JStr ''scheduled'') \<and> truthy (body_get org ''schedule_id'') then Some org else None
         | _ \<Rightarrow> None)
     | _ \<Rightarrow> None)"

definition scheduled_origin :: "pending_view \<Rightarrow> jdict option" where
  "scheduled_origin row = origin_of (pv_state row)"

definition all_pending_resolved :: "('c, 'w) env \<Rightarrow> string \<Rightarrow> ('c, 'w) sys \<Rightarrow> bool result" where
  "all_pending_resolved E turn_id s =
     rbind (list_for_turn (e_aead E) (e_key E) (e_session E) (s_now (now_stamp E s)) turn_id (y_pending s)) (\<lambda>rows.
     rbind (rany unresolved rows) (\<lambda>blocked. Inr (rows \<noteq> [] \<and> \<not> blocked)))"

definition launch_scheduled_resume :: "string \<Rightarrow> string \<Rightarrow> ('c, 'w) sys \<Rightarrow> bool result \<times> ('c, 'w) sys" where
  "launch_scheduled_resume turn_id schedule_id s =
     (if turn_id = [] \<or> schedule_id = [] then (Inl (Assertion ''turn + schedule id required''), s)
      else if turn_id \<in> y_resuming s then (Inr False, s)
      else (Inr True, s\<lparr>y_resuming := insert turn_id (y_resuming s), y_started := y_started s @ [(turn_id, schedule_id)]\<rparr>))"

definition maybe_finish_scheduled_turn :: "('c, 'w) env \<Rightarrow> pending_view \<Rightarrow> ('c, 'w) sys \<Rightarrow> bool result \<times> ('c, 'w) sys" where
  "maybe_finish_scheduled_turn E row s = (case scheduled_origin row of
       None \<Rightarrow> (Inr False, s)
     | Some org \<Rightarrow>
         (case (body_get org ''schedule_id'', pv_turn row) of
            (JStr schedule_id, Some turn_id) \<Rightarrow>
              (case all_pending_resolved E turn_id s of
                 Inl e \<Rightarrow> (Inl e, ticked s)
               | Inr resolved \<Rightarrow>
                   if \<not> resolved then (Inr False, ticked s) else launch_scheduled_resume turn_id schedule_id (ticked s))
          | _ \<Rightarrow> (Inr False, s)))"

text \<open>When a worker returns, its turn leaves the guard set (both exits of \<open>_resume_scheduled_worker\<close>).\<close>

definition resume_finished :: "string \<Rightarrow> ('c, 'w) sys \<Rightarrow> ('c, 'w) sys" where
  "resume_finished turn_id s = s\<lparr>y_resuming := y_resuming s - {turn_id}\<rparr>"

section \<open>The approve and deny routes\<close>

definition store_step :: "('c, 'w) env \<Rightarrow> string \<Rightarrow> jval \<Rightarrow> ('c, 'w) sys \<Rightarrow> unit result \<times> ('c, 'w) sys" where
  "store_step E pid v s =
     (case store_result (e_aead E) (e_key E) (s_nonce (now_stamp E s)) pid v (y_pending s) of
        Inl e \<Rightarrow> (Inl e, ticked s) | Inr rows \<Rightarrow> (Inr (), ticked s\<lparr>y_pending := rows\<rparr>))"

definition error_dict :: "string \<Rightarrow> jval" where
  "error_dict m = JObj [(''error'', JStr m)]"

text \<open>Store the outcome, then see whether the turn can finish.\<close>

definition settle :: "('c, 'w) env \<Rightarrow> pending_view \<Rightarrow> jval \<Rightarrow> ('c, 'w) sys \<Rightarrow> bool result \<times> ('c, 'w) sys" where
  "settle E row v s = (let st = store_step E (pv_id row) v s in
     case fst st of Inl e \<Rightarrow> (Inl e, snd st) | Inr _ \<Rightarrow> maybe_finish_scheduled_turn E row (snd st))"

definition remember_call :: "pending_view \<Rightarrow> meta \<Rightarrow> meta" where
  "remember_call row m =
     (let row_args = (case pv_args row of JObj d \<Rightarrow> d | _ \<Rightarrow> []) in
      if remember_mode (pv_tool row) = Some Per_site
      then snd (remember_site (pv_tool row) (case map_of row_args ''url'' of Some u \<Rightarrow> u | None \<Rightarrow> JStr []) m)
      else snd (remember (pv_tool row) m))"

definition user_call :: "pending_view \<Rightarrow> string \<Rightarrow> audit_call" where
  "user_call row decision = \<lparr>ac_actor = ''user'', ac_tool = pv_tool row, ac_tier = pv_tier row, ac_decision = decision,
     ac_ok = True, ac_conv = None, ac_args = summarize (pv_args row), ac_result = [], ac_error = []\<rparr>"

definition approved_run :: "pending_view \<Rightarrow> run_args" where
  "approved_run row = \<lparr>rn_actor = ''user'', rn_tool = pv_tool row, rn_args = pv_args row, rn_conv = None,
     rn_claim = Claim_row (pv_id row)\<rparr>"

type_synonym approve_reply = "string \<times> jval \<times> bool"

definition approve_execute ::
  "('c, 'w) env \<Rightarrow> bool \<Rightarrow> pending_view \<Rightarrow> ('c, 'w) sys \<Rightarrow> approve_reply result \<times> ('c, 'w) sys" where
  "approve_execute E keep row s =
     (let l = audit_log E (user_call row ''approved'') s in
      case fst l of Inl e \<Rightarrow> (Inl e, snd l)
      | Inr _ \<Rightarrow>
        (let s1 = (if keep then (snd l)\<lparr>y_meta := remember_call row (y_meta (snd l))\<rparr> else snd l);
             r = tool_run E (approved_run row) s1;
             out = (case fst r of Inl e \<Rightarrow> error_dict (err_text e) | Inr v \<Rightarrow> v);
             f = settle E row out (snd r)
         in case fst f of Inl e \<Rightarrow> (Inl e, snd f)
            | Inr resumed \<Rightarrow>
                ((case fst r of
                    Inl (PermissionErr _) \<Rightarrow> Inl (Http 409 ''approval already consumed'')
                  | Inl _ \<Rightarrow> Inr (''errored'', out, resumed)
                  | Inr _ \<Rightarrow> Inr (''executed'', out, resumed)), snd f)))"

definition approve_route ::
  "('c, 'w) env \<Rightarrow> string option \<Rightarrow> bool \<Rightarrow> string \<Rightarrow> ('c, 'w) sys \<Rightarrow> approve_reply result \<times> ('c, 'w) sys" where
  "approve_route E confirm_tool keep pid s =
     (let s1 = ticked s in
      case get_pending (e_aead E) (e_key E) (e_session E) (s_now (now_stamp E s)) pid (y_pending s) of
        Inl e \<Rightarrow> (Inl e, s1)
      | Inr None \<Rightarrow> (Inl (Http 404 ''pending action not found''), s1)
      | Inr (Some row) \<Rightarrow>
          if pv_status row \<noteq> ''pending'' then (Inl (Http 409 (''already '' @ pv_status row)), s1)
          else if pv_expired row then (Inl (Http 409 ''approval expired''), s1)
          else case get_tool (pv_tool row) of
            None \<Rightarrow> (Inl (Http 409 ''tool no longer available''), s1)
          | Some t \<Rightarrow>
              if t_tier t = IRREVERSIBLE \<and> confirm_tool \<noteq> Some (pv_tool row)
                then (Inl (Http 409 ''irreversible action requires confirm_tool''), s1)
              else (case approve (s_now (now_stamp E s1)) pid (y_pending s1) of
                  Inl e \<Rightarrow> (Inl e, ticked s1)
                | Inr (won, rows) \<Rightarrow>
                    if \<not> won then (Inl (Http 409 ''could not approve (resolved or expired)''), ticked s1)
                    else approve_execute E keep row (ticked s1\<lparr>y_pending := rows\<rparr>)))"

definition deny_route :: "('c, 'w) env \<Rightarrow> string \<Rightarrow> ('c, 'w) sys \<Rightarrow> unit result \<times> ('c, 'w) sys" where
  "deny_route E pid s =
     (let s1 = ticked s in
      case get_pending (e_aead E) (e_key E) (e_session E) (s_now (now_stamp E s)) pid (y_pending s) of
        Inl e \<Rightarrow> (Inl e, s1)
      | Inr None \<Rightarrow> (Inl (Http 404 ''pending action not found''), s1)
      | Inr (Some row) \<Rightarrow>
          (case deny (s_now (now_stamp E s1)) pid (y_pending s1) of
             Inl e \<Rightarrow> (Inl e, ticked s1)
           | Inr (won, rows) \<Rightarrow>
               if \<not> won then (Inl (Http 409 (''already '' @ pv_status row)), ticked s1)
               else (let l = audit_log E (user_call row ''denied'') (ticked s1\<lparr>y_pending := rows\<rparr>) in
                 case fst l of Inl e \<Rightarrow> (Inl e, snd l)
                 | Inr _ \<Rightarrow> (let f = maybe_finish_scheduled_turn E row (snd l) in
                     case fst f of Inl e \<Rightarrow> (Inl e, snd f) | Inr _ \<Rightarrow> (Inr (), snd f)))))"

section \<open>The consent pages\<close>

definition site_le :: "string \<times> string \<Rightarrow> string \<times> string \<Rightarrow> bool" where
  "site_le a b = (fst a < fst b \<or> (fst a = fst b \<and> snd a \<le> snd b))"

text \<open>Iterating the entry set in any order: both lists are sorted before they are returned.\<close>

definition list_remembered :: "meta \<Rightarrow> string list \<times> (string \<times> string) list" where
  "list_remembered m =
     (let entries = sorted_list_of_set (remembered m);
          is_site = (\<lambda>e. at_sign \<in> set e \<and> after at_sign e \<noteq> [])
      in (sort (filter (\<lambda>e. \<not> is_site e) entries),
          order_by site_le (map (\<lambda>e. (before at_sign e, after at_sign e)) (filter is_site entries))))"

definition forget_remembered :: "string \<Rightarrow> string option \<Rightarrow> meta \<Rightarrow> meta" where
  "forget_remembered name host m = (case host of
       Some h \<Rightarrow> if h \<noteq> [] then forget_site name (JStr h) m else forget name m
     | None \<Rightarrow> forget name m)"

section \<open>Facts\<close>

lemma store_step_fields [simp]:
  "y_world (snd (store_step E pid v s)) = y_world s" "y_audit (snd (store_step E pid v s)) = y_audit s"
  "y_meta (snd (store_step E pid v s)) = y_meta s"
  by (auto simp: store_step_def split: sum.split)

lemma maybe_finish_fields [simp]:
  "y_world (snd (maybe_finish_scheduled_turn E row s)) = y_world s" "y_audit (snd (maybe_finish_scheduled_turn E row s)) = y_audit s"
  "y_meta (snd (maybe_finish_scheduled_turn E row s)) = y_meta s" "y_pending (snd (maybe_finish_scheduled_turn E row s)) = y_pending s"
  by (auto simp: maybe_finish_scheduled_turn_def launch_scheduled_resume_def split: option.split sum.split jval.split)

lemma settle_fields [simp]:
  "y_world (snd (settle E row v s)) = y_world s" "y_audit (snd (settle E row v s)) = y_audit s" "y_meta (snd (settle E row v s)) = y_meta s"
  "y_pending (snd (settle E row v s)) = y_pending (snd (store_step E (pv_id row) v s))"
  by (simp_all add: settle_def Let_def split: sum.split)

lemma approve_execute_world:
  "\<exists>s1. y_world s1 = y_world s \<and> y_pending s1 = y_pending s \<and>
     (y_world (snd (approve_execute E keep row s)) = y_world s \<or>
      y_world (snd (approve_execute E keep row s)) = y_world (snd (tool_run E (approved_run row) s1)))"
proof -
  let ?l = "snd (audit_log E (user_call row ''approved'') s)"
  let ?s = "if keep then ?l\<lparr>y_meta := remember_call row (y_meta ?l)\<rparr> else ?l"
  have "y_world ?s = y_world s \<and> y_pending ?s = y_pending s" by simp
  moreover have "y_world (snd (approve_execute E keep row s)) = y_world s \<or>
      y_world (snd (approve_execute E keep row s)) = y_world (snd (tool_run E (approved_run row) ?s))"
    by (simp add: approve_execute_def Let_def split: sum.split)
  ultimately show ?thesis by blast
qed

lemma get_pending_id: "get_pending A key session now pid rows = Inr (Some row) \<Longrightarrow> pv_id row = pid"
  by (auto simp: get_pending_def rbind_Inr_iff split: if_splits option.splits)

text \<open>
  C1: nothing runs behind the user's back. If an approval request touches the world at all, then the
  action was pending and unexpired and of this unlock session when it was read, an irreversible one was
  confirmed by its own name, and what ran is exactly the displayed call: that tool's handler on the
  validated form of the row's own arguments. The stored row decides, not the request.
\<close>

theorem approve_runs_what_was_shown:
  assumes "y_world (snd (approve_route E confirm keep pid s)) \<noteq> y_world s"
  shows "\<exists>row t d v. get_pending (e_aead E) (e_key E) (e_session E) (s_now (now_stamp E s)) pid (y_pending s) = Inr (Some row) \<and>
    pv_status row = ''pending'' \<and> \<not> pv_expired row \<and> get_tool (pv_tool row) = Some t \<and>
    (t_tier t = IRREVERSIBLE \<longrightarrow> confirm = Some (pv_tool row)) \<and> pv_args row = JObj d \<and> validate_args t d = Inr v \<and>
    y_world (snd (approve_route E confirm keep pid s)) = snd (e_handler E (pv_tool row) v (y_world s))"
proof -
  let ?g = "get_pending (e_aead E) (e_key E) (e_session E) (s_now (now_stamp E s)) pid (y_pending s)"
  from assms obtain row where g: "?g = Inr (Some row)"
    by (cases ?g) (auto simp: approve_route_def Let_def split: option.splits)
  from assms g have st: "pv_status row = ''pending''" "\<not> pv_expired row"
    by (auto simp: approve_route_def Let_def split: if_splits)
  from assms g st obtain t where t: "get_tool (pv_tool row) = Some t"
    by (cases "get_tool (pv_tool row)") (auto simp: approve_route_def Let_def)
  from assms g st t have c: "t_tier t = IRREVERSIBLE \<longrightarrow> confirm = Some (pv_tool row)"
    by (auto simp: approve_route_def Let_def split: if_splits)
  obtain rows where a: "approve (s_now (now_stamp E (ticked s))) pid (y_pending s) = Inr (True, rows)"
    using assms g st t c by (auto simp: approve_route_def Let_def split: sum.splits prod.splits if_splits)
  let ?s = "(ticked (ticked s))\<lparr>y_pending := rows\<rparr>"
  from g st t c a have r: "approve_route E confirm keep pid s = approve_execute E keep row ?s"
    by (auto simp: approve_route_def Let_def)
  from approve_execute_world [of ?s E keep row] assms r obtain s1 where
    s1: "y_world s1 = y_world s" "y_world (snd (approve_route E confirm keep pid s)) = y_world (snd (tool_run E (approved_run row) s1))"
    by auto
  with assms have "y_world (snd (tool_run E (approved_run row) s1)) \<noteq> y_world s1" by simp
  from run_outcome [OF this] obtain d v where "pv_args row = JObj d" "validate_args t d = Inr v"
    "y_world (snd (tool_run E (approved_run row) s1)) = snd (e_handler E (pv_tool row) v (y_world s1))"
    using t by (auto simp: approved_run_def)
  with g st t c s1 show ?thesis by auto
qed

text \<open>
  a denial runs nothing: whatever it finds or fails on, the world and the remembered consent are as they
  were, and when it succeeds the row is denied for good, so no approval of it can follow.
\<close>

theorem deny_is_final:
  "y_world (snd (deny_route E pid s)) = y_world s \<and> y_meta (snd (deny_route E pid s)) = y_meta s \<and>
   (fst (deny_route E pid s) = Inr () \<longrightarrow>
     status_of pid (y_pending (snd (deny_route E pid s))) = Some ''denied'' \<and>
     (\<forall>now rows. approve now pid (fold (pa_step (e_aead E) (e_key E)) evs (y_pending (snd (deny_route E pid s)))) \<noteq> Inr (True, rows)))"
proof -
  let ?s' = "snd (deny_route E pid s)"
  have "status_of pid (y_pending ?s') = Some ''denied''" if "fst (deny_route E pid s) = Inr ()"
    using that by (auto simp: deny_route_def deny_def Let_def dest: cas_won split: sum.splits option.splits if_splits prod.splits)
  moreover have "approve now pid (fold (pa_step (e_aead E) (e_key E)) evs (y_pending ?s')) \<noteq> Inr (True, rows)"
    if "status_of pid (y_pending ?s') = Some ''denied''" for now rows
    using denied_final [OF that, of "e_aead E" "e_key E" evs] by (auto simp: approve_def status_of_def dest!: cas_won)
  moreover have "y_world ?s' = y_world s \<and> y_meta ?s' = y_meta s"
    by (auto simp: deny_route_def Let_def split: sum.split option.split)
  ultimately show ?thesis by blast
qed

section \<open>The outcome reaches the parked turn\<close>

lemma take_claim_kept:
  "row_kept A key pid s p res (y_pending y) \<Longrightarrow> row_kept A key pid s p res (y_pending (snd (take_claim E c y)))"
  by (auto simp: take_claim_def claim_def split: claim_arg.split sum.split intro: cas_kept)

lemma tool_run_kept:
  "row_kept A key pid s p res (y_pending y) \<Longrightarrow> row_kept A key pid s p res (y_pending (snd (tool_run E a y)))"
  using take_claim_kept [of A key pid s p res y E "rn_claim a"]
  by (auto simp: tool_run_def Let_def split: option.split sum.split pyerr.split)

lemma tool_run_executed:
  assumes "fst (tool_run E a s) = Inr v" and "get_tool (rn_tool a) = Some t" and "t_tier t \<noteq> OBSERVE" and "rn_claim a = Claim_row pid"
  shows "status_of pid (y_pending (snd (tool_run E a s))) = Some ''executed''"
proof -
  from assms obtain d where d: "validate_any t (rn_args a) = Inr d"
    by (cases "validate_any t (rn_args a)") (auto simp: tool_run_def split: pyerr.splits)
  let ?c = "take_claim E (Claim_row pid) s"
  have won: "fst ?c = Inr True"
  proof (cases "fst ?c")
    case (Inl e)
    with assms d show ?thesis by (auto simp: tool_run_def Let_def)
  next
    case (Inr b)
    with assms d show ?thesis by (cases b) (auto simp: tool_run_def Let_def)
  qed
  with assms d take_claim_won [OF won] show ?thesis by (auto simp: tool_run_def Let_def)
qed

lemma approved_run_fields [simp]:
  "rn_tool (approved_run row) = pv_tool row" "rn_args (approved_run row) = pv_args row" "rn_claim (approved_run row) = Claim_row (pv_id row)"
  by (simp_all add: approved_run_def)

lemma approve_execute_result:
  assumes "aead_roundtrip (e_aead E)" and "\<forall>n. stamp_ok (e_stamp E n)"
    and "row_kept (e_aead E) (e_key E) (pv_id row) session p JNull (y_pending s)"
    and "get_tool (pv_tool row) = Some t" and "t_tier t \<noteq> OBSERVE"
    and "fst (approve_execute E keep row s) = Inr (''executed'', out, resumed)"
  shows "row_kept (e_aead E) (e_key E) (pv_id row) session p out (y_pending (snd (approve_execute E keep row s))) \<and>
    status_of (pv_id row) (y_pending (snd (approve_execute E keep row s))) = Some ''executed''"
proof -
  let ?l = "audit_log E (user_call row ''approved'') s"
  let ?s1 = "if keep then (snd ?l)\<lparr>y_meta := remember_call row (y_meta (snd ?l))\<rparr> else snd ?l"
  let ?r = "tool_run E (approved_run row) ?s1"
  let ?f = "settle E row out (snd ?r)"
  from assms(6) obtain i where l: "fst ?l = Inr i"
    by (cases "fst ?l") (auto simp: approve_execute_def Let_def)
  with assms(6) have r: "fst ?r = Inr out"
    by (cases "fst ?r") (auto simp: approve_execute_def Let_def split: sum.splits pyerr.splits)
  with assms(6) l have f: "\<exists>b. fst ?f = Inr b" and s': "snd (approve_execute E keep row s) = snd ?f"
    by (auto simp: approve_execute_def Let_def split: sum.splits pyerr.splits)
  have k: "row_kept (e_aead E) (e_key E) (pv_id row) session p JNull (y_pending (snd ?r))"
    by (rule tool_run_kept) (use assms(3) in simp)
  have ex: "status_of (pv_id row) (y_pending (snd ?r)) = Some ''executed''"
    by (rule tool_run_executed [OF r]) (use assms(4,5) in auto)
  let ?n = "s_nonce (now_stamp E (snd ?r))"
  have n: "length ?n = 12" using assms(2) by (auto simp: now_stamp_def stamp_ok_def)
  from f obtain rows where st: "store_result (e_aead E) (e_key E) ?n (pv_id row) out (y_pending (snd ?r)) = Inr rows"
    by (cases "store_result (e_aead E) (e_key E) ?n (pv_id row) out (y_pending (snd ?r))") (auto simp: settle_def store_step_def)
  with s' have "y_pending (snd (approve_execute E keep row s)) = rows"
    by (simp add: store_step_def)
  with store_result_written [OF assms(1) n k ex st] status_of_store_result [OF st] ex show ?thesis by simp
qed

lemma approve_kept: "approve now q rows = Inr (ok, rows') \<Longrightarrow> row_kept A key pid s p res rows \<Longrightarrow> row_kept A key pid s p res rows'"
  unfolding approve_def by (rule cas_kept)

lemma executed_is_dict: "fst (settle E row out s) = Inr b \<Longrightarrow> is_dict out"
  by (auto simp: settle_def store_step_def store_result_def Let_def split: if_splits)

lemma approve_executed_dict: "fst (approve_execute E keep row s) = Inr (st, out, b) \<Longrightarrow> out \<noteq> JNull"
  by (auto simp: approve_execute_def Let_def is_dict_def split: sum.splits pyerr.splits if_splits dest!: executed_is_dict)

text \<open>
  an approval's result reaches the turn that is waiting for it. When the route answers
  \<open>executed\<close>, the parked row is spent and holds exactly the returned result, and still does after any
  further operations on the table.
\<close>

theorem approved_result_recorded:
  assumes "aead_roundtrip (e_aead E)" and "\<forall>n. stamp_ok (e_stamp E n)"
    and "row_kept (e_aead E) (e_key E) pid (e_session E) p JNull (y_pending s)"
    and "get_tool (pk_tool p) = Some t" and "t_tier t \<noteq> OBSERVE"
    and "fst (approve_route E confirm keep pid s) = Inr (''executed'', out, resumed)" and "\<forall>ev \<in> set evs. event_ok ev"
  shows "\<exists>v. get_pending (e_aead E) (e_key E) (e_session E) later pid
      (fold (pa_step (e_aead E) (e_key E)) evs (y_pending (snd (approve_route E confirm keep pid s)))) = Inr (Some v) \<and>
    pv_status v = ''executed'' \<and> pv_result v = out"
proof -
  let ?s' = "snd (approve_route E confirm keep pid s)"
  let ?g = "get_pending (e_aead E) (e_key E) (e_session E) (s_now (now_stamp E s)) pid (y_pending s)"
  from assms(6) obtain row where g: "?g = Inr (Some row)"
    by (cases ?g) (auto simp: approve_route_def Let_def split: option.splits)
  then have pid: "pid \<noteq> []" by (auto simp: get_pending_def split: if_splits)
  from get_kept [OF assms(3) pid, of "e_session E" "s_now (now_stamp E s)"] g have row: "pv_tool row = pk_tool p" "pv_id row = pid" by fastforce+
  obtain rows where a: "approve (s_now (now_stamp E (ticked s))) pid (y_pending s) = Inr (True, rows)"
    and r: "approve_route E confirm keep pid s = approve_execute E keep row ((ticked (ticked s))\<lparr>y_pending := rows\<rparr>)"
    using assms(6) g by (auto simp: approve_route_def Let_def split: sum.splits prod.splits if_splits option.splits)
  let ?s = "(ticked (ticked s))\<lparr>y_pending := rows\<rparr>"
  from approve_kept [OF a assms(3)] have k: "row_kept (e_aead E) (e_key E) (pv_id row) (e_session E) p JNull (y_pending ?s)"
    by (simp add: row)
  from assms(6) have e: "fst (approve_execute E keep row ?s) = Inr (''executed'', out, resumed)" by (simp add: r)
  from approve_execute_result [OF assms(1,2) k _ assms(5) e] assms(4) row
  have k': "row_kept (e_aead E) (e_key E) pid (e_session E) p out (y_pending ?s')"
    and ex: "status_of pid (y_pending ?s') = Some ''executed''" by (simp_all add: r)
  let ?rows = "fold (pa_step (e_aead E) (e_key E)) evs (y_pending ?s')"
  from run_kept [OF assms(1,7) k'] approve_executed_dict [OF e]
  have "row_kept (e_aead E) (e_key E) pid (e_session E) p out ?rows" by auto
  from get_kept [OF this pid, of "e_session E" later] executed_final [OF ex, of "e_aead E" "e_key E" evs] show ?thesis
    by (auto simp: status_of_def)
qed

lemma unresolved_False: "unresolved r = Inr False \<Longrightarrow> tr_status r \<notin> {''pending'', ''approved''} \<and>
    (tr_status r = ''executed'' \<longrightarrow> tr_result r \<noteq> JNull \<or> (\<exists>age. tr_claimed r = Some age \<and> age > IN_FLIGHT_TTL_SECONDS))"
  by (auto simp: unresolved_def in_flight_def split: if_splits option.splits)

text \<open>
  a scheduled turn resumes once, and only when nothing blocks it. The automatic resume starts
  only for a turn a schedule parked, when every one of its actions of this session is settled: none waiting or
  approved, none still running (claimed less than fifteen minutes ago with no result); and it does not start again
  until the worker it started has finished.
\<close>

theorem scheduled_resume_once:
  assumes "fst (maybe_finish_scheduled_turn E row s) = Inr True"
  shows "\<exists>org turn_id rows. scheduled_origin row = Some org \<and> map_of org ''kind'' = Some (JStr ''scheduled'') \<and> pv_turn row = Some turn_id \<and>
    list_for_turn (e_aead E) (e_key E) (e_session E) (s_now (now_stamp E s)) turn_id (y_pending s) = Inr rows \<and> rows \<noteq> [] \<and>
    (\<forall>r \<in> set rows. tr_status r \<notin> {''pending'', ''approved''} \<and>
       (tr_status r = ''executed'' \<longrightarrow> tr_result r \<noteq> JNull \<or> (\<exists>age. tr_claimed r = Some age \<and> age > 900))) \<and>
    turn_id \<in> y_resuming (snd (maybe_finish_scheduled_turn E row s)) \<and>
    (\<forall>row' s'. pv_turn row' = Some turn_id \<longrightarrow> turn_id \<in> y_resuming s' \<longrightarrow>
       fst (maybe_finish_scheduled_turn E row' s') \<noteq> Inr True \<and> y_started (snd (maybe_finish_scheduled_turn E row' s')) = y_started s')"
proof -
  from assms obtain org where org: "scheduled_origin row = Some org"
    by (cases "scheduled_origin row") (auto simp: maybe_finish_scheduled_turn_def)
  with assms obtain sid turn where ids: "body_get org ''schedule_id'' = JStr sid" "pv_turn row = Some turn"
    by (auto simp: maybe_finish_scheduled_turn_def split: jval.splits option.splits)
  with assms org have all: "all_pending_resolved E turn s = Inr True"
    and l: "fst (launch_scheduled_resume turn sid (ticked s)) = Inr True"
    and s': "snd (maybe_finish_scheduled_turn E row s) = snd (launch_scheduled_resume turn sid (ticked s))"
    by (auto simp: maybe_finish_scheduled_turn_def split: sum.splits if_splits)
  from all obtain rows where rows: "list_for_turn (e_aead E) (e_key E) (e_session E) (s_now (now_stamp E s)) turn (y_pending s) = Inr rows"
    "rany unresolved rows = Inr False" "rows \<noteq> []"
    by (auto simp: all_pending_resolved_def rbind_Inr_iff)
  have kind: "map_of org ''kind'' = Some (JStr ''scheduled'')"
    using org by (auto simp: scheduled_origin_def origin_of_def split: jval.splits option.splits if_splits)
  have settled: "\<forall>r \<in> set rows. tr_status r \<notin> {''pending'', ''approved''} \<and>
       (tr_status r = ''executed'' \<longrightarrow> tr_result r \<noteq> JNull \<or> (\<exists>age. tr_claimed r = Some age \<and> age > 900))"
    using rows(2) by (fastforce simp: rany_False IN_FLIGHT_TTL_SECONDS_def dest!: unresolved_False)
  have guard: "turn \<in> y_resuming (snd (maybe_finish_scheduled_turn E row s))"
    using l by (auto simp: s' launch_scheduled_resume_def split: if_splits)
  have once: "fst (maybe_finish_scheduled_turn E row' s') \<noteq> Inr True \<and> y_started (snd (maybe_finish_scheduled_turn E row' s')) = y_started s'"
    if "pv_turn row' = Some turn" "turn \<in> y_resuming s'" for row' s'
    using that by (auto simp: maybe_finish_scheduled_turn_def launch_scheduled_resume_def split: option.split jval.split sum.split)
  show ?thesis using org kind ids(2) rows(1,3) settled guard once by blast
qed

section \<open>An approval that nothing stands against executes\<close>

lemma tool_run_success:
  assumes "supply_ok E s" and "rn_actor a \<in> set ACTORS" and "get_tool (rn_tool a) = Some t" and "t_tier t \<noteq> OBSERVE"
    and "rn_args a = JObj d" and "validate_args t d = Inr v" and "rn_claim a = Claim_row pid"
    and "claim (s_now (now_stamp E s)) pid (y_pending s) = Inr (True, rows)"
    and "e_handler E (rn_tool a) v (y_world s) = (Inr res, w)"
  shows "fst (tool_run E a s) = Inr res \<and> y_world (snd (tool_run E a s)) = w \<and> y_pending (snd (tool_run E a s)) = rows"
proof -
  let ?s = "snd (take_claim E (Claim_row pid) s)"
  have c: "take_claim E (Claim_row pid) s = (Inr True, ticked s\<lparr>y_pending := rows\<rparr>)"
    using assms(8) by (simp add: take_claim_def)
  have r: "tool_run E a s = call_handler E a t v ?s"
    using assms(3-7) c by (simp add: tool_run_def validate_any_def Let_def)
  have "supply_ok E ?s" by (rule supply_ok_claim [OF assms(1)])
  then have ok: "supply_ok E (?s\<lparr>y_world := w\<rparr>)" by (rule supply_ok_later) auto
  have "ac_decision (run_call a t ''executed'' True (JObj v) (summarize res) []) \<in> set DECISIONS" by (simp add: DECISIONS_def)
  with audit_log_ok [OF ok, of "run_call a t ''executed'' True (JObj v) (summarize res) []"] assms(2,4,9) c
  show ?thesis unfolding r by (auto simp: call_handler_def Let_def)
qed

lemma store_step_success:
  assumes "row_kept (e_aead E) (e_key E) pid session p JNull (y_pending s)" and "pid \<noteq> []" and "is_dict v"
  shows "fst (store_step E pid v s) = Inr ()"
proof -
  from assms(1) obtain r where r: "row_find pa_id pid (y_pending s) = Some r" "holds (e_aead E) (e_key E) session p JNull r"
    by (auto simp: row_kept_def)
  then have "pa_id r = pid" by (auto dest: row_find_Some)
  with r assms(2,3) show ?thesis by (auto simp: store_step_def store_result_def holds_def)
qed

lemma cas_wins: "pid \<noteq> [] \<Longrightarrow> row_find pa_id pid rows = Some r \<Longrightarrow> pa_status r = e \<Longrightarrow> \<not> stale now r \<Longrightarrow> e \<noteq> [] \<Longrightarrow> n \<noteq> [] \<Longrightarrow>
    cas now pid e n rows = Inr (True, row_update pa_id pid (\<lambda>r. r\<lparr>pa_status := n, pa_resolved := Some now\<rparr>) rows)"
  by (simp add: cas_def stale_def)

lemma approve_succeeds:
  assumes "aead_roundtrip (e_aead E)" and "supply_ok E s" and "pid \<noteq> []"
    and "row_kept (e_aead E) (e_key E) pid (e_session E) p JNull (y_pending s)" and "row_find pa_id pid (y_pending s) = Some r"
    and "pa_status r = ''pending''" and "\<And>n. n \<le> y_tick s + 3 \<Longrightarrow> \<not> stale (s_now (e_stamp E n)) r" and "origin_of (pk_state p) = None"
    and "get_tool (pk_tool p) = Some t" and "t_tier t \<noteq> OBSERVE" and "t_tier t = IRREVERSIBLE \<longrightarrow> confirm = Some (pk_tool p)"
    and "pk_args p = JObj d" and "validate_args t d = Inr v" and "e_handler E (pk_tool p) v (y_world s) = (Inr (JObj res), w)"
  shows "fst (approve_route E confirm False pid s) = Inr (''executed'', JObj res, False) \<and>
    y_world (snd (approve_route E confirm False pid s)) = w"
proof -
  let ?now = "s_now (now_stamp E s)"
  from get_kept [OF assms(4,3), of "e_session E" ?now] assms(5-7) obtain row where
    g: "get_pending (e_aead E) (e_key E) (e_session E) ?now pid (y_pending s) = Inr (Some row)" and row: "pv_status row = ''pending''"
    "\<not> pv_expired row" "pv_tool row = pk_tool p" "pv_id row = pid" "pv_args row = JObj d" "pv_state row = pk_state p"
    by (auto simp: now_stamp_def assms(12))
  let ?t1 = "s_now (now_stamp E (ticked s))"
  let ?rows1 = "row_update pa_id pid (\<lambda>r. r\<lparr>pa_status := ''approved'', pa_resolved := Some ?t1\<rparr>) (y_pending s)"
  have a: "approve ?t1 pid (y_pending s) = Inr (True, ?rows1)"
    unfolding approve_def using assms(3,5-7) by (intro cas_wins) (auto simp: now_stamp_def)
  let ?s1 = "(ticked (ticked s))\<lparr>y_pending := ?rows1\<rparr>"
  have route: "approve_route E confirm False pid s = approve_execute E False row ?s1"
    using g row a assms(9,11) by (auto simp: approve_route_def Let_def)
  have "map pa_id ?rows1 = map pa_id (y_pending s)" by simp
  then have ids: "pa_id ` set ?rows1 = pa_id ` set (y_pending s)" by (metis list.set_map)
  have ok1: "supply_ok E ?s1" by (rule supply_ok_later [OF assms(2)]) (use ids in auto)
  obtain log i where l: "audit_log E (user_call row ''approved'') ?s1 = (Inr i, ticked ?s1\<lparr>y_audit := log\<rparr>)"
    and fresh: "\<forall>n \<ge> y_tick (ticked ?s1). s_uid (e_stamp E n) \<notin> au_id ` set log"
    using audit_log_fresh [OF ok1, of "user_call row ''approved''"] by (auto simp: user_call_def ACTORS_def DECISIONS_def)
  let ?s2 = "ticked ?s1\<lparr>y_audit := log\<rparr>"
  have ok2: "supply_ok E ?s2" using ok1 fresh by (auto simp: supply_ok_def)
  have r1: "row_find pa_id pid ?rows1 = Some (r\<lparr>pa_status := ''approved'', pa_resolved := Some ?t1\<rparr>)"
    using assms(5) by (simp add: row_find_update)
  let ?r1 = "r\<lparr>pa_status := ''approved'', pa_resolved := Some ?t1\<rparr>"
  have "\<not> stale (s_now (now_stamp E ?s2)) ?r1" using assms(7) by (simp add: now_stamp_def stale_def)
  from cas_wins [OF assms(3) r1 _ this, of "''approved''" "''executed''"] obtain rows2
    where c: "claim (s_now (now_stamp E ?s2)) pid (y_pending ?s2) = Inr (True, rows2)"
    unfolding claim_def by fastforce
  have h: "e_handler E (rn_tool (approved_run row)) v (y_world ?s2) = (Inr (JObj res), w)" using assms(14) row by simp
  have run: "fst (tool_run E (approved_run row) ?s2) = Inr (JObj res) \<and> y_world (snd (tool_run E (approved_run row) ?s2)) = w \<and>
      y_pending (snd (tool_run E (approved_run row) ?s2)) = rows2"
    by (rule tool_run_success [OF ok2 _ _ assms(10) _ assms(13) _ c h])
      (use row assms(9) in \<open>auto simp: approved_run_def ACTORS_def\<close>)
  have "row_kept (e_aead E) (e_key E) pid (e_session E) p JNull (y_pending (snd (tool_run E (approved_run row) ?s2)))"
    by (rule tool_run_kept) (use approve_kept [OF a assms(4)] in simp)
  then have "fst (store_step E pid (JObj res) (snd (tool_run E (approved_run row) ?s2))) = Inr ()"
    by (rule store_step_success) (use assms(3) in \<open>auto simp: is_dict_def\<close>)
  then show ?thesis
    unfolding route using l run row assms(8)
    by (simp add: approve_execute_def Let_def settle_def maybe_finish_scheduled_turn_def scheduled_origin_def)
qed


definition fetch_park :: park where
  "fetch_park = \<lparr>pk_tool = ''web_fetch'', pk_tier = ''reviewed'', pk_args = JObj [(''url'', JStr ''https://a.b'')], pk_conv = None,
     pk_turn = Some ''t1'', pk_call = Some ''call_0'',
     pk_state = JObj [(''step'', JInt 0), (''origin'', JNull)]\<rparr>"

definition fetch_rows :: "(bytes \<times> bytes \<times> string \<times> plain) pending_row list" where
  "fetch_rows = snd (projr (create_pending tagged_aead (replicate 32 0) ''s1'' (demo_stamp ''p1'' 0) fetch_park []))"

definition fetch_sys :: "(bytes \<times> bytes \<times> string \<times> plain, string list) sys" where
  "fetch_sys = demo_sys\<lparr>y_pending := fetch_rows\<rparr>"

definition fetch_view :: pending_view where
  "fetch_view = \<lparr>pv_id = ''p1'', pv_tool = ''web_fetch'', pv_tier = ''reviewed'', pv_status = ''pending'', pv_args = pk_args fetch_park,
     pv_result = JNull, pv_state = pk_state fetch_park, pv_turn = Some ''t1'', pv_expired = False\<rparr>"

lemmas clock_defs = secs_between_def MICROS_def ttl_for_def CHAT_TTL_SECONDS_def SCHEDULED_TTL_SECONDS_def

lemma fetch_created: "create_pending tagged_aead (replicate 32 0) ''s1'' (demo_stamp ''p1'' 0) fetch_park [] = Inr (''p1'', fetch_rows)"
  by (simp add: fetch_rows_def create_pending_def fetch_park_def demo_stamp_def is_dict_def)

lemma fetch_kept: "row_kept tagged_aead (replicate 32 0) ''p1'' ''s1'' fetch_park JNull fetch_rows"
  using create_kept [OF tagged_aead_roundtrip _ fetch_created] by (simp add: demo_stamp_def stamp_ok_def)

lemma fetch_row: "row_find pa_id ''p1'' fetch_rows = Some (hd fetch_rows)"
  "pa_status (hd fetch_rows) = ''pending''" "pa_created (hd fetch_rows) = 0" "pa_conv (hd fetch_rows) = None"
  by (simp_all add: fetch_rows_def create_pending_def fetch_park_def demo_stamp_def is_dict_def row_find_Cons)

lemma fetch_get: "0 \<le> t \<Longrightarrow> t \<le> 100 \<Longrightarrow> get_pending tagged_aead (replicate 32 0) ''s1'' t ''p1'' fetch_rows = Inr (Some fetch_view)"
  using get_kept [OF fetch_kept, of "''s1''" t] fetch_row
  by (simp add: fetch_view_def stale_def clock_defs) (simp add: fetch_park_def)

lemma fetch_env [simp]: "e_aead demo_env = tagged_aead" "e_key demo_env = replicate 32 0" "e_session demo_env = ''s1''"
  "s_now (now_stamp demo_env s) = int (y_tick s)" "e_handler demo_env n d w = (Inr (JObj [(''ok'', JBool True)]), w @ [n])"
  by (simp_all add: demo_env_def now_stamp_def demo_stamp_def)

section \<open>A request to look at\<close>

lemma fetch_sys_fields [simp]: "y_pending fetch_sys = fetch_rows" "y_world fetch_sys = []" "y_tick fetch_sys = 0" "y_audit fetch_sys = []"
  "y_resuming fetch_sys = {}"
  by (simp_all add: fetch_sys_def demo_sys_def)

lemma fetch_view_fields [simp]: "pv_status fetch_view = ''pending''" "pv_expired fetch_view = False" "pv_tool fetch_view = ''web_fetch''"
  "pv_id fetch_view = ''p1''" "pv_args fetch_view = JObj [(''url'', JStr ''https://a.b'')]" "pv_turn fetch_view = Some ''t1''"
  by (simp_all add: fetch_view_def fetch_park_def)

definition fetch_approved :: "(bytes \<times> bytes \<times> string \<times> plain) pending_row list" where
  "fetch_approved = row_update pa_id ''p1'' (\<lambda>r. r\<lparr>pa_status := ''approved'', pa_resolved := Some 1\<rparr>) fetch_rows"

lemma fetch_approve: "approve 1 ''p1'' fetch_rows = Inr (True, fetch_approved)"
  using fetch_row by (simp add: approve_def cas_def fetch_approved_def clock_defs)

lemma fetch_claim: "\<exists>rows. claim 3 ''p1'' fetch_approved = Inr (True, rows)"
  using fetch_row by (simp add: claim_def cas_def fetch_approved_def row_find_update clock_defs)

lemma fetch_route: "approve_route demo_env None False ''p1'' fetch_sys =
    approve_execute demo_env False fetch_view ((ticked (ticked fetch_sys))\<lparr>y_pending := fetch_approved\<rparr>)"
  using fetch_get [of 0] fetch_approve by (simp add: approve_route_def get_tool_web_fetch mk_tool_def)

lemma demo_stamps: "stamp_ok (e_stamp demo_env n)"
  by (simp add: demo_env_def demo_stamp_def stamp_ok_def)

lemma demo_audit: "y_audit s = [] \<Longrightarrow> \<exists>i r. audit_log demo_env (user_call row ''approved'') s = (Inr i, ticked s\<lparr>y_audit := [r]\<rparr>)"
  by (auto simp: audit_log_def audit_append_def user_call_def ACTORS_def DECISIONS_def)

lemma fetch_fresh: "supply_ok demo_env fetch_sys"
proof -
  have "replicate (Suc n) CHR ''z'' \<noteq> ''p1''" for n by (cases n) auto
  moreover have "map pa_id fetch_rows = [''p1'']"
    by (simp add: fetch_rows_def create_pending_def fetch_park_def demo_stamp_def is_dict_def)
  then have "pa_id ` set fetch_rows = {''p1''}" by (metis list.set_map list.simps(15) set_empty)
  ultimately show ?thesis using demo_supply by (simp add: supply_ok_def demo_env_def demo_stamp_def)
qed

lemma fetch_live: "int n \<le> 100 \<Longrightarrow> \<not> stale (int n) (hd fetch_rows)"
  using fetch_row by (simp add: stale_def clock_defs)

lemma fetch_clock: "s_now (e_stamp demo_env n) = int n"
  by (simp add: demo_env_def demo_stamp_def)

lemma fetch_park_fields [simp]: "pk_tool fetch_park = ''web_fetch''" "pk_args fetch_park = JObj [(''url'', JStr ''https://a.b'')]"
  "origin_of (pk_state fetch_park) = None"
  by (simp_all add: fetch_park_def origin_of_def)

abbreviation fetch_tool :: tool where
  "fetch_tool \<equiv> mk_tool ''web_fetch'' [(''url'', param ''string'')] [''url''] REVIEWED True False"

lemma fetch_tool_fields [simp]: "t_tier fetch_tool = REVIEWED"
  "validate_args fetch_tool [(''url'', JStr ''https://a.b'')] = Inr [(''url'', JStr ''https://a.b'')]"
  by (simp_all add: mk_tool_def demo_web_fetch_args)

lemmas fetch_facts = tagged_aead_roundtrip get_tool_web_fetch fetch_clock fetch_kept fetch_row fetch_live


lemma fetch_ran: "fst (approve_route demo_env None False ''p1'' fetch_sys) = Inr (''executed'', JObj [(''ok'', JBool True)], False) \<and>
    y_world (snd (approve_route demo_env None False ''p1'' fetch_sys)) = [''web_fetch'']"
  using approve_succeeds [OF _ fetch_fresh, of "''p1''" fetch_park "hd fetch_rows" fetch_tool None
      "[(''url'', JStr ''https://a.b'')]" "[(''url'', JStr ''https://a.b'')]" "[(''ok'', JBool True)]" "[''web_fetch'']"]
  by (simp add: fetch_facts)

theorem approve_runs_what_was_shown_witness:
  "\<exists>row. get_pending tagged_aead (replicate 32 0) ''s1'' 0 ''p1'' fetch_rows = Inr (Some row) \<and> \<not> pv_expired row"
  using approve_runs_what_was_shown [of demo_env None False "''p1''" fetch_sys] fetch_ran by auto

theorem approved_result_recorded_witness:
  "\<exists>v. get_pending tagged_aead (replicate 32 0) ''s1'' 50 ''p1''
      (pa_step tagged_aead (replicate 32 0) (Claim 20 ''p1'') (y_pending (snd (approve_route demo_env None False ''p1'' fetch_sys)))) = Inr (Some v) \<and>
    pv_result v = JObj [(''ok'', JBool True)]"
  using approved_result_recorded [of demo_env "''p1''" fetch_park fetch_sys fetch_tool None False "JObj [(''ok'', JBool True)]" False
      "[Claim 20 ''p1'']" 50] fetch_ran
  by (auto simp: fetch_facts demo_stamps event_ok_def)

definition sched_parked :: pending_view where
  "sched_parked = fetch_view\<lparr>pv_state := JObj [(''origin'', JObj [(''kind'', JStr ''scheduled''), (''schedule_id'', JStr ''s9'')])]\<rparr>"

definition sched_sys :: "(bytes \<times> bytes \<times> string \<times> plain, string list) sys" where
  "sched_sys = fetch_sys\<lparr>y_pending := map (\<lambda>r. r\<lparr>pa_status := ''denied'', pa_resolved := Some 0\<rparr>) fetch_rows\<rparr>"

lemma sched_finishes: "fst (maybe_finish_scheduled_turn demo_env sched_parked sched_sys) = Inr True"
  by (simp add: maybe_finish_scheduled_turn_def scheduled_origin_def origin_of_def sched_parked_def truthy_def body_get_def
      all_pending_resolved_def list_for_turn_def sched_sys_def fetch_rows_def create_pending_def fetch_park_def demo_stamp_def is_dict_def
      PENDING_LIST_LIMIT_def open_row_def pending_open_seal tagged_aead_roundtrip same_session_def unresolved_def in_flight_def
      turn_row_of_def launch_scheduled_resume_def demo_sys_def)

theorem scheduled_resume_once_witness:
  "\<exists>turn_id. pv_turn sched_parked = Some turn_id \<and> turn_id \<in> y_resuming (snd (maybe_finish_scheduled_turn demo_env sched_parked sched_sys))"
  using scheduled_resume_once [OF sched_finishes] by auto

theorem deny_is_final_witness:
  "y_world (snd (deny_route demo_env ''p1'' fetch_sys)) = []"
  using deny_is_final [of demo_env "''p1''" fetch_sys "[]"] by auto

end
