(* ===== verification/Json.thy ===== *)
theory Json
  imports Tool_Args
begin

text \<open>
  \<open>json.loads\<close> as the interpreter's decoder reads a text: JSON with blanks between tokens, \<open>NaN\<close> and
  the infinities, control characters refused inside strings, the last value of a repeated key kept in
  the key's first place, integers of at most 4300 digits. \<open>None\<close> stands for \<open>ValueError\<close>. A text
  that denotes a code point above 255 is outside the modelled alphabet and reads as refused; the
  interpreter's recursion limit is not modelled. The fuel of the recursion is spent once per value or
  separator, each of which consumes a character, so twice the length of the text is enough.
\<close>

definition json_blank :: "char \<Rightarrow> bool" where
  "json_blank c = (ord c \<in> {32, 9, 10, 13})"

definition skip_blanks :: "string \<Rightarrow> string" where
  "skip_blanks = dropWhile json_blank"

definition hex_val :: "char \<Rightarrow> nat" where
  "hex_val c = (let n = ord c in if n \<le> 57 then n - 48 else if n \<le> 70 then n - 55 else n - 87)"

definition escape_char :: "char \<Rightarrow> char option" where
  "escape_char c =
     (let n = ord c in
      if n = 34 \<or> n = 92 \<or> n = 47 then Some c
      else if n = 98 then Some (char_of (8 :: nat)) else if n = 102 then Some (char_of (12 :: nat))
      else if n = 110 then Some (char_of (10 :: nat)) else if n = 114 then Some (char_of (13 :: nat))
      else if n = 116 then Some (char_of (9 :: nat)) else None)"

definition unicode_char :: "char \<Rightarrow> char \<Rightarrow> char \<Rightarrow> char \<Rightarrow> char option" where
  "unicode_char a b c d =
     (if \<not> (ascii_hex a \<and> ascii_hex b \<and> ascii_hex c \<and> ascii_hex d) then None
      else let n = ((hex_val a * 16 + hex_val b) * 16 + hex_val c) * 16 + hex_val d
           in if n < 256 then Some (char_of n) else None)"

text \<open>The rest of a string literal, after its opening quote: its characters and what follows it.\<close>

fun scan_string :: "string \<Rightarrow> (string \<times> string) option" where
  "scan_string [] = None"
| "scan_string (c # cs) =
     (if ord c = 34 then Some ([], cs)
      else if ord c < 32 then None
      else if ord c = 92 then
        (case cs of
           [] \<Rightarrow> None
         | e # r \<Rightarrow>
             if ord e = 117 then
               (case r of
                  h1 # h2 # h3 # h4 # r' \<Rightarrow>
                    (case unicode_char h1 h2 h3 h4 of
                       None \<Rightarrow> None
                     | Some ch \<Rightarrow> map_option (\<lambda>(s, t). (ch # s, t)) (scan_string r'))
                | _ \<Rightarrow> None)
             else (case escape_char e of
                 None \<Rightarrow> None | Some ch \<Rightarrow> map_option (\<lambda>(s, t). (ch # s, t)) (scan_string r)))
      else map_option (\<lambda>(s, t). (c # s, t)) (scan_string cs))"

text \<open>A number: sign, integer part without leading zeros, then a fraction and an exponent if complete.\<close>

definition int_part :: "string \<Rightarrow> string \<times> string" where
  "int_part s = (case s of
       c # r \<Rightarrow> if c = CHR ''0'' then ([c], r) else (takeWhile ascii_digit s, dropWhile ascii_digit s)
     | [] \<Rightarrow> ([], []))"

definition frac_part :: "string \<Rightarrow> string \<times> string" where
  "frac_part s = (case s of
       c # d # r \<Rightarrow> if c = CHR ''.'' \<and> ascii_digit d
         then (c # takeWhile ascii_digit (d # r), dropWhile ascii_digit (d # r)) else ([], s)
     | _ \<Rightarrow> ([], s))"

definition exp_part :: "string \<Rightarrow> string \<times> string" where
  "exp_part s = (case s of
       c # r \<Rightarrow>
         if c = CHR ''e'' \<or> c = CHR ''E'' then
           (let sgn = (case r of d # _ \<Rightarrow> if d = CHR ''+'' \<or> d = CHR ''-'' then [d] else [] | [] \<Rightarrow> []);
                ds = drop (length sgn) r
            in if takeWhile ascii_digit ds = [] then ([], s)
               else (c # sgn @ takeWhile ascii_digit ds, dropWhile ascii_digit ds))
         else ([], s)
     | [] \<Rightarrow> ([], []))"

definition scan_number :: "string \<Rightarrow> (jval \<times> string) option" where
  "scan_number s =
     (let neg = (take 1 s = ''-''); s1 = (if neg then tl s else s);
          (ip, r1) = int_part s1; (fp, r2) = frac_part r1; (ep, r3) = exp_part r2
      in if ip = [] then None
         else if fp = [] \<and> ep = [] then
           (if length ip > 4300 then None
            else Some (JInt (if neg then - int_of_digits ip else int_of_digits ip), r1))
         else Some (JFloat ((if neg then ''-'' else []) @ ip @ fp @ ep), r3))"

definition scan_word :: "string \<Rightarrow> (jval \<times> string) option" where
  "scan_word s =
     (if startswith s ''null'' then Some (JNull, drop 4 s)
      else if startswith s ''true'' then Some (JBool True, drop 4 s)
      else if startswith s ''false'' then Some (JBool False, drop 5 s)
      else if startswith s ''NaN'' then Some (JFloat ''NaN'', drop 3 s)
      else if startswith s ''Infinity'' then Some (JFloat ''Infinity'', drop 8 s)
      else if startswith s ''-Infinity'' then Some (JFloat ''-Infinity'', drop 9 s)
      else scan_number s)"

text \<open>A value with no blanks before it; the items after a bracket; the pairs after a brace.\<close>

text \<open>What becomes of the pairs of an object: by default the last value of a key; \<open>object_pairs_hook\<close> may refuse them.\<close>

definition last_wins :: "jdict \<Rightarrow> jval option" where
  "last_wins kvs = Some (JObj (fold (\<lambda>(k, v) d. dict_set d k v) kvs []))"

fun json_value :: "(jdict \<Rightarrow> jval option) \<Rightarrow> nat \<Rightarrow> string \<Rightarrow> (jval \<times> string) option"
  and json_items :: "(jdict \<Rightarrow> jval option) \<Rightarrow> nat \<Rightarrow> string \<Rightarrow> (jval list \<times> string) option"
  and json_pairs :: "(jdict \<Rightarrow> jval option) \<Rightarrow> nat \<Rightarrow> string \<Rightarrow> ((string \<times> jval) list \<times> string) option" where
  "json_value hook 0 s = None"
| "json_value hook (Suc n) s = (case s of
       [] \<Rightarrow> None
     | c # r \<Rightarrow>
         if ord c = 34 then map_option (\<lambda>(t, u). (JStr t, u)) (scan_string r)
         else if c = CHR ''['' then
           (case skip_blanks r of
              d # r' \<Rightarrow> if d = CHR '']'' then Some (JList [], r')
                else map_option (\<lambda>(vs, u). (JList vs, u)) (json_items hook n (d # r'))
            | [] \<Rightarrow> None)
         else if c = CHR ''{'' then
           (case skip_blanks r of
              d # r' \<Rightarrow> if d = CHR ''}'' then map_option (\<lambda>v. (v, r')) (hook [])
                else (case json_pairs hook n (d # r') of
                    None \<Rightarrow> None | Some (kvs, u) \<Rightarrow> map_option (\<lambda>v. (v, u)) (hook kvs))
            | [] \<Rightarrow> None)
         else scan_word s)"
| "json_items hook 0 s = None"
| "json_items hook (Suc n) s = (case json_value hook n s of
       None \<Rightarrow> None
     | Some (v, r) \<Rightarrow> (case skip_blanks r of
         c # r' \<Rightarrow> if c = CHR '']'' then Some ([v], r')
           else if c = CHR '','' then map_option (\<lambda>(vs, u). (v # vs, u)) (json_items hook n (skip_blanks r'))
           else None
       | [] \<Rightarrow> None))"
| "json_pairs hook 0 s = None"
| "json_pairs hook (Suc n) s = (case s of
       q # r \<Rightarrow>
         if ord q \<noteq> 34 then None
         else (case scan_string r of
             None \<Rightarrow> None
           | Some (k, r1) \<Rightarrow> (case skip_blanks r1 of
               c # r2 \<Rightarrow>
                 if c \<noteq> CHR '':'' then None
                 else (case json_value hook n (skip_blanks r2) of
                     None \<Rightarrow> None
                   | Some (v, r3) \<Rightarrow> (case skip_blanks r3 of
                       d # r4 \<Rightarrow> if d = CHR ''}'' then Some ([(k, v)], r4)
                         else if d = CHR '','' then map_option (\<lambda>(kvs, u). ((k, v) # kvs, u)) (json_pairs hook n (skip_blanks r4))
                         else None
                     | [] \<Rightarrow> None))
             | [] \<Rightarrow> None))
     | [] \<Rightarrow> None)"

definition json_loads_hook :: "(jdict \<Rightarrow> jval option) \<Rightarrow> string \<Rightarrow> jval option" where
  "json_loads_hook hook s = (case json_value hook (2 * length s + 2) (skip_blanks s) of
       Some (v, r) \<Rightarrow> if skip_blanks r = [] then Some v else None
     | None \<Rightarrow> None)"

definition json_loads :: "string \<Rightarrow> jval option" where
  "json_loads s = json_loads_hook last_wins s"

text \<open>Sorted-key JSON: the keys of every dict in code point order.\<close>

function sort_keys :: "jval \<Rightarrow> jval" where
  "sort_keys (JObj kvs) = JObj (order_by (\<lambda>a b. fst a \<le> fst b) (map (\<lambda>(k, v). (k, sort_keys v)) kvs))"
| "sort_keys (JList vs) = JList (map sort_keys vs)"
| "sort_keys JNull = JNull"
| "sort_keys (JBool b) = JBool b"
| "sort_keys (JInt n) = JInt n"
| "sort_keys (JFloat s) = JFloat s"
| "sort_keys (JStr s) = JStr s"
  by pat_completeness auto
termination
  by (relation "measure size")
    (auto simp: less_Suc_eq_le size_list_estimation' intro!: size_list_estimation')

end
