(* ===== verification/Agent_Turn.thy ===== *)
theory Agent_Turn
  imports Approve_Route Agent_Sources
begin

text \<open>
  The bounded tool loop (\<open>app/smartbrain_3000/agent.py\<close>): the split of proposed calls, the
  inline executions, the park, the loop with its fallbacks, the closing call and the resume of a
  parked turn. The model gateway (network I/O) and the recognisers of calls printed as text are parameters; a
  gateway answer depends on the position of the supply, so it may differ at each call. Progress
  events, usage records and the command-line session change none of this state and are left out.
\<close>

record ('c, 'w) agent =
  a_env :: "('c, 'w) env"
  a_tools :: "nat \<Rightarrow> jval list \<Rightarrow> string \<Rightarrow> jval result"
  a_chat :: "nat \<Rightarrow> jval list \<Rightarrow> string \<Rightarrow> jval result"
  a_recover :: "string \<Rightarrow> jval list"
  a_leak :: "string \<Rightarrow> bool"
  a_attempt :: "string \<Rightarrow> bool"
  a_sanitize :: "string \<Rightarrow> string"
  a_cap :: "string \<Rightarrow> nat"

text \<open>The arguments a turn keeps to its end.\<close>

record turn =
  t_model :: string
  t_conv :: "string option"
  t_turn :: string
  t_auto :: "string set"
  t_denied :: "string set"
  t_cap :: nat
  t_origin :: jval

datatype turn_result =
    Complete string bool "nat option" "jval list"
  | Awaiting string "jval list" bool
  | Max_steps string nat

definition first_message :: "jval \<Rightarrow> jval result" where
  "first_message data = (case jget data ''choices'' of
       JList (c # cs) \<Rightarrow> (let m = jget c ''message'' in Inr (if truthy m then m else JObj []))
     | _ \<Rightarrow> Inl (Gateway 502 ''gateway returned no choices''))"

section \<open>Calls that run at once and calls that wait\<close>

definition args_valid :: "tool \<Rightarrow> jdict \<Rightarrow> bool" where
  "args_valid t args = (case validate_args t args of Inl (ValueErr _) \<Rightarrow> False | _ \<Rightarrow> True)"

definition prevalidate_error :: "('c, 'w) env \<Rightarrow> tool \<Rightarrow> jdict \<Rightarrow> string option" where
  "prevalidate_error E t args = (if \<not> t_prevalidate t then None else e_prevalidate E (t_name t) args)"

definition args_or_empty :: "jdict option \<Rightarrow> jval" where
  "args_or_empty args = (case args of Some d \<Rightarrow> JObj d | None \<Rightarrow> JObj [])"

definition is_remembered :: "turn \<Rightarrow> string \<Rightarrow> tool option \<Rightarrow> jdict option \<Rightarrow> bool" where
  "is_remembered P name t args =
     (case t of None \<Rightarrow> False | Some t \<Rightarrow> t_tier t = REVIEWED \<and> allowed_in (t_auto P) name (args_or_empty args))"

definition find_tool :: "string \<Rightarrow> tool option" where
  "find_tool name = (if name = [] then None else get_tool name)"

definition already_denied :: "turn \<Rightarrow> string \<Rightarrow> jdict option \<Rightarrow> bool" where
  "already_denied P name args = (case args of None \<Rightarrow> False | Some d \<Rightarrow> canonical_key name d \<in> t_denied P)"

definition should_park :: "('c, 'w) env \<Rightarrow> turn \<Rightarrow> jval \<Rightarrow> bool" where
  "should_park E P tc =
     (let p = tool_call_parts tc in
      case (find_tool (cp_name p), cp_args p) of
        (Some t, Some d) \<Rightarrow> t_tier t \<noteq> OBSERVE \<and> \<not> is_remembered P (cp_name p) (Some t) (Some d)
          \<and> \<not> already_denied P (cp_name p) (Some d) \<and> args_valid t d \<and> prevalidate_error E t d = None
      | _ \<Rightarrow> False)"

definition classify :: "('c, 'w) env \<Rightarrow> turn \<Rightarrow> jval list \<Rightarrow> jval list \<times> jval list" where
  "classify E P tcs = (filter (should_park E P) tcs, filter (\<lambda>tc. \<not> should_park E P tc) tcs)"

definition inline_run :: "turn \<Rightarrow> call_parts \<Rightarrow> jdict \<Rightarrow> bool \<Rightarrow> run_args" where
  "inline_run P p d granted = \<lparr>rn_actor = ''assistant'', rn_tool = cp_name p, rn_args = JObj d, rn_conv = t_conv P,
     rn_claim = (if granted then Granted else No_claim)\<rparr>"

definition tool_message :: "turn \<Rightarrow> jval \<Rightarrow> jval \<Rightarrow> jval" where
  "tool_message P tcid v = JObj [(''role'', JStr ''tool''), (''tool_call_id'', tcid), (''content'', JStr (take (t_cap P) (json_dumps v)))]"

definition execute_inline :: "('c, 'w) env \<Rightarrow> turn \<Rightarrow> jval \<Rightarrow> ('c, 'w) sys \<Rightarrow> jval \<times> ('c, 'w) sys" where
  "execute_inline E P tc s =
     (let p = tool_call_parts tc; t = find_tool (cp_name p); granted = is_remembered P (cp_name p) t (cp_args p);
          msg = tool_message P (cp_id p)
      in case (t, cp_args p) of
           (Some t, Some d) \<Rightarrow>
             if already_denied P (cp_name p) (Some d) then
               (msg (error_dict ''the user already denied exactly this action this turn; do not attempt it again''), s)
             else if t_tier t \<noteq> OBSERVE \<and> \<not> granted then
               (msg (error_dict (case prevalidate_error E t d of
                  Some m \<Rightarrow> if m = [] then ''invalid arguments for tool'' else m | None \<Rightarrow> ''invalid arguments for tool'')), s)
             else (let r = tool_run E (inline_run P p d granted) s
                   in (msg (case fst r of Inr v \<Rightarrow> v | Inl e \<Rightarrow> error_dict (err_text e)), snd r))
         | _ \<Rightarrow> (msg (error_dict (''cannot run tool '' @ [CHR 0x27] @ cp_name p @ [CHR 0x27])), s))"

fun run_inline :: "('c, 'w) env \<Rightarrow> turn \<Rightarrow> jval list \<Rightarrow> ('c, 'w) sys \<Rightarrow> jval list \<times> ('c, 'w) sys" where
  "run_inline E P [] s = ([], s)"
| "run_inline E P (tc # tcs) s =
     (let r = execute_inline E P tc s; rs = run_inline E P tcs (snd r) in (fst r # fst rs, snd rs))"

definition park_of :: "turn \<Rightarrow> jval \<Rightarrow> call_parts \<Rightarrow> tool \<Rightarrow> park" where
  "park_of P turn_state p t = \<lparr>pk_tool = cp_name p, pk_tier = tier_value (t_tier t), pk_args = args_or_empty (cp_args p),
     pk_conv = t_conv P, pk_turn = Some (t_turn P), pk_call = (case cp_id p of JStr i \<Rightarrow> Some i | _ \<Rightarrow> None), pk_state = turn_state\<rparr>"

definition proposed_call :: "turn \<Rightarrow> park \<Rightarrow> audit_call" where
  "proposed_call P p = \<lparr>ac_actor = ''assistant'', ac_tool = pk_tool p, ac_tier = pk_tier p, ac_decision = ''proposed'', ac_ok = True,
     ac_conv = t_conv P, ac_args = summarize (pk_args p), ac_result = [], ac_error = []\<rparr>"

definition park_one :: "('c, 'w) env \<Rightarrow> turn \<Rightarrow> jval \<Rightarrow> jval \<Rightarrow> ('c, 'w) sys \<Rightarrow> jval result \<times> ('c, 'w) sys" where
  "park_one E P turn_state tc s =
     (let p = tool_call_parts tc in
      case get_tool (cp_name p) of
        None \<Rightarrow> (Inl (OtherErr ''AttributeError''), s)
      | Some t \<Rightarrow>
          (let pk = park_of P turn_state p t in
           case create_pending (e_aead E) (e_key E) (e_session E) (now_stamp E s) pk (y_pending s) of
             Inl e \<Rightarrow> (Inl e, ticked s)
           | Inr (pid, rows) \<Rightarrow>
               (let l = audit_log E (proposed_call P pk) ((ticked s)\<lparr>y_pending := rows\<rparr>) in
                case fst l of Inl e \<Rightarrow> (Inl e, snd l)
                | Inr _ \<Rightarrow> (Inr (JObj [(''id'', JStr pid), (''tool'', JStr (cp_name p)), (''tier'', JStr (tier_value (t_tier t))),
                    (''args'', redact (pk_args pk))]), snd l))))"

fun park_all :: "('c, 'w) env \<Rightarrow> turn \<Rightarrow> jval \<Rightarrow> jval list \<Rightarrow> ('c, 'w) sys \<Rightarrow> jval list result \<times> ('c, 'w) sys" where
  "park_all E P turn_state [] s = (Inr [], s)"
| "park_all E P turn_state (tc # tcs) s =
     (let r = park_one E P turn_state tc s in
      case fst r of Inl e \<Rightarrow> (Inl e, snd r)
      | Inr tile \<Rightarrow> (let rs = park_all E P turn_state tcs (snd r) in (rbind (fst rs) (\<lambda>tiles. Inr (tile # tiles)), snd rs)))"

section \<open>The loop\<close>

definition TRANSIENT_STATUSES :: "int list" where "TRANSIENT_STATUSES = [409, 429, 502, 503, 504]"

definition tools_call :: "('c, 'w) agent \<Rightarrow> turn \<Rightarrow> jval list \<Rightarrow> ('c, 'w) sys \<Rightarrow> jval result \<times> ('c, 'w) sys" where
  "tools_call A P messages s = (case a_tools A (y_tick s) messages (t_model P) of
       Inl (Gateway status msg) \<Rightarrow>
         if status \<notin> set TRANSIENT_STATUSES then (Inl (Gateway status msg), ticked s)
         else (a_tools A (y_tick (ticked s)) messages (t_model P), ticked (ticked s))
     | r \<Rightarrow> (r, ticked s))"

definition finalize_exhausted ::
  "('c, 'w) agent \<Rightarrow> turn \<Rightarrow> jval list \<Rightarrow> string \<Rightarrow> nat \<Rightarrow> ('c, 'w) sys \<Rightarrow> turn_result result \<times> ('c, 'w) sys" where
  "finalize_exhausted A P messages reason steps s =
     (if FINALIZE_BUDGET (t_cap P) = 0 then (Inr (Max_steps reason steps), s)
      else (case a_chat A (y_tick s) (fit_for_finalize messages (FINALIZE_BUDGET (t_cap P))) (t_model P) of
          Inl _ \<Rightarrow> (Inr (Max_steps reason steps), ticked s)
        | Inr data \<Rightarrow> (rbind (first_message data) (\<lambda>m.
            let content = content_of m in
            if strip content = [] \<or> a_leak A content then Inr (Max_steps reason steps)
            else Inr (Complete (a_sanitize A content) False (Some steps) (collect_sources messages))), ticked s)))"

text \<open>The fallback of a model that cannot use tools, taken only while no tool ran.\<close>

definition plain_answer ::
  "('c, 'w) agent \<Rightarrow> turn \<Rightarrow> jval list \<Rightarrow> pyerr \<Rightarrow> ('c, 'w) sys \<Rightarrow> turn_result result \<times> ('c, 'w) sys" where
  "plain_answer A P messages exc s = (case a_chat A (y_tick s) messages (t_model P) of
       Inl _ \<Rightarrow> (Inl exc, ticked s)
     | Inr data \<Rightarrow> (rbind (first_message data) (\<lambda>m. Inr (Complete (a_sanitize A (content_of m)) True None [])), ticked s))"

definition TOOL_LEAK_MESSAGE :: string where
  "TOOL_LEAK_MESSAGE = ''I tried to perform that action, but my response wasn'' @ [CHR 0x27] @ ''t in a format I could run -- this can '' @
     ''happen with smaller local models. Please try again, or switch to a model with reliable tool '' @
     ''calling under Settings -> Model routing.''"

definition TOOL_TEXT_NOTICE :: string where
  "TOOL_TEXT_NOTICE = [CHR 0x0A, CHR 0x0A] @ ''> (!) This model tried to use a tool as plain text -- it likely doesn'' @ [CHR 0x27] @ ''t support tool '' @
     ''calling. For document/task requests, pick a tool-capable Chat model under '' @
     ''Settings -> Model routing (coder-tuned models often can'' @ [CHR 0x27] @ ''t).''"

text \<open>The calls and the text of an answer, after the recognisers of calls printed as text.\<close>

definition read_choice :: "('c, 'w) agent \<Rightarrow> jval \<Rightarrow> jval list \<times> string" where
  "read_choice A choice =
     (let tool_calls = jlist (jget choice ''tool_calls''); content = content_of choice
      in if tool_calls \<noteq> [] then (tool_calls, content)
         else if a_recover A content \<noteq> [] then (a_recover A content, [])
         else if a_leak A content then ([], TOOL_LEAK_MESSAGE)
         else if a_attempt A content then ([], content @ TOOL_TEXT_NOTICE)
         else ([], content))"

definition opt_str :: "string option \<Rightarrow> jval" where
  "opt_str v = (case v of None \<Rightarrow> JNull | Some s \<Rightarrow> JStr s)"

definition turn_state_of :: "turn \<Rightarrow> jval list \<Rightarrow> nat \<Rightarrow> nat \<Rightarrow> jval" where
  "turn_state_of P messages step calls = JObj [(''model'', JStr (t_model P)), (''messages'', JList messages), (''step'', JInt (int step)),
     (''calls'', JInt (int calls)), (''conversation_id'', opt_str (t_conv P)), (''origin'', t_origin P)]"

definition assistant_message :: "string \<Rightarrow> jval list \<Rightarrow> jval" where
  "assistant_message content tcs = JObj [(''role'', JStr ''assistant''), (''content'', JStr content), (''tool_calls'', JList tcs)]"

fun turn_loop :: "('c, 'w) agent \<Rightarrow> turn \<Rightarrow> nat \<Rightarrow> jval option \<Rightarrow> jval list \<Rightarrow> nat \<Rightarrow> nat \<Rightarrow> ('c, 'w) sys \<Rightarrow>
    turn_result result \<times> ('c, 'w) sys" where
  "turn_loop A P 0 primed messages calls gathered s = finalize_exhausted A P messages ''step budget exhausted'' MAX_STEPS s"
| "turn_loop A P (Suc n) primed messages calls gathered s =
     (let step = MAX_STEPS - Suc n in
      if gathered \<ge> FINALIZE_BUDGET (t_cap P) then finalize_exhausted A P messages ''context budget reached'' step s
      else
       (let g = (case primed of Some data \<Rightarrow> (Inr data, s) | None \<Rightarrow> tools_call A P messages s); s1 = snd g in
        case fst g of
          Inl e \<Rightarrow> (case e of Gateway _ _ \<Rightarrow> if calls = 0 then plain_answer A P messages e s1 else (Inl e, s1) | _ \<Rightarrow> (Inl e, s1))
        | Inr data \<Rightarrow> (case first_message data of
            Inl e \<Rightarrow> (Inl e, s1)
          | Inr choice \<Rightarrow>
             (let (tool_calls, content) = read_choice A choice in
              if tool_calls = [] then (Inr (Complete (a_sanitize A content) False (Some (step + 1)) (collect_sources messages)), s1)
              else if calls + length tool_calls > MAX_TOOL_CALLS
                then finalize_exhausted A P messages ''tool-call budget exceeded'' (step + 1) s1
              else if \<not> list_all is_dict tool_calls then (Inl (Assertion ''tool_call must be a dict''), s1)
              else
               (let (parked, inline) = classify (a_env A) P tool_calls;
                    r = run_inline (a_env A) P inline s1;
                    messages' = messages @ [assistant_message content tool_calls] @ fst r;
                    calls' = calls + length tool_calls
                in if parked \<noteq> [] then
                     (let k = park_all (a_env A) P (turn_state_of P messages' step calls') parked (snd r)
                      in (rbind (fst k) (\<lambda>tiles. Inr (Awaiting (t_turn P) tiles False)), snd k))
                   else turn_loop A P n None messages' calls' (gathered + sum_list (map (length \<circ> content_of) (fst r))) (snd r))))))"

text \<open>\<open>run_turn\<close>; a start past the last step leaves an empty range.\<close>

definition run_turn :: "('c, 'w) agent \<Rightarrow> turn \<Rightarrow> jval option \<Rightarrow> jval list \<Rightarrow> nat \<Rightarrow> nat \<Rightarrow> ('c, 'w) sys \<Rightarrow> turn_result result \<times> ('c, 'w) sys" where
  "run_turn A P primed messages start_step start_calls s =
     (if messages = [] \<or> t_model P = [] then (Inl (Assertion ''messages + model required''), s)
      else turn_loop A P (MAX_STEPS - start_step) primed messages start_calls
        (if start_calls = 0 then 0 else sum_list (map (length \<circ> content_of) (filter (is_role ''tool'') messages))) s)"

section \<open>Resuming a parked turn\<close>

definition state_step :: "turn_row \<Rightarrow> int" where
  "state_step r = (case jget (tr_state r) ''step'' of JInt n \<Rightarrow> n | _ \<Rightarrow> 0)"

definition state_nat :: "jval \<Rightarrow> string \<Rightarrow> nat" where
  "state_nat v k = (case jget v k of JInt n \<Rightarrow> nat n | _ \<Rightarrow> 0)"

definition state_str :: "jval \<Rightarrow> string \<Rightarrow> string option" where
  "state_str v k = (case jget v k of JStr s \<Rightarrow> Some s | _ \<Rightarrow> None)"

definition resume_content :: "turn_row \<Rightarrow> jval" where
  "resume_content r =
     (if tr_status r = ''executed'' \<and> tr_result r \<noteq> JNull then tr_result r
      else if tr_status r = ''executed'' then error_dict ''tool execution was interrupted before a result was recorded; its outcome is unknown''
      else error_dict ''The user denied this exact action. Do not attempt it again this turn; proceed without it or explain what you could not do.'')"

definition row_args :: "turn_row \<Rightarrow> jdict" where
  "row_args r = (case tr_args r of JObj d \<Rightarrow> d | _ \<Rightarrow> [])"

definition denied_keys :: "turn_row list \<Rightarrow> string set" where
  "denied_keys rows = (\<lambda>r. canonical_key (tr_tool r) (row_args r)) ` set (filter (\<lambda>r. tr_status r = ''denied'') rows)"

definition resume_turn :: "('c, 'w) agent \<Rightarrow> string set \<Rightarrow> string \<Rightarrow> ('c, 'w) sys \<Rightarrow> turn_result option result \<times> ('c, 'w) sys" where
  "resume_turn A auto turn_id s =
     (let E = a_env A; s1 = ticked s in
      case list_for_turn (e_aead E) (e_key E) (e_session E) (s_now (now_stamp E s)) turn_id (y_pending s) of
        Inl e \<Rightarrow> (Inl e, s1)
      | Inr rows \<Rightarrow>
          if rows = [] then (Inr None, s1)
          else case rany unresolved rows of
            Inl e \<Rightarrow> (Inl e, s1)
          | Inr True \<Rightarrow>
              (rbind (rany in_flight rows) (\<lambda>running. Inr (Some (Awaiting turn_id
                 (map (\<lambda>r. JObj [(''id'', JStr (tr_id r)), (''tool'', JStr (tr_tool r)), (''tier'', JStr (tr_tier r)), (''args'', redact (tr_args r))])
                   (filter (\<lambda>r. tr_status r = ''pending'') rows)) running))), s1)
          | Inr False \<Rightarrow>
              (let stated = filter (\<lambda>r. truthy (tr_state r)) rows in
               case stated of
                 [] \<Rightarrow> (Inl (Assertion ''resume requires stored turn state''), s1)
               | _ \<Rightarrow>
                 (let latest = Max (state_step ` set stated);
                      batch = filter (\<lambda>r. state_step r = latest) stated;
                      state = tr_state (hd batch);
                      model = (case state_str state ''model'' of Some m \<Rightarrow> m | None \<Rightarrow> []);
                      P = \<lparr>t_model = model, t_conv = state_str state ''conversation_id'', t_turn = turn_id, t_auto = auto,
                           t_denied = denied_keys rows, t_cap = a_cap A model, t_origin = jget state ''origin''\<rparr>;
                      answers = map (\<lambda>r. tool_message P (opt_str (tr_call r)) (resume_content r)) batch;
                      out = run_turn A P None (jlist (jget state ''messages'') @ answers) (nat (latest + 1)) (state_nat state ''calls'') s1
                  in (rbind (fst out) (\<lambda>r. Inr (Some r)), snd out))))"

section \<open>What a turn may do\<close>

text \<open>A call the loop may execute itself, and the world after a sequence of such calls.\<close>

definition may_run :: "turn \<Rightarrow> string \<Rightarrow> jdict \<Rightarrow> jdict \<Rightarrow> bool" where
  "may_run P name raw v \<longleftrightarrow> (\<exists>t. get_tool name = Some t \<and> validate_args t raw = Inr v \<and> canonical_key name raw \<notin> t_denied P \<and>
     (t_tier t = OBSERVE \<or> (t_tier t = REVIEWED \<and> allowed_in (t_auto P) name (JObj raw))))"

fun replay :: "('c, 'w) env \<Rightarrow> (string \<times> jdict \<times> jdict) list \<Rightarrow> 'w \<Rightarrow> 'w" where
  "replay E [] w = w"
| "replay E ((name, raw, v) # ks) w = replay E ks (snd (e_handler E name v w))"

lemma replay_append: "replay E (ks @ ls) w = replay E ls (replay E ks w)"
  by (induction E ks w rule: replay.induct) auto

definition handled :: "('c, 'w) env \<Rightarrow> turn \<Rightarrow> nat \<Rightarrow> 'w \<Rightarrow> 'w \<Rightarrow> bool" where
  "handled E P k w w' \<longleftrightarrow> (\<exists>ks. length ks \<le> k \<and> (\<forall>(name, raw, v) \<in> set ks. may_run P name raw v) \<and>
     w' = replay E ks w)"

lemma handled_refl: "handled E P k w w"
  unfolding handled_def by (rule exI [of _ "[]"]) simp

lemma handled_one: "may_run P name raw v \<Longrightarrow> handled E P (Suc 0) w (snd (e_handler E name v w))"
  unfolding handled_def by (rule exI [of _ "[(name, raw, v)]"]) simp

lemma handled_trans:
  assumes "handled E P j w w1" and "handled E P k w1 w2"
  shows "handled E P (j + k) w w2"
proof -
  from assms obtain ks ls where "length ks \<le> j" "\<forall>(name, raw, v) \<in> set ks. may_run P name raw v"
    "w1 = replay E ks w" "length ls \<le> k"
    "\<forall>(name, raw, v) \<in> set ls. may_run P name raw v" "w2 = replay E ls w1"
    unfolding handled_def by blast
  then show ?thesis unfolding handled_def by (intro exI [of _ "ks @ ls"]) (auto simp: replay_append)
qed

lemma handled_mono: "handled E P j w w' \<Longrightarrow> j \<le> k \<Longrightarrow> handled E P k w w'"
  unfolding handled_def by (elim exE conjE, rule_tac x = ks in exI) auto

text \<open>
  The rows a turn may add: pending ones of this turn that open, for this unlock session, to a valid call of a
  dangerous tool that is neither remembered nor denied.
\<close>

definition parkable :: "('c, 'w) env \<Rightarrow> turn \<Rightarrow> 'c pending_row \<Rightarrow> bool" where
  "parkable E P r \<longleftrightarrow> pa_status r = ''pending'' \<and> pa_turn r = Some (t_turn P) \<and>
     (\<exists>t d pk. get_tool (pa_tool r) = Some t \<and> t_tier t \<noteq> OBSERVE \<and> pa_tier r = tier_value (t_tier t) \<and>
        holds (e_aead E) (e_key E) (e_session E) pk JNull r \<and> pk_args pk = JObj d \<and>
        (\<exists>v. validate_args t d = Inr v) \<and> canonical_key (pa_tool r) d \<notin> t_denied P \<and>
        \<not> (t_tier t = REVIEWED \<and> allowed_in (t_auto P) (pa_tool r) (JObj d)))"

definition parks :: "('c, 'w) env \<Rightarrow> turn \<Rightarrow> nat \<Rightarrow> 'c pending_row list \<Rightarrow> 'c pending_row list \<Rightarrow> bool" where
  "parks E P k rows rows' \<longleftrightarrow> (\<exists>new. rows' = rows @ new \<and> length new \<le> k \<and> (\<forall>r \<in> set new. parkable E P r))"

lemma parks_refl: "parks E P k rows rows"
  by (simp add: parks_def)

lemma tool_run_no_claim_pending: "rn_claim a \<in> {Granted, No_claim} \<Longrightarrow> y_pending (snd (tool_run E a s)) = y_pending s"
  by (auto simp: tool_run_def take_claim_def Let_def split: option.split sum.split pyerr.split)

lemma find_tool_Some: "find_tool name = Some t \<Longrightarrow> get_tool name = Some t"
  by (simp add: find_tool_def split: if_splits)

lemma inline_run_fields [simp]: "rn_tool (inline_run P p d g) = cp_name p" "rn_args (inline_run P p d g) = JObj d"
  "rn_claim (inline_run P p d g) = (if g then Granted else No_claim)"
  by (simp_all add: inline_run_def)

lemma execute_inline_handled: "handled E P (Suc 0) (y_world s) (y_world (snd (execute_inline E P tc s)))"
proof (cases "y_world (snd (execute_inline E P tc s)) = y_world s")
  case False
  let ?p = "tool_call_parts tc"
  from False obtain t d where t: "find_tool (cp_name ?p) = Some t" and d: "cp_args ?p = Some d"
    and nd: "canonical_key (cp_name ?p) d \<notin> t_denied P" and ok: "t_tier t = OBSERVE \<or> is_remembered P (cp_name ?p) (Some t) (Some d)"
    and w: "y_world (snd (execute_inline E P tc s)) =
      y_world (snd (tool_run E (inline_run P ?p d (is_remembered P (cp_name ?p) (Some t) (Some d))) s))"
    by (cases "find_tool (cp_name ?p)"; cases "cp_args ?p") (auto simp: execute_inline_def Let_def already_denied_def split: if_splits)
  from False w have "y_world (snd (tool_run E (inline_run P ?p d (is_remembered P (cp_name ?p) (Some t) (Some d))) s)) \<noteq> y_world s" by simp
  from run_outcome [OF this] obtain v where v: "validate_args t d = Inr v"
    "y_world (snd (execute_inline E P tc s)) = snd (e_handler E (cp_name ?p) v (y_world s))"
    using find_tool_Some [OF t] w by auto
  have "may_run P (cp_name ?p) d v"
    using find_tool_Some [OF t] v nd ok by (auto simp: may_run_def is_remembered_def args_or_empty_def)
  then show ?thesis unfolding v(2) by (rule handled_one)
qed (simp add: handled_refl)

lemma execute_inline_pending [simp]: "y_pending (snd (execute_inline E P tc s)) = y_pending s"
  by (auto simp: execute_inline_def Let_def tool_run_no_claim_pending split: option.split)

lemma run_inline_handled:
  "handled E P (length tcs) (y_world s) (y_world (snd (run_inline E P tcs s))) \<and> y_pending (snd (run_inline E P tcs s)) = y_pending s"
proof (induction tcs arbitrary: s)
  case (Cons tc tcs)
  let ?s = "snd (execute_inline E P tc s)"
  have "handled E P (Suc 0 + length tcs) (y_world s) (y_world (snd (run_inline E P tcs ?s)))"
    by (rule handled_trans [OF execute_inline_handled [of E P s tc]]) (use Cons in simp)
  with Cons [of ?s] show ?case by (simp add: Let_def)
qed (simp add: handled_refl)

lemma run_inline_length: "length (fst (run_inline E P tcs s)) = length tcs"
  by (induction tcs arbitrary: s) (simp_all add: Let_def)

lemma park_one_fields:
  assumes "aead_roundtrip (e_aead E)" and "\<forall>n. stamp_ok (e_stamp E n)" and "should_park E P tc"
  shows "parks E P (Suc 0) (y_pending s) (y_pending (snd (park_one E P st tc s))) \<and> y_world (snd (park_one E P st tc s)) = y_world s"
proof -
  let ?p = "tool_call_parts tc"
  from assms(3) obtain t d where t: "find_tool (cp_name ?p) = Some t" "get_tool (cp_name ?p) = Some t" and d: "cp_args ?p = Some d"
    and ok: "t_tier t \<noteq> OBSERVE" "\<not> is_remembered P (cp_name ?p) (Some t) (Some d)" "\<not> already_denied P (cp_name ?p) (Some d)" "args_valid t d"
    by (auto simp: should_park_def Let_def find_tool_Some split: option.splits)
  let ?pk = "park_of P st ?p t"
  have pk: "pk_args ?pk = JObj d" "pk_tool ?pk = cp_name ?p" "pk_turn ?pk = Some (t_turn P)" "pk_tier ?pk = tier_value (t_tier t)"
    by (simp_all add: park_of_def args_or_empty_def d)
  have "\<exists>v. validate_args t d = Inr v"
    using ok(4) validate_args_errors [of t d] by (cases "validate_args t d") (auto simp: args_valid_def)
  then have new: "parkable E P r" if "holds (e_aead E) (e_key E) (e_session E) ?pk JNull r" "pa_status r = ''pending''" for r
  proof -
    from that(1) have "pa_tool r = cp_name ?p" "pa_turn r = Some (t_turn P)" "pa_tier r = tier_value (t_tier t)"
      by (auto simp: holds_def pk)
    with that \<open>\<exists>v. validate_args t d = Inr v\<close> ok t(2) pk(1) show ?thesis
      unfolding parkable_def is_remembered_def already_denied_def args_or_empty_def by auto
  qed
  show ?thesis
  proof (cases "create_pending (e_aead E) (e_key E) (e_session E) (now_stamp E s) ?pk (y_pending s)")
    case (Inl e)
    then show ?thesis by (simp add: park_one_def Let_def t parks_refl)
  next
    case (Inr x)
    obtain pid rows where x: "x = (pid, rows)" by (cases x)
    have "stamp_ok (now_stamp E s)" using assms(2) by (simp add: now_stamp_def)
    from create_row [OF assms(1) this Inr [unfolded x]] new obtain r where "rows = y_pending s @ [r]" "parkable E P r" by blast
    then have "parks E P (Suc 0) (y_pending s) rows" by (simp add: parks_def)
    with Inr x t show ?thesis by (simp add: park_one_def Let_def split: sum.split)
  qed
qed

lemma parks_trans: "parks E P j a b \<Longrightarrow> parks E P k b c \<Longrightarrow> parks E P (j + k) a c"
  by (fastforce simp: parks_def)

lemma parks_mono: "parks E P j a b \<Longrightarrow> j \<le> k \<Longrightarrow> parks E P k a b"
  by (fastforce simp: parks_def)

lemma park_all_fields:
  assumes "aead_roundtrip (e_aead E)" and "\<forall>n. stamp_ok (e_stamp E n)"
  shows "\<forall>tc \<in> set tcs. should_park E P tc \<Longrightarrow>
   parks E P (length tcs) (y_pending s) (y_pending (snd (park_all E P st tcs s))) \<and> y_world (snd (park_all E P st tcs s)) = y_world s"
proof (induction tcs arbitrary: s)
  case (Cons tc tcs)
  let ?r = "park_one E P st tc s"
  from Cons.prems park_one_fields [OF assms, of P tc s st]
  have one: "parks E P (Suc 0) (y_pending s) (y_pending (snd ?r))" "y_world (snd ?r) = y_world s" by auto
  from Cons.IH [of "snd ?r"] Cons.prems
  have rest: "parks E P (length tcs) (y_pending (snd ?r)) (y_pending (snd (park_all E P st tcs (snd ?r))))"
    "y_world (snd (park_all E P st tcs (snd ?r))) = y_world (snd ?r)" by auto
  from one parks_trans [OF one(1) rest(1)] rest(2) parks_mono [OF one(1), of "Suc (length tcs)"] show ?case
    by (auto simp: Let_def split: sum.split)
qed (simp add: parks_refl)

section \<open>What the whole turn does\<close>

lemma tools_call_fields [simp]: "y_world (snd (tools_call A P ms s)) = y_world s" "y_pending (snd (tools_call A P ms s)) = y_pending s"
  by (auto simp: tools_call_def split: sum.split pyerr.split)

lemma finalize_fields [simp]: "y_world (snd (finalize_exhausted A P ms r k s)) = y_world s"
  "y_pending (snd (finalize_exhausted A P ms r k s)) = y_pending s"
  by (auto simp: finalize_exhausted_def split: sum.split)

lemma plain_fields [simp]: "y_world (snd (plain_answer A P ms e s)) = y_world s" "y_pending (snd (plain_answer A P ms e s)) = y_pending s"
  by (auto simp: plain_answer_def split: sum.split)

lemma classify_lengths: "length (fst (classify E P tcs)) + length (snd (classify E P tcs)) = length tcs"
  by (simp add: classify_def sum_length_filter_compl)

lemma turn_loop_effects:
  assumes "aead_roundtrip (e_aead (a_env A))" and "\<forall>n. stamp_ok (e_stamp (a_env A) n)"
  shows "handled (a_env A) P (MAX_TOOL_CALLS - calls) (y_world s) (y_world (snd (turn_loop A P n primed ms calls gathered s))) \<and>
    parks (a_env A) P (MAX_TOOL_CALLS - calls) (y_pending s) (y_pending (snd (turn_loop A P n primed ms calls gathered s)))"
proof (induction n arbitrary: primed ms calls gathered s)
  case 0
  then show ?case by (simp add: handled_refl parks_refl)
next
  case (Suc n)
  let ?E = "a_env A"
  let ?g = "case primed of Some data \<Rightarrow> (Inr data, s) | None \<Rightarrow> tools_call A P ms s"
  let ?loop = "turn_loop A P (Suc n) primed ms calls gathered s"
  have g: "y_world (snd ?g) = y_world s" "y_pending (snd ?g) = y_pending s" by (simp_all split: option.split)
  note idle = handled_refl [of ?E P _ "y_world s"] parks_refl [of ?E P _ "y_pending s"]
  show ?case
  proof (cases "gathered \<ge> FINALIZE_BUDGET (t_cap P)")
    case True
    then show ?thesis by (simp add: Let_def idle)
  next
    case budget: False
    show ?thesis
    proof (cases "fst ?g")
      case (Inl e)
      with budget g idle show ?thesis by (auto simp: Let_def split: pyerr.split)
    next
      case data: (Inr data)
      show ?thesis
      proof (cases "first_message data")
        case (Inl e)
        with budget g idle data show ?thesis by (simp add: Let_def)
      next
        case (Inr choice)
        obtain tcs content where rc: "read_choice A choice = (tcs, content)" by (cases "read_choice A choice")
        show ?thesis
        proof (cases "tcs = [] \<or> calls + length tcs > MAX_TOOL_CALLS \<or> \<not> list_all is_dict tcs")
          case True
          with budget g idle data Inr rc show ?thesis by (auto simp: Let_def)
        next
          case False
          obtain parked inline where cl: "classify ?E P tcs = (parked, inline)" by (cases "classify ?E P tcs")
          let ?r = "run_inline ?E P inline (snd ?g)"
          let ?ms = "ms @ [assistant_message content tcs] @ fst ?r"
          let ?calls = "calls + length tcs"
          have len: "length parked + length inline = length tcs" using classify_lengths [of ?E P tcs] cl by simp
          have room: "length tcs \<le> MAX_TOOL_CALLS - calls" "calls + length tcs \<le> MAX_TOOL_CALLS" using False by auto
          have inl: "handled ?E P (length inline) (y_world s) (y_world (snd ?r))" "y_pending (snd ?r) = y_pending s"
            using run_inline_handled [of ?E P inline "snd ?g"] g by simp_all
          show ?thesis
          proof (cases "parked = []")
            case True
            let ?g' = "gathered + sum_list (map (length \<circ> content_of) (fst ?r))"
            have loop: "?loop = turn_loop A P n None ?ms ?calls ?g' (snd ?r)"
              using budget data Inr rc False cl True by (simp add: Let_def)
            note ih = Suc.IH [where primed = None and ms = ?ms and calls = ?calls and gathered = ?g' and s = "snd ?r"]
            have "handled ?E P (length inline + (MAX_TOOL_CALLS - ?calls)) (y_world s) (y_world (snd ?loop))"
              unfolding loop by (rule handled_trans [OF inl(1)]) (use ih in simp)
            moreover have "length inline + (MAX_TOOL_CALLS - ?calls) \<le> MAX_TOOL_CALLS - calls" using len room by simp
            moreover have "parks ?E P (MAX_TOOL_CALLS - ?calls) (y_pending s) (y_pending (snd ?loop))"
              unfolding loop using ih inl(2) by simp
            ultimately show ?thesis using handled_mono parks_mono [of ?E P "MAX_TOOL_CALLS - ?calls"] by fastforce
          next
            case some: False
            let ?k = "park_all ?E P (turn_state_of P ?ms (MAX_STEPS - Suc n) ?calls) parked (snd ?r)"
            have loop: "snd ?loop = snd ?k" using budget data Inr rc False cl some by (simp add: Let_def)
            have "\<forall>tc \<in> set parked. should_park ?E P tc" using cl by (auto simp: classify_def)
            from park_all_fields [OF assms this] have
              "parks ?E P (length parked) (y_pending (snd ?r)) (y_pending (snd ?k)) \<and> y_world (snd ?k) = y_world (snd ?r)" .
            with inl len room loop handled_mono [OF inl(1)] parks_mono [of ?E P "length parked"] show ?thesis by auto
          qed
        qed
      qed
    qed
  qed
qed

text \<open>
  C2: what a turn may do by itself. Whatever the model answers, an agent turn touches the world only
  by at most eight handler calls (less those already spent before a pause), each on the validated form of the
  call's own arguments; each tool so reached only observes, or is a reviewed one the remembered consent covers
  for those very arguments. No irreversible tool is among them, nor any call the user denied in this turn.
\<close>

theorem turn_runs_only_permitted:
  assumes "aead_roundtrip (e_aead (a_env A))" and "\<forall>n. stamp_ok (e_stamp (a_env A) n)"
  shows "\<exists>ks. length ks \<le> 8 - start_calls \<and>
    (\<forall>(name, raw, v) \<in> set ks. \<exists>t. get_tool name = Some t \<and> validate_args t raw = Inr v \<and>
       canonical_key name raw \<notin> t_denied P \<and>
       (t_tier t = OBSERVE \<or> (t_tier t = REVIEWED \<and> allowed_in (t_auto P) name (JObj raw)))) \<and>
    y_world (snd (run_turn A P primed ms start_step start_calls s)) =
      replay (a_env A) ks (y_world s)"
proof -
  have "handled (a_env A) P (8 - start_calls) (y_world s) (y_world (snd (run_turn A P primed ms start_step start_calls s)))"
    using turn_loop_effects [OF assms] by (auto simp: run_turn_def handled_refl MAX_TOOL_CALLS_def)
  then show ?thesis unfolding handled_def may_run_def by blast
qed


lemma unattended_dangerous: "n \<in> set UNATTENDED_NEVER_AUTO \<Longrightarrow> get_tool n = Some t \<Longrightarrow> t_tier t \<noteq> OBSERVE \<and> remember_mode n \<noteq> Some Per_site"
  by (auto simp: UNATTENDED_NEVER_AUTO_def SCHEDULE_WRITE_TOOLS_def NI_WRITE_TOOLS_def remember_mode_def SITE_SCOPED_EGRESS_def
      get_tool_def REGISTRY_eq table_defs mk_tool_def split: if_splits)

lemma unattended_not_auto:
  assumes "n \<in> set UNATTENDED_NEVER_AUTO" and "get_tool n = Some t"
  shows "t_tier t \<noteq> OBSERVE \<and> \<not> allowed_in (E - set UNATTENDED_NEVER_AUTO) n args"
  using unattended_dangerous [OF assms] assms(1) by (auto simp: allowed_in_def split: jval.split)

lemma run_turn_effects:
  assumes "aead_roundtrip (e_aead (a_env A))" and "\<forall>n. stamp_ok (e_stamp (a_env A) n)"
  shows "handled (a_env A) P (8 - start_calls) (y_world s) (y_world (snd (run_turn A P primed ms start_step start_calls s))) \<and>
    parks (a_env A) P (8 - start_calls) (y_pending s) (y_pending (snd (run_turn A P primed ms start_step start_calls s)))"
  using turn_loop_effects [OF assms] by (auto simp: run_turn_def handled_refl parks_refl MAX_TOOL_CALLS_def)


section \<open>What a resume does\<close>

lemma resume_cases:
  assumes "list_for_turn (e_aead (a_env A)) (e_key (a_env A)) (e_session (a_env A)) (s_now (now_stamp (a_env A) s)) turn_id (y_pending s) = Inr rows"
  shows "snd (resume_turn A auto turn_id s) = ticked s \<or>
    (rany unresolved rows = Inr False \<and> (\<exists>P ms step calls. t_denied P = denied_keys rows \<and> t_auto P = auto \<and> t_turn P = turn_id \<and>
       snd (resume_turn A auto turn_id s) = snd (run_turn A P None ms step calls (ticked s))))"
proof (cases "rows = []")
  case True
  with assms show ?thesis by (simp add: resume_turn_def Let_def)
next
  case some: False
  show ?thesis
  proof (cases "rany unresolved rows")
    case (Inl e)
    with assms some show ?thesis by (simp add: resume_turn_def Let_def)
  next
    case (Inr b)
    show ?thesis
    proof (cases b)
      case True
      with assms some Inr show ?thesis by (simp add: resume_turn_def Let_def)
    next
      case False
      show ?thesis
      proof (cases "filter (\<lambda>r. truthy (tr_state r)) rows")
        case Nil
        with assms some Inr False show ?thesis by (simp add: resume_turn_def Let_def)
      next
        case (Cons r rs)
        with assms some Inr False show ?thesis
          by (intro disjI2 conjI) (auto simp: resume_turn_def Let_def intro!: exI [of _ "\<lparr>t_model = _, t_conv = _, t_turn = turn_id, t_auto = auto, t_denied = denied_keys rows, t_cap = _, t_origin = _\<rparr>"])
      qed
    qed
  qed
qed


section \<open>A turn to look at\<close>

definition demo_call_message :: jval where
  "demo_call_message = JObj [(''choices'', JList [JObj [(''message'', JObj [(''content'', JStr []),
     (''tool_calls'', JList [JObj [(''id'', JStr ''c1''), (''function'', JObj [(''name'', JStr ''web_fetch''),
        (''arguments'', JStr (json_dumps (JObj [(''url'', JStr ''https://a.b'')])))])]])])]])]"

definition demo_agent :: "(bytes \<times> bytes \<times> string \<times> plain, string list) agent" where
  "demo_agent = \<lparr>a_env = demo_env, a_tools = (\<lambda>n ms m. Inr demo_call_message), a_chat = (\<lambda>n ms m. Inl (OtherErr ''offline'')),
     a_recover = (\<lambda>_. []), a_leak = (\<lambda>_. False), a_attempt = (\<lambda>_. False), a_sanitize = (\<lambda>c. c), a_cap = (\<lambda>_. 1000)\<rparr>"

definition demo_turn :: "string set \<Rightarrow> turn" where
  "demo_turn auto = \<lparr>t_model = ''m'', t_conv = Some ''c1'', t_turn = ''t1'', t_auto = auto, t_denied = {}, t_cap = 1000, t_origin = JNull\<rparr>"

lemma demo_agent_ok: "aead_roundtrip (e_aead (a_env demo_agent))" "\<forall>n. stamp_ok (e_stamp (a_env demo_agent) n)"
  by (simp_all add: demo_agent_def tagged_aead_roundtrip demo_stamps)

lemma demo_agent_env [simp]: "a_env demo_agent = demo_env"
  by (simp add: demo_agent_def)

theorem turn_runs_only_permitted_witness:
  "\<exists>ks. length ks \<le> 8 \<and>
    y_world (snd (run_turn demo_agent (demo_turn {''web_fetch''}) None [role_message ''user'' ''q''] 0 0 fetch_sys)) =
      replay demo_env ks []"
  using turn_runs_only_permitted [OF demo_agent_ok, of 0 "demo_turn {''web_fetch''}" None "[role_message ''user'' ''q'']" 0 fetch_sys]
  by auto


lemma demo_turn_auto: "t_auto (demo_turn auto) = auto"
  by (simp add: demo_turn_def)


lemma demo_turn_list: "list_for_turn tagged_aead (replicate 32 0) ''s1'' 0 ''t1'' fetch_rows =
    Inr [turn_row_of 0 (hd fetch_rows) (pending_body ''s1'' fetch_park)]"
  by (simp add: list_for_turn_def fetch_rows_def create_pending_def fetch_park_def demo_stamp_def is_dict_def PENDING_LIST_LIMIT_def
      open_row_def pending_open_seal tagged_aead_roundtrip same_session_def)


end
