(* ===== verification/Scheduler.thy ===== *)
theory Scheduler
  imports Prelude
begin

text \<open>
  The schedule store and the runner's guards (\<open>app/smartbrain_3000/scheduler.py\<close>): every operation of
  \<open>ScheduleStore\<close>, the claim window of \<open>run_schedule\<close> and the gateway circuit breaker, with the schedule
  tool handlers of \<open>tools.py\<close> that write through it. Times are microseconds; a minute is sixty million.
\<close>

record 'c sched_row =
  sr_id :: string
  sr_nonce :: bytes
  sr_ct :: 'c
  sr_enabled :: bool
  sr_interval :: int
  sr_next :: int
  sr_last :: "int option"

record 'c run_row =
  rr_id :: string
  rr_sched :: string
  rr_ran :: int
  rr_status :: string
  rr_nonce :: bytes
  rr_ct :: 'c
  rr_seen :: bool

record 'c sched_db =
  sd_scheds :: "'c sched_row list"
  sd_runs :: "'c run_row list"

definition SCHED_LIST_LIMIT :: nat where "SCHED_LIST_LIMIT = 200"
definition MAX_PER_TICK :: nat where "MAX_PER_TICK = 10"
definition VAULT_FEED_ID :: string where "VAULT_FEED_ID = ''vault-updates''"
definition SELFREVIEW_FEED_ID :: string where "SELFREVIEW_FEED_ID = ''self-review''"
definition NI_FEED_ID :: string where "NI_FEED_ID = ''neural-interface''"
definition CARRIER_IDS :: "string list" where "CARRIER_IDS = [VAULT_FEED_ID, SELFREVIEW_FEED_ID, NI_FEED_ID]"
definition CARRIER_RUN_KEEP :: nat where "CARRIER_RUN_KEEP = 500"
definition MAX_SCHEDULE_MINUTES :: int where "MAX_SCHEDULE_MINUTES = 525600"

definition to_minutes :: "int \<Rightarrow> int" where
  "to_minutes m = m * 60 * MICROS"

section \<open>Sealing\<close>

definition sched_aad :: "string \<Rightarrow> string" where "sched_aad sid = ''schedule:'' @ sid"
definition run_aad :: "string \<Rightarrow> string" where "run_aad rid = ''schedule_run:'' @ rid"

definition sched_open :: "'c aead \<Rightarrow> bytes \<Rightarrow> string \<Rightarrow> bytes \<Rightarrow> 'c \<Rightarrow> jdict result" where
  "sched_open A key sid nonce c = rbind (aead_open A key nonce c (sched_aad sid)) (\<lambda>body.
     if has_key body ''title'' \<and> has_key body ''prompt'' then Inr body else Inl (Assertion ''schedule body malformed''))"

text \<open>The body of a run is decrypted without a check of its nonce or shape.\<close>

definition run_open :: "'c aead \<Rightarrow> bytes \<Rightarrow> string \<Rightarrow> bytes \<Rightarrow> 'c \<Rightarrow> jdict result" where
  "run_open A key rid nonce c = (case aes_decrypt A key nonce c (run_aad rid) of
       None \<Rightarrow> Inl InvalidTag | Some (PJson (JObj b)) \<Rightarrow> Inr b | Some _ \<Rightarrow> Inl (OtherErr ''body is not a dict''))"

record sched_view =
  sv_id :: string
  sv_title :: jval
  sv_prompt :: jval
  sv_model :: jval
  sv_enabled :: bool
  sv_interval :: int
  sv_next :: int
  sv_last :: "int option"

definition sched_row_view :: "'c aead \<Rightarrow> bytes \<Rightarrow> 'c sched_row \<Rightarrow> sched_view result" where
  "sched_row_view A key r = rbind (sched_open A key (sr_id r) (sr_nonce r) (sr_ct r)) (\<lambda>body. Inr
     \<lparr>sv_id = sr_id r, sv_title = opt_get body ''title'' JNull, sv_prompt = opt_get body ''prompt'' JNull,
      sv_model = opt_get body ''model'' JNull, sv_enabled = sr_enabled r, sv_interval = sr_interval r,
      sv_next = sr_next r, sv_last = sr_last r\<rparr>)"

definition sched_body :: "string \<Rightarrow> string \<Rightarrow> jval \<Rightarrow> jval" where
  "sched_body title prompt model = JObj [(''title'', JStr title), (''prompt'', JStr prompt), (''model'', model)]"

section \<open>The store\<close>

definition add_schedule ::
  "'c aead \<Rightarrow> bytes \<Rightarrow> stamp \<Rightarrow> string \<Rightarrow> string \<Rightarrow> int \<Rightarrow> int \<Rightarrow> jval \<Rightarrow> 'c sched_db \<Rightarrow> (string \<times> 'c sched_db) result" where
  "add_schedule A key st title prompt interval start_in model db =
     (if title = [] \<or> prompt = [] then Inl (Assertion ''title + prompt required'')
      else if \<not> (0 \<le> interval \<and> 0 \<le> start_in) then Inl (Assertion ''minutes must be non-negative'')
      else if s_uid st \<in> sr_id ` set (sd_scheds db) then Inl (OtherErr ''duplicate key'')
      else Inr (s_uid st, db\<lparr>sd_scheds := sd_scheds db @ [\<lparr>sr_id = s_uid st, sr_nonce = s_nonce st,
        sr_ct = aes_encrypt A key (s_nonce st) (PJson (sched_body title prompt model)) (sched_aad (s_uid st)),
        sr_enabled = True, sr_interval = interval, sr_next = s_now st + to_minutes start_in, sr_last = None\<rparr>]\<rparr>))"

definition next_asc :: "'c sched_row \<Rightarrow> 'c sched_row \<Rightarrow> bool" where
  "next_asc a b = (sr_next a \<le> sr_next b)"

definition list_schedules :: "'c aead \<Rightarrow> bytes \<Rightarrow> 'c sched_db \<Rightarrow> sched_view list result" where
  "list_schedules A key db = rmap (sched_row_view A key)
     (take SCHED_LIST_LIMIT (order_by next_asc (filter (\<lambda>r. sr_id r \<notin> set CARRIER_IDS) (sd_scheds db))))"

definition get_schedule :: "'c aead \<Rightarrow> bytes \<Rightarrow> string \<Rightarrow> 'c sched_db \<Rightarrow> sched_view option result" where
  "get_schedule A key sid db =
     (if sid = [] then Inl (Assertion ''schedule id required'')
      else if sid \<in> set CARRIER_IDS then Inr None
      else case row_find sr_id sid (sd_scheds db) of
        None \<Rightarrow> Inr None | Some r \<Rightarrow> rbind (sched_row_view A key r) (\<lambda>v. Inr (Some v)))"

definition row_due :: "int \<Rightarrow> 'c sched_row \<Rightarrow> bool" where
  "row_due now r = (sr_enabled r \<and> sr_next r \<le> now)"

definition due_schedules :: "'c aead \<Rightarrow> bytes \<Rightarrow> int \<Rightarrow> 'c sched_db \<Rightarrow> sched_view list result" where
  "due_schedules A key now db = rmap (sched_row_view A key) (take MAX_PER_TICK (order_by next_asc (filter (row_due now) (sd_scheds db))))"

definition is_due :: "int \<Rightarrow> string \<Rightarrow> 'c sched_db \<Rightarrow> bool result" where
  "is_due now sid db =
     (if sid = [] then Inl (Assertion ''schedule id required'') else Inr (\<exists>r \<in> set (sd_scheds db). sr_id r = sid \<and> row_due now r))"

definition update_scheds :: "string \<Rightarrow> ('c sched_row \<Rightarrow> 'c sched_row) \<Rightarrow> 'c sched_db \<Rightarrow> 'c sched_db" where
  "update_scheds sid f db = db\<lparr>sd_scheds := row_update sr_id sid f (sd_scheds db)\<rparr>"

definition update_schedule ::
  "'c aead \<Rightarrow> bytes \<Rightarrow> bytes \<Rightarrow> string \<Rightarrow> string \<Rightarrow> string \<Rightarrow> int \<Rightarrow> jval \<Rightarrow> 'c sched_db \<Rightarrow> 'c sched_db result" where
  "update_schedule A key nonce sid title prompt interval model db =
     (if sid = [] \<or> title = [] \<or> prompt = [] then Inl (Assertion ''id + title + prompt required'')
      else Inr (update_scheds sid (\<lambda>r. r\<lparr>sr_nonce := nonce,
        sr_ct := aes_encrypt A key nonce (PJson (sched_body title prompt model)) (sched_aad sid), sr_interval := interval\<rparr>) db))"

definition set_enabled :: "string \<Rightarrow> bool \<Rightarrow> 'c sched_db \<Rightarrow> 'c sched_db result" where
  "set_enabled sid enabled db =
     (if sid = [] then Inl (Assertion ''schedule id required'') else Inr (update_scheds sid (\<lambda>r. r\<lparr>sr_enabled := enabled\<rparr>) db))"

definition delete_schedule :: "string \<Rightarrow> 'c sched_db \<Rightarrow> 'c sched_db result" where
  "delete_schedule sid db =
     (if sid = [] then Inl (Assertion ''schedule id required'')
      else if sid \<in> set CARRIER_IDS then Inr db
      else Inr \<lparr>sd_scheds = filter (\<lambda>r. sr_id r \<noteq> sid) (sd_scheds db), sd_runs = filter (\<lambda>r. rr_sched r \<noteq> sid) (sd_runs db)\<rparr>)"

definition mark_ran :: "int \<Rightarrow> string \<Rightarrow> int \<Rightarrow> 'c sched_db \<Rightarrow> 'c sched_db result" where
  "mark_ran now sid interval db =
     (if sid = [] then Inl (Assertion ''schedule id required'')
      else if interval > 0 then Inr (update_scheds sid (\<lambda>r. r\<lparr>sr_last := Some now, sr_next := now + to_minutes interval\<rparr>) db)
      else Inr (update_scheds sid (\<lambda>r. r\<lparr>sr_last := Some now, sr_enabled := False\<rparr>) db))"

definition ran_desc :: "'c run_row \<Rightarrow> 'c run_row \<Rightarrow> bool" where
  "ran_desc a b = (rr_ran b \<le> rr_ran a)"

text \<open>The cutoff is the timestamp of the first row past the newest five hundred.\<close>

definition prune_carrier_runs :: "string \<Rightarrow> 'c run_row list \<Rightarrow> 'c run_row list" where
  "prune_carrier_runs sid runs =
     (case drop CARRIER_RUN_KEEP (order_by ran_desc (filter (\<lambda>r. rr_sched r = sid) runs)) of
        [] \<Rightarrow> runs
      | edge # _ \<Rightarrow> filter (\<lambda>r. \<not> (rr_sched r = sid \<and> rr_ran r \<le> rr_ran edge)) runs)"

definition run_body :: "string \<Rightarrow> jval \<Rightarrow> jval" where
  "run_body message error = JObj [(''message'', JStr message), (''error'', error)]"

definition record_run ::
  "'c aead \<Rightarrow> bytes \<Rightarrow> stamp \<Rightarrow> string \<Rightarrow> string \<Rightarrow> string \<Rightarrow> jval \<Rightarrow> 'c sched_db \<Rightarrow> (string \<times> 'c sched_db) result" where
  "record_run A key st sid status message error db =
     (if sid = [] \<or> status = [] then Inl (Assertion ''schedule id + status required'')
      else if s_uid st \<in> rr_id ` set (sd_runs db) then Inl (OtherErr ''duplicate key'')
      else let runs = sd_runs db @ [\<lparr>rr_id = s_uid st, rr_sched = sid, rr_ran = s_now st, rr_status = status,
             rr_nonce = s_nonce st, rr_ct = aes_encrypt A key (s_nonce st) (PJson (run_body message error)) (run_aad (s_uid st)),
             rr_seen = False\<rparr>]
           in Inr (s_uid st, db\<lparr>sd_runs := (if sid \<in> set CARRIER_IDS then prune_carrier_runs sid runs else runs)\<rparr>))"

definition ensure_carrier :: "'c aead \<Rightarrow> bytes \<Rightarrow> stamp \<Rightarrow> string \<Rightarrow> string \<Rightarrow> string \<Rightarrow> 'c sched_db \<Rightarrow> 'c sched_db result" where
  "ensure_carrier A key st sid title note db =
     (if sid \<notin> set CARRIER_IDS then Inl (Assertion ''only reserved carrier ids may be ensured'')
      else if sid \<in> sr_id ` set (sd_scheds db) then Inr db
      else Inr (db\<lparr>sd_scheds := sd_scheds db @ [\<lparr>sr_id = sid, sr_nonce = s_nonce st,
        sr_ct = aes_encrypt A key (s_nonce st) (PJson (JObj [(''title'', JStr title), (''prompt'', JStr note)])) (sched_aad sid),
        sr_enabled = False, sr_interval = 0, sr_next = s_now st, sr_last = None\<rparr>]\<rparr>))"

text \<open>\<open>record_vault_run\<close>, \<open>record_selfreview_run\<close> and \<open>record_ni_run\<close>, by the carrier they ride.\<close>

datatype carrier = Vault_feed | Selfreview_feed | Ni_feed

definition carrier_id :: "carrier \<Rightarrow> string" where
  "carrier_id c = (case c of Vault_feed \<Rightarrow> VAULT_FEED_ID | Selfreview_feed \<Rightarrow> SELFREVIEW_FEED_ID | Ni_feed \<Rightarrow> NI_FEED_ID)"

definition carrier_text :: "carrier \<Rightarrow> string \<times> string" where
  "carrier_text c = (case c of
       Vault_feed \<Rightarrow> (''Vault updates'', ''(vault auto-update carrier)'')
     | Selfreview_feed \<Rightarrow> (''Self-review'', ''(self-review carrier)'')
     | Ni_feed \<Rightarrow> (''Neural Interface'', ''(Neural Interface carrier)''))"

definition record_carrier_run ::
  "'c aead \<Rightarrow> bytes \<Rightarrow> stamp \<Rightarrow> stamp \<Rightarrow> carrier \<Rightarrow> string \<Rightarrow> string \<Rightarrow> 'c sched_db \<Rightarrow> (string \<times> 'c sched_db) result" where
  "record_carrier_run A key st st' c status message db =
     (if status = [] then Inl (Assertion ''run status required'')
      else rbind (ensure_carrier A key st (carrier_id c) (fst (carrier_text c)) (snd (carrier_text c)) db) (\<lambda>db'.
        record_run A key st' (carrier_id c) status message JNull db'))"

record run_view =
  rv_id :: string
  rv_ran :: int
  rv_status :: string
  rv_message :: jval
  rv_error :: jval

definition clamp :: "int \<Rightarrow> int \<Rightarrow> int \<Rightarrow> int" where
  "clamp n lo hi = min (max n lo) hi"

definition list_runs :: "'c aead \<Rightarrow> bytes \<Rightarrow> string \<Rightarrow> int \<Rightarrow> 'c sched_db \<Rightarrow> run_view list result" where
  "list_runs A key sid limit db =
     (if sid = [] then Inl (Assertion ''schedule id required'')
      else rmap (\<lambda>r. rbind (run_open A key (rr_id r) (rr_nonce r) (rr_ct r)) (\<lambda>body. Inr
          \<lparr>rv_id = rr_id r, rv_ran = rr_ran r, rv_status = rr_status r, rv_message = opt_get body ''message'' (JStr []),
           rv_error = opt_get body ''error'' JNull\<rparr>))
        (take (nat (clamp limit 1 100)) (order_by ran_desc (filter (\<lambda>r. rr_sched r = sid) (sd_runs db)))))"

record feed_item =
  fi_run :: run_view
  fi_sched :: string
  fi_title :: jval
  fi_seen :: bool

text \<open>The join: a run whose schedule is gone is dropped.\<close>

definition joined :: "'c sched_db \<Rightarrow> ('c run_row \<times> 'c sched_row) list" where
  "joined db = [(r, s). r \<leftarrow> sd_runs db, s \<leftarrow> sd_scheds db, sr_id s = rr_sched r]"

definition joined_desc :: "'c run_row \<times> 'c sched_row \<Rightarrow> 'c run_row \<times> 'c sched_row \<Rightarrow> bool" where
  "joined_desc a b = (rr_ran (fst b) \<le> rr_ran (fst a))"

definition recent_runs :: "'c aead \<Rightarrow> bytes \<Rightarrow> int \<Rightarrow> 'c sched_db \<Rightarrow> feed_item list result" where
  "recent_runs A key limit db =
     rmap (\<lambda>(r, s). rbind (run_open A key (rr_id r) (rr_nonce r) (rr_ct r)) (\<lambda>body.
        rbind (sched_open A key (sr_id s) (sr_nonce s) (sr_ct s)) (\<lambda>sched. Inr
          \<lparr>fi_run = \<lparr>rv_id = rr_id r, rv_ran = rr_ran r, rv_status = rr_status r,
             rv_message = opt_get body ''message'' (JStr []), rv_error = opt_get body ''error'' JNull\<rparr>,
           fi_sched = rr_sched r, fi_title = opt_get sched ''title'' JNull, fi_seen = rr_seen r\<rparr>)))
      (take (nat (clamp limit 1 200)) (order_by joined_desc (joined db)))"

definition unseen_count :: "'c sched_db \<Rightarrow> nat" where
  "unseen_count db = length (filter (\<lambda>(r, s). \<not> rr_seen r) (joined db))"

definition mark_all_seen :: "'c sched_db \<Rightarrow> nat \<times> 'c sched_db" where
  "mark_all_seen db = (unseen_count db, db\<lparr>sd_runs := map (\<lambda>r. if \<not> rr_seen r then r\<lparr>rr_seen := True\<rparr> else r) (sd_runs db)\<rparr>)"

section \<open>The claim window of a run\<close>

datatype claim_outcome = Skipped string | Claimed sched_view

definition claim_schedule ::
  "'c aead \<Rightarrow> bytes \<Rightarrow> int \<Rightarrow> bool \<Rightarrow> bool \<Rightarrow> string \<Rightarrow> 'c sched_db \<Rightarrow> (claim_outcome \<times> 'c sched_db) result" where
  "claim_schedule A key now locked require_due sid db =
     (if locked then Inr (Skipped ''vault locked'', db)
      else rbind (get_schedule A key sid db) (\<lambda>fresh. case fresh of
          None \<Rightarrow> Inr (Skipped ''schedule deleted'', db)
        | Some v \<Rightarrow> rbind (is_due now sid db) (\<lambda>due.
            if require_due \<and> \<not> due then Inr (Skipped ''no longer due'', db)
            else rbind (mark_ran now sid (sv_interval v) db) (\<lambda>db'. Inr (Claimed v, db')))))"

section \<open>The circuit breaker\<close>

record breaker =
  br_fails :: nat
  br_until :: int
  br_warned :: bool

definition BREAKER_TRIP_AFTER :: nat where "BREAKER_TRIP_AFTER = 3"
definition BREAKER_COOLDOWN_SECS :: int where "BREAKER_COOLDOWN_SECS = 300"

definition breaker_start :: breaker where
  "breaker_start = \<lparr>br_fails = 0, br_until = 0, br_warned = False\<rparr>"

definition breaker_open :: "int \<Rightarrow> breaker \<Rightarrow> bool" where
  "breaker_open monotonic b = (monotonic < br_until b)"

definition breaker_record :: "int \<Rightarrow> bool \<Rightarrow> breaker \<Rightarrow> breaker" where
  "breaker_record monotonic success b =
     (if success then \<lparr>br_fails = 0, br_until = 0, br_warned = False\<rparr>
      else let b' = b\<lparr>br_fails := br_fails b + 1\<rparr> in
        if br_fails b' \<ge> BREAKER_TRIP_AFTER then b'\<lparr>br_until := monotonic + BREAKER_COOLDOWN_SECS * MICROS, br_warned := True\<rparr> else b')"

section \<open>The tool handlers that write schedules\<close>

definition clamp_minutes :: "int \<Rightarrow> int" where
  "clamp_minutes v = min (max v 0) MAX_SCHEDULE_MINUTES"

record schedule_args =
  sa_id :: "string option"
  sa_title :: "string option"
  sa_prompt :: "string option"
  sa_interval :: "int option"
  sa_start :: "int option"
  sa_model :: "string option"
  sa_enabled :: "bool option"

text \<open>\<open>x or None\<close> of an optional model name: the empty name is none.\<close>

definition model_or_none :: "string option \<Rightarrow> jval" where
  "model_or_none m = (case m of None \<Rightarrow> JNull | Some s \<Rightarrow> if s = [] then JNull else JStr s)"

definition or_zero :: "int option \<Rightarrow> int" where
  "or_zero v = (case v of None \<Rightarrow> 0 | Some n \<Rightarrow> n)"

definition create_schedule_tool ::
  "'c aead \<Rightarrow> bytes \<Rightarrow> stamp \<Rightarrow> schedule_args \<Rightarrow> 'c sched_db \<Rightarrow> (string \<times> 'c sched_db) result" where
  "create_schedule_tool A key st a db = (case (sa_title a, sa_prompt a) of
       (Some title, Some prompt) \<Rightarrow>
         if title = [] \<or> prompt = [] then Inl (Assertion ''title + prompt required'')
         else add_schedule A key st (strip title) prompt (clamp_minutes (or_zero (sa_interval a)))
                (clamp_minutes (or_zero (sa_start a))) (model_or_none (sa_model a)) db
     | _ \<Rightarrow> Inl (Assertion ''title + prompt required''))"

definition text_of :: "jval \<Rightarrow> string" where
  "text_of v = (case v of JStr s \<Rightarrow> s | _ \<Rightarrow> [])"

definition update_schedule_tool ::
  "'c aead \<Rightarrow> bytes \<Rightarrow> bytes \<Rightarrow> schedule_args \<Rightarrow> 'c sched_db \<Rightarrow> 'c sched_db result" where
  "update_schedule_tool A key nonce a db = (case sa_id a of
       None \<Rightarrow> Inl (Assertion ''schedule_id required'')
     | Some sid \<Rightarrow>
         if sid = [] then Inl (Assertion ''schedule_id required'')
         else rbind (get_schedule A key sid db) (\<lambda>existing. case existing of
             None \<Rightarrow> Inl (ValueErr ''schedule not found'')
           | Some v \<Rightarrow>
               (let title = strip (case sa_title a of Some t \<Rightarrow> t | None \<Rightarrow> text_of (sv_title v));
                    prompt = (case sa_prompt a of Some p \<Rightarrow> p | None \<Rightarrow> text_of (sv_prompt v));
                    interval = (case sa_interval a of Some n \<Rightarrow> clamp_minutes n | None \<Rightarrow> sv_interval v);
                    model = (case sa_model a of Some m \<Rightarrow> model_or_none (Some m) | None \<Rightarrow> sv_model v)
                in if title = [] \<or> prompt = [] then Inl (ValueErr ''title and prompt cannot be empty'')
                   else update_schedule A key nonce sid title prompt interval model db)))"

definition set_schedule_enabled_tool :: "'c aead \<Rightarrow> bytes \<Rightarrow> schedule_args \<Rightarrow> 'c sched_db \<Rightarrow> 'c sched_db result" where
  "set_schedule_enabled_tool A key a db = (case (sa_id a, sa_enabled a) of
       (Some sid, Some enabled) \<Rightarrow>
         if sid = [] then Inl (Assertion ''schedule_id required'')
         else rbind (get_schedule A key sid db) (\<lambda>v. case v of
             None \<Rightarrow> Inl (ValueErr ''schedule not found'') | Some _ \<Rightarrow> set_enabled sid enabled db)
     | (Some sid, None) \<Rightarrow> if sid = [] then Inl (Assertion ''schedule_id required'') else Inl (Assertion ''enabled required'')
     | _ \<Rightarrow> Inl (Assertion ''schedule_id required''))"

definition delete_schedule_tool :: "schedule_args \<Rightarrow> 'c sched_db \<Rightarrow> 'c sched_db result" where
  "delete_schedule_tool a db = (case sa_id a of
       Some sid \<Rightarrow> if sid = [] then Inl (Assertion ''schedule_id required'') else delete_schedule sid db
     | None \<Rightarrow> Inl (Assertion ''schedule_id required''))"

section \<open>Runs of operations\<close>

datatype sched_event =
    Fire int bool bool string
  | Record stamp string string string jval
  | Record_carrier stamp stamp carrier string string
  | Tool_create stamp schedule_args
  | Tool_update bytes schedule_args
  | Tool_enable schedule_args
  | Tool_delete schedule_args
  | Seen

definition ok_or :: "'a \<Rightarrow> 'a result \<Rightarrow> 'a" where
  "ok_or d r = (case r of Inl _ \<Rightarrow> d | Inr x \<Rightarrow> x)"

definition sched_step :: "'c aead \<Rightarrow> bytes \<Rightarrow> sched_event \<Rightarrow> 'c sched_db \<Rightarrow> 'c sched_db" where
  "sched_step A key ev db = (case ev of
       Fire now locked require_due sid \<Rightarrow> ok_or db (rmap1 snd (claim_schedule A key now locked require_due sid db))
     | Record st sid status message error \<Rightarrow> ok_or db (rmap1 snd (record_run A key st sid status message error db))
     | Record_carrier st st' c status message \<Rightarrow> ok_or db (rmap1 snd (record_carrier_run A key st st' c status message db))
     | Tool_create st a \<Rightarrow> ok_or db (rmap1 snd (create_schedule_tool A key st a db))
     | Tool_update nonce a \<Rightarrow> ok_or db (update_schedule_tool A key nonce a db)
     | Tool_enable a \<Rightarrow> ok_or db (set_schedule_enabled_tool A key a db)
     | Tool_delete a \<Rightarrow> ok_or db (delete_schedule_tool a db)
     | Seen \<Rightarrow> snd (mark_all_seen db))"

text \<open>What each operation does to the schedule rows.\<close>

lemma claim_scheds:
  "claim_schedule A key now locked rd sid db = Inr (out, db') \<Longrightarrow>
   (db' = db \<and> (\<exists>m. out = Skipped m)) \<or>
   (\<exists>v r. out = Claimed v \<and> row_find sr_id sid (sd_scheds db) = Some r \<and> sv_interval v = sr_interval r \<and> sid \<notin> set CARRIER_IDS \<and>
      (rd \<longrightarrow> (\<exists>r \<in> set (sd_scheds db). sr_id r = sid \<and> row_due now r)) \<and> mark_ran now sid (sr_interval r) db = Inr db')"
  by (auto simp: claim_schedule_def get_schedule_def is_due_def rbind_Inr_iff sched_row_view_def split: if_splits option.splits)

lemma record_run_scheds: "record_run A key st sid status m e db = Inr (i, db') \<Longrightarrow> sd_scheds db' = sd_scheds db"
  by (auto simp: record_run_def Let_def split: if_splits)

lemma ensure_carrier_scheds:
  "ensure_carrier A key st sid title note db = Inr db' \<Longrightarrow>
   sd_scheds db' = sd_scheds db \<or> (\<exists>r. sd_scheds db' = sd_scheds db @ [r] \<and> sr_id r = sid \<and> \<not> sr_enabled r \<and> sid \<in> set CARRIER_IDS)"
  by (auto simp: ensure_carrier_def split: if_splits)

lemma record_carrier_scheds:
  "record_carrier_run A key st st' c status m db = Inr (i, db') \<Longrightarrow>
   sd_scheds db' = sd_scheds db \<or> (\<exists>r. sd_scheds db' = sd_scheds db @ [r] \<and> sr_id r \<in> set CARRIER_IDS \<and> \<not> sr_enabled r)"
  by (auto simp: record_carrier_run_def rbind_Inr_iff split: if_splits dest!: ensure_carrier_scheds record_run_scheds)

lemma create_tool_scheds:
  "create_schedule_tool A key st a db = Inr (i, db') \<Longrightarrow>
   \<exists>r. sd_scheds db' = sd_scheds db @ [r] \<and> sr_id r = s_uid st \<and> s_uid st \<notin> sr_id ` set (sd_scheds db)"
  by (auto simp: create_schedule_tool_def add_schedule_def split: option.splits if_splits)

lemma get_schedule_user: "get_schedule A key sid db = Inr (Some v) \<Longrightarrow> sid \<notin> set CARRIER_IDS"
  by (auto simp: get_schedule_def split: if_splits)

lemma update_schedule_scheds:
  "update_schedule A key nonce sid title prompt interval model db = Inr db' \<Longrightarrow>
   \<exists>f. sd_scheds db' = row_update sr_id sid f (sd_scheds db) \<and>
     (\<forall>r. sr_id (f r) = sr_id r \<and> sr_enabled (f r) = sr_enabled r \<and> sr_next (f r) = sr_next r)"
  unfolding update_schedule_def update_scheds_def by (auto split: if_splits)

lemma update_tool_scheds:
  assumes "update_schedule_tool A key nonce a db = Inr db'"
  shows "\<exists>sid f. sd_scheds db' = row_update sr_id sid f (sd_scheds db) \<and> sid \<notin> set CARRIER_IDS \<and>
     (\<forall>r. sr_id (f r) = sr_id r \<and> sr_enabled (f r) = sr_enabled r \<and> sr_next (f r) = sr_next r)"
proof -
  from assms obtain sid where sid: "sa_id a = Some sid" "sid \<noteq> []"
    by (cases "sa_id a") (auto simp: update_schedule_tool_def split: if_splits)
  have "get_schedule A key sid db \<noteq> Inr None" "\<And>e. get_schedule A key sid db \<noteq> Inl e"
    using assms sid by (auto simp: update_schedule_tool_def)
  then obtain v where v: "get_schedule A key sid db = Inr (Some v)"
    by (metis option.exhaust sum.exhaust)
  have "\<exists>title prompt interval model. update_schedule A key nonce sid title prompt interval model db = Inr db'"
    using assms sid v by (simp add: update_schedule_tool_def Let_def split: if_split_asm) blast
  with get_schedule_user [OF v] update_schedule_scheds show ?thesis by blast
qed

lemma enable_tool_scheds:
  "set_schedule_enabled_tool A key a db = Inr db' \<Longrightarrow>
   \<exists>sid b. sa_id a = Some sid \<and> sa_enabled a = Some b \<and> sid \<notin> set CARRIER_IDS \<and>
     sd_scheds db' = row_update sr_id sid (\<lambda>r. r\<lparr>sr_enabled := b\<rparr>) (sd_scheds db)"
  by (auto simp: set_schedule_enabled_tool_def rbind_Inr_iff set_enabled_def update_scheds_def
      split: option.splits if_splits dest!: get_schedule_user)

lemma delete_tool_scheds:
  "delete_schedule_tool a db = Inr db' \<Longrightarrow> \<exists>P. sd_scheds db' = filter P (sd_scheds db) \<and> (\<forall>r. sr_id r \<in> set CARRIER_IDS \<longrightarrow> P r)"
  by (auto simp: delete_schedule_tool_def delete_schedule_def split: option.splits if_splits
      intro: exI [of _ "\<lambda>_. True"])

lemma mark_ran_scheds:
  "mark_ran now sid interval db = Inr db' \<Longrightarrow>
   \<exists>f. sd_scheds db' = row_update sr_id sid f (sd_scheds db) \<and>
     (\<forall>r. sr_id (f r) = sr_id r \<and> (sr_enabled (f r) \<longrightarrow> sr_enabled r \<and> interval > 0 \<and> sr_next (f r) = now + to_minutes interval))"
  by (auto simp: mark_ran_def update_scheds_def split: if_splits)

section \<open>Once per period\<close>

text \<open>No row of this id is due before \<open>T\<close>.\<close>

definition quiet :: "int \<Rightarrow> string \<Rightarrow> 'c sched_db \<Rightarrow> bool" where
  "quiet T sid db \<longleftrightarrow> (\<forall>r \<in> set (sd_scheds db). sr_id r = sid \<longrightarrow> sr_enabled r \<longrightarrow> T \<le> sr_next r)"

text \<open>The events that may come between: anything but enabling the schedule by hand, running it by hand, or the tick after \<open>T\<close>.\<close>

definition leaves_quiet :: "int \<Rightarrow> string \<Rightarrow> sched_event \<Rightarrow> bool" where
  "leaves_quiet T sid ev = (case ev of
       Fire now _ require_due sid' \<Rightarrow> sid' = sid \<longrightarrow> require_due \<and> now < T
     | Tool_create st _ \<Rightarrow> s_uid st \<noteq> sid
     | Tool_enable a \<Rightarrow> sa_id a \<noteq> Some sid \<or> sa_enabled a \<noteq> Some True
     | _ \<Rightarrow> True)"

lemma quiet_row_update:
  "quiet T sid db \<Longrightarrow> sd_scheds db' = row_update sr_id sid' f (sd_scheds db) \<Longrightarrow>
   (\<And>r. sr_id (f r) = sr_id r) \<Longrightarrow> (sid' = sid \<Longrightarrow> \<forall>r. sr_enabled (f r) \<longrightarrow> sr_enabled r \<and> sr_next (f r) = sr_next r \<or> T \<le> sr_next (f r)) \<Longrightarrow>
   quiet T sid db'"
  unfolding quiet_def set_row_update by (auto simp: set_row_update) metis+

lemma quiet_append: "quiet T sid db \<Longrightarrow> sd_scheds db' = sd_scheds db @ [r] \<Longrightarrow> sr_id r \<noteq> sid \<or> \<not> sr_enabled r \<Longrightarrow> quiet T sid db'"
  by (auto simp: quiet_def)

lemma quiet_filter: "quiet T sid db \<Longrightarrow> sd_scheds db' = filter P (sd_scheds db) \<Longrightarrow> quiet T sid db'"
  by (auto simp: quiet_def)

lemma quiet_same: "quiet T sid db \<Longrightarrow> sd_scheds db' = sd_scheds db \<Longrightarrow> quiet T sid db'"
  by (simp add: quiet_def)

lemma ok_or_changed: "ok_or d r \<noteq> d \<Longrightarrow> r = Inr (ok_or d r)"
  by (cases r) (simp_all add: ok_or_def)

lemma rmap1_Inr: "rmap1 f r = Inr y \<longleftrightarrow> (\<exists>x. r = Inr x \<and> y = f x)"
  by (cases r) auto

lemma quiet_not_due: "quiet T sid db \<Longrightarrow> now < T \<Longrightarrow> \<not> (\<exists>r \<in> set (sd_scheds db). sr_id r = sid \<and> row_due now r)"
  by (auto simp: quiet_def row_due_def)

lemma quiet_step:
  assumes "quiet T sid db" and "leaves_quiet T sid ev"
  shows "quiet T sid (sched_step A key ev db)"
proof (cases "sched_step A key ev db = db")
  case changed: False
  show ?thesis
  proof (cases ev)
    case (Fire now locked rd sid')
    let ?db = "sched_step A key ev db"
    have "rmap1 snd (claim_schedule A key now locked rd sid' db) = Inr ?db"
      using changed ok_or_changed by (auto simp: sched_step_def Fire)
    then obtain out db' where c: "claim_schedule A key now locked rd sid' db = Inr (out, db')" and s: "?db = db'"
      by (auto simp: rmap1_Inr)
    from claim_scheds [OF c] changed s obtain n where m: "mark_ran now sid' n db = Inr db'"
      and due: "rd \<longrightarrow> (\<exists>r \<in> set (sd_scheds db). sr_id r = sid' \<and> row_due now r)" by auto
    have "sid' \<noteq> sid"
      using due quiet_not_due [OF assms(1)] assms(2) Fire by (auto simp: leaves_quiet_def)
    with mark_ran_scheds [OF m] quiet_row_update [OF assms(1)] s show ?thesis by metis
  next
    case (Tool_create st a)
    let ?db = "sched_step A key ev db"
    have "rmap1 snd (create_schedule_tool A key st a db) = Inr ?db"
      using changed ok_or_changed by (auto simp: sched_step_def Tool_create)
    then obtain i db' where c: "create_schedule_tool A key st a db = Inr (i, db')" and s: "?db = db'"
      by (auto simp: rmap1_Inr)
    from create_tool_scheds [OF c] assms(2) Tool_create quiet_append [OF assms(1)] s show ?thesis
      by (auto simp: leaves_quiet_def)
  next
    case (Tool_update nonce a)
    let ?db = "sched_step A key ev db"
    have "update_schedule_tool A key nonce a db = Inr ?db"
      using changed ok_or_changed by (auto simp: sched_step_def Tool_update)
    then obtain db' where c: "update_schedule_tool A key nonce a db = Inr db'" and s: "?db = db'" by simp
    from update_tool_scheds [OF c] quiet_row_update [OF assms(1)] s show ?thesis by metis
  next
    case (Tool_enable a)
    let ?db = "sched_step A key ev db"
    have "set_schedule_enabled_tool A key a db = Inr ?db"
      using changed ok_or_changed by (auto simp: sched_step_def Tool_enable)
    then obtain db' where c: "set_schedule_enabled_tool A key a db = Inr db'" and s: "?db = db'" by simp
    from enable_tool_scheds [OF c] obtain sid' b where e: "sa_id a = Some sid'" "sa_enabled a = Some b"
      "sd_scheds db' = row_update sr_id sid' (\<lambda>r. r\<lparr>sr_enabled := b\<rparr>) (sd_scheds db)" by blast
    show ?thesis unfolding s
      by (rule quiet_row_update [OF assms(1) e(3)]) (use e assms(2) Tool_enable in \<open>auto simp: leaves_quiet_def\<close>)
  next
    case (Tool_delete a)
    let ?db = "sched_step A key ev db"
    have "delete_schedule_tool a db = Inr ?db"
      using changed ok_or_changed by (auto simp: sched_step_def Tool_delete)
    then obtain db' where c: "delete_schedule_tool a db = Inr db'" and s: "?db = db'" by simp
    from delete_tool_scheds [OF c] quiet_filter [OF assms(1)] s show ?thesis by metis
  next
    case (Record st sid' status message error)
    let ?db = "sched_step A key ev db"
    have "rmap1 snd (record_run A key st sid' status message error db) = Inr ?db"
      using changed ok_or_changed by (auto simp: sched_step_def Record)
    then obtain i db' where c: "record_run A key st sid' status message error db = Inr (i, db')" and s: "?db = db'"
      by (auto simp: rmap1_Inr)
    from record_run_scheds [OF c] quiet_same [OF assms(1)] s show ?thesis by simp
  next
    case (Record_carrier st st' c status message)
    let ?db = "sched_step A key ev db"
    have "rmap1 snd (record_carrier_run A key st st' c status message db) = Inr ?db"
      using changed ok_or_changed by (auto simp: sched_step_def Record_carrier)
    then obtain i db' where cc: "record_carrier_run A key st st' c status message db = Inr (i, db')" and s: "?db = db'"
      by (auto simp: rmap1_Inr)
    from record_carrier_scheds [OF cc] quiet_same [OF assms(1)] quiet_append [OF assms(1)] s show ?thesis by auto
  next
    case Seen
    then have "sd_scheds (sched_step A key ev db) = sd_scheds db" by (simp add: sched_step_def mark_all_seen_def)
    with quiet_same [OF assms(1)] show ?thesis by simp
  qed
qed (simp add: assms(1))

lemma quiet_run: "quiet T sid db \<Longrightarrow> \<forall>ev \<in> set evs. leaves_quiet T sid ev \<Longrightarrow> quiet T sid (fold (sched_step A key) evs db)"
  by (induction evs arbitrary: db) (auto intro: quiet_step)

lemma claimed_quiet:
  assumes "claim_schedule A key t locked rd sid db = Inr (Claimed v, db1)" and "distinct (map sr_id (sd_scheds db))"
  shows "sv_interval v > 0 \<Longrightarrow> quiet (t + to_minutes (sv_interval v)) sid db1" and "sv_interval v \<le> 0 \<Longrightarrow> quiet T sid db1"
proof -
  from claim_scheds [OF assms(1)] have r: "mark_ran t sid (sv_interval v) db = Inr db1" by auto
  from mark_ran_scheds [OF r] obtain f where f: "sd_scheds db1 = row_update sr_id sid f (sd_scheds db)"
    "\<And>r'. sr_id (f r') = sr_id r'" "\<And>r'. sr_enabled (f r') \<Longrightarrow> sv_interval v > 0 \<and> sr_next (f r') = t + to_minutes (sv_interval v)" by metis
  show "sv_interval v > 0 \<Longrightarrow> quiet (t + to_minutes (sv_interval v)) sid db1" and "sv_interval v \<le> 0 \<Longrightarrow> quiet T sid db1"
    unfolding quiet_def f(1) set_row_update using f(2,3) by fastforce+
qed

text \<open>
  C14: a schedule fires once per period. After a claim at \<open>t\<close>, the tick claims the schedule again only once
  its interval has passed (a one-shot never again), however many ticks race for it and whatever else happens
  to the store, unless the user enables it anew or runs it by hand.
\<close>

theorem fires_once_per_period:
  assumes "claim_schedule A key t locked require_due sid db = Inr (Claimed v, db1)" and "distinct (map sr_id (sd_scheds db))"
    and "now < t + sv_interval v * 60000000 \<or> sv_interval v \<le> 0"
    and "\<forall>ev \<in> set evs. leaves_quiet (now + 1) sid ev"
  shows "claim_schedule A key now locked' True sid (fold (sched_step A key) evs db1) \<noteq> Inr (Claimed v', db2)"
proof
  assume c: "claim_schedule A key now locked' True sid (fold (sched_step A key) evs db1) = Inr (Claimed v', db2)"
  have "quiet (now + 1) sid db1"
  proof (cases "sv_interval v > 0")
    case True
    with claimed_quiet(1) [OF assms(1,2)] assms(3) show ?thesis by (fastforce simp: quiet_def to_minutes_def MICROS_def)
  qed (use claimed_quiet(2) [OF assms(1,2)] in auto)
  from quiet_run [OF this assms(4)] have "\<not> (\<exists>r \<in> set (sd_scheds (fold (sched_step A key) evs db1)). sr_id r = sid \<and> row_due now r)"
    by (rule quiet_not_due) simp
  with claim_scheds [OF c] show False by auto
qed

section \<open>The reserved carriers\<close>

definition carriers_off :: "'c sched_db \<Rightarrow> bool" where
  "carriers_off db \<longleftrightarrow> (\<forall>sid \<in> set CARRIER_IDS. \<forall>T. quiet T sid db)"

text \<open>Identifiers that \<open>uuid4\<close> gives are none of the reserved names.\<close>

definition fresh_ids :: "sched_event \<Rightarrow> bool" where
  "fresh_ids ev = (case ev of Tool_create st _ \<Rightarrow> s_uid st \<notin> set CARRIER_IDS | _ \<Rightarrow> True)"

lemma carriers_off_step:
  assumes "carriers_off db" and "fresh_ids ev"
  shows "carriers_off (sched_step A key ev db)"
  unfolding carriers_off_def
proof (intro ballI allI)
  fix sid T
  assume sid: "sid \<in> set CARRIER_IDS"
  with assms(1) have q: "quiet T sid db" by (simp add: carriers_off_def)
  show "quiet T sid (sched_step A key ev db)"
  proof (cases "leaves_quiet T sid ev \<or> sched_step A key ev db = db")
    case True
    with q quiet_step [OF q] show ?thesis by auto
  next
    case False
    then have "(\<exists>now l rd. ev = Fire now l rd sid) \<or> (\<exists>a. ev = Tool_enable a \<and> sa_id a = Some sid)"
      using assms(2) sid by (auto simp: leaves_quiet_def fresh_ids_def split: sched_event.splits)
    moreover have "claim_schedule A key now l rd sid db = Inr (out, db') \<Longrightarrow> db' = db" for now l rd out db'
      using claim_scheds [of A key now l rd sid db out db'] sid by auto
    moreover have "set_schedule_enabled_tool A key a db \<noteq> Inr db'" if "sa_id a = Some sid" for a db'
      using enable_tool_scheds [of A key a db db'] sid that by auto
    ultimately have "sched_step A key ev db = db"
      by (auto simp: sched_step_def ok_or_def rmap1_def split: sum.splits)
    with False show ?thesis by simp
  qed
qed

definition no_schedules :: "'c sched_db" where
  "no_schedules = \<lparr>sd_scheds = [], sd_runs = []\<rparr>"

interpretation schedules: event_machine "sched_step A key" no_schedules carriers_off fresh_ids
  for A :: "'c aead" and key :: bytes
proof unfold_locales
  show "carriers_off (no_schedules :: 'c sched_db)" by (simp add: carriers_off_def quiet_def no_schedules_def)
qed (rule carriers_off_step)

lemma rmap_view_ids: "rmap (sched_row_view A key) rs = Inr vs \<Longrightarrow> map sv_id vs = map sr_id rs"
  by (induction rs arbitrary: vs) (auto simp: rbind_Inr_iff sched_row_view_def)

text \<open>
  the reserved carriers are inert. Whatever users, the assistant's schedule tools, the tick and the
  notices do from an empty store on, a carrier schedule is never due, never shown or read as a schedule, never
  claimed by a run and never deleted.
\<close>

theorem carriers_inert:
  assumes "\<forall>ev \<in> set evs. fresh_ids ev" and "sid \<in> set CARRIER_IDS"
    and "db = fold (sched_step A key) evs no_schedules"
  shows "(due_schedules A key now db = Inr vs \<longrightarrow> sid \<notin> sv_id ` set vs) \<and>
    (list_schedules A key db = Inr ws \<longrightarrow> sid \<notin> sv_id ` set ws) \<and> get_schedule A key sid db = Inr None \<and>
    claim_schedule A key now False due sid db = Inr (Skipped ''schedule deleted'', db) \<and> delete_schedule sid db = Inr db"
proof -
  have off: "carriers_off db" unfolding assms(3) by (rule schedules.inv_run [OF assms(1)])
  have ne: "sid \<noteq> []" using assms(2) by (auto simp: CARRIER_IDS_def VAULT_FEED_ID_def SELFREVIEW_FEED_ID_def NI_FEED_ID_def)
  have "sid \<notin> sv_id ` set vs" if "due_schedules A key now db = Inr vs"
  proof
    assume "sid \<in> sv_id ` set vs"
    moreover from that have "map sv_id vs = map sr_id (take MAX_PER_TICK (order_by next_asc (filter (row_due now) (sd_scheds db))))"
      unfolding due_schedules_def by (rule rmap_view_ids)
    ultimately have "sid \<in> set (map sr_id (take MAX_PER_TICK (order_by next_asc (filter (row_due now) (sd_scheds db)))))"
      by (metis list.set_map)
    then obtain r where "r \<in> set (sd_scheds db)" "sr_id r = sid" "row_due now r"
      by (auto dest!: in_set_takeD)
    moreover have "quiet (now + 1) sid db" using off assms(2) by (simp add: carriers_off_def)
    ultimately show False using quiet_not_due [of "now + 1" sid db now] by auto
  qed
  moreover have "sid \<notin> sv_id ` set ws" if "list_schedules A key db = Inr ws"
  proof
    assume "sid \<in> sv_id ` set ws"
    moreover from that have "map sv_id ws = map sr_id (take SCHED_LIST_LIMIT (order_by next_asc (filter (\<lambda>r. sr_id r \<notin> set CARRIER_IDS) (sd_scheds db))))"
      unfolding list_schedules_def by (rule rmap_view_ids)
    ultimately have "sid \<in> set (map sr_id (take SCHED_LIST_LIMIT (order_by next_asc (filter (\<lambda>r. sr_id r \<notin> set CARRIER_IDS) (sd_scheds db)))))"
      by (metis list.set_map)
    with assms(2) show False by (auto dest!: in_set_takeD)
  qed
  moreover have "get_schedule A key sid db = Inr None" using ne assms(2) by (simp add: get_schedule_def)
  ultimately show ?thesis using ne assms(2) by (simp add: claim_schedule_def delete_schedule_def)
qed

section \<open>Retention and the feed\<close>

lemma prune_other: "filter (\<lambda>r. rr_sched r \<noteq> sid) (prune_carrier_runs sid runs) = filter (\<lambda>r. rr_sched r \<noteq> sid) runs"
  by (auto simp: prune_carrier_runs_def split: list.split intro: filter_cong)

lemma length_filter_mset_eq: "mset xs = mset ys \<Longrightarrow> length (filter P xs) = length (filter P ys)"
  by (metis mset_filter size_mset)

lemma prune_bound: "length (filter (\<lambda>r. rr_sched r = sid) (prune_carrier_runs sid runs)) \<le> CARRIER_RUN_KEEP"
proof -
  let ?mine = "filter (\<lambda>r. rr_sched r = sid) runs"
  let ?L = "order_by ran_desc ?mine"
  have sorted: "sorted_wrt ran_desc ?L" by (rule sorted_order_by) (auto simp: ran_desc_def)
  show ?thesis
  proof (cases "drop CARRIER_RUN_KEEP ?L")
    case Nil
    then have "length ?mine \<le> CARRIER_RUN_KEEP" by (metis drop_eq_Nil length_order_by)
    with Nil show ?thesis by (simp add: prune_carrier_runs_def)
  next
    case (Cons e rest)
    let ?new = "\<lambda>r. rr_ran e < rr_ran r"
    have L: "?L = take CARRIER_RUN_KEEP ?L @ e # rest" by (metis Cons append_take_drop_id)
    from sorted L have "sorted_wrt ran_desc (take CARRIER_RUN_KEEP ?L @ e # rest)" by simp
    then have "filter ?new (e # rest) = []" by (auto simp: sorted_wrt_append ran_desc_def filter_empty_conv)
    then have "filter ?new ?L = filter ?new (take CARRIER_RUN_KEEP ?L)" by (subst L) (simp del: filter.simps)
    then have "length (filter ?new ?L) \<le> CARRIER_RUN_KEEP" by (metis length_filter_le length_take min.bounded_iff)
    moreover have "length (filter ?new ?L) = length (filter ?new ?mine)" by (rule length_filter_mset_eq) simp
    moreover have "filter (\<lambda>r. rr_sched r = sid) (prune_carrier_runs sid runs) = filter ?new ?mine"
      using Cons by (auto simp: prune_carrier_runs_def not_le intro: filter_cong)
    ultimately show ?thesis by simp
  qed
qed

text \<open>
  carrier history is bounded and user history is not touched. Recording a notice on a carrier leaves it
  at most five hundred runs, dropping only its own, and the newest stay; every other schedule's runs are as they were.
\<close>

theorem carrier_retention:
  assumes "record_run A key st sid status message error db = Inr (i, db')" and "sid \<in> set CARRIER_IDS"
  shows "length (filter (\<lambda>r. rr_sched r = sid) (sd_runs db')) \<le> 500 \<and>
    filter (\<lambda>r. rr_sched r \<noteq> sid) (sd_runs db') = filter (\<lambda>r. rr_sched r \<noteq> sid) (sd_runs db) \<and>
    (\<forall>k \<in> set (sd_runs db'). \<forall>d \<in> set (sd_runs db) - set (sd_runs db'). rr_sched k = sid \<longrightarrow> rr_sched d = sid \<and> rr_ran d < rr_ran k)"
proof -
  from assms obtain r where db': "sd_runs db' = prune_carrier_runs sid (sd_runs db @ [r])" "rr_sched r = sid"
    by (auto simp: record_run_def Let_def split: if_splits)
  have dropped: "rr_sched d = sid \<and> rr_ran d < rr_ran k"
    if "k \<in> set (prune_carrier_runs sid xs)" "rr_sched k = sid" "d \<in> set xs" "d \<notin> set (prune_carrier_runs sid xs)"
    for k d :: "'a run_row" and xs
    using that by (auto simp: prune_carrier_runs_def split: list.splits)
  show ?thesis
    using prune_bound [of sid "sd_runs db @ [r]"] prune_other [of sid "sd_runs db @ [r]"] dropped [of _ "sd_runs db @ [r]"] db'(2)
    unfolding db'(1) CARRIER_RUN_KEEP_def by auto
qed

lemma length_filter_twice: "length (filter P (filter Q xs)) \<le> length (filter P xs)"
  by (induction xs) auto

lemma joined_set: "(r, s) \<in> set (joined db) \<longleftrightarrow> r \<in> set (sd_runs db) \<and> s \<in> set (sd_scheds db) \<and> sr_id s = rr_sched r"
  by (auto simp: joined_def)

text \<open>
  the badge tells the truth. It counts only runs whose schedule still exists, so deleting a schedule takes
  its runs off it; opening the feed returns what the badge showed and leaves it at zero.
\<close>

theorem badge_consistent:
  "(unseen_count db = 0 \<longleftrightarrow> (\<forall>r \<in> set (sd_runs db). rr_seen r \<or> rr_sched r \<notin> sr_id ` set (sd_scheds db))) \<and>
   fst (mark_all_seen db) = unseen_count db \<and> unseen_count (snd (mark_all_seen db)) = 0 \<and>
   (delete_schedule sid db = Inr db' \<longrightarrow> sid \<notin> set CARRIER_IDS \<longrightarrow>
     (\<forall>(r, s) \<in> set (joined db'). rr_sched r \<noteq> sid) \<and> unseen_count db' \<le> unseen_count db)"
proof -
  have zero: "unseen_count db = 0 \<longleftrightarrow> (\<forall>r \<in> set (sd_runs db). rr_seen r \<or> rr_sched r \<notin> sr_id ` set (sd_scheds db))" for db :: "'a sched_db"
    by (auto simp: unseen_count_def filter_empty_conv joined_set) (metis image_eqI)
  have seen: "unseen_count (snd (mark_all_seen db)) = 0"
    unfolding zero by (auto simp: mark_all_seen_def)
  have del: "(\<forall>(r, s) \<in> set (joined db'). rr_sched r \<noteq> sid) \<and> unseen_count db' \<le> unseen_count db"
    if d: "delete_schedule sid db = Inr db'" and user: "sid \<notin> set CARRIER_IDS"
  proof -
    from d user have db': "sd_scheds db' = filter (\<lambda>r. sr_id r \<noteq> sid) (sd_scheds db)" "sd_runs db' = filter (\<lambda>r. rr_sched r \<noteq> sid) (sd_runs db)"
      by (auto simp: delete_schedule_def split: if_splits)
    have "joined db' = filter (\<lambda>(r, s). rr_sched r \<noteq> sid) (joined db)"
    proof -
      have "[(r, s). r \<leftarrow> filter (\<lambda>r. rr_sched r \<noteq> sid) rs, s \<leftarrow> filter (\<lambda>r. sr_id r \<noteq> sid) ss, sr_id s = rr_sched r]
        = filter (\<lambda>(r, s). rr_sched r \<noteq> sid) [(r, s). r \<leftarrow> rs, s \<leftarrow> ss, sr_id s = rr_sched r]" for rs ss
      proof (induction rs)
        case (Cons r rs)
        have "[(r, s). s \<leftarrow> filter (\<lambda>r. sr_id r \<noteq> sid) ss, sr_id s = rr_sched r] = [(r, s). s \<leftarrow> ss, sr_id s = rr_sched r]" if "rr_sched r \<noteq> sid"
          using that by (induction ss) auto
        moreover have "filter (\<lambda>(r, s). rr_sched r \<noteq> sid) [(r, s). s \<leftarrow> ss, sr_id s = rr_sched r] =
            (if rr_sched r \<noteq> sid then [(r, s). s \<leftarrow> ss, sr_id s = rr_sched r] else [])"
          by (induction ss) auto
        ultimately show ?case using Cons by (cases "rr_sched r = sid") auto
      qed simp
      then show ?thesis by (simp add: joined_def db')
    qed
    then show ?thesis unfolding unseen_count_def by (auto simp only: set_filter length_filter_twice)
  qed
  show ?thesis using zero [of db] seen del by (auto simp: mark_all_seen_def)
qed

section \<open>The breaker\<close>

definition breaker_run :: "(int \<times> bool) list \<Rightarrow> breaker" where
  "breaker_run outcomes = fold (\<lambda>(t, ok) b. breaker_record t ok b) outcomes breaker_start"

lemma breaker_run_snoc: "breaker_run (os @ [(t, ok)]) = breaker_record t ok (breaker_run os)"
  by (simp add: breaker_run_def)

lemma breaker_reset: "os = [] \<or> snd (last os) \<Longrightarrow> br_fails (breaker_run os) = 0 \<and> br_until (breaker_run os) = 0 \<and> \<not> br_warned (breaker_run os)"
  by (cases os rule: rev_cases) (auto simp: breaker_run_snoc breaker_record_def breaker_run_def breaker_start_def)

text \<open>
  the breaker trips after three failures in a row and for five minutes. After any history that ends in
  a success (or none) and then only failures, attempts are suppressed exactly from the third of those failures on,
  until five minutes after the latest; one success lifts it at once.
\<close>

theorem breaker_trips:
  assumes "os = [] \<or> snd (last os)" and "\<forall>f \<in> set fs. \<not> snd f" and "0 \<le> now"
  shows "br_fails (breaker_run (os @ fs)) = length fs \<and>
    (breaker_open now (breaker_run (os @ fs)) \<longleftrightarrow> length fs \<ge> 3 \<and> now < fst (last fs) + 300000000)"
  using assms(2)
proof (induction fs rule: rev_induct)
  case Nil
  with breaker_reset [OF assms(1)] assms(3) show ?case by (simp add: breaker_open_def)
next
  case (snoc f fs)
  obtain t where f: "f = (t, False)" using snoc.prems by (cases f) auto
  have run: "breaker_run (os @ fs @ [f]) = breaker_record t False (breaker_run (os @ fs))"
    using breaker_run_snoc [of "os @ fs"] by (simp add: f)
  have len: "br_fails (breaker_run (os @ fs)) = length fs" using snoc by auto
  have idle: "br_until (breaker_run (os @ fs)) \<le> now" if "length fs < 3"
    using snoc that by (auto simp: breaker_open_def)
  show ?case
    unfolding run using len idle
    by (auto simp: breaker_record_def BREAKER_TRIP_AFTER_def BREAKER_COOLDOWN_SECS_def MICROS_def breaker_open_def f Let_def)
qed

section \<open>Reading back\<close>

lemma seal_open: "aead_roundtrip A \<Longrightarrow> length nonce = 12 \<Longrightarrow>
   sched_open A key sid nonce (aes_encrypt A key nonce (PJson (sched_body t p m)) (sched_aad sid))
     = Inr [(''title'', JStr t), (''prompt'', JStr p), (''model'', m)]"
  by (simp add: sched_open_def sched_body_def aead_open_seal NONCE_BYTES_def has_key_def)

text \<open>
  a schedule reads back as it was last written. After \<open>add_schedule\<close> the row is read with its title,
  prompt, model and interval, enabled and due from its start; \<open>update_schedule\<close> then replaces exactly the content and
  the interval, and leaves the cadence state and every other schedule alone.
\<close>

theorem schedule_reads_back:
  assumes "aead_roundtrip A" and "stamp_ok st" and "length nonce = 12" and "s_uid st \<notin> set CARRIER_IDS"
    and "add_schedule A key st title prompt interval start model db = Inr (sid, db1)"
    and "update_schedule A key nonce sid title' prompt' interval' model' db1 = Inr db2"
  shows "get_schedule A key sid db1 = Inr (Some \<lparr>sv_id = sid, sv_title = JStr title, sv_prompt = JStr prompt, sv_model = model,
      sv_enabled = True, sv_interval = interval, sv_next = s_now st + start * 60000000, sv_last = None\<rparr>) \<and>
    get_schedule A key sid db2 = Inr (Some \<lparr>sv_id = sid, sv_title = JStr title', sv_prompt = JStr prompt', sv_model = model',
      sv_enabled = True, sv_interval = interval', sv_next = s_now st + start * 60000000, sv_last = None\<rparr>) \<and>
    (\<forall>other. other \<noteq> sid \<longrightarrow> get_schedule A key other db2 = get_schedule A key other db)"
proof -
  let ?row = "\<lparr>sr_id = sid, sr_nonce = s_nonce st, sr_ct = aes_encrypt A key (s_nonce st) (PJson (sched_body title prompt model)) (sched_aad sid),
     sr_enabled = True, sr_interval = interval, sr_next = s_now st + to_minutes start, sr_last = None\<rparr>"
  from assms(5) have sid: "sid = s_uid st" "sid \<notin> sr_id ` set (sd_scheds db)" and db1: "sd_scheds db1 = sd_scheds db @ [?row]"
    by (auto simp: add_schedule_def split: if_splits)
  let ?f = "\<lambda>r. r\<lparr>sr_nonce := nonce, sr_ct := aes_encrypt A key nonce (PJson (sched_body title' prompt' model')) (sched_aad sid),
     sr_interval := interval'\<rparr>"
  from assms(6) have db2: "sd_scheds db2 = row_update sr_id sid ?f (sd_scheds db1)"
    by (auto simp: update_schedule_def update_scheds_def split: if_splits)
  have ne: "sid \<noteq> []" "sid \<notin> set CARRIER_IDS" and n: "length (s_nonce st) = 12" using assms(2,4) sid by (auto simp: stamp_ok_def)
  have f1: "row_find sr_id sid (sd_scheds db1) = Some ?row"
    using sid(2) by (auto simp: db1 row_find_append row_find_Cons simp flip: row_find_None_iff split: option.split)
  have f2: "row_find sr_id sid (sd_scheds db2) = Some (?f ?row)" by (simp add: db2 row_find_update f1)
  have others: "row_find sr_id other (sd_scheds db2) = row_find sr_id other (sd_scheds db)" if "other \<noteq> sid" for other
    using that by (simp add: db2 row_find_update db1 row_find_append row_find_Cons split: option.split)
  show ?thesis
    using ne f1 f2 others assms(3) n
    by (auto simp: get_schedule_def sched_row_view_def seal_open [OF assms(1)] opt_get_def to_minutes_def MICROS_def)
qed

section \<open>A store to look at\<close>

definition demo_sched :: "(bytes \<times> bytes \<times> string \<times> plain) sched_db" where
  "demo_sched = snd (projr (add_schedule tagged_aead (replicate 32 0) (demo_stamp ''s1'' 0) ''news'' ''fetch'' 10 0 JNull no_schedules))"

lemmas demo_sched_defs = add_schedule_def demo_stamp_def no_schedules_def sched_body_def to_minutes_def

lemma demo_sched_added: "add_schedule tagged_aead (replicate 32 0) (demo_stamp ''s1'' 0) ''news'' ''fetch'' 10 0 JNull no_schedules = Inr (''s1'', demo_sched)"
  by (simp add: demo_sched_def demo_sched_defs)

definition demo_sched_view :: sched_view where
  "demo_sched_view = \<lparr>sv_id = ''s1'', sv_title = JStr ''news'', sv_prompt = JStr ''fetch'', sv_model = JNull, sv_enabled = True,
     sv_interval = 10, sv_next = 0, sv_last = None\<rparr>"

lemma demo_claim: "claim_schedule tagged_aead (replicate 32 0) 5 False True ''s1'' demo_sched =
    Inr (Claimed demo_sched_view, projr (mark_ran 5 ''s1'' 10 demo_sched))"
  by (simp add: claim_schedule_def get_schedule_def CARRIER_IDS_def VAULT_FEED_ID_def SELFREVIEW_FEED_ID_def NI_FEED_ID_def
      demo_sched_def demo_sched_defs row_find_Cons sched_row_view_def seal_open [OF tagged_aead_roundtrip, unfolded sched_body_def]
      is_due_def row_due_def mark_ran_def opt_get_def demo_sched_view_def)

lemma demo_sched_ids: "distinct (map sr_id (sd_scheds demo_sched))"
  by (simp add: demo_sched_def demo_sched_defs)

theorem fires_once_per_period_witness:
  "\<forall>v db. claim_schedule tagged_aead (replicate 32 0) 599000000 False True ''s1''
     (sched_step tagged_aead (replicate 32 0) Seen (projr (mark_ran 5 ''s1'' 10 demo_sched))) \<noteq> Inr (Claimed v, db)"
  using fires_once_per_period [OF demo_claim demo_sched_ids, of 599000000 "[Seen]" False]
  by (simp add: demo_sched_view_def leaves_quiet_def)

theorem carriers_inert_witness:
  "get_schedule tagged_aead (replicate 32 0) ''self-review''
     (fold (sched_step tagged_aead (replicate 32 0)) [Record_carrier (demo_stamp ''x'' 1) (demo_stamp ''y'' 1) Selfreview_feed ''complete'' ''m'']
        no_schedules) = Inr None"
  using carriers_inert [OF _ _ refl, of "[Record_carrier (demo_stamp ''x'' 1) (demo_stamp ''y'' 1) Selfreview_feed ''complete'' ''m'']" "''self-review''"
      tagged_aead "replicate 32 0"]
  by (simp add: fresh_ids_def CARRIER_IDS_def SELFREVIEW_FEED_ID_def)

lemma demo_record: "\<exists>db. record_run tagged_aead (replicate 32 0) (demo_stamp ''r1'' 1) VAULT_FEED_ID ''complete'' ''m'' JNull demo_sched = Inr (''r1'', db)"
  by (simp add: record_run_def demo_stamp_def Let_def VAULT_FEED_ID_def demo_sched_def add_schedule_def no_schedules_def)

theorem carrier_retention_witness:
  "\<exists>db. record_run tagged_aead (replicate 32 0) (demo_stamp ''r1'' 1) VAULT_FEED_ID ''complete'' ''m'' JNull demo_sched = Inr (''r1'', db) \<and>
     length (filter (\<lambda>r. rr_sched r = VAULT_FEED_ID) (sd_runs db)) \<le> 500"
proof -
  obtain db where db: "record_run tagged_aead (replicate 32 0) (demo_stamp ''r1'' 1) VAULT_FEED_ID ''complete'' ''m'' JNull demo_sched = Inr (''r1'', db)"
    using demo_record by blast
  with carrier_retention [OF db] show ?thesis by (auto simp: CARRIER_IDS_def)
qed

theorem badge_consistent_witness:
  "unseen_count (snd (mark_all_seen demo_sched)) = 0 \<and>
   unseen_count \<lparr>sd_scheds = filter (\<lambda>r. sr_id r \<noteq> ''s1'') (sd_scheds demo_sched), sd_runs = filter (\<lambda>r. rr_sched r \<noteq> ''s1'') (sd_runs demo_sched)\<rparr>
     \<le> unseen_count demo_sched"
  using badge_consistent [of demo_sched "''s1''" "\<lparr>sd_scheds = filter (\<lambda>r. sr_id r \<noteq> ''s1'') (sd_scheds demo_sched),
      sd_runs = filter (\<lambda>r. rr_sched r \<noteq> ''s1'') (sd_runs demo_sched)\<rparr>"]
  by (simp add: delete_schedule_def CARRIER_IDS_def VAULT_FEED_ID_def SELFREVIEW_FEED_ID_def NI_FEED_ID_def)

theorem breaker_trips_witness:
  "breaker_open 7 (breaker_run [(1, True), (2, False), (3, False), (5, False)]) \<and>
   \<not> breaker_open 300000005 (breaker_run [(1, True), (2, False), (3, False), (5, False)])"
  using breaker_trips [of "[(1, True)]" "[(2, False), (3, False), (5, False)]" 7]
    breaker_trips [of "[(1, True)]" "[(2, False), (3, False), (5, False)]" 300000005] by simp

theorem schedule_reads_back_witness:
  "\<exists>v. get_schedule tagged_aead (replicate 32 0) ''s1'' demo_sched = Inr (Some v) \<and> sv_title v = JStr ''news''"
  using schedule_reads_back [OF tagged_aead_roundtrip _ _ _ demo_sched_added, of "replicate 12 0" "''t''" "''p''" 0 JNull]
  by (auto simp: demo_stamp_def stamp_ok_def CARRIER_IDS_def VAULT_FEED_ID_def SELFREVIEW_FEED_ID_def NI_FEED_ID_def update_schedule_def)

text \<open>
  A run that outlives its schedule: recording a turn's outcome after the schedule was deleted under it leaves a
  row no delete will ever reach; the join keeps it off the feed and the badge.
\<close>

lemma late_record_orphan:
  assumes "sid \<notin> set CARRIER_IDS" and "delete_schedule sid db = Inr db1" and "record_run A key st sid status m e db1 = Inr (i, db2)"
  shows "\<exists>r \<in> set (sd_runs db2). rr_sched r = sid \<and> sid \<notin> sr_id ` set (sd_scheds db2)"
  using assms by (auto simp: delete_schedule_def record_run_def Let_def split: if_splits)

end
