(* ===== verification/Calendar.thy ===== *)
theory Calendar
  imports Prelude
begin

text \<open>
  Dates and timestamps as Python prints and reads them: \<open>datetime.date\<close> with its order and its arithmetic by whole days,
  \<open>str(date)\<close>, \<open>strptime\<close> of the form the planner uses, and \<open>str(datetime)\<close> of a database timestamp.
\<close>

section \<open>Calendar dates\<close>

text \<open>\<open>datetime.date\<close>: the proleptic Gregorian calendar of years 1 to 9999.\<close>

datatype date = Date (d_year: nat) (d_month: nat) (d_day: nat)

instantiation date :: linorder
begin

definition less_eq_date :: "date \<Rightarrow> date \<Rightarrow> bool" where
  "less_eq_date a b = (d_year a < d_year b \<or> (d_year a = d_year b \<and>
     (d_month a < d_month b \<or> (d_month a = d_month b \<and> d_day a \<le> d_day b))))"

definition less_date :: "date \<Rightarrow> date \<Rightarrow> bool" where
  "less_date a b = (a \<le> b \<and> \<not> b \<le> (a :: date))"

instance
proof
  fix x y z :: date
  show "x < y \<longleftrightarrow> x \<le> y \<and> \<not> y \<le> x" by (simp add: less_date_def)
  show "x \<le> x" by (simp add: less_eq_date_def)
  show "x \<le> y \<Longrightarrow> y \<le> z \<Longrightarrow> x \<le> z" by (auto simp: less_eq_date_def)
  show "x \<le> y \<Longrightarrow> y \<le> x \<Longrightarrow> x = y" by (cases x; cases y) (auto simp: less_eq_date_def)
  show "x \<le> y \<or> y \<le> x" by (auto simp: less_eq_date_def)
qed

end

lemma date_less: "Date y m d < Date y' m' d' \<longleftrightarrow> y < y' \<or> (y = y' \<and> (m < m' \<or> (m = m' \<and> d < d')))"
  by (auto simp: less_date_def less_eq_date_def)

definition is_leap :: "nat \<Rightarrow> bool" where
  "is_leap y = (y mod 4 = 0 \<and> (y mod 100 \<noteq> 0 \<or> y mod 400 = 0))"

definition days_in_month :: "nat \<Rightarrow> nat \<Rightarrow> nat" where
  "days_in_month y m = (if m = 2 then (if is_leap y then 29 else 28) else if m \<in> {4, 6, 9, 11} then 30 else 31)"

definition valid_date :: "date \<Rightarrow> bool" where
  "valid_date t = (1 \<le> d_year t \<and> d_year t \<le> 9999 \<and> 1 \<le> d_month t \<and> d_month t \<le> 12 \<and>
     1 \<le> d_day t \<and> d_day t \<le> days_in_month (d_year t) (d_month t))"

definition next_day :: "date \<Rightarrow> date" where
  "next_day t =
     (if d_day t < days_in_month (d_year t) (d_month t) then Date (d_year t) (d_month t) (d_day t + 1)
      else if d_month t < 12 then Date (d_year t) (d_month t + 1) 1
      else Date (d_year t + 1) 1 1)"

lemma next_day_Date:
  "next_day (Date y m d) = (if d < days_in_month y m then Date y m (d + 1) else if m < 12 then Date y (m + 1) 1 else Date (y + 1) 1 1)"
  by (simp add: next_day_def)

text \<open>\<open>date + timedelta(days=n)\<close>: \<open>OverflowError\<close> past the last day.\<close>

fun add_days :: "nat \<Rightarrow> date \<Rightarrow> date result" where
  "add_days 0 t = Inr t"
| "add_days (Suc n) t = (if t = Date 9999 12 31 then Inl Overflow else add_days n (next_day t))"

lemma days_in_month_ge: "28 \<le> days_in_month y m"
  by (simp add: days_in_month_def)

lemma days_in_month_le: "days_in_month y m \<le> 31"
  by (simp add: days_in_month_def)

lemma next_day_greater: "t < next_day t"
  by (cases t) (simp add: next_day_def date_less)

lemma next_day_valid:
  assumes "valid_date t" and "t \<noteq> Date 9999 12 31"
  shows "valid_date (next_day t)"
proof -
  obtain y m d where t: "t = Date y m d" by (cases t)
  have D: "1 \<le> days_in_month a b" for a b using days_in_month_ge [of a b] by linarith
  have "\<not> (y = 9999 \<and> m = 12 \<and> \<not> d < days_in_month y m)"
    using assms t by (auto simp: valid_date_def days_in_month_def)
  then show ?thesis
    using assms(1) D unfolding t valid_date_def next_day_def by (auto simp: days_in_month_def)
qed

text \<open>There is no day between a day and the next.\<close>

lemma next_day_least:
  assumes "valid_date t" and "valid_date u" and "t < u"
  shows "next_day t \<le> u"
proof -
  obtain y m d y' m' d' where tu: "t = Date y m d" "u = Date y' m' d'" by (cases t, cases u)
  have "d' \<le> days_in_month y' m'" "m \<le> 12" "m' \<le> 12" "1 \<le> d'" "1 \<le> m'" using assms(1,2) tu by (auto simp: valid_date_def)
  then show ?thesis using assms(3) by (auto simp: tu next_day_def less_eq_date_def date_less)
qed

lemma add_days_greater: "add_days n t = Inr u \<Longrightarrow> (if n = 0 then u = t else t < u)"
proof (induction n t rule: add_days.induct)
  case (2 n t)
  then show ?case using next_day_greater [of t] by (auto split: if_splits)
qed simp

lemma add_days_valid: "add_days n t = Inr u \<Longrightarrow> valid_date t \<Longrightarrow> valid_date u"
  by (induction n t rule: add_days.induct) (auto split: if_splits simp: next_day_valid)

section \<open>Their text\<close>

definition two_digits :: "nat \<Rightarrow> string" where
  "two_digits n = [digit_char (n div 10), digit_char (n mod 10)]"

definition date_text :: "date \<Rightarrow> string" where
  "date_text t = two_digits (d_year t div 100) @ two_digits (d_year t mod 100) @ ''-'' @ two_digits (d_month t) @ ''-'' @ two_digits (d_day t)"

definition read_two :: "char \<Rightarrow> char \<Rightarrow> nat option" where
  "read_two a b = (if ascii_digit a \<and> ascii_digit b then Some (10 * (ord a - 48) + (ord b - 48)) else None)"

text \<open>\<open>strptime(s, "%Y-%m-%d")\<close> on the ten-character form.\<close>

definition strptime_date :: "string \<Rightarrow> date option" where
  "strptime_date s = (case s of
       [a, b, c, d, h1, e, f, h2, g, h] \<Rightarrow>
         (case (read_two a b, read_two c d, read_two e f, read_two g h) of
            (Some y1, Some y2, Some m, Some n) \<Rightarrow>
              (let t = Date (100 * y1 + y2) m n in
               if h1 = CHR ''-'' \<and> h2 = CHR ''-'' \<and> valid_date t then Some t else None)
          | _ \<Rightarrow> None)
     | _ \<Rightarrow> None)"

lemma read_two_digits: "n < 100 \<Longrightarrow> read_two (digit_char (n div 10)) (digit_char (n mod 10)) = Some n"
proof -
  assume "n < 100"
  then have "n div 10 < 10" by auto
  then show ?thesis by (simp add: read_two_def ascii_digit_def ord_digit_char)
qed

lemma length_date_text [simp]: "length (date_text t) = 10"
  by (simp add: date_text_def two_digits_def)

lemma strptime_date_text: "valid_date t \<Longrightarrow> strptime_date (date_text t) = Some t"
proof -
  assume v: "valid_date t"
  obtain y m d where t: "t = Date y m d" by (cases t)
  have "y div 100 < 100" "y mod 100 < 100" "m < 100" "d < 100"
    using v t days_in_month_le [of y m] by (auto simp: valid_date_def)
  then show ?thesis
    using v by (simp add: t strptime_date_def date_text_def two_digits_def read_two_digits)
qed

lemma date_text_inj: "valid_date t \<Longrightarrow> valid_date u \<Longrightarrow> date_text t = date_text u \<Longrightarrow> t = u"
  by (metis option.inject strptime_date_text)

section \<open>Timestamps\<close>

definition date_of_days :: "nat \<Rightarrow> date" where
  "date_of_days n = (next_day ^^ n) (Date 1970 1 1)"

definition DAY_MICROS :: nat where "DAY_MICROS = 86400 * 1000000"

text \<open>\<open>str(datetime)\<close> of a moment, in microseconds since 1970; the fraction is left out when it is zero.\<close>

definition ts_text :: "int \<Rightarrow> string" where
  "ts_text t =
     (let n = nat t; s = n mod DAY_MICROS div 1000000; u = n mod DAY_MICROS mod 1000000
      in date_text (date_of_days (n div DAY_MICROS)) @ '' '' @ two_digits (s div 3600) @ '':'' @ two_digits (s div 60 mod 60)
         @ '':'' @ two_digits (s mod 60)
         @ (if u = 0 then [] else ''.'' @ two_digits (u div 10000) @ two_digits (u div 100 mod 100) @ two_digits (u mod 100)))"

lemma digit_char_plain: "n < 10 \<Longrightarrow> digit_char n \<noteq> CHR ''|''"
proof
  assume "n < 10" and "digit_char n = CHR ''|''"
  then have "ord (digit_char n) = 124" by (simp add: ord_def)
  with ord_digit_char [OF \<open>n < 10\<close>] \<open>n < 10\<close> show False by simp
qed

lemma two_digits_plain: "n < 100 \<Longrightarrow> CHR ''|'' \<notin> set (two_digits n)"
proof -
  assume "n < 100"
  then have "n div 10 < 10" by auto
  then show ?thesis using digit_char_plain [of "n div 10"] digit_char_plain [of "n mod 10"] by (auto simp: two_digits_def)
qed

lemma two_digits_mod_plain [simp]: "CHR ''|'' \<notin> set (two_digits (n mod 100))" "CHR ''|'' \<notin> set (two_digits (n mod 60))"
proof -
  have "n mod 60 < 60" by simp
  then have "n mod 60 < 100" by linarith
  then show "CHR ''|'' \<notin> set (two_digits (n mod 60))" by (rule two_digits_plain)
qed (simp add: two_digits_plain)

lemma date_text_plain: "valid_date d \<Longrightarrow> CHR ''|'' \<notin> set (date_text d)"
proof -
  assume v: "valid_date d"
  have "d_year d div 100 < 100" "d_month d < 100" "d_day d < 100"
    using v days_in_month_le [of "d_year d" "d_month d"] by (auto simp: valid_date_def)
  then show ?thesis by (auto simp: date_text_def dest: two_digits_plain)
qed

lemma ts_text_nonempty: "ts_text t \<noteq> []"
  by (simp add: ts_text_def Let_def two_digits_def)

lemma ts_text_plain: "valid_date (date_of_days (nat t div DAY_MICROS)) \<Longrightarrow> CHR ''|'' \<notin> set (ts_text t)"
proof -
  assume v: "valid_date (date_of_days (nat t div DAY_MICROS))"
  define s where "s = nat t mod DAY_MICROS div 1000000"
  define u where "u = nat t mod DAY_MICROS mod 1000000"
  have "nat t mod DAY_MICROS < 86400 * 1000000" by (simp add: DAY_MICROS_def)
  then have "s < 86400" unfolding s_def by (simp add: less_mult_imp_div_less)
  then have "s div 3600 < 100" by (simp add: less_mult_imp_div_less)
  moreover have "u < 1000000" by (simp add: u_def)
  then have "u div 10000 < 100" by (simp add: less_mult_imp_div_less)
  ultimately show ?thesis
    using date_text_plain [OF v] two_digits_plain unfolding ts_text_def Let_def by (simp flip: s_def u_def)
qed

end
