(* ===== verification/Planner.thy ===== *)
theory Planner
  imports Tool_Args Calendar
begin

text \<open>
  The planner (\<open>app/smartbrain_3000/planner.py\<close>) and the task handlers of \<open>tools.py\<close>:
  the cleaning of a task's fields, the task table and its operations, and the roll-forward of a
  recurring task. The cast of a date text by the database is a parameter; \<open>str(date)\<close> is \<open>date_text\<close>.
\<close>

section \<open>Fields\<close>

definition TASK_LIST_LIMIT :: nat where "TASK_LIST_LIMIT = 1000"
definition STATUSES :: "string list" where "STATUSES = [''open'', ''done'']"
definition PRIORITIES :: "string list" where "PRIORITIES = [''low'', ''medium'', ''high'']"
definition RECURS :: "string list" where "RECURS = [''none'', ''daily'', ''weekly'']"
definition MAX_TAGS :: nat where "MAX_TAGS = 20"

definition clean_priority :: "string option \<Rightarrow> string" where
  "clean_priority v = (case v of Some p \<Rightarrow> if p \<in> set PRIORITIES then p else ''medium'' | None \<Rightarrow> ''medium'')"

definition clean_recur :: "string option \<Rightarrow> string" where
  "clean_recur v = (case v of Some p \<Rightarrow> if p \<in> set RECURS then p else ''none'' | None \<Rightarrow> ''none'')"

fun add_tags :: "string list \<Rightarrow> string list \<Rightarrow> string list" where
  "add_tags seen [] = seen"
| "add_tags seen (t # ts) =
     (let s = strip t in if s \<noteq> [] \<and> s \<notin> set seen then add_tags (seen @ [s]) ts else add_tags seen ts)"

definition clean_tags :: "string list option \<Rightarrow> string list" where
  "clean_tags tags = (case tags of None \<Rightarrow> [] | Some ts \<Rightarrow> add_tags [] (take MAX_TAGS ts))"

lemma add_tags_ok:
  "distinct seen \<Longrightarrow> [] \<notin> set seen \<Longrightarrow> distinct (add_tags seen ts) \<and> [] \<notin> set (add_tags seen ts) \<and>
   length (add_tags seen ts) \<le> length seen + length ts \<and> set (add_tags seen ts) = set seen \<union> (strip ` set ts - {[]})"
proof (induction seen ts rule: add_tags.induct)
  case (2 seen t ts)
  show ?case
  proof (cases "strip t \<noteq> [] \<and> strip t \<notin> set seen")
    case True
    with 2(1) [OF refl True] 2(3,4) show ?thesis by (auto simp: Let_def)
  next
    case False
    with 2(2) [OF refl False] 2(3,4) show ?thesis by (auto simp: Let_def)
  qed
qed auto

lemma clean_tags_ok: "distinct (clean_tags ts) \<and> [] \<notin> set (clean_tags ts) \<and> length (clean_tags ts) \<le> 20"
proof (cases ts)
  case (Some l)
  show ?thesis
    using add_tags_ok [of "[]" "take MAX_TAGS l"] by (auto simp: clean_tags_def Some MAX_TAGS_def)
qed (simp add: clean_tags_def)

lemma clean_priority_known: "clean_priority v \<in> set PRIORITIES"
  by (auto simp: clean_priority_def PRIORITIES_def split: option.split)

lemma clean_priority_idem [simp]: "clean_priority (Some (clean_priority v)) = clean_priority v"
  using clean_priority_known [of v] by (simp add: clean_priority_def [of "Some _"])

lemma clean_recur_known: "clean_recur v \<in> set RECURS"
  by (auto simp: clean_recur_def RECURS_def split: option.split)

lemma clean_recur_idem [simp]: "clean_recur (Some (clean_recur v)) = clean_recur v"
  using clean_recur_known [of v] by (simp add: clean_recur_def [of "Some _"])

section \<open>The task table\<close>

record 'c task_row =
  tk_id :: string
  tk_nonce :: bytes
  tk_ct :: 'c
  tk_status :: string
  tk_due :: "date option"
  tk_prio :: "string option"
  tk_time :: "string option"
  tk_recur :: "string option"
  tk_created :: int
  tk_updated :: int

record task_view =
  tv_id :: string
  tv_title :: jval
  tv_notes :: jval
  tv_tags :: jval
  tv_status :: string
  tv_due :: "string option"
  tv_time :: "string option"
  tv_prio :: string
  tv_recur :: string
  tv_created :: int
  tv_updated :: int

text \<open>The editable fields of a task, as \<open>add_task\<close> and \<open>update_task\<close> take them.\<close>

record task_fields =
  tf_title :: string
  tf_notes :: string
  tf_due :: "string option"
  tf_time :: "string option"
  tf_prio :: "string option"
  tf_recur :: "string option"
  tf_tags :: "string list option"

definition task_aad :: "string \<Rightarrow> string" where "task_aad tid = ''task:'' @ tid"

definition task_body :: "task_fields \<Rightarrow> jval" where
  "task_body f = JObj [(''title'', JStr (tf_title f)), (''notes'', JStr (tf_notes f)),
     (''tags'', JList (map JStr (clean_tags (tf_tags f))))]"

definition task_open :: "'c aead \<Rightarrow> bytes \<Rightarrow> string \<Rightarrow> bytes \<Rightarrow> 'c \<Rightarrow> jdict result" where
  "task_open A key tid nonce c = rbind (aead_open A key nonce c (task_aad tid)) (\<lambda>body.
     if has_key body ''title'' \<and> has_key body ''notes'' then Inr body else Inl (Assertion ''task body malformed''))"

definition row_to_task :: "'c aead \<Rightarrow> bytes \<Rightarrow> 'c task_row \<Rightarrow> task_view result" where
  "row_to_task A key r = rbind (task_open A key (tk_id r) (tk_nonce r) (tk_ct r)) (\<lambda>body. Inr
     \<lparr>tv_id = tk_id r, tv_title = opt_get body ''title'' JNull, tv_notes = opt_get body ''notes'' JNull,
      tv_tags = opt_get body ''tags'' (JList []), tv_status = tk_status r, tv_due = map_option date_text (tk_due r),
      tv_time = tk_time r, tv_prio = clean_priority (tk_prio r), tv_recur = clean_recur (tk_recur r),
      tv_created = tk_created r, tv_updated = tk_updated r\<rparr>)"

text \<open>A text bound to a \<open>DATE\<close> column, by the database's cast.\<close>

definition cast_due :: "(string \<Rightarrow> date option) \<Rightarrow> string option \<Rightarrow> date option result" where
  "cast_due cast v = (case v of None \<Rightarrow> Inr None
     | Some s \<Rightarrow> (case cast s of Some t \<Rightarrow> Inr (Some t) | None \<Rightarrow> Inl (OtherErr ''ConversionException'')))"

definition add_task ::
  "'c aead \<Rightarrow> bytes \<Rightarrow> (string \<Rightarrow> date option) \<Rightarrow> stamp \<Rightarrow> task_fields \<Rightarrow> 'c task_row list \<Rightarrow> (string \<times> 'c task_row list) result" where
  "add_task A key cast st f rows =
     (if tf_title f = [] then Inl (Assertion ''title must be non-empty'')
      else rbind (cast_due cast (tf_due f)) (\<lambda>due.
        if s_uid st \<in> tk_id ` set rows then Inl (OtherErr ''duplicate key'')
        else Inr (s_uid st, rows @ [\<lparr>tk_id = s_uid st, tk_nonce = s_nonce st,
          tk_ct = aes_encrypt A key (s_nonce st) (PJson (task_body f)) (task_aad (s_uid st)), tk_status = ''open'',
          tk_due = due, tk_prio = Some (clean_priority (tf_prio f)), tk_time = tf_time f,
          tk_recur = Some (clean_recur (tf_recur f)), tk_created = s_now st, tk_updated = s_now st\<rparr>])))"

text \<open>\<open>ORDER BY (status = 'done'), due_date ASC NULLS LAST, created_at DESC\<close>.\<close>

definition task_le :: "'c task_row \<Rightarrow> 'c task_row \<Rightarrow> bool" where
  "task_le a b =
     (let da = (tk_status a = ''done''); db = (tk_status b = ''done'') in
      if da \<noteq> db then \<not> da
      else case (tk_due a, tk_due b) of
        (Some x, Some y) \<Rightarrow> x < y \<or> (x = y \<and> tk_created b \<le> tk_created a)
      | (Some _, None) \<Rightarrow> True
      | (None, Some _) \<Rightarrow> False
      | (None, None) \<Rightarrow> tk_created b \<le> tk_created a)"

definition list_tasks :: "'c aead \<Rightarrow> bytes \<Rightarrow> 'c task_row list \<Rightarrow> task_view list result" where
  "list_tasks A key rows = rmap (row_to_task A key) (take TASK_LIST_LIMIT (order_by task_le rows))"

definition get_task :: "'c aead \<Rightarrow> bytes \<Rightarrow> string \<Rightarrow> 'c task_row list \<Rightarrow> task_view option result" where
  "get_task A key tid rows =
     (if tid = [] then Inl (Assertion ''task id required'')
      else case row_find tk_id tid rows of None \<Rightarrow> Inr None | Some r \<Rightarrow> rmap1 Some (row_to_task A key r))"

definition update_task ::
  "'c aead \<Rightarrow> bytes \<Rightarrow> (string \<Rightarrow> date option) \<Rightarrow> bytes \<Rightarrow> int \<Rightarrow> string \<Rightarrow> task_fields \<Rightarrow> 'c task_row list \<Rightarrow> 'c task_row list result" where
  "update_task A key cast nonce now tid f rows =
     (if tid = [] then Inl (Assertion ''task id required'')
      else if tf_title f = [] then Inl (Assertion ''title must be non-empty'')
      else rbind (cast_due cast (tf_due f)) (\<lambda>due. Inr (row_update tk_id tid (\<lambda>r. r\<lparr>tk_nonce := nonce,
        tk_ct := aes_encrypt A key nonce (PJson (task_body f)) (task_aad tid), tk_due := due, tk_time := tf_time f,
        tk_prio := Some (clean_priority (tf_prio f)), tk_recur := Some (clean_recur (tf_recur f)), tk_updated := now\<rparr>) rows)))"

text \<open>\<open>date.today()\<close> is read twice: for the base and for the closing assert.\<close>

definition advance :: "date \<Rightarrow> date \<Rightarrow> string \<Rightarrow> string \<Rightarrow> string result" where
  "advance today today' due recur =
     (if recur \<notin> {''daily'', ''weekly''} then Inl (Assertion ''recur must be daily/weekly'')
      else if length due < 10 then Inl (Assertion ''due_date must be YYYY-MM-DD'')
      else case strptime_date (take 10 due) of
        None \<Rightarrow> Inl (ValueErr ''time data does not match format'')
      | Some parsed \<Rightarrow> rbind (add_days (if recur = ''daily'' then 1 else 7) (max parsed today)) (\<lambda>nxt.
          if nxt < today' then Inl (Assertion ''next occurrence must be >= today'') else Inr (date_text nxt)))"

definition set_status ::
  "(string \<Rightarrow> date option) \<Rightarrow> date \<Rightarrow> date \<Rightarrow> int \<Rightarrow> string \<Rightarrow> string \<Rightarrow> 'c task_row list \<Rightarrow> 'c task_row list result" where
  "set_status cast today today' now tid status rows =
     (if tid = [] then Inl (Assertion ''task id required'')
      else if status \<notin> set STATUSES then Inl (Assertion ''status must be open/done'')
      else let plain = Inr (row_update tk_id tid (\<lambda>r. r\<lparr>tk_status := status, tk_updated := now\<rparr>) rows) in
        if status = ''done'' then
          (case row_find tk_id tid rows of
             None \<Rightarrow> plain
           | Some r \<Rightarrow>
               (case (tk_recur r, tk_due r) of
                  (Some recur, Some due) \<Rightarrow>
                    if recur \<in> {''daily'', ''weekly''} then
                      rbind (advance today today' (date_text due) recur) (\<lambda>text. rbind (cast_due cast (Some text)) (\<lambda>due'.
                        Inr (row_update tk_id tid (\<lambda>r. r\<lparr>tk_due := due', tk_updated := now\<rparr>) rows)))
                    else plain
                | _ \<Rightarrow> plain))
        else plain)"

definition delete_task :: "string \<Rightarrow> 'c task_row list \<Rightarrow> 'c task_row list result" where
  "delete_task tid rows =
     (if tid = [] then Inl (Assertion ''task id required'') else Inr (filter (\<lambda>r. tk_id r \<noteq> tid) rows))"

section \<open>The task handlers\<close>

text \<open>Validated arguments of \<open>add_task\<close> and \<open>update_task\<close>: a key is there or not.\<close>

record task_args =
  ta_id :: "string option"
  ta_title :: "string option"
  ta_notes :: "string option"
  ta_due :: "string option"
  ta_time :: "string option"
  ta_prio :: "string option"
  ta_recur :: "string option"

definition or_none :: "string option \<Rightarrow> string option" where
  "or_none v = (if v = Some [] then None else v)"

definition is_duplicate :: "string \<Rightarrow> string option \<Rightarrow> string option \<Rightarrow> task_view \<Rightarrow> bool" where
  "is_duplicate norm due time t = (tv_status t \<noteq> ''done'' \<and> py_lower (strip (case tv_title t of JStr s \<Rightarrow> s | _ \<Rightarrow> [])) = norm
     \<and> tv_due t = due \<and> tv_time t = time)"

definition new_fields :: "string \<Rightarrow> task_args \<Rightarrow> task_fields" where
  "new_fields title a = \<lparr>tf_title = title, tf_notes = (case ta_notes a of Some n \<Rightarrow> n | None \<Rightarrow> []), tf_due = or_none (ta_due a),
     tf_time = or_none (ta_time a), tf_prio = (case ta_prio a of Some p \<Rightarrow> Some p | None \<Rightarrow> Some ''medium''),
     tf_recur = (case ta_recur a of Some p \<Rightarrow> Some p | None \<Rightarrow> Some ''none''), tf_tags = None\<rparr>"

text \<open>The reply: the task's id and whether it was there already.\<close>

definition add_task_tool ::
  "'c aead \<Rightarrow> bytes \<Rightarrow> (string \<Rightarrow> date option) \<Rightarrow> stamp \<Rightarrow> task_args \<Rightarrow> 'c task_row list \<Rightarrow> ((string \<times> bool) \<times> 'c task_row list) result" where
  "add_task_tool A key cast st a rows = (case ta_title a of
       None \<Rightarrow> Inl (Assertion ''title required'')
     | Some title \<Rightarrow>
         if title = [] then Inl (Assertion ''title required'')
         else rbind (list_tasks A key rows) (\<lambda>tasks.
           case List.find (is_duplicate (py_lower (strip title)) (or_none (ta_due a)) (or_none (ta_time a))) tasks of
             Some t \<Rightarrow> Inr ((tv_id t, True), rows)
           | None \<Rightarrow> rbind (add_task A key cast st (new_fields title a) rows) (\<lambda>(tid, rows'). Inr ((tid, False), rows'))))"

definition complete_task_tool :: "(string \<Rightarrow> date option) \<Rightarrow> date \<Rightarrow> date \<Rightarrow> int \<Rightarrow> task_args \<Rightarrow> 'c task_row list \<Rightarrow> 'c task_row list result" where
  "complete_task_tool cast today today' now a rows = (case ta_id a of
       Some tid \<Rightarrow> if tid = [] then Inl (Assertion ''task_id required'') else set_status cast today today' now tid ''done'' rows
     | None \<Rightarrow> Inl (Assertion ''task_id required''))"

definition text_or :: "string option \<Rightarrow> jval \<Rightarrow> string" where
  "text_or v w = (case v of Some s \<Rightarrow> s | None \<Rightarrow> (case w of JStr s \<Rightarrow> s | _ \<Rightarrow> []))"

definition keep_or :: "string option \<Rightarrow> string option \<Rightarrow> string option" where
  "keep_or v w = (case v of Some s \<Rightarrow> Some s | None \<Rightarrow> w)"

definition tag_texts :: "jval \<Rightarrow> string list" where
  "tag_texts v = (case v of JList ts \<Rightarrow> map (\<lambda>t. case t of JStr s \<Rightarrow> s | _ \<Rightarrow> []) ts | _ \<Rightarrow> [])"

definition edited_fields :: "task_args \<Rightarrow> task_view \<Rightarrow> task_fields" where
  "edited_fields a v = \<lparr>tf_title = text_or (ta_title a) (tv_title v), tf_notes = text_or (ta_notes a) (tv_notes v),
     tf_due = keep_or (ta_due a) (tv_due v), tf_time = keep_or (ta_time a) (tv_time v),
     tf_prio = keep_or (ta_prio a) (Some (tv_prio v)), tf_recur = keep_or (ta_recur a) (Some (tv_recur v)),
     tf_tags = Some (tag_texts (tv_tags v))\<rparr>"

definition update_task_tool ::
  "'c aead \<Rightarrow> bytes \<Rightarrow> (string \<Rightarrow> date option) \<Rightarrow> bytes \<Rightarrow> int \<Rightarrow> task_args \<Rightarrow> 'c task_row list \<Rightarrow> 'c task_row list result" where
  "update_task_tool A key cast nonce now a rows = (case ta_id a of
       None \<Rightarrow> Inl (Assertion ''task_id required'')
     | Some tid \<Rightarrow>
         if tid = [] then Inl (Assertion ''task_id required'')
         else rbind (get_task A key tid rows) (\<lambda>existing. case existing of
             None \<Rightarrow> Inl (ValueErr ''task not found'')
           | Some v \<Rightarrow> update_task A key cast nonce now tid (edited_fields a v) rows))"

definition delete_task_tool :: "task_args \<Rightarrow> 'c task_row list \<Rightarrow> 'c task_row list result" where
  "delete_task_tool a rows = (case ta_id a of
       Some tid \<Rightarrow> if tid = [] then Inl (Assertion ''task_id required'') else delete_task tid rows
     | None \<Rightarrow> Inl (Assertion ''task_id required''))"

section \<open>Well-formed tables\<close>

text \<open>Every row seals a cleaned body and carries cleaned metadata; ids are distinct.\<close>

definition task_ok :: "'c aead \<Rightarrow> bytes \<Rightarrow> 'c task_row \<Rightarrow> bool" where
  "task_ok A key r \<longleftrightarrow> tk_id r \<noteq> [] \<and> length (tk_nonce r) = 12 \<and> tk_status r \<in> set STATUSES \<and>
     (\<exists>f. tk_ct r = aes_encrypt A key (tk_nonce r) (PJson (task_body f)) (task_aad (tk_id r)) \<and> tf_title f \<noteq> []) \<and>
     (\<forall>d. tk_due r = Some d \<longrightarrow> valid_date d) \<and> (\<exists>p. tk_prio r = Some (clean_priority p)) \<and> (\<exists>p. tk_recur r = Some (clean_recur p))"

definition tasks_ok :: "'c aead \<Rightarrow> bytes \<Rightarrow> 'c task_row list \<Rightarrow> bool" where
  "tasks_ok A key rows \<longleftrightarrow> distinct (map tk_id rows) \<and> (\<forall>r \<in> set rows. task_ok A key r)"

text \<open>What the database's cast is relied on for: it reads \<open>str(date)\<close> back, and gives calendar dates.\<close>

definition cast_ok :: "(string \<Rightarrow> date option) \<Rightarrow> bool" where
  "cast_ok cast \<longleftrightarrow> (\<forall>d. valid_date d \<longrightarrow> cast (date_text d) = Some d) \<and> (\<forall>s d. cast s = Some d \<longrightarrow> valid_date d)"

lemma strptime_cast_ok: "cast_ok strptime_date"
proof -
  have "strptime_date s = Some d \<Longrightarrow> valid_date d" for s d
    by (auto simp: strptime_date_def Let_def split: list.splits option.splits if_splits)
  then show ?thesis by (auto simp: cast_ok_def strptime_date_text)
qed

datatype task_event =
    Task_add stamp task_args
  | Task_complete date date int task_args
  | Task_status date date int string string
  | Task_update bytes int task_args
  | Task_delete task_args

definition kept :: "'a \<Rightarrow> 'a result \<Rightarrow> 'a" where
  "kept d r = (case r of Inl _ \<Rightarrow> d | Inr x \<Rightarrow> x)"

definition task_step :: "'c aead \<Rightarrow> bytes \<Rightarrow> (string \<Rightarrow> date option) \<Rightarrow> task_event \<Rightarrow> 'c task_row list \<Rightarrow> 'c task_row list" where
  "task_step A key cast ev rows = (case ev of
       Task_add st a \<Rightarrow> kept rows (rmap1 snd (add_task_tool A key cast st a rows))
     | Task_complete t t' now a \<Rightarrow> kept rows (complete_task_tool cast t t' now a rows)
     | Task_status t t' now tid status \<Rightarrow> kept rows (set_status cast t t' now tid status rows)
     | Task_update nonce now a \<Rightarrow> kept rows (update_task_tool A key cast nonce now a rows)
     | Task_delete a \<Rightarrow> kept rows (delete_task_tool a rows))"

definition task_event_ok :: "task_event \<Rightarrow> bool" where
  "task_event_ok ev = (case ev of Task_add st _ \<Rightarrow> stamp_ok st | Task_update nonce _ _ \<Rightarrow> length nonce = 12 | _ \<Rightarrow> True)"

lemma cast_due_valid: "cast_ok cast \<Longrightarrow> cast_due cast v = Inr (Some d) \<Longrightarrow> valid_date d"
  by (auto simp: cast_due_def cast_ok_def split: option.splits)

lemma tasks_ok_update:
  assumes "tasks_ok A key rows" and "\<And>r. tk_id (f r) = tk_id r"
    and "\<And>r. tk_id r = tid \<Longrightarrow> task_ok A key r \<Longrightarrow> task_ok A key (f r)"
  shows "tasks_ok A key (row_update tk_id tid f rows)"
  using assms unfolding tasks_ok_def by (auto simp: set_row_update)

lemma cleaned_ex: "\<exists>p. Some (clean_priority q) = Some (clean_priority p)" "\<exists>p. Some (clean_recur q) = Some (clean_recur p)"
  by blast+

lemma add_task_ok:
  assumes "cast_ok cast" and "stamp_ok st" and "tasks_ok A key rows" and "add_task A key cast st f rows = Inr (i, rows')"
  shows "tasks_ok A key rows'"
proof -
  from assms(4) obtain due where f: "tf_title f \<noteq> []" and due: "cast_due cast (tf_due f) = Inr due" and new: "s_uid st \<notin> tk_id ` set rows"
    and rows': "rows' = rows @ [\<lparr>tk_id = s_uid st, tk_nonce = s_nonce st,
          tk_ct = aes_encrypt A key (s_nonce st) (PJson (task_body f)) (task_aad (s_uid st)), tk_status = ''open'',
          tk_due = due, tk_prio = Some (clean_priority (tf_prio f)), tk_time = tf_time f,
          tk_recur = Some (clean_recur (tf_recur f)), tk_created = s_now st, tk_updated = s_now st\<rparr>]"
    by (auto simp: add_task_def rbind_Inr_iff split: if_splits)
  have "task_ok A key (last rows')"
    using assms(2) f due cast_due_valid [OF assms(1)] unfolding rows' task_ok_def
    by (auto simp: stamp_ok_def STATUSES_def cleaned_ex intro!: exI [of _ f])
  then show ?thesis using assms(3) new by (auto simp: rows' tasks_ok_def)
qed

lemma update_task_ok:
  assumes "cast_ok cast" and "length nonce = 12" and "tasks_ok A key rows"
    and "update_task A key cast nonce now tid f rows = Inr rows'"
  shows "tasks_ok A key rows'"
proof -
  from assms(4) obtain due where f: "tf_title f \<noteq> []" and due: "cast_due cast (tf_due f) = Inr due" and rows':
    "rows' = row_update tk_id tid (\<lambda>r. r\<lparr>tk_nonce := nonce,
        tk_ct := aes_encrypt A key nonce (PJson (task_body f)) (task_aad tid), tk_due := due, tk_time := tf_time f,
        tk_prio := Some (clean_priority (tf_prio f)), tk_recur := Some (clean_recur (tf_recur f)), tk_updated := now\<rparr>) rows"
    by (auto simp: update_task_def rbind_Inr_iff split: if_splits)
  show ?thesis unfolding rows'
    by (rule tasks_ok_update [OF assms(3)])
      (use assms(2) f due cast_due_valid [OF assms(1)] in \<open>auto simp: task_ok_def cleaned_ex intro!: exI [of _ f]\<close>)
qed

lemma set_status_cases:
  assumes "set_status cast t t' now tid status rows = Inr rows'"
  shows "status \<in> set STATUSES \<and> (rows' = row_update tk_id tid (\<lambda>r. r\<lparr>tk_status := status, tk_updated := now\<rparr>) rows \<or>
     (\<exists>text due. cast_due cast (Some text) = Inr due \<and>
        rows' = row_update tk_id tid (\<lambda>r. r\<lparr>tk_due := due, tk_updated := now\<rparr>) rows))"
  using assms unfolding set_status_def Let_def
  by (auto simp: rbind_Inr_iff split: if_splits option.splits)

lemma set_status_ok:
  assumes "cast_ok cast" and "tasks_ok A key rows" and "set_status cast t t' now tid status rows = Inr rows'"
  shows "tasks_ok A key rows'"
proof -
  have "tasks_ok A key (row_update tk_id tid (\<lambda>r. r\<lparr>tk_status := status, tk_updated := now\<rparr>) rows)" if "status \<in> set STATUSES"
    by (rule tasks_ok_update [OF assms(2)]) (use that in \<open>auto simp: task_ok_def\<close>)
  moreover have "tasks_ok A key (row_update tk_id tid (\<lambda>r. r\<lparr>tk_due := due, tk_updated := now\<rparr>) rows)"
    if "cast_due cast (Some s) = Inr due" for s due
    by (rule tasks_ok_update [OF assms(2)]) (use that assms(1) in \<open>auto simp: task_ok_def dest: cast_due_valid\<close>)
  ultimately show ?thesis using set_status_cases [OF assms(3)] by blast
qed

lemma add_task_tool_cases:
  "add_task_tool A key cast st a rows = Inr ((i, dup), rows') \<Longrightarrow>
   (dup \<and> rows' = rows) \<or> (\<not> dup \<and> (\<exists>f. add_task A key cast st f rows = Inr (i, rows')))"
  by (auto simp: add_task_tool_def rbind_Inr_iff split: option.splits if_splits)

lemma update_task_tool_cases:
  "update_task_tool A key cast nonce now a rows = Inr rows' \<Longrightarrow>
   \<exists>tid v. ta_id a = Some tid \<and> tid \<noteq> [] \<and> get_task A key tid rows = Inr (Some v) \<and>
     update_task A key cast nonce now tid (edited_fields a v) rows = Inr rows'"
  by (auto simp: update_task_tool_def rbind_Inr_iff split: option.splits if_splits)

lemma task_step_ok:
  assumes "cast_ok cast" and "task_event_ok ev" and "tasks_ok A key rows"
  shows "tasks_ok A key (task_step A key cast ev rows)"
proof (cases ev)
  case (Task_add st a)
  then show ?thesis
    using assms by (auto simp: task_step_def kept_def task_event_ok_def rmap1_def split: sum.splits dest!: add_task_tool_cases intro: add_task_ok)
next
  case (Task_complete t t' now a)
  then show ?thesis
    using assms by (auto simp: task_step_def kept_def complete_task_tool_def split: sum.split option.split intro: set_status_ok)
next
  case (Task_status t t' now tid status)
  then show ?thesis
    using assms by (auto simp: task_step_def kept_def split: sum.split intro: set_status_ok)
next
  case (Task_update nonce now a)
  then show ?thesis
    using assms by (auto simp: task_step_def kept_def task_event_ok_def split: sum.split dest!: update_task_tool_cases intro: update_task_ok)
next
  case (Task_delete a)
  have "tasks_ok A key (filter P rows)" for P
    using assms(3) by (auto simp: tasks_ok_def distinct_map_filter)
  then show ?thesis
    using assms(3) by (auto simp: Task_delete task_step_def kept_def delete_task_tool_def delete_task_def split: sum.split option.split)
qed

interpretation tasks: event_machine "task_step A key cast" "[]" "tasks_ok A key" "\<lambda>ev. cast_ok cast \<and> task_event_ok ev"
  for A :: "'c aead" and key :: bytes and cast :: "string \<Rightarrow> date option"
proof unfold_locales
  show "tasks_ok A key []" by (simp add: tasks_ok_def)
qed (simp add: task_step_ok)

section \<open>Reading a task back\<close>

definition view_of :: "task_fields \<Rightarrow> 'c task_row \<Rightarrow> task_view" where
  "view_of f r = \<lparr>tv_id = tk_id r, tv_title = JStr (tf_title f), tv_notes = JStr (tf_notes f),
     tv_tags = JList (map JStr (clean_tags (tf_tags f))), tv_status = tk_status r, tv_due = map_option date_text (tk_due r),
     tv_time = tk_time r, tv_prio = clean_priority (tk_prio r), tv_recur = clean_recur (tk_recur r),
     tv_created = tk_created r, tv_updated = tk_updated r\<rparr>"

lemma row_to_task_seal:
  "aead_roundtrip A \<Longrightarrow> length (tk_nonce r) = 12 \<Longrightarrow>
   tk_ct r = aes_encrypt A key (tk_nonce r) (PJson (task_body f)) (task_aad (tk_id r)) \<Longrightarrow>
   row_to_task A key r = Inr (view_of f r)"
  by (simp add: row_to_task_def task_open_def task_body_def aead_open_seal NONCE_BYTES_def has_key_def opt_get_def view_of_def)

lemma row_to_task_ok:
  assumes "aead_roundtrip A" and "task_ok A key r"
  obtains f where "row_to_task A key r = Inr (view_of f r)"
  using assms row_to_task_seal unfolding task_ok_def by metis

lemma add_tags_id: "distinct (seen @ ts) \<Longrightarrow> [] \<notin> set ts \<Longrightarrow> map strip ts = ts \<Longrightarrow> add_tags seen ts = seen @ ts"
  by (induction ts arbitrary: seen) (auto simp: Let_def)

lemma clean_tags_strip: "map strip (clean_tags ts) = clean_tags ts"
proof -
  have "map strip seen = seen \<Longrightarrow> map strip (add_tags seen l) = add_tags seen l" for seen l
    by (induction seen l rule: add_tags.induct) (auto simp: Let_def)
  then show ?thesis by (simp add: clean_tags_def split: option.split)
qed

lemma clean_tags_idem [simp]: "clean_tags (Some (clean_tags ts)) = clean_tags ts"
  unfolding clean_tags_def [of "Some _"]
  using clean_tags_ok [of ts] clean_tags_strip [of ts] by (simp add: MAX_TAGS_def add_tags_id)

lemma get_task_row:
  assumes "aead_roundtrip A" and "tasks_ok A key rows" and "get_task A key tid rows = Inr (Some v)"
  obtains r f where "row_find tk_id tid rows = Some r" and "tk_id r = tid" and "tid \<noteq> []" and "v = view_of f r" and "task_ok A key r"
proof -
  from assms(3) obtain r where r: "row_find tk_id tid rows = Some r" "row_to_task A key r = Inr v" "tid \<noteq> []"
    by (auto simp: get_task_def rmap1_def split: if_splits option.splits sum.splits)
  with row_find_Some [OF r(1)] assms(2) have ok: "task_ok A key r" "tk_id r = tid" by (auto simp: tasks_ok_def)
  with row_to_task_ok [OF assms(1) ok(1)] r that show thesis by (metis sum.inject(2))
qed

text \<open>The view of a task after an edit: what the edit names, cleaned, and everything else as it was.\<close>

definition edited_view :: "task_args \<Rightarrow> int \<Rightarrow> task_view \<Rightarrow> task_view" where
  "edited_view a now v = v\<lparr>tv_title := (case ta_title a of Some s \<Rightarrow> JStr s | None \<Rightarrow> tv_title v),
     tv_notes := (case ta_notes a of Some s \<Rightarrow> JStr s | None \<Rightarrow> tv_notes v), tv_due := keep_or (ta_due a) (tv_due v),
     tv_time := keep_or (ta_time a) (tv_time v),
     tv_prio := (case ta_prio a of Some p \<Rightarrow> clean_priority (Some p) | None \<Rightarrow> tv_prio v),
     tv_recur := (case ta_recur a of Some p \<Rightarrow> clean_recur (Some p) | None \<Rightarrow> tv_recur v), tv_updated := now\<rparr>"

lemma update_task_reads:
  assumes "aead_roundtrip A" and "length nonce = 12" and "tid \<noteq> []" and "tf_title f \<noteq> []"
    and "row_find tk_id tid rows = Some r" and "cast_due cast (tf_due f) = Inr due"
  shows "\<exists>rows'. update_task A key cast nonce now tid f rows = Inr rows' \<and>
    get_task A key tid rows' = Inr (Some (view_of f (r\<lparr>tk_due := due, tk_time := tf_time f,
        tk_prio := Some (clean_priority (tf_prio f)), tk_recur := Some (clean_recur (tf_recur f)), tk_updated := now\<rparr>))) \<and>
    (\<forall>other. other \<noteq> tid \<longrightarrow> get_task A key other rows' = get_task A key other rows)"
proof -
  have id: "tk_id r = tid" using row_find_Some [OF assms(5)] by simp
  let ?u = "\<lambda>r. r\<lparr>tk_nonce := nonce, tk_ct := aes_encrypt A key nonce (PJson (task_body f)) (task_aad tid), tk_due := due, tk_time := tf_time f,
        tk_prio := Some (clean_priority (tf_prio f)), tk_recur := Some (clean_recur (tf_recur f)), tk_updated := now\<rparr>"
  have view: "row_to_task A key (?u r) = Inr (view_of f (?u r))"
    by (rule row_to_task_seal [OF assms(1)]) (simp_all add: assms(2) id)
  have "row_find tk_id i (row_update tk_id tid ?u rows) = (if i = tid then Some (?u r) else row_find tk_id i rows)" for i
    using assms(5) by (simp add: row_find_update)
  then show ?thesis
    using assms(3,4,6) view by (simp add: update_task_def get_task_def) (simp add: view_of_def)
qed

text \<open>
  an edit changes what it names and nothing else. On any table the planner's operations can have built, a
  successful \<open>update_task\<close> of the assistant leaves a task that reads back with the fields the call gave
  (priority and recurrence cleaned, the due date as the calendar date that was named), and with its other fields, its tags,
  status and creation time as they were; every other task reads as before.
\<close>

theorem edit_keeps_the_rest:
  assumes "aead_roundtrip A" and "cast_ok cast" and "\<forall>ev \<in> set evs. task_event_ok ev" and "length nonce = 12"
    and "rows = fold (task_step A key cast) evs []" and "ta_id a = Some tid" and "get_task A key tid rows = Inr (Some v)"
    and "update_task_tool A key cast nonce now a rows = Inr rows'"
    and "\<forall>s. ta_due a = Some s \<longrightarrow> (\<exists>d. valid_date d \<and> s = date_text d)"
  shows "get_task A key tid rows' = Inr (Some (edited_view a now v)) \<and>
    (\<forall>other. other \<noteq> tid \<longrightarrow> get_task A key other rows' = get_task A key other rows)"
proof -
  have ok: "tasks_ok A key rows"
    unfolding assms(5) by (rule tasks.inv_run) (use assms(2,3) in blast)
  obtain r f where r: "row_find tk_id tid rows = Some r" "tid \<noteq> []" "v = view_of f r" "task_ok A key r"
    using get_task_row [OF assms(1) ok assms(7)] by metis
  have upd: "update_task A key cast nonce now tid (edited_fields a v) rows = Inr rows'"
    using update_task_tool_cases [OF assms(8)] assms(6,7) by auto
  then have title: "tf_title (edited_fields a v) \<noteq> []" by (auto simp: update_task_def split: if_splits)
  from upd obtain due where due: "cast_due cast (tf_due (edited_fields a v)) = Inr due"
    by (auto simp: update_task_def rbind_Inr_iff split: if_splits)
  have dueview: "map_option date_text due = keep_or (ta_due a) (tv_due v)"
    using due assms(2,9) r(3,4)
    by (cases "ta_due a"; cases "tk_due r") (auto simp: cast_due_def edited_fields_def keep_or_def view_of_def cast_ok_def task_ok_def)
  have tags: "clean_tags (tf_tags (edited_fields a v)) = clean_tags (tf_tags f)"
    by (simp add: edited_fields_def r(3) view_of_def tag_texts_def comp_def)
  obtain p q where pq: "tk_prio r = Some (clean_priority p)" "tk_recur r = Some (clean_recur q)"
    using r(4) by (auto simp: task_ok_def)
  have "view_of (edited_fields a v) (r\<lparr>tk_due := due, tk_time := tf_time (edited_fields a v),
        tk_prio := Some (clean_priority (tf_prio (edited_fields a v))), tk_recur := Some (clean_recur (tf_recur (edited_fields a v))),
        tk_updated := now\<rparr>) = edited_view a now v"
    unfolding view_of_def tags using dueview pq
    by (auto simp: edited_view_def edited_fields_def r(3) view_of_def text_or_def keep_or_def split: option.split)
  then show ?thesis
    using update_task_reads [OF assms(1,4) r(2) title r(1) due, of key now] upd by auto
qed

definition demo_task :: "task_args" where
  "demo_task = \<lparr>ta_id = None, ta_title = Some ''Pay rent'', ta_notes = None, ta_due = Some ''2026-02-28'', ta_time = None,
     ta_prio = Some ''urgent'', ta_recur = Some ''weekly''\<rparr>"

definition demo_edit :: "task_args" where
  "demo_edit = \<lparr>ta_id = Some ''t1'', ta_title = None, ta_notes = Some ''by card'', ta_due = None, ta_time = None,
     ta_prio = Some ''high'', ta_recur = None\<rparr>"

definition demo_tasks :: "(bytes \<times> bytes \<times> string \<times> plain) task_row list" where
  "demo_tasks = fold (task_step tagged_aead (replicate 32 0) strptime_date) [Task_add (demo_stamp ''t1'' 7) demo_task] []"

definition demo_task_view :: task_view where
  "demo_task_view = \<lparr>tv_id = ''t1'', tv_title = JStr ''Pay rent'', tv_notes = JStr [], tv_tags = JList [], tv_status = ''open'',
     tv_due = Some ''2026-02-28'', tv_time = None, tv_prio = ''medium'', tv_recur = ''weekly'', tv_created = 7, tv_updated = 7\<rparr>"

lemma demo_tasks_read: "get_task tagged_aead (replicate 32 0) ''t1'' demo_tasks = Inr (Some demo_task_view)"
  by code_simp

lemma demo_edit_runs: "\<exists>rows'. update_task_tool tagged_aead (replicate 32 0) strptime_date (replicate 12 0) 9 demo_edit demo_tasks = Inr rows'"
proof -
  have "(case update_task_tool tagged_aead (replicate 32 0) strptime_date (replicate 12 0) 9 demo_edit demo_tasks of Inr _ \<Rightarrow> True | Inl _ \<Rightarrow> False)"
    by code_simp
  then show ?thesis by (auto split: sum.splits)
qed

theorem edit_keeps_the_rest_witness:
  "\<exists>rows'. update_task_tool tagged_aead (replicate 32 0) strptime_date (replicate 12 0) 9 demo_edit demo_tasks = Inr rows' \<and>
     get_task tagged_aead (replicate 32 0) ''t1'' rows' = Inr (Some (edited_view demo_edit 9 demo_task_view))"
proof -
  obtain rows' where u: "update_task_tool tagged_aead (replicate 32 0) strptime_date (replicate 12 0) 9 demo_edit demo_tasks = Inr rows'"
    using demo_edit_runs by blast
  have "task_event_ok (Task_add (demo_stamp ''t1'' 7) demo_task)" by (simp add: task_event_ok_def stamp_ok_def demo_stamp_def)
  then have "get_task tagged_aead (replicate 32 0) ''t1'' rows' = Inr (Some (edited_view demo_edit 9 demo_task_view))"
    using edit_keeps_the_rest [OF tagged_aead_roundtrip strptime_cast_ok, of "[Task_add (demo_stamp ''t1'' 7) demo_task]"
        "replicate 12 0" demo_tasks "replicate 32 0" demo_edit "''t1''" demo_task_view 9 rows'] u demo_tasks_read
    by (simp add: demo_edit_def demo_tasks_def)
  with u show ?thesis by blast
qed

section \<open>Recurring tasks\<close>

lemma add_days_iter: "add_days n t = Inr u \<Longrightarrow> u = (next_day ^^ n) t"
  by (induction n t rule: add_days.induct) (auto split: if_splits simp: funpow_swap1)

lemma add_days_total:
  "valid_date t \<Longrightarrow> (d_year t < 9999 \<and> n \<le> 30) \<or> (d_year t = 9999 \<and> d_month t = 1 \<and> d_day t + n \<le> 31) \<Longrightarrow> \<exists>u. add_days n t = Inr u"
proof (induction n arbitrary: t)
  case (Suc n)
  have ne: "t \<noteq> Date 9999 12 31" using Suc.prems(2) by auto
  have "valid_date (next_day t)" using next_day_valid Suc.prems(1) ne by blast
  moreover have "(d_year (next_day t) < 9999 \<and> n \<le> 30) \<or>
      (d_year (next_day t) = 9999 \<and> d_month (next_day t) = 1 \<and> d_day (next_day t) + n \<le> 31)"
    using Suc.prems(2) by (auto simp: next_day_def days_in_month_def)
  ultimately show ?case using Suc.IH ne by simp
qed simp

lemma advance_ok:
  assumes "valid_date due" and "valid_date today" and "d_year due < 9999" and "d_year today < 9999"
    and "recur \<in> {''daily'', ''weekly''}" and "today' \<le> next_day today"
  shows "\<exists>nxt. advance today today' (date_text due) recur = Inr (date_text nxt) \<and> valid_date nxt \<and>
     max due today < nxt \<and> nxt = (next_day ^^ (if recur = ''daily'' then 1 else 7)) (max due today)"
proof -
  define n :: nat where "n = (if recur = ''daily'' then 1 else 7)"
  define base where "base = max due today"
  have b: "valid_date base" "d_year base < 9999" using assms(1-4) by (auto simp: base_def max_def)
  have n: "n \<noteq> 0" "n \<le> 30" by (auto simp: n_def)
  then obtain nxt where nxt: "add_days n base = Inr nxt" using add_days_total [OF b(1), of n] b(2) by blast
  have gt: "base < nxt" using add_days_greater [OF nxt] n by simp
  have v: "valid_date nxt" using add_days_valid [OF nxt b(1)] .
  have "next_day today \<le> nxt"
    by (rule next_day_least [OF assms(2) v]) (use gt in \<open>auto simp: base_def\<close>)
  then have "\<not> nxt < today'" using assms(6) by order
  then have "advance today today' (date_text due) recur = Inr (date_text nxt)"
    using assms(5) nxt by (simp add: advance_def strptime_date_text [OF assms(1)] n_def base_def)
  then show ?thesis using v gt add_days_iter [OF nxt] by (auto simp: base_def n_def)
qed

text \<open>
  completing a recurring task. Marking a dated daily or weekly task done never closes it: it stays with its status and
  body, and its due date becomes the day one day or seven days after the later of its due date and today. So the new date is
  always in the future however overdue the task was, and no other task changes.
\<close>

theorem recurring_rolls_forward:
  assumes "cast_ok cast" and "tid \<noteq> []" and "row_find tk_id tid rows = Some r" and "tk_recur r = Some recur"
    and "recur \<in> {''daily'', ''weekly''}" and "tk_due r = Some due" and "valid_date due" and "valid_date today"
    and "d_year due < 9999" and "d_year today < 9999" and "today' \<le> next_day today"
  shows "\<exists>nxt. set_status cast today today' now tid ''done'' rows = Inr (row_update tk_id tid (\<lambda>r. r\<lparr>tk_due := Some nxt, tk_updated := now\<rparr>) rows) \<and>
     nxt = (next_day ^^ (if recur = ''daily'' then 1 else 7)) (max due today) \<and> due < nxt \<and> today < nxt"
proof -
  obtain nxt where nxt: "advance today today' (date_text due) recur = Inr (date_text nxt)" "valid_date nxt" "max due today < nxt"
    "nxt = (next_day ^^ (if recur = ''daily'' then 1 else 7)) (max due today)"
    using advance_ok [OF assms(7,8,9,10,5,11)] by blast
  have "cast (date_text nxt) = Some nxt" using assms(1) nxt(2) by (simp add: cast_ok_def)
  then have "set_status cast today today' now tid ''done'' rows = Inr (row_update tk_id tid (\<lambda>r. r\<lparr>tk_due := Some nxt, tk_updated := now\<rparr>) rows)"
    using assms(2-6) nxt(1) by (simp add: set_status_def STATUSES_def cast_due_def)
  then show ?thesis using nxt(3,4) by (auto simp: max_less_iff_conj)
qed

theorem recurring_rolls_forward_witness:
  "\<exists>nxt. set_status strptime_date (Date 2026 12 30) (Date 2026 12 30) 9 ''t1'' ''done'' demo_tasks =
     Inr (row_update tk_id ''t1'' (\<lambda>r. r\<lparr>tk_due := Some nxt, tk_updated := 9\<rparr>) demo_tasks) \<and> nxt = Date 2027 1 6"
proof -
  obtain r where r: "row_find tk_id ''t1'' demo_tasks = Some r" "tk_recur r = Some ''weekly''" "tk_due r = Some (Date 2026 2 28)"
  proof -
    have "(case row_find tk_id ''t1'' demo_tasks of Some r \<Rightarrow> tk_recur r = Some ''weekly'' \<and> tk_due r = Some (Date 2026 2 28) | None \<Rightarrow> False)"
      by code_simp
    then show thesis using that by (auto split: option.splits)
  qed
  have d: "valid_date (Date 2026 2 28)" "valid_date (Date 2026 12 30)" "(Date 2026 12 30) \<le> next_day (Date 2026 12 30)"
    by (simp_all add: valid_date_def days_in_month_def is_leap_def less_eq_date_def next_day_def)
  have "max (Date 2026 2 28) (Date 2026 12 30) = Date 2026 12 30" by (simp add: max_def less_eq_date_def)
  moreover have "(next_day ^^ 7) t = next_day (next_day (next_day (next_day (next_day (next_day (next_day t))))))" for t
    by (simp add: numeral_eq_Suc)
  ultimately have e: "(next_day ^^ 7) (max (Date 2026 2 28) (Date 2026 12 30)) = Date 2027 1 6"
    by (simp add: next_day_Date days_in_month_def)
  show ?thesis
    using recurring_rolls_forward [OF strptime_cast_ok _ r(1,2) _ r(3) d(1,2) _ _ d(3), of 9] e by auto
qed

section \<open>Adding a task twice\<close>

definition added_view :: "string \<Rightarrow> string \<Rightarrow> int \<Rightarrow> task_args \<Rightarrow> task_view" where
  "added_view tid title now a = \<lparr>tv_id = tid, tv_title = JStr title, tv_notes = JStr (tf_notes (new_fields title a)), tv_tags = JList [],
     tv_status = ''open'', tv_due = or_none (ta_due a), tv_time = or_none (ta_time a),
     tv_prio = clean_priority (tf_prio (new_fields title a)), tv_recur = clean_recur (tf_recur (new_fields title a)),
     tv_created = now, tv_updated = now\<rparr>"

lemma list_tasks_all:
  assumes "aead_roundtrip A" and "tasks_ok A key rows" and "length rows \<le> 1000"
  obtains g where "list_tasks A key rows = Inr (map g (order_by task_le rows))"
    and "\<And>r. r \<in> set rows \<Longrightarrow> row_to_task A key r = Inr (g r)"
proof -
  define g where "g r = (case row_to_task A key r of Inr v \<Rightarrow> v | Inl _ \<Rightarrow> undefined)" for r
  have g: "row_to_task A key r = Inr (g r)" if "r \<in> set rows" for r
  proof -
    have "task_ok A key r" using assms(2) that by (simp add: tasks_ok_def)
    then obtain f where "row_to_task A key r = Inr (view_of f r)" using row_to_task_ok [OF assms(1)] by metis
    then show ?thesis by (simp add: g_def)
  qed
  have "rmap (row_to_task A key) (order_by task_le rows) = Inr (map g (order_by task_le rows))"
    by (rule rmap_Inr_map) (simp add: g)
  then have "list_tasks A key rows = Inr (map g (order_by task_le rows))"
    using assms(3) by (simp add: list_tasks_def TASK_LIST_LIMIT_def)
  with g that show thesis by blast
qed

lemma find_only:
  assumes "x \<in> set xs" and "P x" and "\<And>y. y \<in> set xs \<Longrightarrow> P y \<Longrightarrow> y = x"
  shows "List.find P xs = Some x"
proof (cases "List.find P xs")
  case None
  with assms(1,2) show ?thesis by (auto simp: find_None_iff)
next
  case (Some y)
  then have "y \<in> set xs" "P y" by (auto simp: find_Some_iff)
  with assms(3) Some show ?thesis by blast
qed

lemma add_task_fresh:
  assumes "aead_roundtrip A" and "cast_ok cast" and "tasks_ok A key rows" and "stamp_ok st" and "length rows < 1000"
    and "\<forall>s. or_none (ta_due a) = Some s \<longrightarrow> (\<exists>d. valid_date d \<and> s = date_text d)"
    and "ta_title a = Some title" and "title \<noteq> []" and "list_tasks A key rows = Inr tasks"
    and "List.find (is_duplicate (py_lower (strip title)) (or_none (ta_due a)) (or_none (ta_time a))) tasks = None"
    and "add_task A key cast st (new_fields title a) rows = Inr (i, rows')"
  shows "get_task A key i rows' = Inr (Some (added_view i title (s_now st) a)) \<and>
    (\<exists>tasks'. list_tasks A key rows' = Inr tasks' \<and>
       List.find (is_duplicate (py_lower (strip title)) (or_none (ta_due a)) (or_none (ta_time a))) tasks' = Some (added_view i title (s_now st) a))"
proof -
  let ?f = "new_fields title a"
  let ?dup = "is_duplicate (py_lower (strip title)) (or_none (ta_due a)) (or_none (ta_time a))"
  from assms(11) obtain due r where due: "cast_due cast (tf_due ?f) = Inr due" and new: "s_uid st \<notin> tk_id ` set rows" and i: "i = s_uid st"
    and r: "r = \<lparr>tk_id = s_uid st, tk_nonce = s_nonce st,
          tk_ct = aes_encrypt A key (s_nonce st) (PJson (task_body ?f)) (task_aad (s_uid st)), tk_status = ''open'',
          tk_due = due, tk_prio = Some (clean_priority (tf_prio ?f)), tk_time = tf_time ?f,
          tk_recur = Some (clean_recur (tf_recur ?f)), tk_created = s_now st, tk_updated = s_now st\<rparr>" and rows': "rows' = rows @ [r]"
    by (auto simp: add_task_def rbind_Inr_iff split: if_splits)
  have ok': "tasks_ok A key rows'" by (rule add_task_ok [OF assms(2,4,3,11)])
  have duetext: "map_option date_text due = or_none (ta_due a)"
    using due assms(2,6) by (cases "or_none (ta_due a)") (auto simp: cast_due_def new_fields_def cast_ok_def)
  have v: "row_to_task A key r = Inr (added_view i title (s_now st) a)"
    using row_to_task_seal [OF assms(1), of r key ?f] assms(4) duetext
    by (simp add: r i stamp_ok_def view_of_def added_view_def) (simp add: new_fields_def clean_tags_def)
  have get: "get_task A key i rows' = Inr (Some (added_view i title (s_now st) a))"
    using v new assms(4) row_find_None_iff [of tk_id i rows]
    by (simp add: get_task_def rows' row_find_append row_find_Cons i r stamp_ok_def)
  obtain g where g: "list_tasks A key rows' = Inr (map g (order_by task_le rows'))" "\<And>x. x \<in> set rows' \<Longrightarrow> row_to_task A key x = Inr (g x)"
    using list_tasks_all [OF assms(1) ok'] assms(5) rows' by auto
  have old: "\<not> ?dup (g x)" if x: "x \<in> set rows" for x
  proof -
    obtain h where h: "list_tasks A key rows = Inr (map h (order_by task_le rows))" "row_to_task A key x = Inr (h x)"
      using list_tasks_all [OF assms(1,3) less_imp_le [OF assms(5)]] x by metis
    have "h x \<in> set tasks" using h(1) assms(9) x by auto
    moreover have "g x = h x" using g(2) [of x] h(2) x rows' by simp
    ultimately show ?thesis using assms(10) by (auto simp: find_None_iff)
  qed
  have gr: "g r = added_view i title (s_now st) a" using g(2) [of r] v rows' by simp
  have "?dup (added_view i title (s_now st) a)" by (simp add: is_duplicate_def added_view_def)
  then have "List.find ?dup (map g (order_by task_le rows')) = Some (added_view i title (s_now st) a)"
    by (intro find_only) (use old gr rows' in auto)
  with g(1) get show ?thesis by blast
qed

text \<open>
  adding a task is idempotent. On any table the planner can have built, with fewer than a thousand tasks and a due date named as the
  calendar prints it, a repeated \<open>add_task\<close> of the assistant answers with the task of the first call and changes
  nothing; the task that was added reads back open, with the title, notes and times given and its priority and recurrence cleaned.
\<close>

theorem add_task_idempotent:
  assumes "aead_roundtrip A" and "cast_ok cast" and "\<forall>ev \<in> set evs. task_event_ok ev"
    and "rows = fold (task_step A key cast) evs []" and "stamp_ok st" and "length rows < 1000"
    and "\<forall>s. or_none (ta_due a) = Some s \<longrightarrow> (\<exists>d. valid_date d \<and> s = date_text d)"
    and "add_task_tool A key cast st a rows = Inr ((i, dup), rows')"
  shows "add_task_tool A key cast st' a rows' = Inr ((i, True), rows') \<and>
    (\<not> dup \<longrightarrow> (\<exists>title. ta_title a = Some title \<and> get_task A key i rows' = Inr (Some (added_view i title (s_now st) a))))"
proof -
  have ok: "tasks_ok A key rows"
    unfolding assms(4) by (rule tasks.inv_run) (use assms(2,3) in blast)
  obtain title tasks where t: "ta_title a = Some title" "title \<noteq> []" "list_tasks A key rows = Inr tasks"
    using assms(8) by (auto simp: add_task_tool_def rbind_Inr_iff split: option.splits if_splits)
  let ?dup = "is_duplicate (py_lower (strip title)) (or_none (ta_due a)) (or_none (ta_time a))"
  show ?thesis
  proof (cases "List.find ?dup tasks")
    case (Some w)
    then show ?thesis using assms(8) t by (simp add: add_task_tool_def)
  next
    case None
    with assms(8) t have add: "add_task A key cast st (new_fields title a) rows = Inr (i, rows')" and "\<not> dup"
      by (auto simp: add_task_tool_def rbind_Inr_iff)
    from add_task_fresh [OF assms(1,2) ok assms(5,6,7) t None add] t(1,2) show ?thesis
      by (auto simp: add_task_tool_def added_view_def)
  qed
qed

theorem add_task_idempotent_witness:
  "\<forall>st. add_task_tool tagged_aead (replicate 32 0) strptime_date st demo_task demo_tasks = Inr ((''t1'', True), demo_tasks)"
proof
  fix st
  have due: "or_none (ta_due demo_task) = Some (date_text (Date 2026 2 28))" "valid_date (Date 2026 2 28)"
    by (code_simp, simp add: valid_date_def days_in_month_def is_leap_def)
  have first: "add_task_tool tagged_aead (replicate 32 0) strptime_date (demo_stamp ''t1'' 7) demo_task [] = Inr ((''t1'', False), demo_tasks)"
    by code_simp
  show "add_task_tool tagged_aead (replicate 32 0) strptime_date st demo_task demo_tasks = Inr ((''t1'', True), demo_tasks)"
    using add_task_idempotent [OF tagged_aead_roundtrip strptime_cast_ok, of "[]" "[]" "replicate 32 0" "demo_stamp ''t1'' 7" demo_task
        "''t1''" False demo_tasks st] first due by (auto simp: stamp_ok_def demo_stamp_def)
qed

text \<open>
  The guard compares the due date with the printed form of the stored one, so a date the database accepts in another
  spelling is not recognised: with a cast that also takes an unpadded month, the repeated call adds a second row.
\<close>

definition lax_cast :: "string \<Rightarrow> date option" where
  "lax_cast s = (if s = ''2026-2-28'' then Some (Date 2026 2 28) else strptime_date s)"

lemma add_task_unpadded_duplicates:
  "cast_ok lax_cast \<and> (\<exists>rows rows'.
     add_task_tool tagged_aead (replicate 32 0) lax_cast (demo_stamp ''t1'' 7) (demo_task\<lparr>ta_due := Some ''2026-2-28''\<rparr>) [] = Inr ((''t1'', False), rows) \<and>
     add_task_tool tagged_aead (replicate 32 0) lax_cast (demo_stamp ''t2'' 8) (demo_task\<lparr>ta_due := Some ''2026-2-28''\<rparr>) rows = Inr ((''t2'', False), rows'))"
proof (rule conjI)
  have "valid_date (Date 2026 2 28)" by (simp add: valid_date_def days_in_month_def is_leap_def)
  moreover have "date_text d \<noteq> ''2026-2-28''" for d
  proof
    assume e: "date_text d = ''2026-2-28''"
    have "length (date_text d) = length ''2026-2-28''" by (simp only: e)
    then show False by simp
  qed
  ultimately show "cast_ok lax_cast" using strptime_cast_ok by (auto simp: cast_ok_def lax_cast_def)
next
  let ?a = "demo_task\<lparr>ta_due := Some ''2026-2-28''\<rparr>"
  let ?t = "add_task_tool tagged_aead (replicate 32 0) lax_cast"
  have ran: "(case ?t (demo_stamp ''t1'' 7) ?a [] of Inr (r, rows) \<Rightarrow> r = (''t1'', False) \<and>
      (case ?t (demo_stamp ''t2'' 8) ?a rows of Inr (r', _) \<Rightarrow> r' = (''t2'', False) | Inl _ \<Rightarrow> False) | Inl _ \<Rightarrow> False)"
    by code_simp
  then obtain p where p: "?t (demo_stamp ''t1'' 7) ?a [] = Inr p" by (cases "?t (demo_stamp ''t1'' 7) ?a []") auto
  with ran obtain q where q: "?t (demo_stamp ''t2'' 8) ?a (snd p) = Inr q"
    by (cases "?t (demo_stamp ''t2'' 8) ?a (snd p)") (auto split: prod.splits)
  have "fst p = (''t1'', False)" "fst q = (''t2'', False)" using ran p q by (cases p; cases q; auto)+
  with p q show "\<exists>rows rows'. ?t (demo_stamp ''t1'' 7) ?a [] = Inr ((''t1'', False), rows) \<and> ?t (demo_stamp ''t2'' 8) ?a rows = Inr ((''t2'', False), rows')"
    by (metis prod.collapse)
qed

end
