(* ===== verification/Keyset.thy ===== *)
theory Keyset
  imports Prelude "HOL-Library.Product_Lexorder"
begin

text \<open>
  Keyset pagination, as the history listings do it: a page is the newest rows strictly below a cursor key, one row more is
  fetched to see whether another page follows, and the next cursor is the key of the page's last row. The locale is the
  contract of such a query; its lemmas are about the client that walks the pages.
\<close>

definition newest_by :: "('r \<Rightarrow> 'k::linorder) \<Rightarrow> 'r \<Rightarrow> 'r \<Rightarrow> bool" where
  "newest_by key a b = (key b \<le> key a)"

definition below :: "('r \<Rightarrow> 'k::linorder) \<Rightarrow> 'k option \<Rightarrow> 'r \<Rightarrow> bool" where
  "below key c r = (case c of None \<Rightarrow> True | Some x \<Rightarrow> key r < x)"

text \<open>The client: ask for a page, follow its cursor; fuel bounds the number of requests.\<close>

fun walk_rows :: "('r \<Rightarrow> 'k) \<Rightarrow> ('k option \<Rightarrow> nat \<Rightarrow> 'r list \<Rightarrow> 'r list) \<Rightarrow> nat \<Rightarrow> nat \<Rightarrow> 'k option \<Rightarrow> 'r list \<Rightarrow> 'r list list" where
  "walk_rows key query n 0 c rows = []"
| "walk_rows key query n (Suc fuel) c rows =
     (let q = query c (n + 1) rows; page = take n q
      in page # (if length q > n then walk_rows key query n fuel (Some (key (last page))) rows else []))"

text \<open>The same walk over an endpoint that answers with items, the next cursor as text and whether there is one.\<close>

type_synonym 'v page = "'v list \<times> string option \<times> bool"

fun page_walk :: "(string option \<Rightarrow> 'v page result) \<Rightarrow> nat \<Rightarrow> string option \<Rightarrow> 'v list list result" where
  "page_walk fetch 0 c = Inr []"
| "page_walk fetch (Suc fuel) c = rbind (fetch c) (\<lambda>(items, next_cursor, more).
     case next_cursor of None \<Rightarrow> Inr [items]
     | Some c' \<Rightarrow> rbind (page_walk fetch fuel (Some c')) (\<lambda>pages. Inr (items # pages)))"

definition page_reply :: "('r \<Rightarrow> 'k) \<Rightarrow> ('k \<Rightarrow> string) \<Rightarrow> ('r list \<Rightarrow> 'v list) \<Rightarrow> nat \<Rightarrow> 'r list \<Rightarrow> 'v page" where
  "page_reply key enc show_rows n q =
     (show_rows (take n q), (if length q > n then Some (enc (key (last (take n q)))) else None), length q > n)"

lemma sorted_newest: "sorted_wrt (newest_by key) (order_by (newest_by key) rows)"
  by (rule sorted_order_by) (auto simp: newest_by_def)

lemma filter_insert_by:
  assumes "sorted_wrt (newest_by key) xs"
  shows "filter P (insert_by (newest_by key) x xs) = (if P x then insert_by (newest_by key) x (filter P xs) else filter P xs)"
  using assms
proof (induction xs)
  case (Cons y ys)
  show ?case
  proof (cases "newest_by key x y")
    case True
    then have "newest_by key x z" if "z \<in> set (y # ys)" for z
      using Cons.prems that by (auto simp: newest_by_def)
    then have "insert_by (newest_by key) x (filter P (y # ys)) = x # filter P (y # ys)"
    proof (cases "filter P (y # ys)")
      case (Cons z zs)
      then have "z \<in> set (filter P (y # ys))" by (metis list.set_intros(1))
      then have "z \<in> set (y # ys)" by (rule subsetD [OF filter_is_subset])
      then have "newest_by key x z" by (rule \<open>\<And>z. z \<in> set (y # ys) \<Longrightarrow> newest_by key x z\<close>)
      then show ?thesis unfolding Cons by simp
    qed (metis insert_by.simps(1))
    then show ?thesis using True by auto
  next
    case False
    then show ?thesis using Cons by auto
  qed
qed simp

lemma filter_order_by: "filter P (order_by (newest_by key) rows) = order_by (newest_by key) (filter P rows)"
  by (induction rows) (auto simp: filter_insert_by sorted_newest)

text \<open>Below the last key of a prefix lies exactly what follows it.\<close>

lemma filter_below_split:
  assumes "sorted_wrt (newest_by key) (xs @ ys)" and "distinct (map key (xs @ ys))" and "xs \<noteq> []"
  shows "filter (below key (Some (key (last xs)))) (xs @ ys) = ys"
proof -
  have x: "\<not> key x < key (last xs)" if x: "x \<in> set xs" for x
  proof -
    obtain us where us: "xs = us @ [last xs]" using assms(3) by (metis append_butlast_last_id)
    then have "x \<in> set us \<or> x = last xs" using x by (metis Un_iff empty_iff insert_iff list.set(1) list.set(2) set_append)
    moreover have "sorted_wrt (newest_by key) (us @ [last xs])"
      using assms(1) us by (metis sorted_wrt_append)
    then have "\<forall>u \<in> set us. key (last xs) \<le> key u" by (simp add: sorted_wrt_append newest_by_def)
    ultimately show ?thesis by auto
  qed
  have y: "key y < key (last xs)" if "y \<in> set ys" for y
  proof -
    have "key y \<le> key (last xs)" using assms(1,3) that by (simp add: sorted_wrt_append newest_by_def)
    moreover have "key y \<noteq> key (last xs)" using assms(2,3) that by (auto dest: last_in_set)
    ultimately show ?thesis by simp
  qed
  show ?thesis using x y by (simp add: below_def filter_empty_conv filter_id_conv)
qed

locale keyset_feed =
  fixes key :: "'r \<Rightarrow> 'k::linorder"
    and query :: "'k option \<Rightarrow> nat \<Rightarrow> 'r list \<Rightarrow> 'r list"
    and live :: "'r \<Rightarrow> bool"
  assumes query_law: "query c n rows = take n (order_by (newest_by key) (filter (\<lambda>r. live r \<and> below key c r) rows))"
begin

lemma query_split:
  assumes "distinct (map key (filter live rows))" and "order_by (newest_by key) (filter live rows) = xs @ ys"
    and "c = (if xs = [] then None else Some (key (last xs)))"
  shows "query c n rows = take n ys"
proof -
  have sorted: "sorted_wrt (newest_by key) (xs @ ys)" using sorted_newest [of key "filter live rows"] assms(2) by simp
  have "distinct (map key (xs @ ys))"
    using distinct_map_order_by [OF assms(1), of "newest_by key"] assms(2) by simp
  then have "filter (below key c) (xs @ ys) = ys"
    using filter_below_split [OF sorted] assms(3) by (cases "xs = []") (auto simp: below_def)
  moreover have "filter (\<lambda>r. live r \<and> below key c r) rows = filter (below key c) (filter live rows)"
    by (simp add: conj_commute)
  ultimately show ?thesis unfolding query_law by (metis assms(2) filter_order_by)
qed

text \<open>Whatever has been seen, the walk brings exactly the rest, in order, in pages of at most \<open>n\<close>, full but for the last.\<close>

lemma walk_from:
  assumes "distinct (map key (filter live rows))" and "0 < n"
  shows "order_by (newest_by key) (filter live rows) = xs @ ys \<Longrightarrow> c = (if xs = [] then None else Some (key (last xs))) \<Longrightarrow>
    length ys < fuel \<Longrightarrow> concat (walk_rows key query n fuel c rows) = ys \<and>
      (\<forall>p \<in> set (butlast (walk_rows key query n fuel c rows)). length p = n) \<and> length (last (walk_rows key query n fuel c rows)) \<le> n"
proof (induction fuel arbitrary: xs ys c)
  case (Suc fuel)
  have q: "query c (Suc n) rows = take (Suc n) ys" by (rule query_split [OF assms(1) Suc.prems(1,2)])
  show ?case
  proof (cases "length ys > n")
    case False
    then show ?thesis by (simp add: q Let_def)
  next
    case True
    have page: "take n (take (Suc n) ys) = take n ys" by simp
    have "take n ys \<noteq> []" using True assms(2) by auto
    then have ne: "xs @ take n ys \<noteq> []" "last (xs @ take n ys) = last (take n ys)" by (auto simp del: take_eq_Nil)
    define W where "W = walk_rows key query n fuel (Some (key (last (take n ys)))) rows"
    have W: "concat W = drop n ys \<and> (\<forall>p \<in> set (butlast W). length p = n) \<and> length (last W) \<le> n"
      unfolding W_def by (rule Suc.IH [of "xs @ take n ys"]) (use Suc.prems True assms(2) ne in auto)
    obtain f where "fuel = Suc f" using Suc.prems(3) True by (cases fuel) auto
    then have "W \<noteq> []" by (simp add: W_def Let_def)
    moreover have "walk_rows key query n (Suc fuel) c rows = take n ys # W"
      using True by (simp add: q page Let_def W_def)
    ultimately show ?thesis using W True by simp
  qed
qed simp

lemma walk_all:
  assumes "distinct (map key (filter live rows))" and "0 < n" and "length (filter live rows) < fuel"
  shows "concat (walk_rows key query n fuel None rows) = order_by (newest_by key) (filter live rows)"
  using walk_from [OF assms(1,2), where xs = "[]" and c = None] assms(3) by simp

lemma query_live: "r \<in> set (query c n rows) \<Longrightarrow> r \<in> set rows \<and> live r"
  by (auto simp: query_law dest: in_set_takeD)

lemma page_walk_rows:
  assumes fetch: "\<And>k. k = None \<or> (\<exists>r \<in> set rows. live r \<and> k = Some (key r)) \<Longrightarrow>
      fetch (map_option enc k) = Inr (page_reply key enc show_rows n (query k (n + 1) rows))"
    and "0 < n"
  shows "k = None \<or> (\<exists>r \<in> set rows. live r \<and> k = Some (key r)) \<Longrightarrow>
    page_walk fetch fuel (map_option enc k) = Inr (map show_rows (walk_rows key query n fuel k rows))"
proof (induction fuel arbitrary: k)
  case (Suc fuel)
  let ?q = "query k (n + 1) rows"
  have f: "fetch (map_option enc k) = Inr (page_reply key enc show_rows n ?q)" by (rule fetch [OF Suc.prems])
  show ?case
  proof (cases "length ?q > n")
    case False
    then show ?thesis by (simp add: f page_reply_def Let_def)
  next
    case True
    then have "take n ?q \<noteq> []" using assms(2) by auto
    then have "last (take n ?q) \<in> set (take n ?q)" by (rule last_in_set)
    then have l: "last (take n ?q) \<in> set rows" "live (last (take n ?q))"
      using query_live [of _ k "n + 1" rows] by (auto dest: in_set_takeD)
    then have "page_walk fetch fuel (map_option enc (Some (key (last (take n ?q))))) =
        Inr (map show_rows (walk_rows key query n fuel (Some (key (last (take n ?q)))) rows))"
      by (intro Suc.IH) blast
    then show ?thesis using True by (simp add: f page_reply_def Let_def)
  qed
qed simp

lemma pages_complete:
  assumes "\<And>k. k = None \<or> (\<exists>r \<in> set rows. live r \<and> k = Some (key r)) \<Longrightarrow>
      fetch (map_option enc k) = Inr (page_reply key enc show_rows n (query k (n + 1) rows))"
    and "0 < n" and "distinct (map key (filter live rows))" and "length (filter live rows) < fuel"
  shows "\<exists>chunks. page_walk fetch fuel None = Inr (map show_rows chunks) \<and>
    concat chunks = order_by (newest_by key) (filter live rows) \<and>
    (\<forall>p \<in> set (butlast chunks). length p = n) \<and> length (last chunks) \<le> n"
proof -
  have "page_walk fetch fuel (map_option enc None) = Inr (map show_rows (walk_rows key query n fuel None rows))"
    by (rule page_walk_rows) (use assms(1,2) in auto)
  moreover have "concat (walk_rows key query n fuel None rows) = order_by (newest_by key) (filter live rows) \<and>
      (\<forall>p \<in> set (butlast (walk_rows key query n fuel None rows)). length p = n) \<and>
      length (last (walk_rows key query n fuel None rows)) \<le> n"
    by (rule walk_from [OF assms(3,2), where xs = "[]"]) (use assms(4) in auto)
  ultimately show ?thesis by auto
qed

end

text \<open>Rows with distinct keys have one order: oldest first is newest first backwards.\<close>

lemma order_by_key_rev:
  assumes "distinct (map key rows)"
  shows "order_by (\<lambda>a b. key a \<le> key b) rows = rev (order_by (newest_by key) rows)" (is "?a = ?b")
proof -
  have "sorted_wrt (\<lambda>a b. key a \<le> key b) ?a"
    by (rule sorted_order_by) auto
  then have "sorted (map key ?a)" by (simp add: sorted_map)
  moreover have "sorted_wrt (\<lambda>a b. key a \<le> key b) ?b"
    using sorted_newest [of key rows] unfolding newest_by_def by (simp add: sorted_wrt_rev)
  then have "sorted (map key ?b)" by (simp add: sorted_map)
  moreover have "mset (map key ?a) = mset (map key ?b)" by simp
  ultimately have "map key ?a = map key ?b"
    by (metis properties_for_sort sort_key_id_if_sorted mset_map)
  moreover have "inj_on key (set ?a \<union> set ?b)" using assms by (simp add: distinct_map)
  ultimately show ?thesis by (simp add: inj_on_map_eq_map)
qed

end
