(* ===== verification/History.thy ===== *)
theory History
  imports Tool_Args Calendar Keyset
begin

text \<open>
  Chat history (\<open>app/smartbrain_3000/history.py\<close>): conversations and their messages, the trash, and the two
  keyset-paginated listings. Besides the cipher, the environment holds what reads texts: \<open>datetime.fromisoformat\<close> as a
  test, and the database's casts to \<open>TIMESTAMP\<close> and \<open>BIGINT\<close>.
\<close>

definition CONV_LIST_LIMIT :: nat where "CONV_LIST_LIMIT = 200"
definition TRASH_RETENTION_DAYS :: int where "TRASH_RETENTION_DAYS = 30"
definition PURGE_LIMIT :: nat where "PURGE_LIMIT = 1000"
definition MSG_LIMIT :: nat where "MSG_LIMIT = 2000"
definition DEFAULT_LIST_PAGE :: int where "DEFAULT_LIST_PAGE = 50"
definition MAX_LIST_PAGE :: int where "MAX_LIST_PAGE = 200"
definition DEFAULT_MSG_PAGE :: int where "DEFAULT_MSG_PAGE = 100"
definition MAX_MSG_PAGE :: int where "MAX_MSG_PAGE = 500"
definition ROLES :: "string list" where "ROLES = [''user'', ''assistant'', ''system'']"
definition MSG_MAX_SOURCES :: nat where "MSG_MAX_SOURCES = 20"
definition MSG_SOURCE_KEYS :: "string list" where
  "MSG_SOURCE_KEYS = [''id'', ''title'', ''source'', ''page'', ''page_label'', ''offset'']"

section \<open>Citations, page sizes and cursors\<close>

definition scalar_source :: "string \<times> jval \<Rightarrow> bool" where
  "scalar_source kv = (fst kv \<in> set MSG_SOURCE_KEYS \<and>
     (case snd kv of JNull \<Rightarrow> True | JStr _ \<Rightarrow> True | JInt _ \<Rightarrow> True | JBool _ \<Rightarrow> True | _ \<Rightarrow> False))"

definition clean_source :: "jval \<Rightarrow> jval list" where
  "clean_source item = (case item of
       JObj d \<Rightarrow> (let cleaned = filter scalar_source d in
         if truthy (opt_get cleaned ''id'' JNull) \<or> truthy (opt_get cleaned ''title'' JNull) then [JObj cleaned] else [])
     | _ \<Rightarrow> [])"

definition clean_sources :: "jval \<Rightarrow> jval list" where
  "clean_sources sources = (case sources of JList items \<Rightarrow> concat (map clean_source (take MSG_MAX_SOURCES items)) | _ \<Rightarrow> [])"

definition clamp_page :: "int option \<Rightarrow> int \<Rightarrow> int \<Rightarrow> int" where
  "clamp_page limit dflt hard_max = (case limit of
       None \<Rightarrow> dflt
     | Some n \<Rightarrow> if n < 1 then 1 else if n > hard_max then hard_max else n)"

record 'c hist_env =
  h_aead :: "'c aead"
  h_key :: bytes
  h_iso :: "string \<Rightarrow> bool"
  h_timestamp :: "string \<Rightarrow> int option"
  h_bigint :: "string \<Rightarrow> int option"

definition split_cursor :: "(string \<Rightarrow> bool) \<Rightarrow> string option \<Rightarrow> (string \<times> string) option result" where
  "split_cursor is_iso cursor = (case cursor of
       None \<Rightarrow> Inr None
     | Some c \<Rightarrow>
         if c = [] then Inr None
         else if CHR ''|'' \<notin> set c \<or> before (CHR ''|'') c = [] then Inl (ValueErr (''invalid cursor: expected '' @ [CHR 0x27] @ ''<timestamp>|<id>'' @ [CHR 0x27]))
         else if \<not> is_iso (before (CHR ''|'') c) then Inl (ValueErr ''invalid cursor: bad timestamp'')
         else Inr (Some (before (CHR ''|'') c, after (CHR ''|'') c)))"

section \<open>The tables\<close>

record 'c conv_row =
  cv_id :: string
  cv_nonce :: bytes
  cv_ct :: 'c
  cv_created :: int
  cv_updated :: int
  cv_deleted :: "int option"

record 'c msg_row =
  ms_id :: string
  ms_conv :: string
  ms_nonce :: bytes
  ms_ct :: 'c
  ms_created :: int
  ms_rowid :: int

text \<open>\<open>rowid\<close> is the insertion order: the database numbers the rows as they come.\<close>

record 'c hist_db =
  hd_convs :: "'c conv_row list"
  hd_msgs :: "'c msg_row list"
  hd_next :: int

definition conv_aad :: "string \<Rightarrow> string" where "conv_aad cid = ''conversation:'' @ cid"
definition msg_aad :: "string \<Rightarrow> string" where "msg_aad mid = ''message:'' @ mid"

definition hist_open :: "'c hist_env \<Rightarrow> string \<Rightarrow> string \<Rightarrow> bytes \<Rightarrow> 'c \<Rightarrow> jdict result" where
  "hist_open H tag row_id nonce c =
     (if row_id = [] then Inl (Assertion ''row id required'') else aead_open (h_aead H) (h_key H) nonce c (tag @ row_id))"

definition hist_seal :: "'c hist_env \<Rightarrow> string \<Rightarrow> string \<Rightarrow> bytes \<Rightarrow> jdict \<Rightarrow> 'c" where
  "hist_seal H tag row_id nonce body = aes_encrypt (h_aead H) (h_key H) nonce (PJson (JObj body)) (tag @ row_id)"

definition body_at :: "jdict \<Rightarrow> string \<Rightarrow> jval result" where
  "body_at body k = (case map_of body k of Some v \<Rightarrow> Inr v | None \<Rightarrow> Inl (OtherErr ''KeyError''))"

record conv_view =
  vc_id :: string
  vc_title :: jval
  vc_created :: string
  vc_updated :: string

definition conv_view_of :: "'c hist_env \<Rightarrow> 'c conv_row \<Rightarrow> conv_view result" where
  "conv_view_of H r = rbind (hist_open H ''conversation:'' (cv_id r) (cv_nonce r) (cv_ct r)) (\<lambda>body.
     rbind (body_at body ''title'') (\<lambda>title. Inr
       \<lparr>vc_id = cv_id r, vc_title = title, vc_created = ts_text (cv_created r), vc_updated = ts_text (cv_updated r)\<rparr>))"

record msg_view =
  vm_id :: string
  vm_role :: jval
  vm_content :: jval
  vm_created :: string
  vm_sources :: "jval option"

definition msg_view_of :: "'c hist_env \<Rightarrow> 'c msg_row \<Rightarrow> msg_view result" where
  "msg_view_of H r = rbind (hist_open H ''message:'' (ms_id r) (ms_nonce r) (ms_ct r)) (\<lambda>body.
     rbind (body_at body ''role'') (\<lambda>role. rbind (body_at body ''content'') (\<lambda>content. Inr
       \<lparr>vm_id = ms_id r, vm_role = role, vm_content = content, vm_created = ts_text (ms_created r),
        vm_sources = (if truthy (opt_get body ''sources'' JNull) then Some (opt_get body ''sources'' JNull) else None)\<rparr>)))"

definition live :: "'c conv_row \<Rightarrow> bool" where
  "live r = (cv_deleted r = None)"

section \<open>Conversations\<close>

definition create_conversation :: "'c hist_env \<Rightarrow> stamp \<Rightarrow> string \<Rightarrow> 'c hist_db \<Rightarrow> (string \<times> 'c hist_db) result" where
  "create_conversation H st title db =
     (if title = [] then Inl (Assertion ''title must be non-empty'')
      else if s_uid st \<in> cv_id ` set (hd_convs db) then Inl (OtherErr ''duplicate key'')
      else Inr (s_uid st, db\<lparr>hd_convs := hd_convs db @ [\<lparr>cv_id = s_uid st, cv_nonce = s_nonce st,
        cv_ct = hist_seal H ''conversation:'' (s_uid st) (s_nonce st) [(''title'', JStr title)],
        cv_created = s_now st, cv_updated = s_now st, cv_deleted = None\<rparr>]\<rparr>))"

definition updated_desc :: "'c conv_row \<Rightarrow> 'c conv_row \<Rightarrow> bool" where
  "updated_desc a b = (cv_updated b \<le> cv_updated a)"

definition list_conversations :: "'c hist_env \<Rightarrow> 'c hist_db \<Rightarrow> conv_view list result" where
  "list_conversations H db = rmap (conv_view_of H) (take CONV_LIST_LIMIT (order_by updated_desc (filter live (hd_convs db))))"

definition conv_key :: "'c conv_row \<Rightarrow> int \<times> string" where
  "conv_key r = (cv_updated r, cv_id r)"

definition conv_query :: "(int \<times> string) option \<Rightarrow> nat \<Rightarrow> 'c conv_row list \<Rightarrow> 'c conv_row list" where
  "conv_query c n rows = take n (order_by (newest_by conv_key) (filter (\<lambda>r. live r \<and> below conv_key c r) rows))"

definition cursor_text :: "int \<Rightarrow> string \<Rightarrow> string" where
  "cursor_text t ident = ts_text t @ CHR ''|'' # ident"

definition cast_key :: "(string \<Rightarrow> int option) \<Rightarrow> (string \<times> string) option \<Rightarrow> (int \<times> string) option result" where
  "cast_key ts cursor = (case cursor of
       None \<Rightarrow> Inr None
     | Some (t, ident) \<Rightarrow> (case ts t of None \<Rightarrow> Inl (OtherErr ''ConversionException'') | Some n \<Rightarrow> Inr (Some (n, ident))))"

definition list_conversations_page :: "'c hist_env \<Rightarrow> string option \<Rightarrow> int option \<Rightarrow> 'c hist_db \<Rightarrow> conv_view page result" where
  "list_conversations_page H before_cursor limit db =
     (let page = nat (clamp_page limit DEFAULT_LIST_PAGE MAX_LIST_PAGE) in
      rbind (split_cursor (h_iso H) before_cursor) (\<lambda>cursor. rbind (cast_key (h_timestamp H) cursor) (\<lambda>key.
        let rows = conv_query key (page + 1) (hd_convs db); has_more = length rows > page; shown = take page rows in
        rbind (rmap (conv_view_of H) shown) (\<lambda>items. Inr
          (items, (if has_more \<and> items \<noteq> [] then Some (cursor_text (cv_updated (last shown)) (cv_id (last shown))) else None), has_more)))))"

definition get_conversation :: "'c hist_env \<Rightarrow> string \<Rightarrow> 'c hist_db \<Rightarrow> conv_view option result" where
  "get_conversation H cid db =
     (if cid = [] then Inl (Assertion ''conversation id required'')
      else case row_find cv_id cid (filter live (hd_convs db)) of
        None \<Rightarrow> Inr None | Some r \<Rightarrow> rmap1 Some (conv_view_of H r))"

definition update_conv :: "string \<Rightarrow> ('c conv_row \<Rightarrow> 'c conv_row) \<Rightarrow> 'c hist_db \<Rightarrow> 'c hist_db" where
  "update_conv cid f db = db\<lparr>hd_convs := row_update cv_id cid f (hd_convs db)\<rparr>"

definition rename_conversation :: "'c hist_env \<Rightarrow> bytes \<Rightarrow> int \<Rightarrow> string \<Rightarrow> string \<Rightarrow> 'c hist_db \<Rightarrow> 'c hist_db result" where
  "rename_conversation H nonce now cid title db =
     (if cid = [] then Inl (Assertion ''conversation id required'')
      else if title = [] then Inl (Assertion ''title must be non-empty'')
      else Inr (update_conv cid (\<lambda>r. r\<lparr>cv_nonce := nonce,
        cv_ct := hist_seal H ''conversation:'' cid nonce [(''title'', JStr title)], cv_updated := now\<rparr>) db))"

text \<open>The statement has taken effect when a closing assert fails, so the state is returned beside the result.\<close>

definition delete_conversation :: "'c hist_env \<Rightarrow> int \<Rightarrow> string \<Rightarrow> 'c hist_db \<Rightarrow> unit result \<times> 'c hist_db" where
  "delete_conversation H now cid db =
     (if cid = [] then (Inl (Assertion ''conversation id required''), db)
      else let db' = update_conv cid (\<lambda>r. if live r then r\<lparr>cv_deleted := Some now\<rparr> else r) db in
        (rbind (get_conversation H cid db') (\<lambda>v.
           if v = None then Inr () else Inl (Assertion ''conversation must read absent after trashing'')), db'))"

definition delete_all_conversations :: "int \<Rightarrow> 'c hist_db \<Rightarrow> nat \<times> 'c hist_db" where
  "delete_all_conversations now db =
     (length (filter live (hd_convs db)), db\<lparr>hd_convs := map (\<lambda>r. if live r then r\<lparr>cv_deleted := Some now\<rparr> else r) (hd_convs db)\<rparr>)"

definition deleted_desc :: "'c conv_row \<Rightarrow> 'c conv_row \<Rightarrow> bool" where
  "deleted_desc a b = (the (cv_deleted b) \<le> the (cv_deleted a))"

record trash_view =
  vt_id :: string
  vt_title :: jval
  vt_deleted :: string

definition list_trash :: "'c hist_env \<Rightarrow> 'c hist_db \<Rightarrow> trash_view list result" where
  "list_trash H db = rmap (\<lambda>r. rbind (hist_open H ''conversation:'' (cv_id r) (cv_nonce r) (cv_ct r)) (\<lambda>body.
       rbind (body_at body ''title'') (\<lambda>title. Inr \<lparr>vt_id = cv_id r, vt_title = title, vt_deleted = ts_text (the (cv_deleted r))\<rparr>)))
     (take CONV_LIST_LIMIT (order_by deleted_desc (filter (\<lambda>r. \<not> live r) (hd_convs db))))"

definition restore_conversation :: "'c hist_env \<Rightarrow> string \<Rightarrow> 'c hist_db \<Rightarrow> bool result \<times> 'c hist_db" where
  "restore_conversation H cid db =
     (if cid = [] then (Inl (Assertion ''conversation id required''), db)
      else if \<not> (\<exists>r \<in> set (hd_convs db). cv_id r = cid \<and> \<not> live r) then (Inr False, db)
      else let db' = update_conv cid (\<lambda>r. r\<lparr>cv_deleted := None\<rparr>) db in
        (rbind (get_conversation H cid db') (\<lambda>v.
           if v = None then Inl (Assertion ''conversation must be readable after restore'') else Inr True), db'))"

fun hard_delete :: "string list \<Rightarrow> 'c hist_db \<Rightarrow> 'c hist_db" where
  "hard_delete [] db = db"
| "hard_delete (cid # cids) db = hard_delete cids
     (db\<lparr>hd_msgs := filter (\<lambda>m. ms_conv m \<noteq> cid) (hd_msgs db), hd_convs := filter (\<lambda>r. cv_id r \<noteq> cid) (hd_convs db)\<rparr>)"

text \<open>A \<open>LIMIT\<close> without an order takes rows as they lie, one of the orders SQL allows.\<close>

definition empty_trash :: "'c hist_db \<Rightarrow> nat \<times> 'c hist_db" where
  "empty_trash db = (let cids = map cv_id (take PURGE_LIMIT (filter (\<lambda>r. \<not> live r) (hd_convs db))) in (length cids, hard_delete cids db))"

definition expired_at :: "int \<Rightarrow> int \<Rightarrow> 'c conv_row \<Rightarrow> bool" where
  "expired_at now days r = (case cv_deleted r of None \<Rightarrow> False | Some t \<Rightarrow> t < now - days * int DAY_MICROS)"

definition purge_expired :: "int \<Rightarrow> int \<Rightarrow> 'c hist_db \<Rightarrow> (nat \<times> 'c hist_db) result" where
  "purge_expired now days db =
     (if days \<le> 0 then Inl (Assertion ''retention must be positive'')
      else let cids = map cv_id (take PURGE_LIMIT (filter (expired_at now days) (hd_convs db))) in Inr (length cids, hard_delete cids db))"

section \<open>Messages\<close>

definition msg_body :: "string \<Rightarrow> string \<Rightarrow> jval \<Rightarrow> jdict" where
  "msg_body role content sources = [(''role'', JStr role), (''content'', JStr content)] @
     (let cleaned = clean_sources sources in if cleaned = [] then [] else [(''sources'', JList cleaned)])"

definition add_message ::
  "'c hist_env \<Rightarrow> stamp \<Rightarrow> int \<Rightarrow> string \<Rightarrow> string \<Rightarrow> string \<Rightarrow> jval \<Rightarrow> 'c hist_db \<Rightarrow> (string \<times> 'c hist_db) result" where
  "add_message H st now cid role content sources db =
     (if cid = [] then Inl (Assertion ''conversation id required'')
      else if role \<notin> set ROLES then Inl (Assertion ''role must be user/assistant/system'')
      else rbind (get_conversation H cid db) (\<lambda>conv. case conv of
          None \<Rightarrow> Inl (ValueErr ''conversation not found'')
        | Some _ \<Rightarrow>
            if s_uid st \<in> ms_id ` set (hd_msgs db) then Inl (OtherErr ''duplicate key'')
            else Inr (s_uid st, update_conv cid (\<lambda>r. r\<lparr>cv_updated := now\<rparr>)
              (db\<lparr>hd_msgs := hd_msgs db @ [\<lparr>ms_id = s_uid st, ms_conv = cid, ms_nonce = s_nonce st,
                 ms_ct = hist_seal H ''message:'' (s_uid st) (s_nonce st) (msg_body role content sources),
                 ms_created = s_now st, ms_rowid = hd_next db\<rparr>], hd_next := hd_next db + 1\<rparr>))))"

definition msg_key :: "'c msg_row \<Rightarrow> int \<times> int" where
  "msg_key r = (ms_created r, ms_rowid r)"

definition oldest_first :: "'c msg_row \<Rightarrow> 'c msg_row \<Rightarrow> bool" where
  "oldest_first a b = (msg_key a \<le> msg_key b)"

definition get_messages :: "'c hist_env \<Rightarrow> string \<Rightarrow> 'c hist_db \<Rightarrow> msg_view list result" where
  "get_messages H cid db =
     (if cid = [] then Inl (Assertion ''conversation id required'')
      else rmap (msg_view_of H) (take MSG_LIMIT (order_by oldest_first (filter (\<lambda>m. ms_conv m = cid) (hd_msgs db)))))"

definition msg_query :: "string \<Rightarrow> (int \<times> int) option \<Rightarrow> nat \<Rightarrow> 'c msg_row list \<Rightarrow> 'c msg_row list" where
  "msg_query cid c n rows = take n (order_by (newest_by msg_key) (filter (\<lambda>m. ms_conv m = cid \<and> below msg_key c m) rows))"

text \<open>\<open>int(s)\<close> of a cursor's second half, as a test; its value is the database's cast.\<close>

definition int_literal :: "string \<Rightarrow> bool" where
  "int_literal s = (let u = drop_sign (strip s) in digit_part u = Some [] \<and> length (filter ascii_digit u) \<le> 4300)"

definition cast_msg_key :: "'c hist_env \<Rightarrow> (string \<times> string) option \<Rightarrow> (int \<times> int) option result" where
  "cast_msg_key H cursor = (case cursor of
       None \<Rightarrow> Inr None
     | Some (t, rowid) \<Rightarrow>
         if \<not> int_literal rowid then Inl (ValueErr ''invalid pagination cursor'')
         else (case (h_timestamp H t, h_bigint H rowid) of
             (Some n, Some i) \<Rightarrow> Inr (Some (n, i)) | _ \<Rightarrow> Inl (OtherErr ''ConversionException'')))"

definition get_messages_page ::
  "'c hist_env \<Rightarrow> string \<Rightarrow> string option \<Rightarrow> int option \<Rightarrow> 'c hist_db \<Rightarrow> msg_view page result" where
  "get_messages_page H cid before_cursor limit db =
     (if cid = [] then Inl (Assertion ''conversation id required'')
      else let page = nat (clamp_page limit DEFAULT_MSG_PAGE MAX_MSG_PAGE) in
      rbind (split_cursor (h_iso H) before_cursor) (\<lambda>cursor. rbind (cast_msg_key H cursor) (\<lambda>key.
        let rows = msg_query cid key (page + 1) (hd_msgs db); has_more = length rows > page; shown = take page rows in
        rbind (rmap (msg_view_of H) shown) (\<lambda>items. Inr
          (rev items, (if has_more \<and> shown \<noteq> [] then Some (cursor_text (ms_created (last shown)) (str_int (ms_rowid (last shown)))) else None),
           has_more)))))"

interpretation conv_feed: keyset_feed conv_key conv_query live
  by unfold_locales (simp add: conv_query_def)

interpretation msg_feed: keyset_feed msg_key "msg_query cid" "\<lambda>m. ms_conv m = cid" for cid
  by unfold_locales (simp add: msg_query_def)

section \<open>Well-formed stores\<close>

text \<open>
  Ids are distinct, every body is sealed under its row's id, row numbers are below the next one, and every message belongs to
  a conversation that exists.
\<close>

definition conv_ok :: "'c hist_env \<Rightarrow> 'c conv_row \<Rightarrow> bool" where
  "conv_ok H r \<longleftrightarrow> cv_id r \<noteq> [] \<and> length (cv_nonce r) = 12 \<and>
     (\<exists>title. cv_ct r = hist_seal H ''conversation:'' (cv_id r) (cv_nonce r) [(''title'', JStr title)])"

definition msg_ok :: "'c hist_env \<Rightarrow> 'c msg_row \<Rightarrow> bool" where
  "msg_ok H m \<longleftrightarrow> ms_id m \<noteq> [] \<and> length (ms_nonce m) = 12 \<and>
     (\<exists>role content sources. ms_ct m = hist_seal H ''message:'' (ms_id m) (ms_nonce m) (msg_body role content sources))"

definition hist_ok :: "'c hist_env \<Rightarrow> 'c hist_db \<Rightarrow> bool" where
  "hist_ok H db \<longleftrightarrow> distinct (map cv_id (hd_convs db)) \<and> (\<forall>r \<in> set (hd_convs db). conv_ok H r) \<and>
     distinct (map ms_rowid (hd_msgs db)) \<and> (\<forall>m \<in> set (hd_msgs db). msg_ok H m \<and> 0 \<le> ms_rowid m \<and> ms_rowid m < hd_next db) \<and>
     ms_conv ` set (hd_msgs db) \<subseteq> cv_id ` set (hd_convs db) \<and> 0 \<le> hd_next db"

datatype hist_event =
    H_create stamp string
  | H_rename bytes int string string
  | H_delete int string
  | H_delete_all int
  | H_restore string
  | H_empty
  | H_purge int int
  | H_message stamp int string string string jval

definition hist_kept :: "'a \<Rightarrow> 'a result \<Rightarrow> 'a" where
  "hist_kept d r = (case r of Inl _ \<Rightarrow> d | Inr x \<Rightarrow> x)"

definition hist_step :: "'c hist_env \<Rightarrow> hist_event \<Rightarrow> 'c hist_db \<Rightarrow> 'c hist_db" where
  "hist_step H ev db = (case ev of
       H_create st title \<Rightarrow> hist_kept db (rmap1 snd (create_conversation H st title db))
     | H_rename nonce now cid title \<Rightarrow> hist_kept db (rename_conversation H nonce now cid title db)
     | H_delete now cid \<Rightarrow> snd (delete_conversation H now cid db)
     | H_delete_all now \<Rightarrow> snd (delete_all_conversations now db)
     | H_restore cid \<Rightarrow> snd (restore_conversation H cid db)
     | H_empty \<Rightarrow> snd (empty_trash db)
     | H_purge now days \<Rightarrow> hist_kept db (rmap1 snd (purge_expired now days db))
     | H_message st now cid role content sources \<Rightarrow> hist_kept db (rmap1 snd (add_message H st now cid role content sources db)))"

definition hist_event_ok :: "hist_event \<Rightarrow> bool" where
  "hist_event_ok ev = (case ev of H_create st _ \<Rightarrow> stamp_ok st | H_rename nonce _ _ _ \<Rightarrow> length nonce = 12
     | H_message st _ _ _ _ _ \<Rightarrow> stamp_ok st | _ \<Rightarrow> True)"

definition no_history :: "'c hist_db" where
  "no_history = \<lparr>hd_convs = [], hd_msgs = [], hd_next = 0\<rparr>"

lemma hist_ok_map:
  assumes "hist_ok H db" and "\<And>r. cv_id (f r) = cv_id r" and "\<And>r. conv_ok H r \<Longrightarrow> conv_ok H (f r)"
  shows "hist_ok H (db\<lparr>hd_convs := map f (hd_convs db)\<rparr>)"
proof -
  have e: "map cv_id (map f (hd_convs db)) = map cv_id (hd_convs db)" using assms(2) by simp
  have "distinct (map cv_id (map f (hd_convs db)))" unfolding e using assms(1) by (simp add: hist_ok_def)
  moreover have "cv_id ` set (map f (hd_convs db)) = cv_id ` set (hd_convs db)" by (metis e list.set_map)
  moreover have "\<forall>r \<in> set (map f (hd_convs db)). conv_ok H r" using assms(1,3) by (auto simp: hist_ok_def)
  ultimately show ?thesis using assms(1) unfolding hist_ok_def by (simp del: map_map list.set_map)
qed

lemma hist_ok_update:
  assumes "hist_ok H db" and "\<And>r. cv_id (f r) = cv_id r" and "\<And>r. cv_id r = cid \<Longrightarrow> conv_ok H r \<Longrightarrow> conv_ok H (f r)"
  shows "hist_ok H (update_conv cid f db)"
  unfolding update_conv_def row_update_def by (rule hist_ok_map) (use assms in auto)

lemma hist_ok_hard_delete: "hist_ok H db \<Longrightarrow> hist_ok H (hard_delete cids db)"
proof (induction cids db rule: hard_delete.induct)
  case (2 cid cids db)
  have "hist_ok H (db\<lparr>hd_msgs := filter (\<lambda>m. ms_conv m \<noteq> cid) (hd_msgs db), hd_convs := filter (\<lambda>r. cv_id r \<noteq> cid) (hd_convs db)\<rparr>)"
    using 2(2) by (auto simp: hist_ok_def distinct_map_filter)
  with 2(1) show ?case by simp
qed simp

lemma hist_ok_create:
  assumes "stamp_ok st" and "hist_ok H db" and "create_conversation H st title db = Inr (i, db')"
  shows "hist_ok H db'"
proof -
  define r where "r = \<lparr>cv_id = s_uid st, cv_nonce = s_nonce st,
        cv_ct = hist_seal H ''conversation:'' (s_uid st) (s_nonce st) [(''title'', JStr title)],
        cv_created = s_now st, cv_updated = s_now st, cv_deleted = None\<rparr>"
  have "conv_ok H r" using assms(1) unfolding conv_ok_def r_def stamp_ok_def by auto
  moreover have "db' = db\<lparr>hd_convs := hd_convs db @ [r]\<rparr>" "cv_id r \<notin> cv_id ` set (hd_convs db)"
    using assms(3) by (auto simp: create_conversation_def r_def split: if_splits)
  ultimately show ?thesis using assms(2) by (auto simp: hist_ok_def)
qed

lemma add_message_cases:
  assumes "add_message H st now cid role content sources db = Inr (i, db')"
  shows "i = s_uid st \<and> cid \<in> cv_id ` set (filter live (hd_convs db)) \<and> db' = update_conv cid (\<lambda>r. r\<lparr>cv_updated := now\<rparr>)
    (db\<lparr>hd_msgs := hd_msgs db @ [\<lparr>ms_id = s_uid st, ms_conv = cid, ms_nonce = s_nonce st,
       ms_ct = hist_seal H ''message:'' (s_uid st) (s_nonce st) (msg_body role content sources),
       ms_created = s_now st, ms_rowid = hd_next db\<rparr>], hd_next := hd_next db + 1\<rparr>)"
proof -
  from assms obtain v where v: "get_conversation H cid db = Inr (Some v)"
    by (auto simp: add_message_def rbind_Inr_iff split: if_splits option.splits)
  then have "row_find cv_id cid (filter live (hd_convs db)) \<noteq> None"
    by (auto simp: get_conversation_def split: if_splits option.splits)
  with v assms show ?thesis
    by (auto simp: add_message_def rbind_Inr_iff row_find_None_iff split: if_splits)
qed

lemma hist_ok_message:
  assumes "stamp_ok st" and "hist_ok H db" and "add_message H st now cid role content sources db = Inr (i, db')"
  shows "hist_ok H db'"
proof -
  note c = add_message_cases [OF assms(3)]
  have "hist_ok H (db\<lparr>hd_msgs := hd_msgs db @ [\<lparr>ms_id = s_uid st, ms_conv = cid, ms_nonce = s_nonce st,
       ms_ct = hist_seal H ''message:'' (s_uid st) (s_nonce st) (msg_body role content sources),
       ms_created = s_now st, ms_rowid = hd_next db\<rparr>], hd_next := hd_next db + 1\<rparr>)"
    using assms(1,2) c unfolding hist_ok_def msg_ok_def stamp_ok_def by fastforce
  then have "hist_ok H (update_conv cid (\<lambda>r. r\<lparr>cv_updated := now\<rparr>) (db\<lparr>hd_msgs := hd_msgs db @ [\<lparr>ms_id = s_uid st, ms_conv = cid, ms_nonce = s_nonce st,
       ms_ct = hist_seal H ''message:'' (s_uid st) (s_nonce st) (msg_body role content sources),
       ms_created = s_now st, ms_rowid = hd_next db\<rparr>], hd_next := hd_next db + 1\<rparr>))"
    by (rule hist_ok_update) (simp_all add: conv_ok_def)
  with c show ?thesis by simp
qed

lemma hist_ok_rename:
  "length nonce = 12 \<Longrightarrow> hist_ok H db \<Longrightarrow> rename_conversation H nonce now cid title db = Inr db' \<Longrightarrow> hist_ok H db'"
  by (auto simp: rename_conversation_def conv_ok_def intro!: hist_ok_update split: if_splits)

lemma hist_step_ok:
  assumes "hist_event_ok ev" and "hist_ok H db"
  shows "hist_ok H (hist_step H ev db)"
proof (cases ev)
  case (H_create st title)
  then show ?thesis using assms
    by (auto simp: hist_step_def hist_kept_def hist_event_ok_def rmap1_def split: sum.splits intro: hist_ok_create)
next
  case (H_rename nonce now cid title)
  then show ?thesis using assms
    by (auto simp: hist_step_def hist_kept_def hist_event_ok_def split: sum.splits intro: hist_ok_rename)
next
  case (H_delete now cid)
  have "hist_ok H (update_conv cid (\<lambda>r. if live r then r\<lparr>cv_deleted := Some now\<rparr> else r) db)"
    by (rule hist_ok_update [OF assms(2)]) (auto simp: conv_ok_def)
  then show ?thesis using assms by (simp add: H_delete hist_step_def delete_conversation_def Let_def)
next
  case (H_delete_all now)
  have "hist_ok H (db\<lparr>hd_convs := map (\<lambda>r. if live r then r\<lparr>cv_deleted := Some now\<rparr> else r) (hd_convs db)\<rparr>)"
    by (rule hist_ok_map [OF assms(2)]) (auto simp: conv_ok_def)
  then show ?thesis by (simp add: H_delete_all hist_step_def delete_all_conversations_def)
next
  case (H_restore cid)
  have "hist_ok H (update_conv cid (\<lambda>r. r\<lparr>cv_deleted := None\<rparr>) db)"
    by (rule hist_ok_update [OF assms(2)]) (auto simp: conv_ok_def)
  then show ?thesis using assms by (simp add: H_restore hist_step_def restore_conversation_def Let_def)
next
  case H_empty
  then show ?thesis using assms by (simp add: hist_step_def empty_trash_def Let_def hist_ok_hard_delete)
next
  case (H_purge now days)
  then show ?thesis using assms
    by (auto simp: hist_step_def hist_kept_def purge_expired_def Let_def intro: hist_ok_hard_delete)
next
  case (H_message st now cid role content sources)
  then show ?thesis using assms
    by (auto simp: hist_step_def hist_kept_def hist_event_ok_def rmap1_def split: sum.splits intro: hist_ok_message)
qed

interpretation histories: event_machine "hist_step H" no_history "hist_ok H" hist_event_ok
  for H :: "'c hist_env"
proof unfold_locales
  show "hist_ok H no_history" by (simp add: hist_ok_def no_history_def)
qed (rule hist_step_ok)

section \<open>Paging\<close>

lemma conv_view_ok: "aead_roundtrip (h_aead H) \<Longrightarrow> conv_ok H r \<Longrightarrow> \<exists>v. conv_view_of H r = Inr v"
  unfolding conv_ok_def conv_view_of_def hist_open_def hist_seal_def body_at_def
  by (auto simp: aead_open_seal NONCE_BYTES_def)

lemma msg_view_ok: "aead_roundtrip (h_aead H) \<Longrightarrow> msg_ok H m \<Longrightarrow> \<exists>v. msg_view_of H m = Inr v"
  unfolding msg_ok_def msg_view_of_def hist_open_def hist_seal_def body_at_def msg_body_def
  by (auto simp: aead_open_seal NONCE_BYTES_def)

text \<open>What is relied on for a timestamp of the store: Python and the database read back the text they printed.\<close>

definition reads_ts :: "'c hist_env \<Rightarrow> int \<Rightarrow> bool" where
  "reads_ts H t \<longleftrightarrow> valid_date (date_of_days (nat t div DAY_MICROS)) \<and> h_iso H (ts_text t) \<and> h_timestamp H (ts_text t) = Some t"

lemma split_cursor_text:
  "reads_ts H t \<Longrightarrow> split_cursor (h_iso H) (Some (cursor_text t ident)) = Inr (Some (ts_text t, ident))"
  using ts_text_plain [of t] ts_text_nonempty [of t]
  by (simp add: split_cursor_def cursor_text_def reads_ts_def before_append after_append)

lemma split_cursor_key:
  "(\<And>t ident. k = Some (t, ident) \<Longrightarrow> reads_ts H t) \<Longrightarrow>
   split_cursor (h_iso H) (map_option (\<lambda>(t, ident). cursor_text t ident) k) = Inr (map_option (\<lambda>(t, ident). (ts_text t, ident)) k)"
  by (cases k) (auto simp: split_cursor_text, simp add: split_cursor_def)

lemma cast_key_text: "(\<And>t ident. k = Some (t, ident) \<Longrightarrow> reads_ts H t) \<Longrightarrow>
   cast_key (h_timestamp H) (map_option (\<lambda>(t, ident). (ts_text t, ident)) k) = Inr k"
  by (cases k) (auto simp: cast_key_def reads_ts_def)

lemma clamp_page_pos: "1 \<le> d \<Longrightarrow> d \<le> m \<Longrightarrow> 0 < nat (clamp_page limit d m) \<and> nat (clamp_page limit d m) \<le> nat m"
  by (auto simp: clamp_page_def split: option.split)

text \<open>The length of every page but the last.\<close>

definition conv_page_size :: "int option \<Rightarrow> nat" where
  "conv_page_size limit = nat (clamp_page limit DEFAULT_LIST_PAGE MAX_LIST_PAGE)"

definition msg_page_size :: "int option \<Rightarrow> nat" where
  "msg_page_size limit = nat (clamp_page limit DEFAULT_MSG_PAGE MAX_MSG_PAGE)"

lemma conv_page_reply:
  assumes "\<And>r. r \<in> set (hd_convs db) \<Longrightarrow> conv_view_of H r = Inr (g r)"
    and "\<And>t ident. k = Some (t, ident) \<Longrightarrow> reads_ts H t"
  shows "list_conversations_page H (map_option (\<lambda>(t, ident). cursor_text t ident) k) limit db =
    Inr (page_reply conv_key (\<lambda>(t, ident). cursor_text t ident) (map g) (conv_page_size limit)
      (conv_query k (conv_page_size limit + 1) (hd_convs db)))"
proof -
  let ?n = "conv_page_size limit"
  let ?q = "conv_query k (?n + 1) (hd_convs db)"
  have pos: "0 < ?n" using clamp_page_pos [of DEFAULT_LIST_PAGE MAX_LIST_PAGE limit]
    by (simp add: conv_page_size_def DEFAULT_LIST_PAGE_def MAX_LIST_PAGE_def)
  have "rmap (conv_view_of H) (take ?n ?q) = Inr (map g (take ?n ?q))"
    by (rule rmap_Inr_map, rule assms(1)) (use conv_feed.query_live in \<open>blast dest: in_set_takeD\<close>)
  moreover have "length ?q > ?n \<Longrightarrow> take ?n ?q \<noteq> []" using pos by auto
  moreover have "split_cursor (h_iso H) (map_option (\<lambda>(t, ident). cursor_text t ident) k) = Inr (map_option (\<lambda>(t, ident). (ts_text t, ident)) k)"
    by (rule split_cursor_key) (rule assms(2))
  moreover have "cast_key (h_timestamp H) (map_option (\<lambda>(t, ident). (ts_text t, ident)) k) = Inr k"
    by (rule cast_key_text) (rule assms(2))
  ultimately show ?thesis
    by (auto simp: list_conversations_page_def page_reply_def conv_key_def Let_def simp flip: conv_page_size_def)
qed

definition views :: "('r \<Rightarrow> 'v result) \<Rightarrow> 'r \<Rightarrow> 'v" where
  "views f r = (case f r of Inr v \<Rightarrow> v | Inl _ \<Rightarrow> undefined)"

lemma views_Inr: "f r = Inr v \<Longrightarrow> f r = Inr (views f r)"
  by (simp add: views_def)

text \<open>
  paging through the conversations loses nothing and repeats nothing. On any store the operations can have built, following
  \<open>next_cursor\<close> from the first page ends within as many requests as there are live conversations plus one, and brings pages that are
  full but for the last and together are exactly the live conversations, newest first, each once, whatever page size is asked for.
\<close>

theorem conversation_pages_complete:
  assumes "aead_roundtrip (h_aead H)" and "\<forall>ev \<in> set evs. hist_event_ok ev" and "db = fold (hist_step H) evs no_history"
    and "\<forall>r \<in> set (hd_convs db). reads_ts H (cv_updated r)" and "length (filter live (hd_convs db)) < fuel"
  shows "\<exists>pages. page_walk (\<lambda>c. list_conversations_page H c limit db) fuel None = Inr pages \<and>
    rmap (conv_view_of H) (order_by (newest_by conv_key) (filter live (hd_convs db))) = Inr (concat pages) \<and>
    (\<forall>p \<in> set (butlast pages). length p = conv_page_size limit) \<and> length (last pages) \<le> conv_page_size limit"
proof -
  have ok: "hist_ok H db" unfolding assms(3) by (rule histories.inv_run [OF assms(2)])
  define g where "g = views (conv_view_of H)"
  have g: "conv_view_of H r = Inr (g r)" if "r \<in> set (hd_convs db)" for r
    using conv_view_ok [OF assms(1), of r] ok that views_Inr unfolding g_def hist_ok_def by metis
  have "0 < conv_page_size limit" using clamp_page_pos [of DEFAULT_LIST_PAGE MAX_LIST_PAGE limit]
    by (simp add: conv_page_size_def DEFAULT_LIST_PAGE_def MAX_LIST_PAGE_def)
  moreover have "distinct (map conv_key (filter live (hd_convs db)))"
    using ok by (auto simp: hist_ok_def conv_key_def distinct_map inj_on_def)
  moreover have "list_conversations_page H (map_option (\<lambda>(t, ident). cursor_text t ident) k) limit db =
      Inr (page_reply conv_key (\<lambda>(t, ident). cursor_text t ident) (map g) (conv_page_size limit)
        (conv_query k (conv_page_size limit + 1) (hd_convs db)))"
    if "k = None \<or> (\<exists>r \<in> set (hd_convs db). live r \<and> k = Some (conv_key r))" for k
    by (rule conv_page_reply [OF g]) (use that assms(4) in \<open>auto simp: conv_key_def\<close>)
  ultimately obtain chunks where c: "page_walk (\<lambda>c. list_conversations_page H c limit db) fuel None = Inr (map (map g) chunks)"
    "concat chunks = order_by (newest_by conv_key) (filter live (hd_convs db))"
    "\<forall>p \<in> set (butlast chunks). length p = conv_page_size limit" "length (last chunks) \<le> conv_page_size limit"
    using conv_feed.pages_complete [of "hd_convs db" "\<lambda>c. list_conversations_page H c limit db" "\<lambda>(t, ident). cursor_text t ident"
        "map g" "conv_page_size limit" fuel] assms(5) by auto
  obtain f where "fuel = Suc f" using assms(5) by (cases fuel) auto
  then have "chunks \<noteq> []" using c(1) by (auto simp: rbind_Inr_iff split: option.splits prod.splits)
  moreover have "rmap (conv_view_of H) (concat chunks) = Inr (map g (concat chunks))"
    by (rule rmap_Inr_map) (use c(2) g in auto)
  moreover have "map g (concat chunks) = concat (map (map g) chunks)" by (rule map_concat)
  ultimately show ?thesis using c
    by (intro exI [of _ "map (map g) chunks"]) (auto simp: last_map map_butlast [symmetric])
qed

lemma digit_part_digits: "list_all ascii_digit s \<Longrightarrow> s \<noteq> [] \<Longrightarrow> digit_part s = Some []"
  by (induction s rule: digit_part.induct) auto

text \<open>The rest of what is relied on: the decimal text of a row number is short, and the database casts it back.\<close>

definition reads_rowid :: "'c hist_env \<Rightarrow> int \<Rightarrow> bool" where
  "reads_rowid H i \<longleftrightarrow> length (str_int i) \<le> 4300 \<and> h_bigint H (str_int i) = Some i"

lemma int_literal_str_int: "0 \<le> i \<Longrightarrow> length (str_int i) \<le> 4300 \<Longrightarrow> int_literal (str_int i)"
proof -
  assume i: "0 \<le> i" "length (str_int i) \<le> 4300"
  define s where "s = str_nat (nat i)"
  have s: "list_all ascii_digit s" "s \<noteq> []" using str_nat_digits by (simp_all add: s_def)
  have nb: "ascii_digit c \<Longrightarrow> \<not> py_isspace c \<and> c \<noteq> CHR ''+'' \<and> c \<noteq> CHR ''-''" for c
    by (auto simp: ascii_digit_def py_isspace_def Let_def ord_def)
  have "strip s = s"
  proof -
    have "lstrip s = s" using s nb by (cases s) (auto simp: lstrip_def)
    moreover have "dropWhile py_isspace (rev s) = rev s"
      using s nb by (cases "rev s") (auto simp: list_all_iff dest!: arg_cong [of "rev s" _ set])
    ultimately show ?thesis by (simp add: strip_def)
  qed
  moreover have "drop_sign s = s" using s nb by (cases s) (auto simp: drop_sign_def)
  moreover have "length s \<le> 4300" using i by (simp add: str_int_def s_def)
  then have "length (filter ascii_digit s) \<le> 4300" using length_filter_le [of ascii_digit s] by linarith
  ultimately show ?thesis
    using i digit_part_digits [OF s] by (simp add: int_literal_def str_int_def s_def)
qed

lemma msg_page_reply:
  assumes "\<And>m. m \<in> set (hd_msgs db) \<Longrightarrow> msg_view_of H m = Inr (g m)" and "cid \<noteq> []"
    and "\<And>t i. k = Some (t, i) \<Longrightarrow> reads_ts H t \<and> reads_rowid H i \<and> 0 \<le> i"
  shows "get_messages_page H cid (map_option (\<lambda>(t, i). cursor_text t (str_int i)) k) limit db =
    Inr (page_reply msg_key (\<lambda>(t, i). cursor_text t (str_int i)) (\<lambda>ms. rev (map g ms)) (msg_page_size limit)
      (msg_query cid k (msg_page_size limit + 1) (hd_msgs db)))"
proof -
  let ?n = "msg_page_size limit"
  let ?q = "msg_query cid k (?n + 1) (hd_msgs db)"
  have pos: "0 < ?n" using clamp_page_pos [of DEFAULT_MSG_PAGE MAX_MSG_PAGE limit]
    by (simp add: msg_page_size_def DEFAULT_MSG_PAGE_def MAX_MSG_PAGE_def)
  have "rmap (msg_view_of H) (take ?n ?q) = Inr (map g (take ?n ?q))"
    by (rule rmap_Inr_map, rule assms(1)) (use msg_feed.query_live in \<open>blast dest: in_set_takeD\<close>)
  moreover have "length ?q > ?n \<Longrightarrow> take ?n ?q \<noteq> []" using pos by auto
  moreover have "split_cursor (h_iso H) (map_option (\<lambda>(t, i). cursor_text t (str_int i)) k) = Inr (map_option (\<lambda>(t, i). (ts_text t, str_int i)) k)"
    using assms(3) by (cases k) (auto simp: split_cursor_text, simp add: split_cursor_def)
  moreover have "cast_msg_key H (map_option (\<lambda>(t, i). (ts_text t, str_int i)) k) = Inr k"
    using assms(3) by (cases k) (auto simp: cast_msg_key_def reads_ts_def reads_rowid_def int_literal_str_int)
  ultimately show ?thesis
    using assms(2) by (auto simp: get_messages_page_def page_reply_def msg_key_def Let_def simp flip: msg_page_size_def)
qed

text \<open>
  C15: paging back through a conversation gives the conversation. On any store the operations can have built, the pages reached by
  following \<open>next_cursor\<close> from the newest one, put oldest page first, are exactly what \<open>get_messages\<close> returns for the same
  conversation (up to its limit of two thousand messages): no message is lost, repeated or out of order, also when several share a timestamp.
\<close>

theorem message_pages_complete:
  assumes "aead_roundtrip (h_aead H)" and "\<forall>ev \<in> set evs. hist_event_ok ev" and "db = fold (hist_step H) evs no_history" and "cid \<noteq> []"
    and "\<forall>m \<in> set (hd_msgs db). reads_ts H (ms_created m) \<and> reads_rowid H (ms_rowid m)"
    and "length (filter (\<lambda>m. ms_conv m = cid) (hd_msgs db)) < fuel" and "length (filter (\<lambda>m. ms_conv m = cid) (hd_msgs db)) \<le> 2000"
  shows "\<exists>pages. page_walk (\<lambda>c. get_messages_page H cid c limit db) fuel None = Inr pages \<and>
    get_messages H cid db = Inr (concat (rev pages)) \<and>
    (\<forall>p \<in> set (butlast pages). length p = msg_page_size limit) \<and> length (last pages) \<le> msg_page_size limit"
proof -
  have ok: "hist_ok H db" unfolding assms(3) by (rule histories.inv_run [OF assms(2)])
  define g where "g = views (msg_view_of H)"
  let ?mine = "filter (\<lambda>m. ms_conv m = cid) (hd_msgs db)"
  have g: "msg_view_of H m = Inr (g m)" if "m \<in> set (hd_msgs db)" for m
    using msg_view_ok [OF assms(1), of m] ok that views_Inr unfolding g_def hist_ok_def by metis
  have "0 < msg_page_size limit" using clamp_page_pos [of DEFAULT_MSG_PAGE MAX_MSG_PAGE limit]
    by (simp add: msg_page_size_def DEFAULT_MSG_PAGE_def MAX_MSG_PAGE_def)
  moreover have keys: "distinct (map msg_key ?mine)"
    using ok by (auto simp: hist_ok_def msg_key_def distinct_map inj_on_def)
  moreover have "get_messages_page H cid (map_option (\<lambda>(t, i). cursor_text t (str_int i)) k) limit db =
      Inr (page_reply msg_key (\<lambda>(t, i). cursor_text t (str_int i)) (\<lambda>ms. rev (map g ms)) (msg_page_size limit)
        (msg_query cid k (msg_page_size limit + 1) (hd_msgs db)))"
    if "k = None \<or> (\<exists>m \<in> set (hd_msgs db). ms_conv m = cid \<and> k = Some (msg_key m))" for k
    by (rule msg_page_reply [OF g assms(4)]) (use that assms(5) ok in \<open>auto simp: msg_key_def hist_ok_def\<close>)
  ultimately obtain chunks where c: "page_walk (\<lambda>c. get_messages_page H cid c limit db) fuel None = Inr (map (\<lambda>ms. rev (map g ms)) chunks)"
    "concat chunks = order_by (newest_by msg_key) ?mine"
    "\<forall>p \<in> set (butlast chunks). length p = msg_page_size limit" "length (last chunks) \<le> msg_page_size limit"
    using msg_feed.pages_complete [of "hd_msgs db" cid "\<lambda>c. get_messages_page H cid c limit db" "\<lambda>(t, i). cursor_text t (str_int i)"
        "\<lambda>ms. rev (map g ms)" "msg_page_size limit" fuel] assms(6) by auto
  obtain f where "fuel = Suc f" using assms(6) by (cases fuel) auto
  then have "chunks \<noteq> []" using c(1) by (auto simp: rbind_Inr_iff split: option.splits prod.splits)
  moreover have "rmap (msg_view_of H) (order_by oldest_first ?mine) = Inr (map g (order_by oldest_first ?mine))"
    by (rule rmap_Inr_map) (use g in auto)
  moreover have "order_by oldest_first ?mine = rev (concat chunks)"
    using order_by_key_rev [OF keys] c(2) by (simp add: oldest_first_def [abs_def])
  moreover have "map g (rev (concat chunks)) = concat (rev (map (\<lambda>ms. rev (map g ms)) chunks))"
    by (simp add: rev_concat map_concat rev_map comp_def)
  moreover have "take MSG_LIMIT (order_by oldest_first ?mine) = order_by oldest_first ?mine"
    using assms(7) by (simp add: MSG_LIMIT_def)
  ultimately have "get_messages H cid db = Inr (concat (rev (map (\<lambda>ms. rev (map g ms)) chunks)))"
    using assms(4) by (simp add: get_messages_def)
  then show ?thesis using c \<open>chunks \<noteq> []\<close>
    by (intro exI [of _ "map (\<lambda>ms. rev (map g ms)) chunks"]) (auto simp: last_map map_butlast [symmetric])
qed

section \<open>The trash\<close>

lemma row_find_live:
  assumes "distinct (map cv_id rows)" and "r \<in> set rows"
  shows "row_find cv_id (cv_id r) (filter live rows) = (if live r then Some r else None)"
proof (cases "live r")
  case True
  have "distinct (map cv_id (filter live rows))" using assms(1) by (simp add: distinct_map_filter)
  with True assms(2) show ?thesis by (simp add: row_find_in)
next
  case False
  have "cv_id r \<notin> cv_id ` set (filter live rows)"
    using assms False by (auto simp: distinct_map inj_on_def)
  with False show ?thesis by (simp add: row_find_None_iff)
qed

lemma row_update_only:
  "distinct (map k rows) \<Longrightarrow> r \<in> set rows \<Longrightarrow> (\<And>x. k (f x) = k x) \<Longrightarrow> f r = r' \<Longrightarrow> g r' = r \<Longrightarrow> (\<And>x. k (g x) = k x) \<Longrightarrow>
   row_update k (k r) g (row_update k (k r) f rows) = rows"
  by (auto simp: row_update_def map_idI comp_def intro!: map_idI) (metis distinct_map inj_onD)

text \<open>
  the trash is reversible. On any store the operations can have built, trashing a live conversation succeeds, makes it read absent
  and leaves every message where it was; restoring it then succeeds and gives back exactly the store there was, to the byte.
\<close>

theorem trash_round_trip:
  assumes "aead_roundtrip (h_aead H)" and "\<forall>ev \<in> set evs. hist_event_ok ev" and "db = fold (hist_step H) evs no_history"
    and "r \<in> set (hd_convs db)" and "live r"
  shows "\<exists>db'. delete_conversation H now (cv_id r) db = (Inr (), db') \<and> get_conversation H (cv_id r) db' = Inr None \<and>
    hd_msgs db' = hd_msgs db \<and> (\<forall>other. other \<noteq> cv_id r \<longrightarrow> get_conversation H other db' = get_conversation H other db) \<and>
    restore_conversation H (cv_id r) db' = (Inr True, db)"
proof -
  have ok: "hist_ok H db" unfolding assms(3) by (rule histories.inv_run [OF assms(2)])
  let ?cid = "cv_id r"
  let ?f = "\<lambda>x :: 'a conv_row. if live x then x\<lparr>cv_deleted := Some now\<rparr> else x"
  let ?g = "\<lambda>x :: 'a conv_row. x\<lparr>cv_deleted := None\<rparr>"
  define db' where "db' = update_conv ?cid ?f db"
  have dist: "distinct (map cv_id (hd_convs db))" and cok: "conv_ok H r" using ok assms(4) by (auto simp: hist_ok_def)
  have ne: "?cid \<noteq> []" using cok by (simp add: conv_ok_def)
  have "row_update cv_id ?cid ?g (row_update cv_id ?cid ?f (hd_convs db)) = hd_convs db"
    by (rule row_update_only [OF dist assms(4) _ refl]) (use assms(5) in \<open>auto simp: live_def\<close>)
  then have undone: "update_conv ?cid ?g db' = db" by (simp add: db'_def update_conv_def)
  have ok': "hist_ok H db'" unfolding db'_def by (rule hist_ok_update [OF ok]) (auto simp: conv_ok_def)
  have in': "r\<lparr>cv_deleted := Some now\<rparr> \<in> set (hd_convs db')"
    using assms(4,5) unfolding db'_def update_conv_def by (auto simp: set_row_update image_iff intro!: bexI [of _ r])
  have none: "get_conversation H ?cid db' = Inr None"
    using row_find_live [OF _ in'] ok' ne by (simp add: get_conversation_def hist_ok_def live_def)
  obtain v where v: "conv_view_of H r = Inr v" using conv_view_ok [OF assms(1) cok] by blast
  have some: "get_conversation H ?cid db = Inr (Some v)"
    using row_find_live [OF dist assms(4)] assms(5) ne v by (simp add: get_conversation_def)
  have others: "get_conversation H other db' = get_conversation H other db" if "other \<noteq> ?cid" for other
  proof -
    have "row_find cv_id other (filter live (row_update cv_id ?cid ?f rows)) = row_find cv_id other (filter live rows)" for rows
      using that by (induction rows) (auto simp: row_update_def row_find_Cons)
    then show ?thesis by (simp add: get_conversation_def db'_def update_conv_def)
  qed
  have "\<exists>x \<in> set (hd_convs db'). cv_id x = ?cid \<and> \<not> live x"
    by (rule bexI [OF _ in']) (simp add: live_def)
  then have "restore_conversation H ?cid db' = (Inr True, db)"
    using ne some by (simp add: restore_conversation_def undone Let_def)
  moreover have "delete_conversation H now ?cid db = (Inr (), db')"
    using ne none by (simp add: delete_conversation_def Let_def flip: db'_def)
  moreover have "hd_msgs db' = hd_msgs db" by (simp add: db'_def update_conv_def)
  ultimately show ?thesis using none others by blast
qed

lemma hard_delete_all:
  "hard_delete cids db = db\<lparr>hd_msgs := filter (\<lambda>m. ms_conv m \<notin> set cids) (hd_msgs db), hd_convs := filter (\<lambda>r. cv_id r \<notin> set cids) (hd_convs db)\<rparr>"
  by (induction cids db rule: hard_delete.induct) (auto simp: conj_commute)

text \<open>
  the purge. On any store the operations can have built it removes only conversations that were trashed longer than the retention ago, and
  all of them when there are at most a thousand; with each goes every one of its messages and no other, and the answer is how many went.
\<close>

theorem purge_only_expired:
  assumes "\<forall>ev \<in> set evs. hist_event_ok ev" and "db = fold (hist_step H) evs no_history" and "purge_expired now days db = Inr (n, db')"
  shows "(\<forall>r \<in> set (hd_convs db). r \<in> set (hd_convs db') \<or> (\<exists>t. cv_deleted r = Some t \<and> t < now - days * int DAY_MICROS)) \<and>
    set (hd_convs db') \<subseteq> set (hd_convs db) \<and> n + length (hd_convs db') = length (hd_convs db) \<and>
    hd_msgs db' = filter (\<lambda>m. ms_conv m \<in> cv_id ` set (hd_convs db')) (hd_msgs db) \<and>
    (length (filter (expired_at now days) (hd_convs db)) \<le> 1000 \<longrightarrow> \<not> (\<exists>r \<in> set (hd_convs db'). expired_at now days r))"
proof -
  have ok: "hist_ok H db" unfolding assms(2) by (rule histories.inv_run [OF assms(1)])
  define gone where "gone = take PURGE_LIMIT (filter (expired_at now days) (hd_convs db))"
  have db': "db' = hard_delete (map cv_id gone) db" and n: "n = length gone"
    using assms(3) by (auto simp: purge_expired_def Let_def gone_def split: if_splits)
  have gone: "set gone \<subseteq> set (hd_convs db)" "\<forall>r \<in> set gone. expired_at now days r" "distinct gone"
    using ok by (auto simp: gone_def hist_ok_def distinct_map intro: distinct_take dest!: in_set_takeD)
  have dist: "inj_on cv_id (set (hd_convs db))" "distinct (hd_convs db)" using ok by (auto simp: hist_ok_def distinct_map)
  have "cv_id r \<notin> cv_id ` set gone \<longleftrightarrow> r \<notin> set gone" if "r \<in> set (hd_convs db)" for r
    using that gone(1) dist(1) by (auto simp: inj_on_def)
  then have convs: "hd_convs db' = filter (\<lambda>r. r \<notin> set gone) (hd_convs db)"
    unfolding db' hard_delete_all by (auto intro: filter_cong)
  have "length gone = length (filter (\<lambda>r. r \<in> set gone) (hd_convs db))"
  proof -
    have "set gone = set (filter (\<lambda>r. r \<in> set gone) (hd_convs db))" using gone(1) by auto
    then show ?thesis using gone(3) dist(2) by (metis distinct_card distinct_filter)
  qed
  then have len: "n + length (hd_convs db') = length (hd_convs db)"
    unfolding n convs using sum_length_filter_compl [of "\<lambda>r. r \<in> set gone" "hd_convs db"] by simp
  have "cid \<notin> cv_id ` set gone \<longleftrightarrow> cid \<in> cv_id ` set (hd_convs db')" if "cid \<in> cv_id ` set (hd_convs db)" for cid
    using that gone(1) inj_onD [OF dist(1)] unfolding convs by (simp add: image_iff) (metis subsetD)
  moreover have "ms_conv ` set (hd_msgs db) \<subseteq> cv_id ` set (hd_convs db)" using ok by (simp add: hist_ok_def)
  ultimately have msgs: "hd_msgs db' = filter (\<lambda>m. ms_conv m \<in> cv_id ` set (hd_convs db')) (hd_msgs db)"
    unfolding db' hard_delete_all by (auto intro!: filter_cong)
  have "gone = filter (expired_at now days) (hd_convs db)" if "length (filter (expired_at now days) (hd_convs db)) \<le> 1000"
    using that by (simp add: gone_def PURGE_LIMIT_def)
  then have "length (filter (expired_at now days) (hd_convs db)) \<le> 1000 \<longrightarrow> \<not> (\<exists>r \<in> set (hd_convs db'). expired_at now days r)"
    unfolding convs by auto
  moreover have "r \<in> set (hd_convs db') \<or> (\<exists>t. cv_deleted r = Some t \<and> t < now - days * int DAY_MICROS)" if "r \<in> set (hd_convs db)" for r
    using that gone(2) unfolding convs by (auto simp: expired_at_def split: option.splits)
  ultimately show ?thesis using len msgs unfolding convs by auto
qed

section \<open>Citations\<close>

definition chip_ok :: "jval \<Rightarrow> bool" where
  "chip_ok v = (case v of
       JObj d \<Rightarrow> list_all scalar_source d \<and> (truthy (opt_get d ''id'' JNull) \<or> truthy (opt_get d ''title'' JNull))
     | _ \<Rightarrow> False)"

lemma clean_source_ok: "list_all chip_ok (clean_source v) \<and> length (clean_source v) \<le> 1"
  by (cases v) (auto simp: clean_source_def chip_ok_def Let_def list_all_iff)

lemma clean_source_id: "chip_ok v \<Longrightarrow> clean_source v = [v]"
proof (cases v)
  case (JObj d)
  moreover assume "chip_ok v"
  ultimately have "filter scalar_source d = d" by (simp add: chip_ok_def list_all_iff)
  with JObj \<open>chip_ok v\<close> show ?thesis by (auto simp: clean_source_def chip_ok_def Let_def)
qed (simp_all add: chip_ok_def)

lemma concat_clean: "list_all chip_ok (concat (map clean_source xs)) \<and> length (concat (map clean_source xs)) \<le> length xs"
proof (induction xs)
  case (Cons x xs)
  then show ?case using clean_source_ok [of x] by auto
qed simp

lemma clean_all_id: "list_all chip_ok xs \<Longrightarrow> concat (map clean_source xs) = xs"
  by (induction xs) (simp_all add: clean_source_id)

text \<open>
  what a client sends as citations cannot get in unclean. Whatever value it sends, at most twenty items are kept, each a dict of known
  keys with scalar values that names a document or a title; cleaning what was cleaned changes nothing.
\<close>

theorem clean_sources_sound:
  "length (clean_sources v) \<le> 20 \<and> list_all chip_ok (clean_sources v) \<and> clean_sources (JList (clean_sources v)) = clean_sources v"
proof (cases v)
  case (JList xs)
  let ?c = "concat (map clean_source (take MSG_MAX_SOURCES xs))"
  have c: "list_all chip_ok ?c" "length ?c \<le> 20"
    using concat_clean [of "take MSG_MAX_SOURCES xs"] by (auto simp: MSG_MAX_SOURCES_def)
  then have "take MSG_MAX_SOURCES ?c = ?c" by (simp add: MSG_MAX_SOURCES_def)
  then have "clean_sources (JList ?c) = ?c" using clean_all_id [OF c(1)] by (simp add: clean_sources_def)
  then show ?thesis using c JList by (simp add: clean_sources_def)
qed (simp_all add: clean_sources_def)

section \<open>A concrete store\<close>

definition demo_henv :: "(bytes \<times> bytes \<times> string \<times> plain) hist_env" where
  "demo_henv = \<lparr>h_aead = tagged_aead, h_key = replicate 32 0, h_iso = (\<lambda>_. True), h_timestamp = (\<lambda>_. Some 7),
     h_bigint = (\<lambda>s. if s = ''0'' then Some 0 else Some 1)\<rparr>"

definition demo_hist_events :: "hist_event list" where
  "demo_hist_events = [H_create (demo_stamp ''c1'' 7) ''Lease'', H_create (demo_stamp ''c2'' 7) ''Taxes'',
     H_message (demo_stamp ''m1'' 7) 7 ''c1'' ''user'' ''hello'' JNull, H_message (demo_stamp ''m2'' 7) 7 ''c1'' ''assistant'' ''hi'' JNull]"

definition demo_convs :: "(bytes \<times> bytes \<times> string \<times> plain) conv_row list" where
  "demo_convs = [\<lparr>cv_id = ''c1'', cv_nonce = replicate 12 0, cv_ct = hist_seal demo_henv ''conversation:'' ''c1'' (replicate 12 0) [(''title'', JStr ''Lease'')],
       cv_created = 7, cv_updated = 7, cv_deleted = None\<rparr>,
     \<lparr>cv_id = ''c2'', cv_nonce = replicate 12 0, cv_ct = hist_seal demo_henv ''conversation:'' ''c2'' (replicate 12 0) [(''title'', JStr ''Taxes'')],
       cv_created = 7, cv_updated = 7, cv_deleted = None\<rparr>]"

definition demo_msgs :: "(bytes \<times> bytes \<times> string \<times> plain) msg_row list" where
  "demo_msgs = [\<lparr>ms_id = ''m1'', ms_conv = ''c1'', ms_nonce = replicate 12 0,
       ms_ct = hist_seal demo_henv ''message:'' ''m1'' (replicate 12 0) (msg_body ''user'' ''hello'' JNull), ms_created = 7, ms_rowid = 0\<rparr>,
     \<lparr>ms_id = ''m2'', ms_conv = ''c1'', ms_nonce = replicate 12 0,
       ms_ct = hist_seal demo_henv ''message:'' ''m2'' (replicate 12 0) (msg_body ''assistant'' ''hi'' JNull), ms_created = 7, ms_rowid = 1\<rparr>]"

definition demo_hist :: "(bytes \<times> bytes \<times> string \<times> plain) hist_db" where
  "demo_hist = \<lparr>hd_convs = demo_convs, hd_msgs = demo_msgs, hd_next = 2\<rparr>"

lemma demo_get: "get_conversation demo_henv ''c1'' \<lparr>hd_convs = demo_convs, hd_msgs = ms, hd_next = n\<rparr> \<noteq> Inr None"
  "\<exists>v. get_conversation demo_henv ''c1'' \<lparr>hd_convs = demo_convs, hd_msgs = ms, hd_next = n\<rparr> = Inr (Some v)"
  by (simp_all add: get_conversation_def demo_convs_def live_def row_find_Cons conv_view_of_def hist_open_def hist_seal_def
      demo_henv_def aead_open_seal tagged_aead_roundtrip NONCE_BYTES_def body_at_def)

lemma demo_hist_built: "fold (hist_step demo_henv) demo_hist_events no_history = demo_hist"
proof -
  have s: "s_uid (demo_stamp i t) = i" "s_nonce (demo_stamp i t) = replicate 12 0" "s_now (demo_stamp i t) = t" for i t
    by (simp_all add: demo_stamp_def)
  have c: "hist_step demo_henv (H_create (demo_stamp ''c2'' 7) ''Taxes'')
      (hist_step demo_henv (H_create (demo_stamp ''c1'' 7) ''Lease'') no_history) = \<lparr>hd_convs = demo_convs, hd_msgs = [], hd_next = 0\<rparr>"
    by (simp add: hist_step_def hist_kept_def create_conversation_def no_history_def demo_convs_def s)
  have m: "hist_step demo_henv (H_message (demo_stamp i 7) 7 ''c1'' role content JNull) \<lparr>hd_convs = demo_convs, hd_msgs = ms, hd_next = n\<rparr> =
      \<lparr>hd_convs = demo_convs, hd_msgs = ms @ [\<lparr>ms_id = i, ms_conv = ''c1'', ms_nonce = replicate 12 0,
         ms_ct = hist_seal demo_henv ''message:'' i (replicate 12 0) (msg_body role content JNull), ms_created = 7, ms_rowid = n\<rparr>], hd_next = n + 1\<rparr>"
    if "role \<in> set ROLES" "i \<notin> ms_id ` set ms" for i role content ms n
  proof -
    obtain v where "get_conversation demo_henv ''c1'' \<lparr>hd_convs = demo_convs, hd_msgs = ms, hd_next = n\<rparr> = Inr (Some v)"
      using demo_get by blast
    then show ?thesis using that
      by (simp add: hist_step_def hist_kept_def add_message_def s update_conv_def row_update_def demo_convs_def)
  qed
  show ?thesis
    by (simp add: demo_hist_events_def c m ROLES_def demo_hist_def demo_msgs_def)
qed

lemma demo_hist_events_ok: "\<forall>ev \<in> set demo_hist_events. hist_event_ok ev"
  by (simp add: demo_hist_events_def hist_event_ok_def stamp_ok_def demo_stamp_def)

lemma demo_rowids: "str_int 0 = ''0''" "str_int 1 = ''1''"
  by code_simp+

lemma demo_hist_reads: "reads_ts demo_henv 7" "reads_rowid demo_henv 0" "reads_rowid demo_henv 1"
  by (simp_all add: reads_ts_def demo_henv_def date_of_days_def DAY_MICROS_def valid_date_def days_in_month_def
      reads_rowid_def demo_rowids)

lemma demo_henv_aead: "aead_roundtrip (h_aead demo_henv)"
  by (simp add: demo_henv_def tagged_aead_roundtrip)

theorem conversation_pages_complete_witness:
  "\<exists>pages. page_walk (\<lambda>c. list_conversations_page demo_henv c (Some 1) demo_hist) 3 None = Inr pages \<and>
    rmap (conv_view_of demo_henv) (order_by (newest_by conv_key) (filter live (hd_convs demo_hist))) = Inr (concat pages)"
  using conversation_pages_complete [OF demo_henv_aead demo_hist_events_ok demo_hist_built [symmetric], of 3 "Some 1"] demo_hist_reads
  by (auto simp: demo_hist_def demo_convs_def live_def)

theorem message_pages_complete_witness:
  "\<exists>pages. page_walk (\<lambda>c. get_messages_page demo_henv ''c1'' c (Some 1) demo_hist) 3 None = Inr pages \<and>
    get_messages demo_henv ''c1'' demo_hist = Inr (concat (rev pages))"
  using message_pages_complete [OF demo_henv_aead demo_hist_events_ok demo_hist_built [symmetric], of "''c1''" 3 "Some 1"] demo_hist_reads
  by (auto simp: demo_hist_def demo_msgs_def)

theorem trash_round_trip_witness:
  "\<exists>db'. delete_conversation demo_henv 9 ''c1'' demo_hist = (Inr (), db') \<and> get_conversation demo_henv ''c1'' db' = Inr None \<and>
    restore_conversation demo_henv ''c1'' db' = (Inr True, demo_hist)"
  using trash_round_trip [OF demo_henv_aead demo_hist_events_ok demo_hist_built [symmetric], of "hd demo_convs" 9]
  by (auto simp: demo_hist_def demo_convs_def live_def)

theorem purge_only_expired_witness:
  "\<exists>db'. purge_expired (31 * int DAY_MICROS) 30 (snd (delete_conversation demo_henv 9 ''c1'' demo_hist)) = Inr (1, db') \<and>
     map cv_id (hd_convs db') = [''c2''] \<and> hd_msgs db' = []"
proof -
  define X where "X = snd (delete_conversation demo_henv 9 ''c1'' demo_hist)"
  have built: "X = fold (hist_step demo_henv) (demo_hist_events @ [H_delete 9 ''c1'']) no_history"
    by (simp add: X_def demo_hist_built hist_step_def)
  have ok: "\<forall>ev \<in> set (demo_hist_events @ [H_delete 9 ''c1'']). hist_event_ok ev"
    using demo_hist_events_ok by (auto simp: hist_event_ok_def)
  have db: "hd_msgs X = demo_msgs" "map cv_id (hd_convs X) = [''c1'', ''c2'']" "map cv_deleted (hd_convs X) = [Some 9, None]"
    by (simp_all add: X_def delete_conversation_def Let_def demo_hist_def update_conv_def row_update_def demo_convs_def live_def)
  then obtain r r' where rs: "hd_convs X = [r, r']" "cv_deleted r = Some 9" "cv_deleted r' = None" "cv_id r = ''c1''" "cv_id r' = ''c2''"
    by (auto simp: map_eq_Cons_conv)
  then obtain db' where p: "purge_expired (31 * int DAY_MICROS) 30 X = Inr (1, db')"
    by (auto simp: purge_expired_def Let_def expired_at_def PURGE_LIMIT_def DAY_MICROS_def)
  have e: "expired_at (31 * int DAY_MICROS) 30 r" "\<not> expired_at (31 * int DAY_MICROS) 30 r'"
    using rs by (simp_all add: expired_at_def DAY_MICROS_def)
  note out = purge_only_expired [OF ok built p]
  note rows = out [THEN conjunct2, THEN conjunct1] and len = out [THEN conjunct2, THEN conjunct2, THEN conjunct1]
    and msgs = out [THEN conjunct2, THEN conjunct2, THEN conjunct2, THEN conjunct1]
    and none = out [THEN conjunct2, THEN conjunct2, THEN conjunct2, THEN conjunct2]
  have "length (hd_convs db') = 1" using len rs(1) by simp
  then obtain x where x: "hd_convs db' = [x]" by (cases "hd_convs db'") auto
  have "\<not> expired_at (31 * int DAY_MICROS) 30 x" using none e rs(1) x by simp
  then have "hd_convs db' = [r']" using rows e(1) rs(1) x by auto
  then have res: "map cv_id (hd_convs db') = [''c2''] \<and> hd_msgs db' = []" using msgs rs(5) db(1) by (simp add: demo_msgs_def)
  show ?thesis unfolding X_def [symmetric] by (rule exI, rule conjI [OF p res])
qed

end
