(* ===== verification/Json_Roundtrip.thy ===== *)
theory Json_Roundtrip
  imports Json
begin

text \<open>
  The fact a store rests on when it keeps a record as JSON text: \<open>json.loads\<close> (\<open>Json\<close>) gives back the value
  \<open>json.dumps\<close> (\<open>Tool_Args\<close>) printed.
\<close>

section \<open>Strings\<close>

lemma ord_char_of [simp]: "ord (char_of n) = n mod 256"
  by (simp add: ord_def)

lemma ord_inj: "ord a = ord b \<Longrightarrow> a = b"
  unfolding ord_def by (metis char_of_char)

lemma char_of_codes: "char_of (34 :: nat) = CHR 0x22" "char_of (48 :: nat) = CHR ''0''" "char_of (92 :: nat) = CHR 0x5C"
  by (rule ord_inj, simp, simp add: ord_def)+

lemma ord_less [simp]: "ord c < 256"
  unfolding ord_def by simp

lemma hex_digit_val: "n < 16 \<Longrightarrow> ascii_hex (hex_digit n) \<and> hex_val (hex_digit n) = n"
  by (auto simp: hex_digit_def hex_val_def ascii_hex_def ascii_digit_def Let_def)

lemma scan_escape:
  "scan_string (json_escape c @ t) = map_option (\<lambda>(s, u). (c # s, u)) (scan_string t)"
proof -
  let ?n = "ord c"
  have c: "char_of ?n = c" by (simp add: ord_def)
  have d: "?n div 16 < 16" using ord_less [of c] by (simp add: less_mult_imp_div_less)
  have u: "unicode_char (CHR ''0'') (CHR ''0'') (hex_digit (?n div 16)) (hex_digit (?n mod 16)) = Some c"
    using hex_digit_val [OF d] hex_digit_val [of "?n mod 16"] c ord_less [of c]
    by (simp add: unicode_char_def ascii_hex_def ascii_digit_def hex_val_def ord_def [of "CHR ''0''"] Let_def)
  consider "?n = 34 \<or> ?n = 92" | "?n \<in> {8, 9, 10, 12, 13}" | "32 \<le> ?n \<and> ?n \<le> 126" "?n \<noteq> 34" "?n \<noteq> 92"
    | "\<not> (32 \<le> ?n \<and> ?n \<le> 126)" "?n \<notin> {8, 9, 10, 12, 13}"
    by auto
  then show ?thesis
  proof cases
    case 2
    then have "c \<in> {char_of (8 :: nat), char_of (9 :: nat), char_of (10 :: nat), char_of (12 :: nat), char_of (13 :: nat)}"
      using c by auto
    then show ?thesis by (auto simp: json_escape_def escape_char_def ord_def Let_def)
  next
    case 4
    then have e: "json_escape c = [char_of (92 :: nat), CHR ''u'', CHR ''0'', CHR ''0'', hex_digit (?n div 16), hex_digit (?n mod 16)]"
      by (auto simp: json_escape_def Let_def)
    show ?thesis unfolding e using u by (simp add: ord_def [of "CHR ''u''"])
  next
    case 1
    then have e: "json_escape c = [char_of (92 :: nat), c]" using c by (auto simp: json_escape_def Let_def)
    have "escape_char c = Some c" "ord c \<noteq> 117" using 1 by (auto simp: escape_char_def Let_def)
    then show ?thesis unfolding e by simp
  next
    case 3
    then have e: "json_escape c = [c]" by (simp add: json_escape_def Let_def)
    show ?thesis unfolding e using 3 by simp
  qed
qed

lemma scan_json_quote: "scan_string (concat (map json_escape s) @ char_of (34 :: nat) # r) = Some (s, r)"
  by (induction s) (simp_all add: scan_escape)

section \<open>Values\<close>

text \<open>
  The values for which the text says everything: no key twice in a dict, integers \<open>str\<close> prints, floats whose text is
  that of a number with a fraction or an exponent.
\<close>

definition float_ok :: "string \<Rightarrow> bool" where
  "float_ok t = (scan_number t = Some (JFloat t, []))"

fun json_ok :: "jval \<Rightarrow> bool" where
  "json_ok (JFloat t) = float_ok t"
| "json_ok (JInt i) = (length (str_nat (nat \<bar>i\<bar>)) \<le> 4300)"
| "json_ok (JList vs) = list_all json_ok vs"
| "json_ok (JObj d) = (distinct (map fst d) \<and> list_all (\<lambda>(k, v). json_ok v) d)"
| "json_ok v = True"

text \<open>What may follow a value inside a larger text: nothing that would continue a number.\<close>

definition ends_value :: "string \<Rightarrow> bool" where
  "ends_value r = (case r of [] \<Rightarrow> True | c # _ \<Rightarrow> c \<in> {CHR '','', CHR '']'', CHR ''}''})"

lemma fold_dict_set: "distinct (map fst kvs) \<Longrightarrow> fst ` set kvs \<inter> fst ` set d = {} \<Longrightarrow>
  fold (\<lambda>(k, v) d. dict_set d k v) kvs d = d @ kvs"
proof (induction kvs arbitrary: d)
  case (Cons p kvs)
  obtain k v where p: "p = (k, v)" by (cases p)
  have "dict_set d k v = d @ [(k, v)]" if "k \<notin> fst ` set d" for d
    using that by (induction d) auto
  then show ?case using Cons p by (auto simp: image_iff)
qed simp

lemma int_of_digits_append: "int_of_digits (xs @ [c]) = 10 * int_of_digits xs + digit_val c"
  by (simp add: int_of_digits_def)

lemma int_of_digits_str_nat: "int_of_digits (str_nat n) = int n"
proof (induction n rule: str_nat.induct)
  case (1 n)
  show ?case
  proof (cases "n < 10")
    case True
    then show ?thesis by (simp add: str_nat.simps [of n] int_of_digits_def digit_val_def ord_digit_char)
  next
    case False
    then have "int_of_digits (str_nat n) = 10 * int (n div 10) + int (n mod 10)"
      using 1 by (simp add: str_nat.simps [of n] int_of_digits_append digit_val_def ord_digit_char)
    then show ?thesis by presburger
  qed
qed

lemma str_nat_no_zero: "0 < n \<Longrightarrow> hd (str_nat n) \<noteq> CHR ''0''"
proof (induction n rule: str_nat.induct)
  case (1 n)
  show ?case
  proof (cases "n < 10")
    case True
    have "ord (digit_char n) \<noteq> ord CHR ''0''" using True 1 ord_digit_char [OF True] by (simp add: ord_def)
    then show ?thesis using True by (auto simp: str_nat.simps [of n])
  next
    case False
    then have "0 < n div 10" by auto
    with 1 False have "hd (str_nat (n div 10)) \<noteq> CHR ''0''" by auto
    then show ?thesis using False str_nat_digits [of "n div 10"] by (simp add: str_nat.simps [of n])
  qed
qed

lemma int_part_str_nat:
  assumes "ends_value r"
  shows "int_part (str_nat n @ r) = (str_nat n, r)"
proof (cases "n = 0")
  case True
  then show ?thesis by (simp add: int_part_def str_nat.simps [of 0] digit_char_def char_of_codes)
next
  case False
  let ?s = "str_nat n"
  have s: "list_all ascii_digit ?s" "?s \<noteq> []" using str_nat_digits by simp_all
  have r: "r = [] \<or> \<not> ascii_digit (hd r)"
    using assms by (cases r) (auto simp: ends_value_def ascii_digit_def ord_def)
  have "takeWhile ascii_digit (?s @ r) = ?s \<and> dropWhile ascii_digit (?s @ r) = r"
    using s r by (cases r) (auto simp: list_all_iff takeWhile_append dropWhile_append)
  then show ?thesis
    using s str_nat_no_zero [of n] False by (cases ?s) (auto simp: int_part_def)
qed

lemma ends_value_stops: "ends_value r \<Longrightarrow> frac_part r = ([], r) \<and> exp_part r = ([], r)"
  by (cases r) (auto simp: ends_value_def frac_part_def exp_part_def split: list.splits)

lemma scan_word_digits:
  assumes "ends_value r" and "length (str_nat n) \<le> 4300"
  shows "scan_word (str_nat n @ r) = Some (JInt (int n), r)"
    and "scan_word (CHR ''-'' # str_nat n @ r) = Some (JInt (- int n), r)"
proof -
  have s: "list_all ascii_digit (str_nat n)" "str_nat n \<noteq> []" using str_nat_digits by simp_all
  then obtain c cs where c: "str_nat n = c # cs" "ascii_digit c" by (cases "str_nat n") auto
  have v: "int_of_digits (c # cs) = int n" using int_of_digits_str_nat [of n] c(1) by simp
  have nd: "c \<noteq> CHR ''n''" "c \<noteq> CHR ''t''" "c \<noteq> CHR ''f''" "c \<noteq> CHR ''N''" "c \<noteq> CHR ''I''" "c \<noteq> CHR ''-''"
    using c(2) by (auto simp: ascii_digit_def ord_def)
  have ns: "scan_number (str_nat n @ r) = Some (JInt (int n), r)"
    using int_part_str_nat [OF assms(1), of n] ends_value_stops [OF assms(1)] assms(2) c nd v
    by (auto simp: scan_number_def Let_def)
  show "scan_word (str_nat n @ r) = Some (JInt (int n), r)"
    using ns c nd by (simp add: scan_word_def startswith_def)
  have mn: "scan_number (CHR ''-'' # str_nat n @ r) = Some (JInt (- int n), r)"
    using int_part_str_nat [OF assms(1), of n] ends_value_stops [OF assms(1)] assms(2) c v
    by (auto simp: scan_number_def Let_def)
  show "scan_word (CHR ''-'' # str_nat n @ r) = Some (JInt (- int n), r)"
    using mn c nd by (simp add: scan_word_def startswith_def ascii_digit_def)
qed

text \<open>The pieces of a number are cut the same way when a terminator follows.\<close>

lemma ends_value_hd: "ends_value r \<Longrightarrow> r = c # s \<Longrightarrow>
  \<not> ascii_digit c \<and> c \<noteq> CHR ''.'' \<and> c \<noteq> CHR ''e'' \<and> c \<noteq> CHR ''E'' \<and> c \<noteq> CHR ''+'' \<and> c \<noteq> CHR ''-''"
  by (auto simp: ends_value_def ascii_digit_def ord_def)

lemma take_digits_ends:
  assumes "ends_value r"
  shows "takeWhile ascii_digit (s @ r) = takeWhile ascii_digit s" "dropWhile ascii_digit (s @ r) = dropWhile ascii_digit s @ r"
  using assms ends_value_hd by (induction s) (cases r; auto)+

lemma int_part_ends: "ends_value r \<Longrightarrow> s \<noteq> [] \<Longrightarrow> int_part (s @ r) = (fst (int_part s), snd (int_part s) @ r)"
  using take_digits_ends [of r s] by (cases s) (auto simp: int_part_def)

lemma frac_part_ends: "ends_value r \<Longrightarrow> frac_part (s @ r) = (fst (frac_part s), snd (frac_part s) @ r)"
proof (cases s)
  case Nil
  assume "ends_value r"
  then show ?thesis using ends_value_stops [of r] Nil by (simp add: frac_part_def [of "[]"])
next
  case (Cons c u)
  assume r: "ends_value r"
  show ?thesis
  proof (cases u)
    case Nil
    then show ?thesis using r Cons ends_value_hd [OF r] by (cases r) (auto simp: frac_part_def)
  next
    case (Cons d v)
    then show ?thesis using \<open>s = c # u\<close> take_digits_ends [OF r, of v] by (auto simp: frac_part_def)
  qed
qed

lemma exp_part_ends: "ends_value r \<Longrightarrow> exp_part (s @ r) = (fst (exp_part s), snd (exp_part s) @ r)"
proof (cases s)
  case Nil
  assume "ends_value r"
  then show ?thesis using ends_value_stops [of r] Nil by (simp add: exp_part_def [of "[]"])
next
  case (Cons c t)
  assume r: "ends_value r"
  show ?thesis
  proof (cases t)
    case Nil
    then show ?thesis using r Cons ends_value_hd [OF r] take_digits_ends [OF r, of "[]"] by (cases r) (auto simp: exp_part_def Let_def)
  next
    case (Cons d u)
    then show ?thesis using \<open>s = c # t\<close> take_digits_ends [OF r, of "d # u"] take_digits_ends [OF r, of u]
      by (auto simp: exp_part_def Let_def)
  qed
qed

lemma scan_number_ends:
  assumes "scan_number t = Some (JFloat f, [])" and "ends_value r"
  shows "scan_number (t @ r) = Some (JFloat f, r)"
proof -
  obtain neg where neg: "neg = (take 1 t = ''-'')" by simp
  define s where "s = (if neg then tl t else t)"
  obtain ip r1 where i: "int_part s = (ip, r1)" by (cases "int_part s")
  obtain fp r2 where f: "frac_part r1 = (fp, r2)" by (cases "frac_part r1")
  obtain ep r3 where e: "exp_part r2 = (ep, r3)" by (cases "exp_part r2")
  have a: "ip \<noteq> []" "\<not> (fp = [] \<and> ep = [])" "f = (if neg then ''-'' else []) @ ip @ fp @ ep" "r3 = []"
    using assms(1) unfolding scan_number_def Let_def neg [symmetric] s_def [symmetric] by (simp_all add: i f e split: if_splits)
  have s: "s \<noteq> []" using a(1) i by (auto simp: int_part_def)
  then have t: "t \<noteq> []" "take 1 (t @ r) = take 1 t" "(if neg then tl (t @ r) else t @ r) = s @ r"
    by (cases t; auto simp: s_def neg)+
  show ?thesis
    unfolding scan_number_def Let_def t(2) neg [symmetric] t(3)
    using a int_part_ends [OF assms(2) s] frac_part_ends [OF assms(2), of r1] exp_part_ends [OF assms(2), of r2] i f e by simp
qed

lemma scan_number_start: "scan_number t = Some (v, r) \<Longrightarrow> \<exists>c s. t = c # s \<and> (ascii_digit c \<or> c = CHR ''-'' \<and> (\<exists>d u. s = d # u \<and> ascii_digit d))"
proof -
  have zero: "ascii_digit (CHR ''0'')" by (simp add: ascii_digit_def ord_def)
  have ip: "\<exists>c s. u = c # s \<and> ascii_digit c" if "fst (int_part u) \<noteq> []" for u
    using that zero by (cases u) (auto simp: int_part_def split: if_splits)
  assume n: "scan_number t = Some (v, r)"
  define s where "s = (if take 1 t = ''-'' then tl t else t)"
  have "fst (int_part s) \<noteq> []"
    using n unfolding scan_number_def Let_def s_def [symmetric] by (simp split: prod.splits if_splits)
  from ip [OF this] show ?thesis by (cases t) (auto simp: s_def split: if_splits)
qed

lemma scan_word_float:
  assumes "float_ok t" and "ends_value r"
  shows "scan_word (t @ r) = Some (JFloat t, r)"
proof -
  have n: "scan_number (t @ r) = Some (JFloat t, r)" using scan_number_ends [OF assms(1) [unfolded float_ok_def] assms(2)] .
  obtain c s where c: "t = c # s" "ascii_digit c \<or> c = CHR ''-'' \<and> (\<exists>d u. s = d # u \<and> ascii_digit d)"
    using scan_number_start [OF assms(1) [unfolded float_ok_def]] by blast
  have heads: "c \<noteq> CHR ''n''" "c \<noteq> CHR ''t''" "c \<noteq> CHR ''f''" "c \<noteq> CHR ''N''" "c \<noteq> CHR ''I''"
    using c(2) by (auto simp: ascii_digit_def ord_def)
  have "\<not> startswith (t @ r) ''-Infinity''"
  proof
    assume w: "startswith (t @ r) ''-Infinity''"
    then have m: "c = CHR ''-''" using c(1) by (simp add: startswith_def)
    then obtain d u where d: "s = d # u" "ascii_digit d" using c(2) by (auto simp: ascii_digit_def ord_def)
    then have "d = CHR ''I''" using w c(1) by (simp add: startswith_def)
    then show False using d(2) by (simp add: ascii_digit_def ord_def)
  qed
  moreover have "\<not> startswith (t @ r) w" if "w \<in> {''null'', ''true'', ''false'', ''NaN'', ''Infinity''}" for w
    using that heads c(1) by (auto simp: startswith_def)
  ultimately show ?thesis using n by (simp add: scan_word_def)
qed

section \<open>Writers\<close>

text \<open>\<open>json.dumps\<close> with given separators and a given way to write a string.\<close>

fun dumps_with :: "string \<Rightarrow> string \<Rightarrow> (string \<Rightarrow> string) \<Rightarrow> jval \<Rightarrow> string" where
  "dumps_with isep ksep quote JNull = ''null''"
| "dumps_with isep ksep quote (JBool b) = (if b then ''true'' else ''false'')"
| "dumps_with isep ksep quote (JInt n) = str_int n"
| "dumps_with isep ksep quote (JFloat s) = s"
| "dumps_with isep ksep quote (JStr s) = quote s"
| "dumps_with isep ksep quote (JList vs) = ''['' @ join isep (map (dumps_with isep ksep quote) vs) @ '']''"
| "dumps_with isep ksep quote (JObj kvs) =
     ''{'' @ join isep (map (\<lambda>(k, v). quote k @ ksep @ dumps_with isep ksep quote v) kvs) @ ''}''"

lemma json_dumps_with: "json_dumps v = dumps_with '', '' '': '' json_quote v"
proof (induction v)
  case (JList vs)
  then have "map json_dumps vs = map (dumps_with '', '' '': '' json_quote) vs" by simp
  then show ?case by (simp only: json_dumps.simps dumps_with.simps)
next
  case (JObj kvs)
  then have "map (\<lambda>(k, v). json_quote k @ '': '' @ json_dumps v) kvs =
      map (\<lambda>(k, v). json_quote k @ '': '' @ dumps_with '', '' '': '' json_quote v) kvs" by auto
  then show ?case by (simp only: json_dumps.simps dumps_with.simps)
qed simp_all

text \<open>
  What a writer and a reader must agree on: the separators are the comma and the colon with blanks, a written string
  scans back, and the reader takes objects without a repeated key as they are.
\<close>

locale json_writer =
  fixes hook :: "jdict \<Rightarrow> jval option"
    and isep ksep :: string
    and quote :: "string \<Rightarrow> string"
  assumes hook_plain: "distinct (map fst kvs) \<Longrightarrow> hook kvs = Some (JObj kvs)"
    and isep_comma: "\<exists>b. isep = CHR '','' # b \<and> list_all json_blank b"
    and ksep_colon: "\<exists>b. ksep = CHR '':'' # b \<and> list_all json_blank b"
    and quote_scans: "\<exists>q. quote s = CHR 0x22 # q \<and> (\<forall>r. scan_string (q @ r) = Some (s, r))"
begin

abbreviation write_json :: "jval \<Rightarrow> string" where "write_json \<equiv> dumps_with isep ksep quote"

lemma quote_start: "\<exists>q. quote s = CHR 0x22 # q"
  using quote_scans [of s] by blast

lemma scan_quote: "scan_string (tl (quote s) @ r) = Some (s, r)"
  using quote_scans [of s] by fastforce

lemma skip_isep: "\<exists>b. isep = CHR '','' # b \<and> skip_blanks (b @ s) = skip_blanks s"
proof -
  obtain b where b: "isep = CHR '','' # b" "list_all json_blank b" using isep_comma by blast
  have "skip_blanks (b @ s) = skip_blanks s" using b(2) by (induction b) (simp_all add: skip_blanks_def)
  then show ?thesis using b(1) by blast
qed

lemma skip_ksep: "\<exists>b. ksep = CHR '':'' # b \<and> skip_blanks (b @ s) = skip_blanks s"
proof -
  obtain b where b: "ksep = CHR '':'' # b" "list_all json_blank b" using ksep_colon by blast
  have "skip_blanks (b @ s) = skip_blanks s" using b(2) by (induction b) (simp_all add: skip_blanks_def)
  then show ?thesis using b(1) by blast
qed

text \<open>Reading succeeds on the printed value followed by a terminator, with fuel for its length.\<close>

definition reads_back :: "jval \<Rightarrow> bool" where
  "reads_back v \<longleftrightarrow> (\<forall>n r. length (write_json v) \<le> n \<longrightarrow> ends_value r \<longrightarrow> json_value hook n (write_json v @ r) = Some (v, r))"

lemma reads_backD:
  "reads_back v \<Longrightarrow> length (write_json v) \<le> n \<Longrightarrow> ends_value r \<Longrightarrow> json_value hook n (write_json v @ r) = Some (v, r)"
  by (simp add: reads_back_def)

lemma not_blank_start: "json_ok v \<Longrightarrow> \<exists>c s. write_json v = c # s \<and> \<not> json_blank c \<and> c \<noteq> CHR '']'' \<and> c \<noteq> CHR ''}''"
proof (cases v)
  case (JInt i)
  have "list_all ascii_digit (str_nat (nat i)) \<and> str_nat (nat i) \<noteq> []" by (rule str_nat_digits)
  then obtain c s where "str_nat (nat i) = c # s" "ascii_digit c" by (cases "str_nat (nat i)") auto
  then show ?thesis using JInt by (auto simp: str_int_def json_blank_def ascii_digit_def ord_def)
next
  case (JFloat t)
  assume "json_ok v"
  then obtain c s where "t = c # s" "ascii_digit c \<or> c = CHR ''-''"
    using scan_number_start [of t "JFloat t" "[]"] JFloat by (auto simp: float_ok_def)
  then show ?thesis using JFloat by (auto simp: json_blank_def ascii_digit_def ord_def)
next
  case (JStr s)
  obtain q where "quote s = CHR 0x22 # q" using quote_start by blast
  then show ?thesis using JStr by (simp add: json_blank_def ord_def)
qed (auto simp: json_blank_def ord_def)

lemma skip_blanks_start: "\<not> json_blank c \<Longrightarrow> skip_blanks (c # s) = c # s"
  by (simp add: skip_blanks_def)

lemma skip_blanks_dumps: "json_ok v \<Longrightarrow> skip_blanks (write_json v @ s) = write_json v @ s"
  using not_blank_start [of v] by (auto simp: skip_blanks_def)

lemma json_items_dumps:
  assumes "vs \<noteq> []" and "\<And>v. v \<in> set vs \<Longrightarrow> reads_back v \<and> json_ok v"
    and "length (join isep (map write_json vs)) + 1 \<le> n"
  shows "json_items hook n (join isep (map write_json vs) @ CHR '']'' # r) = Some (vs, r)"
  using assms
proof (induction vs arbitrary: n)
  case (Cons v vs)
  have v: "reads_back v" "json_ok v" using Cons.prems(2) by auto
  obtain m where n: "n = Suc m" using Cons.prems(3) by (cases n) auto
  have sb: "skip_blanks (CHR '']'' # r) = CHR '']'' # r" and sc: "skip_blanks (CHR '','' # s) = CHR '','' # s" for s
    by (simp_all add: skip_blanks_def json_blank_def ord_def)
  show ?case
  proof (cases vs)
    case Nil
    have "json_value hook m (write_json v @ CHR '']'' # r) = Some (v, CHR '']'' # r)"
      by (rule reads_backD [OF v(1)]) (use Cons.prems(3) Nil n in \<open>auto simp: ends_value_def\<close>)
    then show ?thesis by (simp add: n Nil sb)
  next
    case (Cons w ws)
    let ?rest = "join isep (map write_json vs) @ CHR '']'' # r"
    obtain bl where isp: "isep = CHR '','' # bl" "skip_blanks (bl @ ?rest) = skip_blanks ?rest" by (rule exE [OF skip_isep [of ?rest]], elim conjE) (rule that)
    have isep: "isep @ t = CHR '','' # bl @ t" "length isep = Suc (length bl)" for t using isp(1) by simp_all
    have j: "join isep (map write_json (v # vs)) = write_json v @ isep @ join isep (map write_json vs)"
      by (simp add: Cons)
    have l: "length (write_json v) \<le> m" "length (join isep (map write_json vs)) + 1 \<le> m"
      using Cons.prems(3) n j isep(2) by auto
    have rest: "json_items hook m ?rest = Some (vs, r)"
      by (rule Cons.IH) (use Cons Cons.prems(2) l in auto)
    have val: "json_value hook m (write_json v @ CHR '','' # bl @ ?rest) = Some (v, CHR '','' # bl @ ?rest)"
      by (rule reads_backD [OF v(1) l(1)]) (simp add: ends_value_def)
    have "\<exists>t. ?rest = write_json w @ t" by (cases ws) (auto simp: Cons)
    then have sk: "skip_blanks (bl @ ?rest) = ?rest"
      using skip_blanks_dumps [of w] Cons Cons.prems(2) isp(2) by auto
    show ?thesis unfolding n j append_assoc isep(1) using val rest sk by (simp add: sc)
  qed
qed simp

lemma json_pairs_dumps:
  assumes "d \<noteq> []" and "\<And>k v. (k, v) \<in> set d \<Longrightarrow> reads_back v \<and> json_ok v"
    and "length (join isep (map (\<lambda>(k, v). quote k @ ksep @ write_json v) d)) + 1 \<le> n"
  shows "json_pairs hook n (join isep (map (\<lambda>(k, v). quote k @ ksep @ write_json v) d) @ CHR ''}'' # r) = Some (d, r)"
  using assms
proof (induction d arbitrary: n)
  case (Cons p d)
  let ?f = "\<lambda>(k, v). quote k @ ksep @ write_json v"
  obtain k v where p: "p = (k, v)" by (cases p)
  have v: "reads_back v" "json_ok v" using Cons.prems(2) p by auto
  obtain m where n: "n = Suc m" using Cons.prems(3) by (cases n) auto
  have sk: "skip_blanks (CHR ''}'' # r) = CHR ''}'' # r" "skip_blanks (CHR '','' # s) = CHR '','' # s"
      "skip_blanks (CHR '':'' # s) = CHR '':'' # s" for s
    by (simp_all add: skip_blanks_def json_blank_def ord_def)
  have head: "json_pairs hook (Suc m) (quote k @ ksep @ write_json v @ u) =
      (case json_value hook m (write_json v @ u) of None \<Rightarrow> None
       | Some (v, r3) \<Rightarrow> (case skip_blanks r3 of
           d # r4 \<Rightarrow> if d = CHR ''}'' then Some ([(k, v)], r4)
             else if d = CHR '','' then map_option (\<lambda>(kvs, u). ((k, v) # kvs, u)) (json_pairs hook m (skip_blanks r4)) else None
         | [] \<Rightarrow> None))" for u
  proof -
    obtain q where q: "quote k = CHR 0x22 # q" using quote_start by blast
    have "scan_string (q @ t) = Some (k, t)" for t using scan_quote [of k t] q by simp
    moreover obtain bl where ks: "ksep = CHR '':'' # bl" "skip_blanks (bl @ write_json v @ u) = write_json v @ u"
      using skip_ksep [of "write_json v @ u"] skip_blanks_dumps [OF v(2), of u] by auto
    have "ksep @ t = CHR '':'' # bl @ t" for t using ks(1) by simp
    ultimately show ?thesis using ks(2) by (simp add: q sk ord_def)
  qed
  show ?case
  proof (cases d)
    case Nil
    have "json_value hook m (write_json v @ CHR ''}'' # r) = Some (v, CHR ''}'' # r)"
      by (rule reads_backD [OF v(1)]) (use Cons.prems(3) Nil n p in \<open>auto simp: ends_value_def\<close>)
    then show ?thesis using head [of "CHR ''}'' # r"] by (simp add: n Nil p sk)
  next
    case (Cons q ds)
    let ?rest = "join isep (map ?f d) @ CHR ''}'' # r"
    obtain bl where isp: "isep = CHR '','' # bl" "skip_blanks (bl @ ?rest) = skip_blanks ?rest" by (rule exE [OF skip_isep [of ?rest]], elim conjE) (rule that)
    have isep: "isep @ t = CHR '','' # bl @ t" "length isep = Suc (length bl)" for t using isp(1) by simp_all
    have j: "join isep (map ?f (p # d)) = quote k @ ksep @ write_json v @ isep @ join isep (map ?f d)"
      by (simp add: Cons p)
    have l: "length (write_json v) \<le> m" "length (join isep (map ?f d)) + 1 \<le> m"
      using Cons.prems(3) n j isep(2) by auto
    have rest: "json_pairs hook m ?rest = Some (d, r)"
      by (rule Cons.IH) (use Cons Cons.prems(2) l in auto)
    have val: "json_value hook m (write_json v @ CHR '','' # bl @ ?rest) = Some (v, CHR '','' # bl @ ?rest)"
      by (rule reads_backD [OF v(1) l(1)]) (simp add: ends_value_def)
    obtain k' v' where q: "q = (k', v')" by (cases q)
    obtain t' where "quote k' = CHR 0x22 # t'" using quote_start by blast
    then have "\<exists>t. ?rest = CHR 0x22 # t" by (cases ds) (auto simp: Cons q)
    then have "skip_blanks (bl @ ?rest) = ?rest"
      using isp(2) by (auto simp: skip_blanks_start json_blank_def ord_def)
    then show ?thesis using head [of "CHR '','' # bl @ ?rest"] val rest unfolding n j append_assoc isep(1) by (simp add: sk p)
  qed
qed simp

lemma reads_back_str: "reads_back (JStr s)"
proof -
  obtain q where q: "quote s = CHR 0x22 # q" using quote_start by blast
  have "scan_string (q @ t) = Some (s, t)" for t using scan_quote [of s t] q by simp
  then have "json_value hook n (quote s @ r) = Some (JStr s, r)" if "length (quote s) \<le> n" for n r
    using that q by (cases n) (simp_all add: ord_def)
  then show ?thesis by (simp add: reads_back_def)
qed

lemma reads_back_int: "json_ok (JInt i) \<Longrightarrow> reads_back (JInt i)"
proof -
  assume l: "json_ok (JInt i)"
  obtain c s where c: "write_json (JInt i) = c # s" using not_blank_start [OF l] by auto
  have st: "c = CHR ''-'' \<or> ascii_digit c"
    using c str_nat_digits [of "nat i"] by (cases "str_nat (nat i)") (auto simp: str_int_def split: if_splits)
  then have nq: "ord c \<noteq> 34" "c \<noteq> CHR ''[''" "c \<noteq> CHR ''{''" by (auto simp: ascii_digit_def ord_def)
  have "scan_word (str_int i @ r) = Some (JInt i, r)" if "ends_value r" for r
    using scan_word_digits [OF that] l by (auto simp: str_int_def split: if_splits)
  then have "json_value hook n (c # s @ r) = Some (JInt i, r)" if "0 < n" "ends_value r" for n r
    using that c nq by (cases n) auto
  then show ?thesis
    using c unfolding reads_back_def by auto
qed

lemma reads_back_float: "json_ok (JFloat t) \<Longrightarrow> reads_back (JFloat t)"
proof -
  assume l: "json_ok (JFloat t)"
  obtain c s where c: "t = c # s" "ascii_digit c \<or> c = CHR ''-''"
    using scan_number_start [of t "JFloat t" "[]"] l by (auto simp: float_ok_def)
  then have nq: "ord c \<noteq> 34" "c \<noteq> CHR ''[''" "c \<noteq> CHR ''{''" by (auto simp: ascii_digit_def ord_def)
  have "json_value hook n (c # s @ r) = Some (JFloat t, r)" if "0 < n" "ends_value r" for n r
    using that nq scan_word_float [of t r] l c(1) by (cases n) auto
  then show ?thesis unfolding reads_back_def by (auto simp: c(1))
qed

lemma reads_back_ok: "json_ok v \<Longrightarrow> reads_back v"
proof (induction v)
  case (JList vs)
  show ?case
  proof (cases "vs = []")
    case False
    have "json_value hook n (write_json (JList vs) @ r) = Some (JList vs, r)" if len: "length (write_json (JList vs)) \<le> n" for n r
    proof -
      obtain m where n: "n = Suc m" using len by (cases n) simp_all
      have "json_items hook m (join isep (map write_json vs) @ CHR '']'' # r) = Some (vs, r)"
        by (rule json_items_dumps) (use False JList len n in \<open>auto simp: list_all_iff\<close>)
      moreover obtain v ws where vs: "vs = v # ws" using False by (cases vs) auto
      obtain c s where c: "write_json v = c # s" "\<not> json_blank c" "c \<noteq> CHR '']''"
        using not_blank_start [of v] JList.prems vs by auto
      obtain t where "join isep (map write_json vs) = c # t" using c(1) by (cases ws) (auto simp: vs)
      ultimately show ?thesis using c by (simp add: n skip_blanks_start ord_def)
    qed
    then show ?thesis by (simp add: reads_back_def)
  qed (auto simp: reads_back_def skip_blanks_def json_blank_def ord_def dest!: Suc_le_D)
next
  case (JObj d)
  let ?f = "\<lambda>(k, v). quote k @ ksep @ write_json v"
  show ?case
  proof (cases "d = []")
    case False
    have "json_value hook n (write_json (JObj d) @ r) = Some (JObj d, r)" if len: "length (write_json (JObj d)) \<le> n" for n r
    proof -
      obtain m where n: "n = Suc m" using len by (cases n) auto
      have "json_pairs hook m (join isep (map ?f d) @ CHR ''}'' # r) = Some (d, r)"
        by (rule json_pairs_dumps) (use False JObj len n in \<open>fastforce simp: list_all_iff\<close>)+
      moreover obtain k v e where d: "d = (k, v) # e" using False by (cases d) auto
      obtain t' where "quote k = CHR 0x22 # t'" using quote_start by blast
      then obtain t where "join isep (map ?f d) = CHR 0x22 # t" by (cases e) (auto simp: d)
      ultimately show ?thesis
        using JObj.prems by (simp add: n skip_blanks_start json_blank_def ord_def hook_plain)
    qed
    then show ?thesis by (simp add: reads_back_def)
  qed (use hook_plain [of "[]"] in \<open>auto simp: reads_back_def skip_blanks_def json_blank_def ord_def dest!: Suc_le_D\<close>)
next
  case (JBool b)
  show ?case
    by (auto simp: reads_back_def scan_word_def startswith_def ord_def gr0_conv_Suc Suc_le_eq dest!: less_imp_Suc_add)
next
  case JNull
  show ?case
    by (auto simp: reads_back_def scan_word_def startswith_def ord_def gr0_conv_Suc Suc_le_eq dest!: less_imp_Suc_add)
qed (auto simp: reads_back_str reads_back_int reads_back_float)

lemma loads_write: "json_ok v \<Longrightarrow> json_loads_hook hook (write_json v) = Some v"
proof -
  assume v: "json_ok v"
  have "json_value hook (2 * length (write_json v) + 2) (write_json v @ []) = Some (v, [])"
    by (rule reads_backD [OF reads_back_ok [OF v]]) (simp_all add: ends_value_def)
  moreover have "skip_blanks (write_json v) = write_json v" using skip_blanks_dumps [OF v, of "[]"] by simp
  ultimately show ?thesis by (simp add: json_loads_hook_def skip_blanks_def)
qed

end

text \<open>The writer with the defaults, and the reader that keeps the last value of a key.\<close>

interpretation default_json: json_writer last_wins "'', ''" "'': ''" json_quote
proof
  show "last_wins kvs = Some (JObj kvs)" if "distinct (map fst kvs)" for kvs
    using fold_dict_set [OF that, of "[]"] by (simp add: last_wins_def)
  show "\<exists>b. '', '' = CHR '','' # b \<and> list_all json_blank b" "\<exists>b. '': '' = CHR '':'' # b \<and> list_all json_blank b"
    by (simp_all add: json_blank_def ord_def)
  show "\<exists>q. json_quote s = CHR 0x22 # q \<and> (\<forall>r. scan_string (q @ r) = Some (s, r))" for s
    by (rule exI [of _ "concat (map json_escape s) @ [char_of (34 :: nat)]"]) (simp add: json_quote_def char_of_codes scan_json_quote [unfolded char_of_codes])
qed

theorem loads_dumps: "json_ok v \<Longrightarrow> json_loads (json_dumps v) = Some v"
  using default_json.loads_write [of v] by (simp add: json_loads_def json_dumps_with)

end
