(* ===== verification/Secret_Store.thy ===== *)
theory Secret_Store
  imports Json_Roundtrip
begin

text \<open>
  The encrypted secret store (\<open>app/smartbrain_3000/secrets.py\<close>): one row per key name, its value sealed with
  the key name as associated data. The locale \<open>keyed_store\<close> is what the rest of the program relies on
  when it keeps a value under a name; the store is its interpretation.
\<close>

section \<open>The contract of a keyed store\<close>

text \<open>
  The operations of a store and the map it stands for. An operation that fails leaves the state as it was.
\<close>

datatype key_op = Put bytes string string | Del string

fun key_spec :: "key_op \<Rightarrow> (string \<rightharpoonup> string) \<Rightarrow> (string \<rightharpoonup> string)" where
  "key_spec (Put _ k v) m = (if k = [] then m else m(k \<mapsto> v))"
| "key_spec (Del k) m = (if k = [] then m else m(k := None))"

locale keyed_store =
  fixes put :: "bytes \<Rightarrow> string \<Rightarrow> string \<Rightarrow> 's \<Rightarrow> 's result"
    and get :: "string \<Rightarrow> 's \<Rightarrow> string option result"
    and del :: "string \<Rightarrow> 's \<Rightarrow> 's result"
    and keys :: "'s \<Rightarrow> string list"
    and view :: "'s \<Rightarrow> string \<rightharpoonup> string"
    and ok :: "'s \<Rightarrow> bool"
  assumes get_view: "ok s \<Longrightarrow> k \<noteq> [] \<Longrightarrow> get k s = Inr (view s k)"
    and put_view: "ok s \<Longrightarrow> k \<noteq> [] \<Longrightarrow> \<exists>s'. put n k v s = Inr s' \<and> ok s' \<and> view s' = (view s)(k \<mapsto> v)"
    and del_view: "ok s \<Longrightarrow> k \<noteq> [] \<Longrightarrow> \<exists>s'. del k s = Inr s' \<and> ok s' \<and> view s' = (view s)(k := None)"
    and put_empty: "\<exists>e. put n [] v s = Inl e"
    and del_empty: "\<exists>e. del [] s = Inl e"
    and keys_view: "ok s \<Longrightarrow> sorted (keys s) \<and> distinct (keys s) \<and> set (keys s) = dom (view s)"
begin

definition step :: "key_op \<Rightarrow> 's \<Rightarrow> 's" where
  "step x s = (case (case x of Put n k v \<Rightarrow> put n k v s | Del k \<Rightarrow> del k s) of Inr s' \<Rightarrow> s' | Inl _ \<Rightarrow> s)"

lemma step_view: "ok s \<Longrightarrow> ok (step x s) \<and> view (step x s) = key_spec x (view s)"
proof (cases x)
  case (Put n k v)
  assume s: "ok s"
  show ?thesis
  proof (cases "k = []")
    case True
    then show ?thesis using put_empty [of n v s] s by (auto simp: step_def Put)
  next
    case False
    then show ?thesis using put_view [OF s False, of n v] by (auto simp: step_def Put)
  qed
next
  case (Del k)
  assume s: "ok s"
  show ?thesis
  proof (cases "k = []")
    case True
    then show ?thesis using del_empty [of s] s by (auto simp: step_def Del)
  next
    case False
    then show ?thesis using del_view [OF s False] by (auto simp: step_def Del)
  qed
qed

lemma run_view: "ok s \<Longrightarrow> ok (fold step xs s) \<and> view (fold step xs s) = fold key_spec xs (view s)"
  by (induction xs arbitrary: s) (simp_all add: step_view)

lemma run_get: "ok s \<Longrightarrow> k \<noteq> [] \<Longrightarrow> get k (fold step xs s) = Inr (fold key_spec xs (view s) k)"
  using run_view [of s xs] get_view by metis

lemma run_keys: "ok s \<Longrightarrow> sorted (keys (fold step xs s)) \<and> distinct (keys (fold step xs s)) \<and>
  set (keys (fold step xs s)) = dom (fold key_spec xs (view s))"
  using run_view [of s xs] keys_view by metis

lemma put_get: "ok s \<Longrightarrow> k \<noteq> [] \<Longrightarrow> put n k v s = Inr s' \<Longrightarrow>
  ok s' \<and> get k s' = Inr (Some v) \<and> (\<forall>k'. k' \<noteq> k \<longrightarrow> view s' k' = view s k')"
  using put_view [of s k n v] get_view [of s' k] by auto

end

section \<open>The store\<close>

record 'c secret_row =
  sc_key :: string
  sc_nonce :: bytes
  sc_ct :: 'c

record 'c sealer =
  sl_aead :: "'c aead"
  sl_key :: bytes

text \<open>\<open>SecretStore(conn, master_key)\<close>.\<close>

definition secret_store :: "'c aead \<Rightarrow> bytes \<Rightarrow> 'c sealer result" where
  "secret_store A key =
     (if length key \<noteq> MASTER_KEY_BYTES then Inl (Assertion ''master key must be 32 bytes'')
      else Inr \<lparr>sl_aead = A, sl_key = key\<rparr>)"

definition secret_put :: "'c sealer \<Rightarrow> bytes \<Rightarrow> string \<Rightarrow> string \<Rightarrow> 'c secret_row list \<Rightarrow> 'c secret_row list result" where
  "secret_put S nonce k v rows =
     (if k = [] then Inl (Assertion ''secret key must be non-empty'')
      else let ct = aes_encrypt (sl_aead S) (sl_key S) nonce (PText v) k in
        Inr (case row_find sc_key k rows of
            None \<Rightarrow> rows @ [\<lparr>sc_key = k, sc_nonce = nonce, sc_ct = ct\<rparr>]
          | Some _ \<Rightarrow> row_update sc_key k (\<lambda>r. r\<lparr>sc_nonce := nonce, sc_ct := ct\<rparr>) rows))"

text \<open>\<open>plaintext.decode("utf-8")\<close>. A key's bytes are never sealed in this table.\<close>

definition plain_text :: "plain \<Rightarrow> string result" where
  "plain_text p = (case p of PText s \<Rightarrow> Inr s | PJson v \<Rightarrow> Inr (json_dumps v) | PRaw _ \<Rightarrow> Inl (ValueErr ''invalid utf-8''))"

definition secret_get :: "'c sealer \<Rightarrow> string \<Rightarrow> 'c secret_row list \<Rightarrow> string option result" where
  "secret_get S k rows =
     (if k = [] then Inl (Assertion ''secret key must be non-empty'')
      else case row_find sc_key k rows of
          None \<Rightarrow> Inr None
        | Some r \<Rightarrow> (case aes_decrypt (sl_aead S) (sl_key S) (sc_nonce r) (sc_ct r) k of
              None \<Rightarrow> Inl InvalidTag
            | Some p \<Rightarrow> rmap1 Some (plain_text p)))"

definition secret_delete :: "'c sealer \<Rightarrow> string \<Rightarrow> 'c secret_row list \<Rightarrow> 'c secret_row list result" where
  "secret_delete S k rows =
     (if k = [] then Inl (Assertion ''secret key must be non-empty'')
      else let rows' = filter (\<lambda>r. sc_key r \<noteq> k) rows in
        rbind (secret_get S k rows') (\<lambda>v. if v = None then Inr rows'
          else Inl (Assertion ''secret must be absent after delete'')))"

definition secret_keys :: "'c secret_row list \<Rightarrow> string list" where
  "secret_keys rows = order_by (\<le>) (map sc_key rows)"

definition demo_sealer :: "(bytes \<times> bytes \<times> string \<times> plain) sealer" where
  "demo_sealer = \<lparr>sl_aead = tagged_aead, sl_key = replicate 32 7\<rparr>"

lemma demo_sealer_roundtrip: "aead_roundtrip (sl_aead demo_sealer)"
  by (simp add: demo_sealer_def tagged_aead_roundtrip)

section \<open>It is a keyed store\<close>

definition secret_view :: "'c sealer \<Rightarrow> 'c secret_row list \<Rightarrow> string \<rightharpoonup> string" where
  "secret_view S rows k = (case row_find sc_key k rows of
       None \<Rightarrow> None
     | Some r \<Rightarrow> (case aes_decrypt (sl_aead S) (sl_key S) (sc_nonce r) (sc_ct r) k of
           Some (PText v) \<Rightarrow> Some v | _ \<Rightarrow> None))"

definition secrets_ok :: "'c sealer \<Rightarrow> 'c secret_row list \<Rightarrow> bool" where
  "secrets_ok S rows \<longleftrightarrow> aead_roundtrip (sl_aead S) \<and> distinct (map sc_key rows) \<and>
     (\<forall>r \<in> set rows. sc_key r \<noteq> [] \<and>
       (\<exists>v. aes_decrypt (sl_aead S) (sl_key S) (sc_nonce r) (sc_ct r) (sc_key r) = Some (PText v)))"

lemma secrets_ok_Nil: "aead_roundtrip (sl_aead S) \<Longrightarrow> secrets_ok S []"
  by (simp add: secrets_ok_def)

lemma secrets_ok_row: "secrets_ok S rows \<Longrightarrow> row_find sc_key k rows = Some r \<Longrightarrow>
  k \<noteq> [] \<and> (\<exists>v. aes_decrypt (sl_aead S) (sl_key S) (sc_nonce r) (sc_ct r) k = Some (PText v))"
  using row_find_Some [of sc_key k rows r] by (auto simp: secrets_ok_def)

lemma secret_get_view: "secrets_ok S rows \<Longrightarrow> k \<noteq> [] \<Longrightarrow> secret_get S k rows = Inr (secret_view S rows k)"
  using secrets_ok_row [of S rows k]
  by (auto simp: secret_get_def secret_view_def plain_text_def split: option.splits plain.splits)

lemma secret_put_view:
  assumes "secrets_ok S rows" and "k \<noteq> []"
  shows "\<exists>rows'. secret_put S n k v rows = Inr rows' \<and> secrets_ok S rows' \<and> secret_view S rows' = (secret_view S rows)(k \<mapsto> v)"
proof -
  let ?ct = "aes_encrypt (sl_aead S) (sl_key S) n (PText v) k"
  have d: "aes_decrypt (sl_aead S) (sl_key S) n ?ct k = Some (PText v)"
    using assms(1) by (simp add: secrets_ok_def aead_roundtrip_def)
  show ?thesis
  proof (cases "row_find sc_key k rows")
    case None
    then have "k \<notin> sc_key ` set rows" by (simp add: row_find_None_iff)
    then have "secrets_ok S (rows @ [\<lparr>sc_key = k, sc_nonce = n, sc_ct = ?ct\<rparr>])"
      using assms d by (auto simp: secrets_ok_def)
    moreover have "secret_view S (rows @ [\<lparr>sc_key = k, sc_nonce = n, sc_ct = ?ct\<rparr>]) = (secret_view S rows)(k \<mapsto> v)"
      using None d by (auto simp: secret_view_def store_simps fun_eq_iff split: option.splits)
    ultimately show ?thesis using None assms(2) by (simp add: secret_put_def)
  next
    case (Some r)
    let ?rows' = "row_update sc_key k (\<lambda>r. r\<lparr>sc_nonce := n, sc_ct := ?ct\<rparr>) rows"
    have "secrets_ok S ?rows'"
      using assms d by (fastforce simp: secrets_ok_def set_row_update)
    moreover have "secret_view S ?rows' = (secret_view S rows)(k \<mapsto> v)"
      using Some d by (auto simp: secret_view_def store_simps fun_eq_iff)
    ultimately show ?thesis using Some assms(2) by (simp add: secret_put_def)
  qed
qed

lemma secret_delete_view:
  assumes "secrets_ok S rows" and "k \<noteq> []"
  shows "\<exists>rows'. secret_delete S k rows = Inr rows' \<and> secrets_ok S rows' \<and> secret_view S rows' = (secret_view S rows)(k := None)"
proof -
  let ?rows' = "filter (\<lambda>r. sc_key r \<noteq> k) rows"
  have f: "row_find sc_key k' ?rows' = (if k' = k then None else row_find sc_key k' rows)" for k'
    by (induction rows) (auto simp: row_find_Cons)
  then have "secret_get S k ?rows' = Inr None" using assms(2) by (simp add: secret_get_def)
  moreover have "secrets_ok S ?rows'" using assms(1) by (auto simp: secrets_ok_def distinct_map_filter)
  moreover have "secret_view S ?rows' = (secret_view S rows)(k := None)"
    by (auto simp: secret_view_def f fun_eq_iff)
  ultimately show ?thesis using assms(2) by (simp add: secret_delete_def)
qed

lemma secret_keys_view:
  assumes "secrets_ok S rows"
  shows "sorted (secret_keys rows) \<and> distinct (secret_keys rows) \<and> set (secret_keys rows) = dom (secret_view S rows)"
proof -
  have "sorted_wrt (\<le>) (order_by (\<le>) (map sc_key rows))" by (rule sorted_order_by) auto
  moreover have "distinct (secret_keys rows)"
    using distinct_map_order_by [of id "map sc_key rows" "(\<le>)"] assms by (simp add: secret_keys_def secrets_ok_def)
  moreover have "k \<in> sc_key ` set rows \<longleftrightarrow> k \<in> dom (secret_view S rows)" for k
    using secrets_ok_row [OF assms, of k] row_find_None_iff [of sc_key k rows]
    by (auto simp: secret_view_def domIff split: option.splits plain.splits)
  ultimately show ?thesis by (auto simp: secret_keys_def)
qed

lemma secret_put_empty: "\<exists>e. secret_put S n [] v rows = Inl e"
  by (simp add: secret_put_def)

lemma secret_delete_empty: "\<exists>e. secret_delete S [] rows = Inl e"
  by (simp add: secret_delete_def)

interpretation secrets: keyed_store "secret_put S" "secret_get S" "secret_delete S" secret_keys "secret_view S" "secrets_ok S"
  for S :: "'c sealer"
  by unfold_locales
    (simp_all add: secret_get_view secret_put_view secret_delete_view secret_keys_view secret_put_empty secret_delete_empty)

section \<open>Properties\<close>

text \<open>Any sequence of writes and deletions, from an empty table.\<close>

definition secret_step :: "'c sealer \<Rightarrow> key_op \<Rightarrow> 'c secret_row list \<Rightarrow> 'c secret_row list" where
  "secret_step S x rows = (case (case x of Put n k v \<Rightarrow> secret_put S n k v rows | Del k \<Rightarrow> secret_delete S k rows) of
     Inr rows' \<Rightarrow> rows' | Inl _ \<Rightarrow> rows)"

lemma secret_step_eq: "secret_step S = secrets.step S"
  by (simp add: fun_eq_iff secret_step_def secrets.step_def)

text \<open>
  The secret store is a map from names to values: after any sequence of puts and deletes from an empty
  table, whatever nonces were drawn, reading a name gives the last value put under it and not since deleted,
  and the listing is exactly the names that hold a value, sorted and without repetition.
\<close>

theorem secret_store_refines:
  assumes "aead_roundtrip (sl_aead S)"
  shows "(k \<noteq> [] \<longrightarrow> secret_get S k (fold (secret_step S) ops []) = Inr (fold key_spec ops Map.empty k)) \<and>
    sorted (secret_keys (fold (secret_step S) ops [])) \<and> distinct (secret_keys (fold (secret_step S) ops [])) \<and>
    set (secret_keys (fold (secret_step S) ops [])) = dom (fold key_spec ops Map.empty)"
proof -
  have e: "secret_view S [] = Map.empty" by (simp add: secret_view_def fun_eq_iff)
  note run = secrets.run_get [OF secrets_ok_Nil [OF assms], of k ops] secrets.run_keys [OF secrets_ok_Nil [OF assms], of ops]
  show ?thesis using run by (simp add: secret_step_eq e)
qed

theorem secret_store_refines_witness:
  "secret_get \<lparr>sl_aead = tagged_aead, sl_key = replicate 32 7\<rparr> ''a''
     (fold (secret_step \<lparr>sl_aead = tagged_aead, sl_key = replicate 32 7\<rparr>)
       [Put [1] ''a'' ''x'', Put [2] ''b'' ''y'', Put [3] ''a'' ''z'', Del ''b''] []) = Inr (Some ''z'')"
  by (subst secret_store_refines [THEN conjunct1, rule_format]) (simp_all add: tagged_aead_roundtrip)

text \<open>
  A ciphertext moved to another name, or opened under another master key, is refused: the name is part of
  what the tag authenticates.
\<close>

lemma moved_secret_refused:
  assumes "aead_authentic (sl_aead S)" and "k \<noteq> []" and "(sl_key S, k) \<noteq> (key, k')"
    and "row_find sc_key k rows = Some \<lparr>sc_key = k, sc_nonce = n, sc_ct = aes_encrypt (sl_aead S) key n p k'\<rparr>"
  shows "secret_get S k rows = Inl InvalidTag"
proof -
  have "aes_decrypt (sl_aead S) (sl_key S) n (aes_encrypt (sl_aead S) key n p k') k = None"
    using assms(1,3) unfolding aead_authentic_def by blast
  then show ?thesis using assms(2,4) by (simp add: secret_get_def)
qed

end
