(* ===== verification/Memory_Store.thy ===== *)
theory Memory_Store
  imports Secret_Store Calendar
begin

text \<open>
  The assistant's memory (\<open>app/smartbrain_3000/memory.py\<close>): sealed facts, a sealed profile and the system
  message composed of them. A sealed body whose fields are not texts, which no writer of this store makes,
  reads as an error.
\<close>

section \<open>The tables\<close>

definition MEM_LIST_LIMIT :: nat where "MEM_LIST_LIMIT = 500"
definition PROFILE_AAD :: string where "PROFILE_AAD = ''profile:1''"
definition DEFAULT_ASSISTANT :: string where "DEFAULT_ASSISTANT = ''SmartBrain''"

record 'c mem_row =
  mm_id :: string
  mm_nonce :: bytes
  mm_ct :: 'c
  mm_created :: int
  mm_updated :: int

record 'c profile_row =
  pr_nonce :: bytes
  pr_ct :: 'c
  pr_updated :: int

record 'c mem_db =
  md_facts :: "'c mem_row list"
  md_profile :: "'c profile_row option"

record mem_view =
  mv_id :: string
  mv_text :: string
  mv_created :: string
  mv_updated :: string

record profile =
  p_assistant :: string
  p_user :: string
  p_instructions :: string

definition mem_aad :: "string \<Rightarrow> string" where
  "mem_aad mid = ''memory:'' @ mid"

definition mem_seal :: "'c sealer \<Rightarrow> string \<Rightarrow> bytes \<Rightarrow> jdict \<Rightarrow> 'c" where
  "mem_seal S aad nonce body = aes_encrypt (sl_aead S) (sl_key S) nonce (PJson (JObj body)) aad"

definition mem_open :: "'c sealer \<Rightarrow> string \<Rightarrow> bytes \<Rightarrow> 'c \<Rightarrow> jdict result" where
  "mem_open S aad nonce ct = aead_open (sl_aead S) (sl_key S) nonce ct aad"

definition as_text :: "jval \<Rightarrow> string result" where
  "as_text v = (case v of JStr s \<Rightarrow> Inr s | _ \<Rightarrow> Inl (OtherErr ''not a text''))"

section \<open>Facts\<close>

definition add_memory :: "'c sealer \<Rightarrow> stamp \<Rightarrow> string \<Rightarrow> 'c mem_db \<Rightarrow> (string \<times> 'c mem_db) result" where
  "add_memory S st txt db =
     (if txt = [] then Inl (Assertion ''memory text must be non-empty'')
      else if s_uid st \<in> mm_id ` set (md_facts db) then Inl (OtherErr ''duplicate key'')
      else Inr (s_uid st, db\<lparr>md_facts := md_facts db @ [\<lparr>mm_id = s_uid st, mm_nonce = s_nonce st,
        mm_ct = mem_seal S (mem_aad (s_uid st)) (s_nonce st) [(''text'', JStr txt)],
        mm_created = s_now st, mm_updated = s_now st\<rparr>]\<rparr>))"

definition mem_newer :: "'c mem_row \<Rightarrow> 'c mem_row \<Rightarrow> bool" where
  "mem_newer a b = (mm_created b \<le> mm_created a)"

definition mem_view_of :: "'c sealer \<Rightarrow> 'c mem_row \<Rightarrow> mem_view result" where
  "mem_view_of S r = rbind (mem_open S (mem_aad (mm_id r)) (mm_nonce r) (mm_ct r)) (\<lambda>body.
     rbind (case map_of body ''text'' of Some v \<Rightarrow> as_text v | None \<Rightarrow> Inl (OtherErr ''KeyError'')) (\<lambda>t.
       Inr \<lparr>mv_id = mm_id r, mv_text = t, mv_created = ts_text (mm_created r), mv_updated = ts_text (mm_updated r)\<rparr>))"

definition list_memories :: "'c sealer \<Rightarrow> 'c mem_db \<Rightarrow> mem_view list result" where
  "list_memories S db = rmap (mem_view_of S) (take MEM_LIST_LIMIT (order_by mem_newer (md_facts db)))"

definition delete_memory :: "string \<Rightarrow> 'c mem_db \<Rightarrow> 'c mem_db result" where
  "delete_memory mid db =
     (if mid = [] then Inl (Assertion ''memory id required'')
      else Inr (db\<lparr>md_facts := filter (\<lambda>r. mm_id r \<noteq> mid) (md_facts db)\<rparr>))"

section \<open>The profile\<close>

definition get_profile :: "'c sealer \<Rightarrow> 'c mem_db \<Rightarrow> profile result" where
  "get_profile S db = (case md_profile db of
       None \<Rightarrow> Inr \<lparr>p_assistant = [], p_user = [], p_instructions = []\<rparr>
     | Some r \<Rightarrow> rbind (mem_open S PROFILE_AAD (pr_nonce r) (pr_ct r)) (\<lambda>body.
         rbind (as_text (opt_get body ''assistant_name'' (JStr []))) (\<lambda>a.
         rbind (as_text (opt_get body ''user_name'' (JStr []))) (\<lambda>u.
         rbind (as_text (opt_get body ''instructions'' (JStr []))) (\<lambda>i.
           Inr \<lparr>p_assistant = a, p_user = u, p_instructions = i\<rparr>)))))"

definition set_profile :: "'c sealer \<Rightarrow> stamp \<Rightarrow> profile \<Rightarrow> 'c mem_db \<Rightarrow> 'c mem_db" where
  "set_profile S st p db =
     (let body = [(''assistant_name'', JStr (p_assistant p)), (''user_name'', JStr (p_user p)),
                  (''instructions'', JStr (p_instructions p))]
      in db\<lparr>md_profile := Some \<lparr>pr_nonce = s_nonce st, pr_ct = mem_seal S PROFILE_AAD (s_nonce st) body,
                               pr_updated = s_now st\<rparr>\<rparr>)"

section \<open>The system message\<close>

definition nl :: char where "nl = char_of (10 :: nat)"

definition facts_part :: "string list \<Rightarrow> string" where
  "facts_part facts = ''Known facts about the user:'' @ [nl] @ join [nl] (map (\<lambda>f. ''- '' @ f) facts)"

definition prompt_parts :: "profile \<Rightarrow> string list \<Rightarrow> string list" where
  "prompt_parts p facts =
     (let name = (if p_assistant p = [] then DEFAULT_ASSISTANT else p_assistant p);
          intro = ''You are '' @ name @ '', a personal assistant''
            @ (if p_user p = [] then [] else '' for '' @ p_user p)
      in [intro @ ''.''] @ (if p_instructions p = [] then [] else [p_instructions p])
           @ (if facts = [] then [] else [facts_part facts]))"

definition compose_prompt :: "profile \<Rightarrow> string list \<Rightarrow> string option" where
  "compose_prompt p facts =
     (if p_user p = [] \<and> p_instructions p = [] \<and> p_assistant p = [] \<and> facts = [] then None
      else Some (join [nl, nl] (prompt_parts p facts)))"

definition system_prompt :: "'c sealer \<Rightarrow> 'c mem_db \<Rightarrow> string option result" where
  "system_prompt S db = rbind (get_profile S db) (\<lambda>p. rbind (list_memories S db) (\<lambda>ms.
     Inr (compose_prompt p (map mv_text ms))))"

section \<open>Refinement\<close>

text \<open>The memory as a list of facts with their time, and a profile.\<close>

datatype mem_event =
    AddFact stamp string
  | DropFact string
  | SetProfile stamp profile

record mem_spec =
  ms_facts :: "(string \<times> string \<times> int) list"
  ms_profile :: profile

definition mem_step :: "'c sealer \<Rightarrow> mem_event \<Rightarrow> 'c mem_db \<Rightarrow> 'c mem_db" where
  "mem_step S e db = (case e of
       AddFact st t \<Rightarrow> (case add_memory S st t db of Inr (_, db') \<Rightarrow> db' | Inl _ \<Rightarrow> db)
     | DropFact i \<Rightarrow> (case delete_memory i db of Inr db' \<Rightarrow> db' | Inl _ \<Rightarrow> db)
     | SetProfile st p \<Rightarrow> set_profile S st p db)"

definition spec_step :: "mem_event \<Rightarrow> mem_spec \<Rightarrow> mem_spec" where
  "spec_step e m = (case e of
       AddFact st t \<Rightarrow> if t = [] \<or> s_uid st \<in> fst ` set (ms_facts m) then m
         else m\<lparr>ms_facts := ms_facts m @ [(s_uid st, t, s_now st)]\<rparr>
     | DropFact i \<Rightarrow> if i = [] then m else m\<lparr>ms_facts := filter (\<lambda>f. fst f \<noteq> i) (ms_facts m)\<rparr>
     | SetProfile st p \<Rightarrow> m\<lparr>ms_profile := p\<rparr>)"

definition fact_newer :: "string \<times> string \<times> int \<Rightarrow> string \<times> string \<times> int \<Rightarrow> bool" where
  "fact_newer a b = (snd (snd b) \<le> snd (snd a))"

definition newest_facts :: "mem_spec \<Rightarrow> (string \<times> string \<times> int) list" where
  "newest_facts m = take MEM_LIST_LIMIT (order_by fact_newer (ms_facts m))"

definition no_profile :: profile where
  "no_profile = \<lparr>p_assistant = [], p_user = [], p_instructions = []\<rparr>"

definition mem_row_for :: "'c sealer \<Rightarrow> string \<times> string \<times> int \<Rightarrow> 'c mem_row \<Rightarrow> bool" where
  "mem_row_for S f r \<longleftrightarrow> mm_id r = fst f \<and> mm_created r = snd (snd f) \<and> mm_updated r = snd (snd f) \<and>
     length (mm_nonce r) = 12 \<and> mm_ct r = mem_seal S (mem_aad (fst f)) (mm_nonce r) [(''text'', JStr (fst (snd f)))]"

definition mem_rel :: "'c sealer \<Rightarrow> mem_spec \<Rightarrow> 'c mem_db \<Rightarrow> bool" where
  "mem_rel S m db \<longleftrightarrow> list_all2 (mem_row_for S) (ms_facts m) (md_facts db) \<and>
     (case md_profile db of None \<Rightarrow> ms_profile m = no_profile
      | Some r \<Rightarrow> length (pr_nonce r) = 12 \<and> pr_ct r = mem_seal S PROFILE_AAD (pr_nonce r)
          [(''assistant_name'', JStr (p_assistant (ms_profile m))), (''user_name'', JStr (p_user (ms_profile m))),
           (''instructions'', JStr (p_instructions (ms_profile m)))])"

definition event_ok :: "mem_event \<Rightarrow> bool" where
  "event_ok e = (case e of AddFact st _ \<Rightarrow> stamp_ok st | DropFact _ \<Rightarrow> True | SetProfile st _ \<Rightarrow> stamp_ok st)"

lemma list_all2_ids: "list_all2 (mem_row_for S) fs rs \<Longrightarrow> map fst fs = map mm_id rs"
  by (induction rule: list_all2_induct) (auto simp: mem_row_for_def)

lemma list_all2_filter_ids:
  "list_all2 (mem_row_for S) fs rs \<Longrightarrow> list_all2 (mem_row_for S) (filter (\<lambda>f. fst f \<noteq> i) fs) (filter (\<lambda>r. mm_id r \<noteq> i) rs)"
  by (induction rule: list_all2_induct) (auto simp: mem_row_for_def)

lemma mem_rel_step:
  assumes "mem_rel S m db" and "event_ok e"
  shows "mem_rel S (spec_step e m) (mem_step S e db)"
proof (cases e)
  case (AddFact st t)
  have "fst ` set (ms_facts m) = mm_id ` set (md_facts db)"
    using assms(1) list_all2_ids [of S "ms_facts m" "md_facts db"] by (metis mem_rel_def list.set_map)
  then show ?thesis
    using assms AddFact
    by (auto simp: mem_rel_def mem_step_def spec_step_def add_memory_def event_ok_def stamp_ok_def mem_row_for_def
        intro!: list_all2_appendI split: option.splits)
next
  case (DropFact i)
  then show ?thesis
    using assms by (auto simp: mem_rel_def mem_step_def spec_step_def delete_memory_def list_all2_filter_ids split: option.splits)
next
  case (SetProfile st p)
  then show ?thesis
    using assms by (auto simp: mem_rel_def mem_step_def spec_step_def set_profile_def event_ok_def stamp_ok_def Let_def)
qed

lemma mem_row_created: "mem_row_for S f r \<Longrightarrow> mm_created r = snd (snd f)"
  by (simp add: mem_row_for_def)

lemma list_all2_insert_by:
  "list_all2 (mem_row_for S) fs rs \<Longrightarrow> mem_row_for S f r \<Longrightarrow>
   list_all2 (mem_row_for S) (insert_by fact_newer f fs) (insert_by mem_newer r rs)"
proof (induction rule: list_all2_induct)
  case (Cons g gs s rs)
  then have "fact_newer f g = mem_newer r s"
    by (simp add: fact_newer_def mem_newer_def mem_row_created)
  with Cons show ?case by auto
qed auto

lemma list_all2_order_by:
  "list_all2 (mem_row_for S) fs rs \<Longrightarrow> list_all2 (mem_row_for S) (order_by fact_newer fs) (order_by mem_newer rs)"
  by (induction rule: list_all2_induct) (auto simp: list_all2_insert_by)

definition view_of_fact :: "string \<times> string \<times> int \<Rightarrow> mem_view" where
  "view_of_fact f = \<lparr>mv_id = fst f, mv_text = fst (snd f), mv_created = ts_text (snd (snd f)), mv_updated = ts_text (snd (snd f))\<rparr>"

lemma mem_view_row: "aead_roundtrip (sl_aead S) \<Longrightarrow> mem_row_for S f r \<Longrightarrow> mem_view_of S r = Inr (view_of_fact f)"
  by (simp add: mem_view_of_def mem_row_for_def mem_open_def mem_seal_def aead_open_seal NONCE_BYTES_def as_text_def view_of_fact_def)

lemma list_memories_rel:
  assumes "aead_roundtrip (sl_aead S)" and "mem_rel S m db"
  shows "list_memories S db = Inr (map view_of_fact (newest_facts m))"
proof -
  have "list_all2 (mem_row_for S) (newest_facts m) (take MEM_LIST_LIMIT (order_by mem_newer (md_facts db)))"
    unfolding newest_facts_def using assms(2) by (auto simp: mem_rel_def intro!: list_all2_takeI list_all2_order_by)
  then show ?thesis
    unfolding list_memories_def by (induction rule: list_all2_induct) (simp_all add: mem_view_row [OF assms(1)])
qed

lemma get_profile_rel:
  assumes "aead_roundtrip (sl_aead S)" and "mem_rel S m db"
  shows "get_profile S db = Inr (ms_profile m)"
proof (cases "md_profile db")
  case None
  then show ?thesis using assms by (simp add: get_profile_def mem_rel_def no_profile_def)
next
  case (Some r)
  then show ?thesis
    using assms by (simp add: get_profile_def mem_rel_def mem_open_def mem_seal_def aead_open_seal NONCE_BYTES_def opt_get_def as_text_def)
qed

lemma mem_rel_run: "mem_rel S m db \<Longrightarrow> list_all event_ok es \<Longrightarrow> mem_rel S (fold spec_step es m) (fold (mem_step S) es db)"
  by (induction es arbitrary: m db) (simp_all add: mem_rel_step)

definition empty_memory :: "'c mem_db" where
  "empty_memory = \<lparr>md_facts = [], md_profile = None\<rparr>"

definition empty_spec :: mem_spec where
  "empty_spec = \<lparr>ms_facts = [], ms_profile = no_profile\<rparr>"

text \<open>
  The memory store implements a plain list of facts and a profile: after any sequence of additions,
  deletions and profile changes from empty tables, the listing is the newest 500 facts still there with their
  texts, the profile is the last one set, and the system message is composed of exactly these.
\<close>

theorem memory_refines:
  assumes "aead_roundtrip (sl_aead S)" and "list_all event_ok es"
  shows "list_memories S (fold (mem_step S) es empty_memory) = Inr (map view_of_fact (newest_facts (fold spec_step es empty_spec))) \<and>
    get_profile S (fold (mem_step S) es empty_memory) = Inr (ms_profile (fold spec_step es empty_spec)) \<and>
    system_prompt S (fold (mem_step S) es empty_memory) =
      Inr (compose_prompt (ms_profile (fold spec_step es empty_spec))
        (map (fst \<circ> snd) (newest_facts (fold spec_step es empty_spec))))"
proof -
  have "mem_rel S empty_spec (empty_memory :: 'a mem_db)" by (simp add: mem_rel_def empty_spec_def empty_memory_def)
  then have r: "mem_rel S (fold spec_step es empty_spec) (fold (mem_step S) es empty_memory)"
    by (rule mem_rel_run) (rule assms(2))
  show ?thesis
    by (simp add: system_prompt_def list_memories_rel [OF assms(1) r] get_profile_rel [OF assms(1) r] comp_def view_of_fact_def)
qed

text \<open>Every fact listed is in the message, and there is no message exactly when nothing is known.\<close>

lemma compose_prompt_None: "compose_prompt p facts = None \<longleftrightarrow> p = no_profile \<and> facts = []"
  by (cases p) (auto simp: compose_prompt_def no_profile_def Let_def)

lemma join_infix: "x \<in> set xs \<Longrightarrow> \<exists>a b. join sep xs = a @ x @ b"
proof (induction sep xs rule: join.induct)
  case (3 sep x' y ys)
  show ?case
  proof (cases "x = x'")
    case True
    then have "join sep (x' # y # ys) = [] @ x @ (sep @ join sep (y # ys))" by simp
    then show ?thesis by blast
  next
    case False
    then obtain a b where "join sep (y # ys) = a @ x @ b" using 3 by auto
    then show ?thesis by (intro exI [of _ "x' @ sep @ a"] exI [of _ b]) simp
  qed
qed (auto intro: exI [of _ "[]"])

lemma prompt_carries_facts:
  assumes "compose_prompt p facts = Some msg" and "f \<in> set facts"
  shows "\<exists>a b. msg = a @ ''- '' @ f @ b"
proof -
  have "\<exists>a b. join [nl] (map (\<lambda>f. ''- '' @ f) facts) = a @ (''- '' @ f) @ b"
    by (rule join_infix) (use assms(2) in auto)
  then obtain a b where ab: "join [nl] (map (\<lambda>f. ''- '' @ f) facts) = a @ ''- '' @ f @ b" by auto
  have "facts_part facts \<in> set (prompt_parts p facts)"
    using assms(2) by (cases facts) (auto simp: prompt_parts_def Let_def)
  moreover have "msg = join [nl, nl] (prompt_parts p facts)"
    using assms(1) by (simp add: compose_prompt_def split: if_splits)
  ultimately obtain c d where "msg = c @ facts_part facts @ d" using join_infix by blast
  then have "msg = (c @ ''Known facts about the user:'' @ [nl] @ a) @ ''- '' @ f @ (b @ d)" unfolding facts_part_def ab by simp
  then show ?thesis by blast
qed

definition demo_events :: "mem_event list" where
  "demo_events = [AddFact (demo_stamp ''a'' 5) ''likes tea'', SetProfile (demo_stamp ''p'' 6) (no_profile\<lparr>p_user := ''Ann''\<rparr>),
     AddFact (demo_stamp ''b'' 7) ''lives in Rome'', DropFact ''a'']"

theorem memory_refines_witness:
  "system_prompt demo_sealer (fold (mem_step demo_sealer) demo_events empty_memory) =
   Inr (Some (''You are SmartBrain, a personal assistant for Ann.'' @ [nl, nl] @
     ''Known facts about the user:'' @ [nl] @ ''- lives in Rome''))"
  by (subst memory_refines [OF demo_sealer_roundtrip, THEN conjunct2, THEN conjunct2])
    (simp_all add: demo_events_def event_ok_def stamp_ok_def demo_stamp_def spec_step_def empty_spec_def no_profile_def
      newest_facts_def MEM_LIST_LIMIT_def compose_prompt_def prompt_parts_def facts_part_def DEFAULT_ASSISTANT_def)

end
