(* ===== verification/Recovery_Key.thy ===== *)
theory Recovery_Key
  imports Prelude
begin

text \<open>
  The printable Recovery Key (\<open>_encode_recovery\<close> and \<open>_decode_recovery\<close> of \<open>app/smartbrain_3000/keyvault.py\<close>):
  32 bytes as base32 in groups of four. Base32 is the standard library's; it is written over the bits of the bytes,
  most significant first.
\<close>

section \<open>Bits\<close>

definition bits_val :: "bool list \<Rightarrow> nat" where
  "bits_val bs = foldl (\<lambda>a b. 2 * a + of_bool b) 0 bs"

fun to_bits :: "nat \<Rightarrow> nat \<Rightarrow> bool list" where
  "to_bits 0 v = []"
| "to_bits (Suc k) v = to_bits k (v div 2) @ [odd v]"

lemma bits_val_snoc: "bits_val (bs @ [b]) = 2 * bits_val bs + of_bool b"
  by (simp add: bits_val_def)

lemma length_to_bits [simp]: "length (to_bits k v) = k"
  by (induction k v rule: to_bits.induct) simp_all

lemma to_bits_val [simp]: "to_bits (length bs) (bits_val bs) = bs"
  by (induction bs rule: rev_induct) (auto simp: bits_val_snoc)

lemma bits_val_bound: "bits_val bs < 2 ^ length bs"
  by (induction bs rule: rev_induct) (auto simp: bits_val_snoc bits_val_def [of "[]"])

lemma bits_val_to_bits: "v < 2 ^ k \<Longrightarrow> bits_val (to_bits k v) = v"
proof (induction k v rule: to_bits.induct)
  case (2 k v)
  then have "v div 2 < 2 ^ k" by auto
  then show ?case using 2 by (auto simp: bits_val_snoc elim!: evenE oddE)
qed (simp add: bits_val_def)

section \<open>Base32\<close>

definition b32_char :: "nat \<Rightarrow> char" where
  "b32_char v = (if v < 26 then char_of (65 + v) else char_of (24 + v))"

definition b32_value :: "char \<Rightarrow> nat option" where
  "b32_value c = (let n = ord c in if ascii_upper c then Some (n - 65) else if 50 \<le> n \<and> n \<le> 55 then Some (n - 24) else None)"

definition byte_bits :: "8 word \<Rightarrow> bool list" where
  "byte_bits w = to_bits 8 (unat w)"

definition pad_to :: "nat \<Rightarrow> 'a \<Rightarrow> 'a list \<Rightarrow> 'a list" where
  "pad_to n x xs = xs @ replicate ((n - length xs mod n) mod n) x"

definition b32encode :: "bytes \<Rightarrow> string" where
  "b32encode raw = pad_to 8 (CHR ''='')
     (map (b32_char \<circ> bits_val) (split_every 5 (pad_to 5 False (concat (map byte_bits raw)))))"

definition rstrip_eq :: "string \<Rightarrow> string" where
  "rstrip_eq s = rev (dropWhile (\<lambda>c. c = CHR ''='') (rev s))"

text \<open>The whole bytes in a run of \<open>k\<close>-bit values.\<close>

definition values_bytes :: "nat \<Rightarrow> nat list \<Rightarrow> bytes" where
  "values_bytes k vs = map (of_nat \<circ> bits_val) (split_every 8 (take (k * length vs div 8 * 8) (concat (map (to_bits k) vs))))"

definition b32_bytes :: "nat list \<Rightarrow> bytes" where
  "b32_bytes = values_bytes 5"

definition b32decode :: "string \<Rightarrow> bytes result" where
  "b32decode s =
     (if \<not> list_all (\<lambda>c. ord c < 128) s then Inl (ValueErr ''string argument should contain only ASCII characters'')
      else if length s mod 8 \<noteq> 0 then Inl (ValueErr ''Incorrect padding'')
      else let t = rstrip_eq s in
        if \<not> list_all (\<lambda>c. b32_value c \<noteq> None) t then Inl (ValueErr ''Non-base32 digit found'')
        else if length s - length t \<notin> {0, 1, 3, 4, 6} then Inl (ValueErr ''Incorrect padding'')
        else Inr (b32_bytes (map (the \<circ> b32_value) t)))"

section \<open>The display form\<close>

definition KEY_BYTES :: nat where "KEY_BYTES = 32"

definition encode_recovery :: "bytes \<Rightarrow> string result" where
  "encode_recovery raw =
     (if length raw \<noteq> KEY_BYTES then Inl (Assertion ''recovery secret must be 32 bytes'')
      else let grouped = join ''-'' (split_every 4 (rstrip_eq (b32encode raw))) in
        if grouped = [] then Inl (Assertion ''recovery display must be non-empty'') else Inr grouped)"

text \<open>\<open>str.upper\<close>: the sharp s becomes two letters; the two letters whose capitals lie above 255 are kept.\<close>

definition py_upper_char :: "char \<Rightarrow> string" where
  "py_upper_char c = (let n = ord c in
     if ascii_lower c \<or> (224 \<le> n \<and> n \<le> 254 \<and> n \<noteq> 247) then [char_of (n - 32)]
     else if n = 223 then ''SS'' else [c])"

definition recovery_clean :: "string \<Rightarrow> string" where
  "recovery_clean d = concat (map py_upper_char (filter (\<lambda>c. c \<noteq> CHR '' '') (filter (\<lambda>c. c \<noteq> CHR ''-'') d)))"

definition decode_recovery :: "string \<Rightarrow> bytes result" where
  "decode_recovery d =
     (if d = [] then Inl (Assertion ''recovery key must be non-empty'')
      else let cleaned = recovery_clean d; padded = cleaned @ replicate ((8 - length cleaned mod 8) mod 8) (CHR ''='') in
        rbind (b32decode padded) (\<lambda>raw. if length raw \<noteq> KEY_BYTES then Inl (Assertion ''recovery key must decode to 32 bytes'')
          else Inr raw))"

section \<open>Round trip\<close>

lemma b32_value_char: "v < 32 \<Longrightarrow> b32_value (b32_char v) = Some v"
  by (auto simp: b32_value_def b32_char_def ascii_upper_def ord_def Let_def)

lemma b32_char_plain:
  assumes "v < 32"
  shows "ord (b32_char v) < 128" "b32_char v \<noteq> CHR ''=''" "b32_char v \<noteq> CHR ''-''" "b32_char v \<noteq> CHR '' ''"
    "py_upper_char (b32_char v) = [b32_char v]"
proof -
  have o: "ord (b32_char v) = (if v < 26 then 65 + v else 24 + v)" using assms by (auto simp: b32_char_def ord_def)
  show "ord (b32_char v) < 128" using o assms by auto
  have "ord (b32_char v) \<notin> {61, 45, 32}" using o assms by auto
  then show "b32_char v \<noteq> CHR ''=''" "b32_char v \<noteq> CHR ''-''" "b32_char v \<noteq> CHR '' ''" by (auto simp: ord_def)
  show "py_upper_char (b32_char v) = [b32_char v]" using o assms by (auto simp: py_upper_char_def ascii_lower_def Let_def)
qed

text \<open>The bits of some bytes in groups of \<open>k\<close>, as values.\<close>

definition bit_values :: "nat \<Rightarrow> bytes \<Rightarrow> nat list" where
  "bit_values k raw = map bits_val (split_every k (pad_to k False (concat (map byte_bits raw))))"

lemma length_byte_bits [simp]: "length (concat (map byte_bits raw)) = 8 * length raw"
  by (induction raw) (simp_all add: byte_bits_def)

lemma pad_dvd: "0 < n \<Longrightarrow> n dvd length (pad_to n x xs)"
proof -
  assume n: "0 < n"
  have "length (pad_to n x xs) mod n = (length xs mod n + (n - length xs mod n) mod n) mod n"
    by (simp add: pad_to_def mod_simps)
  also have "\<dots> = 0" using n by (simp add: mod_simps mod_le_divisor le_add_diff_inverse)
  finally show ?thesis by (simp add: dvd_eq_mod_eq_0)
qed

lemma bit_groups_length:
  "0 < k \<Longrightarrow> c \<in> set (split_every k (pad_to k False (concat (map byte_bits raw)))) \<Longrightarrow> length c = k"
  by (rule split_every_sizes [OF _ pad_dvd]) simp_all

lemma bit_values_small: "0 < k \<Longrightarrow> v \<in> set (bit_values k raw) \<Longrightarrow> v < 2 ^ k"
proof -
  assume k: "0 < k" and "v \<in> set (bit_values k raw)"
  then obtain c where c: "c \<in> set (split_every k (pad_to k False (concat (map byte_bits raw))))" "v = bits_val c"
    by (auto simp: bit_values_def)
  then show ?thesis using bits_val_bound [of c] bit_groups_length [OF k c(1)] by simp
qed

lemma bit_values_bits:
  assumes "0 < k"
  shows "concat (map (to_bits k) (bit_values k raw)) = pad_to k False (concat (map byte_bits raw))"
proof -
  let ?p = "pad_to k False (concat (map byte_bits raw))"
  have "to_bits k (bits_val c) = c" if "c \<in> set (split_every k ?p)" for c
    using bit_groups_length [OF assms that] to_bits_val [of c] by simp
  then have "map (to_bits k \<circ> bits_val) (split_every k ?p) = split_every k ?p" by (simp add: map_idI)
  then show ?thesis using assms by (simp add: bit_values_def concat_split_every)
qed

lemma length_bit_values: "0 < k \<Longrightarrow> k * length (bit_values k raw) = length (pad_to k False (concat (map byte_bits raw)))"
proof -
  assume k: "0 < k"
  have "length (concat (map (to_bits k) vs)) = k * length vs" for vs by (induction vs) simp_all
  then show ?thesis using bit_values_bits [OF k, of raw] by metis
qed

lemma values_bytes_values:
  assumes "0 < k" and "k * length (bit_values k raw) div 8 = length raw"
  shows "values_bytes k (bit_values k raw) = raw"
proof -
  have "take (length raw * 8) (pad_to k False (concat (map byte_bits raw))) = concat (map byte_bits raw)"
    by (simp add: pad_to_def)
  then have "values_bytes k (bit_values k raw) = map (of_nat \<circ> bits_val) (split_every 8 (concat (map byte_bits raw)))"
    unfolding values_bytes_def bit_values_bits [OF assms(1)] assms(2) by simp
  also have "split_every 8 (concat (map byte_bits raw)) = map byte_bits raw"
    by (rule split_every_concat) (auto simp: byte_bits_def)
  also have "map (of_nat \<circ> bits_val) (map byte_bits raw) = raw"
  proof -
    have "of_nat (bits_val (byte_bits w)) = w" for w :: "8 word"
    proof -
      have "(unsigned w :: nat) < 2 ^ LENGTH(8)" by (rule unsigned_less)
      then show ?thesis using bits_val_to_bits [of "unat w" 8] by (simp add: byte_bits_def)
    qed
    then show ?thesis by (simp add: map_idI)
  qed
  finally show ?thesis .
qed

text \<open>Five-bit groups.\<close>

abbreviation b32_values :: "bytes \<Rightarrow> nat list" where
  "b32_values \<equiv> bit_values 5"

lemmas b32_values_def = bit_values_def [of 5]

lemma b32_values_small: "v \<in> set (b32_values raw) \<Longrightarrow> v < 32"
  using bit_values_small [of 5 v raw] by simp

lemma b32_bytes_values: "5 * length (b32_values raw) div 8 = length raw \<Longrightarrow> b32_bytes (b32_values raw) = raw"
  unfolding b32_bytes_def by (rule values_bytes_values) simp_all

lemma rstrip_pad: "list_all (\<lambda>c. c \<noteq> CHR ''='') s \<Longrightarrow> rstrip_eq (s @ replicate k (CHR ''='')) = s"
proof -
  assume s: "list_all (\<lambda>c. c \<noteq> CHR ''='') s"
  have "dropWhile (\<lambda>c. c = CHR ''='') (replicate k (CHR ''='') @ rev s) = dropWhile (\<lambda>c. c = CHR ''='') (rev s)"
    by (induction k) simp_all
  also have "\<dots> = rev s" using s by (cases "rev s") (auto simp: list_all_iff dest!: arg_cong [of "rev s" _ set])
  finally show ?thesis by (simp add: rstrip_eq_def)
qed

lemma filter_join: "c \<notin> set (concat xs) \<Longrightarrow> filter (\<lambda>d. d \<noteq> c) (join [c] xs) = concat xs"
proof (induction "[c]" xs rule: join.induct)
  case (3 x y ys)
  then show ?case by (auto simp: filter_id_conv)
qed (auto simp: filter_id_conv)

text \<open>The symbols of an encoded key, and what cleaning and padding them gives.\<close>

definition key_symbols :: "bytes \<Rightarrow> string" where
  "key_symbols raw = map b32_char (b32_values raw)"

lemma key_symbols_plain: "c \<in> set (key_symbols raw) \<Longrightarrow>
  ord c < 128 \<and> c \<noteq> CHR ''='' \<and> c \<noteq> CHR ''-'' \<and> c \<noteq> CHR '' '' \<and> py_upper_char c = [c] \<and> b32_value c \<noteq> None"
  using b32_values_small b32_char_plain b32_value_char unfolding key_symbols_def by fastforce

lemma key_symbols_count: "length raw = KEY_BYTES \<Longrightarrow> length (key_symbols raw) = 52"
  using length_bit_values [of 5 raw] by (simp add: key_symbols_def pad_to_def KEY_BYTES_def)

lemma rstrip_b32encode: "rstrip_eq (b32encode raw) = key_symbols raw"
  using rstrip_pad [of "key_symbols raw"] key_symbols_plain [of _ raw]
  by (simp add: b32encode_def key_symbols_def b32_values_def pad_to_def list_all_iff)

lemma encode_recovery_eq:
  assumes "length raw = KEY_BYTES"
  shows "encode_recovery raw = Inr (join ''-'' (split_every 4 (key_symbols raw)))"
proof -
  have "split_every 4 (key_symbols raw) \<noteq> []" "take 4 (key_symbols raw) \<noteq> []"
    using key_symbols_count [OF assms] by (auto simp: split_every.simps [of 4 "key_symbols raw"])
  moreover have "join sep (x # xs) \<noteq> []" if "x \<noteq> []" for sep x and xs :: "string list"
    using that by (cases xs) auto
  ultimately show ?thesis
    using assms rstrip_b32encode [of raw]
    by (auto simp: encode_recovery_def Let_def split_every.simps [of 4 "key_symbols raw"])
qed

lemma clean_symbols: "recovery_clean (join ''-'' (split_every 4 (key_symbols raw))) = key_symbols raw"
proof -
  have "filter (\<lambda>c. c \<noteq> CHR ''-'') (join ''-'' (split_every 4 (key_symbols raw))) = key_symbols raw"
    using filter_join [of "CHR ''-''" "split_every 4 (key_symbols raw)"] key_symbols_plain [of _ raw]
    by (auto simp: concat_split_every)
  moreover have "filter (\<lambda>c. c \<noteq> CHR '' '') (key_symbols raw) = key_symbols raw"
    using key_symbols_plain by (auto simp: filter_id_conv)
  moreover have "concat (map py_upper_char s) = s" if "\<And>c. c \<in> set s \<Longrightarrow> py_upper_char c = [c]" for s
    using that by (induction s) simp_all
  ultimately show ?thesis using key_symbols_plain by (simp add: recovery_clean_def)
qed

lemma b32decode_symbols:
  assumes "length raw = KEY_BYTES"
  shows "b32decode (key_symbols raw @ replicate 4 (CHR ''='')) = Inr raw"
proof -
  have l: "length (key_symbols raw) = 52" by (rule key_symbols_count [OF assms])
  let ?p = "key_symbols raw @ replicate 4 (CHR ''='')"
  have r: "rstrip_eq ?p = key_symbols raw" using key_symbols_plain by (auto intro!: rstrip_pad simp: list_all_iff)
  have v: "map (the \<circ> b32_value) (key_symbols raw) = b32_values raw"
    using b32_values_small b32_value_char by (auto simp: key_symbols_def map_idI)
  have b: "b32_bytes (b32_values raw) = raw"
    by (rule b32_bytes_values) (use l assms in \<open>simp add: key_symbols_def KEY_BYTES_def\<close>)
  have "list_all (\<lambda>c. ord c < 128) ?p"
    using key_symbols_plain [of _ raw] by (auto simp: list_all_iff ord_def)
  moreover have "list_all (\<lambda>c. b32_value c \<noteq> None) (key_symbols raw)" using key_symbols_plain by (auto simp: list_all_iff)
  ultimately show ?thesis unfolding b32decode_def r v b Let_def using l by simp
qed

lemma decode_symbols:
  assumes "length raw = KEY_BYTES" and "recovery_clean d = key_symbols raw"
  shows "decode_recovery d = Inr raw"
proof -
  have l: "length (key_symbols raw) = 52" by (rule key_symbols_count [OF assms(1)])
  have d: "d \<noteq> []" using l assms(2) by (auto simp: recovery_clean_def)
  then show ?thesis using b32decode_symbols [OF assms(1)] assms l by (simp add: decode_recovery_def Let_def)
qed

text \<open>
  A Recovery Key that was shown can be typed back: its display form decodes to the 32 bytes it was made
  from, and so does every text that differs from it only in dashes, blanks and letter case.
\<close>

theorem recovery_key_roundtrip:
  assumes "length raw = KEY_BYTES"
  shows "\<exists>shown. encode_recovery raw = Inr shown \<and> decode_recovery shown = Inr raw \<and>
    (\<forall>d. recovery_clean d = recovery_clean shown \<longrightarrow> decode_recovery d = Inr raw)"
  using encode_recovery_eq [OF assms] decode_symbols [OF assms] clean_symbols [of raw] by auto

theorem recovery_key_roundtrip_witness:
  "\<exists>shown. encode_recovery (replicate 32 1) = Inr shown \<and> decode_recovery shown = Inr (replicate 32 1)"
  using recovery_key_roundtrip [of "replicate 32 1"] by (auto simp: KEY_BYTES_def)

end
