(* ===== verification/Keyvault.thy ===== *)
theory Keyvault
  imports Recovery_Key
begin

text \<open>
  The key vault (\<open>app/smartbrain_3000/keyvault.py\<close>): the master key, wrapped under a passphrase through Argon2id
  and under the Recovery Key directly, in one table with a row per method. Argon2id is a parameter; random
  bytes are arguments.
\<close>

section \<open>The table of wraps\<close>

definition SALT_BYTES :: nat where "SALT_BYTES = 16"
definition TIME_COST :: int where "TIME_COST = 3"
definition MEMORY_COST :: int where "MEMORY_COST = 64 * 1024"
definition PARALLELISM :: int where "PARALLELISM = 4"
definition MAX_TIME_COST :: int where "MAX_TIME_COST = 16"
definition MAX_MEMORY_COST :: int where "MAX_MEMORY_COST = 1024 * 1024"
definition MAX_PARALLELISM :: int where "MAX_PARALLELISM = 16"

record 'c wrap_row =
  kw_method :: string
  kw_kdf :: string
  kw_salt :: "bytes option"
  kw_time :: "int option"
  kw_memory :: "int option"
  kw_par :: "int option"
  kw_nonce :: bytes
  kw_wrapped :: 'c

record 'c kv_env =
  kv_aead :: "'c aead"
  kv_argon :: "string \<Rightarrow> bytes \<Rightarrow> int \<Rightarrow> int \<Rightarrow> int \<Rightarrow> bytes"

definition wrap_aad :: "string \<Rightarrow> string" where
  "wrap_aad m = ''smartbrain_3000:master_key:'' @ m"

definition derive :: "'c kv_env \<Rightarrow> string \<Rightarrow> bytes \<Rightarrow> int \<Rightarrow> int \<Rightarrow> int \<Rightarrow> bytes result" where
  "derive E pass salt time_cost memory_cost parallelism =
     (if pass = [] then Inl (Assertion ''passphrase must be non-empty'')
      else if length salt \<noteq> SALT_BYTES then Inl (ValueErr ''invalid key wrap: salt length'')
      else if \<not> (1 \<le> time_cost \<and> time_cost \<le> MAX_TIME_COST) then Inl (ValueErr ''invalid key wrap: time_cost out of range'')
      else if \<not> (8 \<le> memory_cost \<and> memory_cost \<le> MAX_MEMORY_COST) then Inl (ValueErr ''invalid key wrap: memory_cost out of range'')
      else if \<not> (1 \<le> parallelism \<and> parallelism \<le> MAX_PARALLELISM) then Inl (ValueErr ''invalid key wrap: parallelism out of range'')
      else let key = kv_argon E pass salt time_cost memory_cost parallelism in
        if length key \<noteq> KEY_BYTES then Inl (Assertion ''derived key must be 32 bytes'') else Inr key)"

definition has_wrap :: "string \<Rightarrow> 'c wrap_row list \<Rightarrow> bool" where
  "has_wrap m rows = (row_find kw_method m rows \<noteq> None)"

definition is_initialized :: "'c wrap_row list \<Rightarrow> bool" where
  "is_initialized rows = has_wrap ''passphrase'' rows"

definition has_recovery :: "'c wrap_row list \<Rightarrow> bool" where
  "has_recovery rows = has_wrap ''recovery'' rows"

definition wrap_key :: "'c kv_env \<Rightarrow> bytes \<Rightarrow> bytes \<Rightarrow> bytes \<Rightarrow> string \<Rightarrow> 'c" where
  "wrap_key E wrapping nonce master m = aes_encrypt (kv_aead E) wrapping nonce (PRaw master) (wrap_aad m)"

text \<open>The master key of a wrap; a plaintext that is not 32 bytes of key fails the closing assert.\<close>

definition unwrap_key :: "'c kv_env \<Rightarrow> bytes \<Rightarrow> bytes \<Rightarrow> 'c \<Rightarrow> string \<Rightarrow> bytes result" where
  "unwrap_key E wrapping nonce wrapped m = (case aes_decrypt (kv_aead E) wrapping nonce wrapped (wrap_aad m) of
       None \<Rightarrow> Inl InvalidTag
     | Some (PRaw key) \<Rightarrow> if length key \<noteq> KEY_BYTES then Inl (Assertion ''unlocked key must be 32 bytes'') else Inr key
     | Some _ \<Rightarrow> Inl (Assertion ''unlocked key must be 32 bytes''))"

section \<open>Operations\<close>

definition set_passphrase :: "'c kv_env \<Rightarrow> bytes \<Rightarrow> bytes \<Rightarrow> bytes \<Rightarrow> string \<Rightarrow> 'c wrap_row list \<Rightarrow> (bytes \<times> 'c wrap_row list) result" where
  "set_passphrase E master salt nonce pass rows =
     (if pass = [] then Inl (Assertion ''passphrase must be non-empty'')
      else if is_initialized rows then Inl (Assertion ''keyvault already initialized'')
      else if length master \<noteq> KEY_BYTES then Inl (Assertion ''master key must be 32 bytes'')
      else rbind (derive E pass salt TIME_COST MEMORY_COST PARALLELISM) (\<lambda>wrapping.
        Inr (master, rows @ [\<lparr>kw_method = ''passphrase'', kw_kdf = ''argon2id'', kw_salt = Some salt, kw_time = Some TIME_COST,
          kw_memory = Some MEMORY_COST, kw_par = Some PARALLELISM, kw_nonce = nonce,
          kw_wrapped = wrap_key E wrapping nonce master ''passphrase''\<rparr>])))"

definition unlock :: "'c kv_env \<Rightarrow> string \<Rightarrow> 'c wrap_row list \<Rightarrow> bytes result" where
  "unlock E pass rows =
     (if pass = [] then Inl (Assertion ''passphrase must be non-empty'')
      else if \<not> is_initialized rows then Inl (Assertion ''keyvault is not initialized'')
      else case row_find kw_method ''passphrase'' rows of
          None \<Rightarrow> Inl (Assertion ''passphrase wrap malformed'')
        | Some r \<Rightarrow> (case (kw_salt r, kw_time r, kw_memory r, kw_par r) of
            (Some salt, Some t, Some m, Some p) \<Rightarrow>
              rbind (derive E pass salt t m p) (\<lambda>wrapping. unwrap_key E wrapping (kw_nonce r) (kw_wrapped r) ''passphrase'')
          | _ \<Rightarrow> Inl (OtherErr ''TypeError'')))"

definition reset_passphrase :: "'c kv_env \<Rightarrow> bytes \<Rightarrow> bytes \<Rightarrow> bytes \<Rightarrow> string \<Rightarrow> 'c wrap_row list \<Rightarrow> 'c wrap_row list result" where
  "reset_passphrase E master salt nonce new rows =
     (if new = [] then Inl (Assertion ''new passphrase required'')
      else if length master \<noteq> KEY_BYTES then Inl (Assertion ''master key must be 32 bytes'')
      else if \<not> is_initialized rows then Inl (Assertion ''keyvault is not initialized'')
      else rbind (derive E new salt TIME_COST MEMORY_COST PARALLELISM) (\<lambda>wrapping.
        let rows' = row_update kw_method ''passphrase'' (\<lambda>r. r\<lparr>kw_kdf := ''argon2id'', kw_salt := Some salt, kw_time := Some TIME_COST,
              kw_memory := Some MEMORY_COST, kw_par := Some PARALLELISM, kw_nonce := nonce,
              kw_wrapped := wrap_key E wrapping nonce master ''passphrase''\<rparr>) rows
        in if is_initialized rows' then Inr rows' else Inl (Assertion ''passphrase wrap must remain after re-wrap'')))"

definition gen_recovery_key :: "bytes \<Rightarrow> (string \<times> bytes) result" where
  "gen_recovery_key raw = rbind (encode_recovery raw) (\<lambda>display.
     if length raw \<noteq> KEY_BYTES then Inl (Assertion ''recovery secret must be 32 bytes'')
     else rbind (decode_recovery display) (\<lambda>back.
       if back = raw then Inr (display, raw) else Inl (Assertion ''encode/decode must round-trip'')))"

definition add_recovery_key :: "'c kv_env \<Rightarrow> bytes \<Rightarrow> bytes \<Rightarrow> bytes \<Rightarrow> 'c wrap_row list \<Rightarrow> (string \<times> 'c wrap_row list) result" where
  "add_recovery_key E master fresh nonce rows =
     (if \<not> is_initialized rows then Inl (Assertion ''set a passphrase before adding a recovery key'')
      else if length master \<noteq> KEY_BYTES then Inl (Assertion ''master key must be 32 bytes'')
      else rbind (gen_recovery_key fresh) (\<lambda>(display, raw).
        let wrapped = wrap_key E raw nonce master ''recovery'' in
        Inr (display, case row_find kw_method ''recovery'' rows of
            None \<Rightarrow> rows @ [\<lparr>kw_method = ''recovery'', kw_kdf = ''direct'', kw_salt = None, kw_time = None, kw_memory = None,
              kw_par = None, kw_nonce = nonce, kw_wrapped = wrapped\<rparr>]
          | Some _ \<Rightarrow> row_update kw_method ''recovery'' (\<lambda>r. r\<lparr>kw_kdf := ''direct'', kw_nonce := nonce, kw_wrapped := wrapped\<rparr>) rows)))"

definition unlock_with_recovery :: "'c kv_env \<Rightarrow> string \<Rightarrow> 'c wrap_row list \<Rightarrow> bytes result" where
  "unlock_with_recovery E display rows =
     (if display = [] then Inl (Assertion ''recovery key must be non-empty'')
      else case row_find kw_method ''recovery'' rows of
          None \<Rightarrow> Inl (Assertion ''no recovery key configured'')
        | Some r \<Rightarrow> rbind (decode_recovery display) (\<lambda>raw. unwrap_key E raw (kw_nonce r) (kw_wrapped r) ''recovery''))"

section \<open>The Emergency Kit\<close>

text \<open>The text printed for the user; a long dash is written \<open>--\<close>.\<close>

definition kit_lines :: "string \<Rightarrow> string \<Rightarrow> string \<Rightarrow> string list" where
  "kit_lines key product licensor =
     [product @ '' -- Emergency Kit'', '''',
      ''Keep this in a safe, OFFLINE place (print it, or store it in a password'',
      ''manager). Anyone with this Recovery Key can unlock your data; and'',
      ''without it, a forgotten passphrase CANNOT be recovered -- there is no'',
      ''server and no reset.'', '''',
      ''Recovery Key:'', ''    '' @ key, '''',
      ''To recover: open the app, choose '' @ [char_of (34 :: nat)] @ ''Unlock with Recovery Key'' @ [char_of (34 :: nat)] @ '', and enter'',
      ''the key exactly as shown (dashes and letter case do not matter).'', '''',
      ''(c) 2026 '' @ licensor]"

definition emergency_kit_text :: "string \<Rightarrow> string \<Rightarrow> string \<Rightarrow> string result" where
  "emergency_kit_text key product licensor =
     (if key = [] then Inl (Assertion ''recovery key required'')
      else if product = [] then Inl (Assertion ''product name required'')
      else Inr (join [char_of (10 :: nat)] (kit_lines key product licensor)))"

section \<open>Either method opens the same key\<close>

text \<open>
  What is relied on of Argon2id: 32 bytes, and no collision, under one salt, among the passphrases that are ever
  set or tried (a finite set, since there are only so many keys).
\<close>

definition argon_ok :: "'c kv_env \<Rightarrow> bool" where
  "argon_ok E \<longleftrightarrow> (\<forall>p s t m l. length (kv_argon E p s t m l) = 32)"

definition argon_distinct :: "'c kv_env \<Rightarrow> string set \<Rightarrow> bool" where
  "argon_distinct E P \<longleftrightarrow> (\<forall>p \<in> P. \<forall>q \<in> P. \<forall>s t m l. kv_argon E p s t m l = kv_argon E q s t m l \<longrightarrow> p = q)"

definition pass_row :: "'c kv_env \<Rightarrow> bytes \<Rightarrow> string \<Rightarrow> 'c wrap_row \<Rightarrow> bool" where
  "pass_row E mk pass r \<longleftrightarrow> (\<exists>salt. length salt = SALT_BYTES \<and> kw_salt r = Some salt \<and> kw_time r = Some TIME_COST \<and>
     kw_memory r = Some MEMORY_COST \<and> kw_par r = Some PARALLELISM \<and>
     kw_wrapped r = wrap_key E (kv_argon E pass salt TIME_COST MEMORY_COST PARALLELISM) (kw_nonce r) mk ''passphrase'')"

definition rec_row :: "'c kv_env \<Rightarrow> bytes \<Rightarrow> bytes \<Rightarrow> 'c wrap_row \<Rightarrow> bool" where
  "rec_row E mk raw r \<longleftrightarrow> length raw = KEY_BYTES \<and> kw_wrapped r = wrap_key E raw (kw_nonce r) mk ''recovery''"

text \<open>The table as the pair of secrets that open it.\<close>

definition kv_rel :: "'c kv_env \<Rightarrow> bytes \<Rightarrow> string \<Rightarrow> bytes option \<Rightarrow> 'c wrap_row list \<Rightarrow> bool" where
  "kv_rel E mk pass rec rows \<longleftrightarrow> length mk = KEY_BYTES \<and> pass \<noteq> [] \<and>
     (\<exists>r. row_find kw_method ''passphrase'' rows = Some r \<and> pass_row E mk pass r) \<and>
     (case rec of None \<Rightarrow> row_find kw_method ''recovery'' rows = None
      | Some raw \<Rightarrow> \<exists>r. row_find kw_method ''recovery'' rows = Some r \<and> rec_row E mk raw r)"

lemma derive_standard:
  "argon_ok E \<Longrightarrow> pass \<noteq> [] \<Longrightarrow> length salt = SALT_BYTES \<Longrightarrow>
   derive E pass salt TIME_COST MEMORY_COST PARALLELISM = Inr (kv_argon E pass salt TIME_COST MEMORY_COST PARALLELISM)"
  by (simp add: derive_def argon_ok_def TIME_COST_def MEMORY_COST_def PARALLELISM_def MAX_TIME_COST_def
      MAX_MEMORY_COST_def MAX_PARALLELISM_def KEY_BYTES_def Let_def)

lemma unwrap_wrap:
  assumes "aead_roundtrip (kv_aead E)" and "aead_authentic (kv_aead E)" and "length mk = KEY_BYTES"
  shows "unwrap_key E k' n (wrap_key E k n mk m) m = (if k' = k then Inr mk else Inl InvalidTag)"
proof (cases "k' = k")
  case False
  then have "aes_decrypt (kv_aead E) k' n (wrap_key E k n mk m) (wrap_aad m) = None"
    using assms(2) unfolding aead_authentic_def wrap_key_def by (metis prod.inject)
  then show ?thesis using False by (simp add: unwrap_key_def)
qed (use assms in \<open>simp add: unwrap_key_def wrap_key_def aead_roundtrip_def\<close>)

lemma unlock_rel:
  assumes "aead_roundtrip (kv_aead E)" and "aead_authentic (kv_aead E)" and "argon_ok E" and "kv_rel E mk pass rec rows" and "p \<noteq> []"
    and "argon_distinct E P" and "p \<in> P" and "pass \<in> P"
  shows "unlock E p rows = (if p = pass then Inr mk else Inl InvalidTag)"
proof -
  obtain r salt where r: "row_find kw_method ''passphrase'' rows = Some r" "length salt = SALT_BYTES" "kw_salt r = Some salt"
    "kw_time r = Some TIME_COST" "kw_memory r = Some MEMORY_COST" "kw_par r = Some PARALLELISM"
    "kw_wrapped r = wrap_key E (kv_argon E pass salt TIME_COST MEMORY_COST PARALLELISM) (kw_nonce r) mk ''passphrase''"
    using assms(4) by (auto simp: kv_rel_def pass_row_def)
  have "length mk = KEY_BYTES" using assms(4) by (simp add: kv_rel_def)
  note u = unwrap_wrap [OF assms(1,2) this]
  have "kv_argon E p salt TIME_COST MEMORY_COST PARALLELISM = kv_argon E pass salt TIME_COST MEMORY_COST PARALLELISM \<longleftrightarrow> p = pass"
    using assms(6-8) unfolding argon_distinct_def by blast
  then show ?thesis
    using r assms(5) derive_standard [OF assms(3,5) r(2)] u by (simp add: unlock_def is_initialized_def has_wrap_def)
qed

lemma recovery_rel:
  assumes "aead_roundtrip (kv_aead E)" and "aead_authentic (kv_aead E)" and "kv_rel E mk pass (Some raw) rows"
    and "decode_recovery d = Inr raw'"
  shows "unlock_with_recovery E d rows = (if raw' = raw then Inr mk else Inl InvalidTag)"
proof -
  obtain r where r: "row_find kw_method ''recovery'' rows = Some r" "kw_wrapped r = wrap_key E raw (kw_nonce r) mk ''recovery''"
    using assms(3) by (auto simp: kv_rel_def rec_row_def)
  have "length mk = KEY_BYTES" using assms(3) by (simp add: kv_rel_def)
  note u = unwrap_wrap [OF assms(1,2) this]
  have "d \<noteq> []" using assms(4) by (auto simp: decode_recovery_def)
  then show ?thesis using r assms(4) u by (simp add: unlock_with_recovery_def)
qed

lemma gen_recovery_key_eq: "length raw = KEY_BYTES \<Longrightarrow> \<exists>shown. gen_recovery_key raw = Inr (shown, raw) \<and> decode_recovery shown = Inr raw"
  using encode_recovery_eq [of raw] decode_symbols [OF _ clean_symbols, of raw] by (simp add: gen_recovery_key_def)

lemma set_passphrase_rel:
  assumes "argon_ok E" and "pass \<noteq> []" and "length master = KEY_BYTES" and "length salt = SALT_BYTES"
  shows "\<exists>rows. set_passphrase E master salt nonce pass [] = Inr (master, rows) \<and> kv_rel E master pass None rows"
  using derive_standard [OF assms(1,2,4)] assms
  by (auto simp: set_passphrase_def is_initialized_def has_wrap_def kv_rel_def row_find_Cons pass_row_def)

lemma reset_passphrase_rel:
  assumes "argon_ok E" and "kv_rel E mk pass rec rows" and "new \<noteq> []" and "length salt = SALT_BYTES"
  shows "\<exists>rows'. reset_passphrase E mk salt nonce new rows = Inr rows' \<and> kv_rel E mk new rec rows'"
proof -
  let ?w = "wrap_key E (kv_argon E new salt TIME_COST MEMORY_COST PARALLELISM) nonce mk ''passphrase''"
  let ?f = "\<lambda>r. r\<lparr>kw_kdf := ''argon2id'', kw_salt := Some salt, kw_time := Some TIME_COST, kw_memory := Some MEMORY_COST,
      kw_par := Some PARALLELISM, kw_nonce := nonce, kw_wrapped := ?w\<rparr>"
  obtain r where r: "row_find kw_method ''passphrase'' rows = Some r" "length mk = KEY_BYTES" using assms(2) by (auto simp: kv_rel_def)
  have f: "row_find kw_method m (row_update kw_method ''passphrase'' ?f rows) =
      (if m = ''passphrase'' then Some (?f r) else row_find kw_method m rows)" for m
    using r(1) by (simp add: row_find_update)
  have "pass_row E mk new (?f r)" using assms(4) by (auto simp: pass_row_def)
  then have "kv_rel E mk new rec (row_update kw_method ''passphrase'' ?f rows)"
    using assms(2,3) unfolding kv_rel_def f by auto
  moreover have "reset_passphrase E mk salt nonce new rows = Inr (row_update kw_method ''passphrase'' ?f rows)"
    using derive_standard [OF assms(1,3,4)] r assms(3)
    by (simp add: reset_passphrase_def is_initialized_def has_wrap_def Let_def row_find_update)
  ultimately show ?thesis by blast
qed

lemma add_recovery_rel:
  assumes "kv_rel E mk pass rec rows" and "length fresh = KEY_BYTES"
  shows "\<exists>shown rows'. add_recovery_key E mk fresh nonce rows = Inr (shown, rows') \<and> kv_rel E mk pass (Some fresh) rows' \<and>
    decode_recovery shown = Inr fresh"
proof -
  let ?w = "wrap_key E fresh nonce mk ''recovery''"
  obtain shown where g: "gen_recovery_key fresh = Inr (shown, fresh)" "decode_recovery shown = Inr fresh"
    using gen_recovery_key_eq [OF assms(2)] by blast
  have i: "is_initialized rows" "length mk = KEY_BYTES" using assms(1) by (auto simp: kv_rel_def is_initialized_def has_wrap_def)
  show ?thesis
  proof (cases "row_find kw_method ''recovery'' rows")
    case None
    let ?r = "\<lparr>kw_method = ''recovery'', kw_kdf = ''direct'', kw_salt = None, kw_time = None, kw_memory = None,
              kw_par = None, kw_nonce = nonce, kw_wrapped = ?w\<rparr>"
    have "kv_rel E mk pass (Some fresh) (rows @ [?r])"
      using assms None by (auto simp: kv_rel_def row_find_append row_find_Cons rec_row_def)
    then show ?thesis using g i None by (simp add: add_recovery_key_def Let_def)
  next
    case (Some r)
    let ?f = "\<lambda>r. r\<lparr>kw_kdf := ''direct'', kw_nonce := nonce, kw_wrapped := ?w\<rparr>"
    have f: "row_find kw_method m (row_update kw_method ''recovery'' ?f rows) =
        (if m = ''recovery'' then Some (?f r) else row_find kw_method m rows)" for m
      using Some by (simp add: row_find_update)
    have "kv_rel E mk pass (Some fresh) (row_update kw_method ''recovery'' ?f rows)"
      using assms unfolding kv_rel_def f by (auto simp: rec_row_def)
    then show ?thesis using g i Some by (simp add: add_recovery_key_def Let_def)
  qed
qed

section \<open>Any life of the vault\<close>

text \<open>After set-up: new passphrases and new Recovery Keys, in any order.\<close>

datatype kv_event =
    NewPass string bytes bytes
  | NewRecovery bytes bytes

definition kv_event_ok :: "string set \<Rightarrow> kv_event \<Rightarrow> bool" where
  "kv_event_ok P e = (case e of NewPass p salt _ \<Rightarrow> p \<in> P \<and> p \<noteq> [] \<and> length salt = SALT_BYTES | NewRecovery raw _ \<Rightarrow> length raw = KEY_BYTES)"

definition kv_step :: "'c kv_env \<Rightarrow> bytes \<Rightarrow> kv_event \<Rightarrow> 'c wrap_row list \<Rightarrow> 'c wrap_row list" where
  "kv_step E mk e rows = (case e of
       NewPass p salt nonce \<Rightarrow> (case reset_passphrase E mk salt nonce p rows of Inr rows' \<Rightarrow> rows' | Inl _ \<Rightarrow> rows)
     | NewRecovery raw nonce \<Rightarrow> (case add_recovery_key E mk raw nonce rows of Inr (_, rows') \<Rightarrow> rows' | Inl _ \<Rightarrow> rows))"

definition kv_spec :: "kv_event \<Rightarrow> string \<times> bytes option \<Rightarrow> string \<times> bytes option" where
  "kv_spec e s = (case e of NewPass p _ _ \<Rightarrow> (p, snd s) | NewRecovery raw _ \<Rightarrow> (fst s, Some raw))"

lemma kv_step_rel:
  assumes "argon_ok E" and "kv_rel E mk (fst s) (snd s) rows" and "kv_event_ok P e"
  shows "kv_rel E mk (fst (kv_spec e s)) (snd (kv_spec e s)) (kv_step E mk e rows)"
proof (cases e)
  case (NewPass p salt nonce)
  then obtain rows' where "reset_passphrase E mk salt nonce p rows = Inr rows'" "kv_rel E mk p (snd s) rows'"
    using reset_passphrase_rel [OF assms(1,2), of p salt nonce] assms(3) by (auto simp: kv_event_ok_def)
  then show ?thesis by (simp add: NewPass kv_step_def kv_spec_def)
next
  case (NewRecovery raw nonce)
  then obtain shown rows' where "add_recovery_key E mk raw nonce rows = Inr (shown, rows')" "kv_rel E mk (fst s) (Some raw) rows'"
    using add_recovery_rel [OF assms(2), of raw nonce] assms(3) by (auto simp: kv_event_ok_def)
  then show ?thesis by (simp add: NewRecovery kv_step_def kv_spec_def)
qed

lemma kv_run_rel: "argon_ok E \<Longrightarrow> kv_rel E mk (fst s) (snd s) rows \<Longrightarrow> list_all (kv_event_ok P) es \<Longrightarrow>
  kv_rel E mk (fst (fold kv_spec es s)) (snd (fold kv_spec es s)) (fold (kv_step E mk) es rows)"
proof (induction es arbitrary: s rows)
  case (Cons e es)
  then have "kv_rel E mk (fst (kv_spec e s)) (snd (kv_spec e s)) (kv_step E mk e rows)"
    by (intro kv_step_rel [where P = P]) simp_all
  then show ?case using Cons by simp
qed simp

lemma kv_spec_pass: "fst s \<in> P \<Longrightarrow> list_all (kv_event_ok P) es \<Longrightarrow> fst (fold kv_spec es s) \<in> P"
proof (induction es arbitrary: s)
  case (Cons e es)
  then have "fst (kv_spec e s) \<in> P" by (auto simp: kv_spec_def kv_event_ok_def split: kv_event.splits)
  then show ?case using Cons by simp
qed simp

text \<open>
  C19: After set-up and any sequence of passphrase changes and new Recovery Keys, the master key is the one drawn
  at set-up and two secrets open it: the passphrase set last and the Recovery Key shown last. Any other
  passphrase and any other Recovery Key, the earlier ones included, is refused.
\<close>

theorem vault_opens_for_current_secrets:
  assumes "aead_roundtrip (kv_aead E)" and "aead_authentic (kv_aead E)" and "argon_ok E" and "argon_distinct E P"
    and "pass \<in> P" and "pass \<noteq> []" and "length mk = KEY_BYTES" and "length salt = SALT_BYTES"
    and "set_passphrase E mk salt nonce pass [] = Inr (mk', rows)" and "list_all (kv_event_ok P) es"
    and "p \<in> P" and "p \<noteq> []" and "decode_recovery d = Inr raw"
  shows "mk' = mk \<and>
    unlock E p (fold (kv_step E mk) es rows) = (if p = fst (fold kv_spec es (pass, None)) then Inr mk else Inl InvalidTag) \<and>
    unlock_with_recovery E d (fold (kv_step E mk) es rows) =
      (case snd (fold kv_spec es (pass, None)) of None \<Rightarrow> Inl (Assertion ''no recovery key configured'')
       | Some raw' \<Rightarrow> if raw = raw' then Inr mk else Inl InvalidTag)"
proof (intro conjI)
  let ?rows = "fold (kv_step E mk) es rows" and ?s = "fold kv_spec es (pass, None)"
  have s: "mk' = mk" "kv_rel E mk pass None rows"
    using set_passphrase_rel [OF assms(3,6-8), of nonce] assms(9) by auto
  show "mk' = mk" by (rule s(1))
  have r: "kv_rel E mk (fst ?s) (snd ?s) ?rows"
    using kv_run_rel [OF assms(3) _ assms(10), of mk "(pass, None)" rows] s(2) by simp
  have "fst ?s \<in> P" using kv_spec_pass [OF _ assms(10), of "(pass, None)"] assms(5) by simp
  then show "unlock E p ?rows = (if p = fst ?s then Inr mk else Inl InvalidTag)"
    by (rule unlock_rel [OF assms(1-3) r assms(12,4,11)])
  have d: "d \<noteq> []" using assms(13) by (auto simp: decode_recovery_def)
  show "unlock_with_recovery E d ?rows = (case snd ?s of None \<Rightarrow> Inl (Assertion ''no recovery key configured'')
       | Some raw' \<Rightarrow> if raw = raw' then Inr mk else Inl InvalidTag)"
  proof (cases "snd ?s")
    case None
    then show ?thesis using r d by (simp add: kv_rel_def unlock_with_recovery_def)
  next
    case (Some raw')
    then show ?thesis using recovery_rel [OF assms(1,2) _ assms(13), of mk "fst ?s" raw' ?rows] r by simp
  qed
qed

definition demo_kv :: "(bytes \<times> bytes \<times> string \<times> plain) kv_env" where
  "demo_kv = \<lparr>kv_aead = tagged_aead, kv_argon = (\<lambda>p s t m l. replicate 32 (of_nat (length p)))\<rparr>"

lemma demo_kv_ok: "aead_roundtrip (kv_aead demo_kv)" "aead_authentic (kv_aead demo_kv)" "argon_ok demo_kv"
  "argon_distinct demo_kv {''old'', ''newer''}" "length (replicate 32 (9 :: 8 word)) = KEY_BYTES"
  "length (replicate 16 (0 :: 8 word)) = SALT_BYTES"
  by (simp_all add: demo_kv_def tagged_aead_roundtrip tagged_aead_authentic argon_ok_def argon_distinct_def KEY_BYTES_def SALT_BYTES_def)

definition demo_vault :: "(bytes \<times> bytes \<times> string \<times> plain) wrap_row list" where
  "demo_vault = (case set_passphrase demo_kv (replicate 32 9) (replicate 16 0) [5] ''old'' [] of Inr (_, rows) \<Rightarrow> rows | Inl _ \<Rightarrow> [])"

lemma demo_vault_eq: "set_passphrase demo_kv (replicate 32 9) (replicate 16 0) [5] ''old'' [] = Inr (replicate 32 9, demo_vault)"
  using set_passphrase_rel [OF demo_kv_ok(3) _ demo_kv_ok(5,6), of "''old''" "[5]"] by (auto simp: demo_vault_def)

definition demo_kv_events :: "kv_event list" where
  "demo_kv_events = [NewRecovery (replicate 32 1) [6], NewPass ''newer'' (replicate 16 3) [7]]"

lemma demo_shown: "\<exists>shown. decode_recovery shown = Inr (replicate 32 (1 :: 8 word))"
  using gen_recovery_key_eq [of "replicate 32 1"] by (auto simp: KEY_BYTES_def)

theorem vault_opens_for_current_secrets_witness:
  "unlock demo_kv ''newer'' (fold (kv_step demo_kv (replicate 32 9)) demo_kv_events demo_vault) = Inr (replicate 32 9) \<and>
   unlock demo_kv ''old'' (fold (kv_step demo_kv (replicate 32 9)) demo_kv_events demo_vault) = Inl InvalidTag"
proof -
  have e: "list_all (kv_event_ok {''old'', ''newer''}) demo_kv_events"
    by (simp add: demo_kv_events_def kv_event_ok_def SALT_BYTES_def KEY_BYTES_def)
  have s: "fst (fold kv_spec demo_kv_events (''old'', None)) = ''newer''" by (simp add: demo_kv_events_def kv_spec_def)
  obtain shown where d: "decode_recovery shown = Inr (replicate 32 (1 :: 8 word))" using demo_shown by blast
  note opens = vault_opens_for_current_secrets [OF demo_kv_ok(1-4) _ _ demo_kv_ok(5,6) demo_vault_eq e _ _ d, unfolded s, THEN conjunct2, THEN conjunct1]
  show ?thesis using opens [of "''newer''"] opens [of "''old''"] by simp
qed

end
