(* ===== verification/Url.thy ===== *)
theory Url
  imports Prelude
begin

text \<open>
  The parts of \<open>urllib.parse\<close> that \<open>app/smartbrain_3000/main.py\<close> and \<open>netguard.py\<close> use: splitting a URL, its host, port and
  user, joining a reference to a base, putting it back together, dropping the fragment. Of the check of a bracketed
  host only its verdict matters; it is the argument \<open>bracket_ok\<close>. For Latin-1 text the library's Unicode check of the
  authority never objects.
\<close>

section \<open>Splitting\<close>

definition scheme_char :: "char \<Rightarrow> bool" where
  "scheme_char c = (ascii_lower c \<or> ascii_upper c \<or> ascii_digit c \<or> c \<in> {CHR ''+'', CHR ''-'', CHR ''.''})"

definition has_scheme :: "string \<Rightarrow> bool" where
  "has_scheme s =
     (let p = before (CHR '':'') s in
      CHR '':'' \<in> set s \<and> p \<noteq> [] \<and> (ascii_lower (hd p) \<or> ascii_upper (hd p)) \<and> list_all scheme_char p)"

text \<open>Blanks and controls before a URL are dropped, and tabs and line ends anywhere in it.\<close>

definition url_clean :: "string \<Rightarrow> string" where
  "url_clean url = filter (\<lambda>c. ord c \<notin> {9, 10, 13}) (dropWhile (\<lambda>c. ord c \<le> 32) url)"

definition drop_scheme :: "string \<Rightarrow> string" where
  "drop_scheme s = (if has_scheme s then after (CHR '':'') s else s)"

definition netloc_end :: "char \<Rightarrow> bool" where
  "netloc_end c = (c \<in> {CHR ''/'', CHR ''?'', CHR ''#''})"

definition check_brackets :: "(string \<Rightarrow> bool) \<Rightarrow> string \<Rightarrow> string result" where
  "check_brackets bracket_ok n =
     (if (CHR ''['' \<in> set n) \<noteq> (CHR '']'' \<in> set n) then Inl (ValueErr ''Invalid IPv6 URL'')
      else if CHR ''['' \<in> set n \<and> \<not> bracket_ok n then Inl (ValueErr ''Invalid IPv6 URL'')
      else Inr n)"

text \<open>What follows the scheme as authority and rest.\<close>

definition split_netloc :: "string \<Rightarrow> string \<times> string" where
  "split_netloc s =
     (if startswith s ''//'' then (takeWhile (\<lambda>c. \<not> netloc_end c) (drop 2 s), dropWhile (\<lambda>c. \<not> netloc_end c) (drop 2 s))
      else ([], s))"

definition url_netloc :: "(string \<Rightarrow> bool) \<Rightarrow> string \<Rightarrow> string result" where
  "url_netloc bracket_ok url = check_brackets bracket_ok (fst (split_netloc (drop_scheme (url_clean url))))"

record url_parts =
  up_scheme :: string
  up_netloc :: string
  up_path :: string
  up_params :: string
  up_query :: string
  up_fragment :: string

definition USES_RELATIVE :: "string list" where
  "USES_RELATIVE = ['''', ''ftp'', ''http'', ''gopher'', ''nntp'', ''imap'', ''wais'', ''file'', ''https'', ''shttp'', ''mms'',
     ''prospero'', ''rtsp'', ''rtsps'', ''rtspu'', ''sftp'', ''svn'', ''svn+ssh'', ''ws'', ''wss'']"

definition USES_NETLOC :: "string list" where
  "USES_NETLOC = ['''', ''ftp'', ''http'', ''gopher'', ''nntp'', ''telnet'', ''imap'', ''wais'', ''file'', ''mms'', ''https'', ''shttp'',
     ''snews'', ''prospero'', ''rtsp'', ''rtsps'', ''rtspu'', ''rsync'', ''svn'', ''svn+ssh'', ''sftp'', ''nfs'', ''git'', ''git+ssh'', ''ws'', ''wss'']"

definition USES_PARAMS :: "string list" where
  "USES_PARAMS = ['''', ''ftp'', ''hdl'', ''prospero'', ''http'', ''imap'', ''https'', ''shttp'', ''rtsp'', ''rtsps'', ''rtspu'', ''sip'',
     ''sips'', ''mms'', ''sftp'', ''tel'']"

text \<open>The text before the first separator, and what follows it (empty without one).\<close>

definition cut_at :: "char \<Rightarrow> string \<Rightarrow> string \<times> string" where
  "cut_at d s = (before d s, after d s)"

text \<open>The parameters start at the first \<open>;\<close> after the last \<open>/\<close>.\<close>

definition last_part :: "char \<Rightarrow> string \<Rightarrow> string" where
  "last_part d s = rev (takeWhile (\<lambda>c. c \<noteq> d) (rev s))"

definition but_last_part :: "char \<Rightarrow> string \<Rightarrow> string" where
  "but_last_part d s = rev (dropWhile (\<lambda>c. c \<noteq> d) (rev s))"

definition split_params :: "string \<Rightarrow> string \<times> string" where
  "split_params s = (case cut_at (CHR '';'') (last_part (CHR ''/'') s) of (p, q) \<Rightarrow> (but_last_part (CHR ''/'') s @ p, q))"

definition urlparse :: "(string \<Rightarrow> bool) \<Rightarrow> string \<Rightarrow> string \<Rightarrow> url_parts result" where
  "urlparse bracket_ok dflt url =
     (let s = url_clean url;
          scheme = (if has_scheme s then py_lower (before (CHR '':'') s) else dflt) in
      case split_netloc (drop_scheme s) of (netloc, rest) \<Rightarrow>
        rbind (check_brackets bracket_ok netloc) (\<lambda>_.
          case cut_at (CHR ''#'') rest of (r1, fragment) \<Rightarrow>
          (case cut_at (CHR ''?'') r1 of (r2, query) \<Rightarrow>
           (case (if scheme \<in> set USES_PARAMS then split_params r2 else (r2, [])) of (path, params) \<Rightarrow>
             Inr \<lparr>up_scheme = scheme, up_netloc = netloc, up_path = path, up_params = params,
                   up_query = query, up_fragment = fragment\<rparr>))))"

text \<open>
  Putting the parts back. A library of another release writes \<open>//\<close> for an empty authority in fewer cases; the guard
  only does this with an authority.
\<close>

definition urlunparse :: "url_parts \<Rightarrow> string" where
  "urlunparse u =
     (let p0 = (if up_params u = [] then up_path u else up_path u @ '';'' @ up_params u);
          p1 = (if up_netloc u \<noteq> [] \<or> (up_scheme u \<noteq> [] \<and> up_scheme u \<in> set USES_NETLOC) \<or> startswith p0 ''//''
                then ''//'' @ up_netloc u @ (if p0 \<noteq> [] \<and> hd p0 \<noteq> CHR ''/'' then CHR ''/'' # p0 else p0) else p0);
          p2 = (if up_scheme u = [] then p1 else up_scheme u @ '':'' @ p1);
          p3 = (if up_query u = [] then p2 else p2 @ ''?'' @ up_query u)
      in if up_fragment u = [] then p3 else p3 @ ''#'' @ up_fragment u)"

section \<open>Joining\<close>

fun resolve_dots :: "string list \<Rightarrow> string list \<Rightarrow> string list" where
  "resolve_dots acc [] = rev acc"
| "resolve_dots acc (g # gs) =
     (if g = ''..'' then resolve_dots (tl acc) gs else if g = ''.'' then resolve_dots acc gs else resolve_dots (g # acc) gs)"

definition join_segments :: "string \<Rightarrow> string \<Rightarrow> string list" where
  "join_segments bpath path =
     (if startswith path ''/'' then split_on (CHR ''/'') path
      else let bs = split_on (CHR ''/'') bpath;
               base = (if last bs \<noteq> [] then butlast bs else bs);
               all = base @ split_on (CHR ''/'') path
           in if length all \<le> 1 then all else hd all # filter (\<lambda>g. g \<noteq> []) (butlast (tl all)) @ [last all])"

definition urljoin :: "(string \<Rightarrow> bool) \<Rightarrow> string \<Rightarrow> string \<Rightarrow> string result" where
  "urljoin bracket_ok base url =
     (if base = [] then Inr url else if url = [] then Inr base
      else rbind (urlparse bracket_ok [] base) (\<lambda>b. rbind (urlparse bracket_ok (up_scheme b) url) (\<lambda>u.
        if up_scheme u \<noteq> up_scheme b \<or> up_scheme u \<notin> set USES_RELATIVE then Inr url
        else if up_scheme u \<in> set USES_NETLOC \<and> up_netloc u \<noteq> [] then Inr (urlunparse u)
        else let v = (if up_scheme u \<in> set USES_NETLOC then u\<lparr>up_netloc := up_netloc b\<rparr> else u) in
          if up_path v = [] \<and> up_params v = [] then
            Inr (urlunparse (v\<lparr>up_path := up_path b, up_params := up_params b,
              up_query := (if up_query v = [] then up_query b else up_query v)\<rparr>))
          else let segs = join_segments (up_path b) (up_path v);
                   done_segs = resolve_dots [] segs @ (if last segs = ''.'' \<or> last segs = ''..'' then [''''] else []);
                   joined = join ''/'' done_segs
               in Inr (urlunparse (v\<lparr>up_path := (if joined = [] then ''/'' else joined)\<rparr>)))))"

section \<open>The authority\<close>

definition host_info :: "string \<Rightarrow> string" where
  "host_info netloc = last_part (CHR ''@'') netloc"

text \<open>\<open>username or password\<close>: something that is not empty before the last \<open>@\<close>, other than a lone colon.\<close>

definition has_userinfo :: "string \<Rightarrow> bool" where
  "has_userinfo netloc =
     (CHR ''@'' \<in> set netloc \<and>
      (let info = butlast (but_last_part (CHR ''@'') netloc) in before (CHR '':'') info \<noteq> [] \<or> after (CHR '':'') info \<noteq> []))"

definition host_port :: "string \<Rightarrow> string \<times> string" where
  "host_port netloc =
     (let info = host_info netloc in
      if CHR ''['' \<in> set info
      then let inner = after (CHR ''['') info in (before (CHR '']'') inner, after (CHR '':'') (after (CHR '']'') inner))
      else cut_at (CHR '':'') info)"

definition url_hostname :: "string \<Rightarrow> string option" where
  "url_hostname netloc =
     (let h = fst (host_port netloc) in
      if h = [] then None else Some (py_lower (before (CHR ''%'') h) @ dropWhile (\<lambda>c. c \<noteq> CHR ''%'') h))"

definition digits_nat :: "string \<Rightarrow> nat" where
  "digits_nat s = foldl (\<lambda>n c. 10 * n + (ord c - 48)) 0 s"

definition url_port :: "string \<Rightarrow> nat option result" where
  "url_port netloc =
     (let p = snd (host_port netloc) in
      if p = [] then Inr None
      else if \<not> list_all ascii_digit p then Inl (ValueErr ''Port could not be cast to integer value'')
      else if digits_nat p > 65535 then Inl (ValueErr ''Port out of range 0-65535'')
      else Inr (Some (digits_nat p)))"

text \<open>\<open>urldefrag(url).url\<close>.\<close>

definition urldefrag :: "(string \<Rightarrow> bool) \<Rightarrow> string \<Rightarrow> string result" where
  "urldefrag bracket_ok url =
     (if CHR ''#'' \<in> set url then rbind (urlparse bracket_ok [] url) (\<lambda>u. Inr (urlunparse (u\<lparr>up_fragment := []\<rparr>)))
      else Inr url)"

section \<open>Facts\<close>

lemma before_subset: "set (before d s) \<subseteq> set s - {d}"
  by (auto simp: before_def dest: set_takeWhileD)

lemma after_subset: "set (after d s) \<subseteq> set s"
  unfolding after_def by (metis list.set_sel(2) set_dropWhileD subsetI tl_Nil list.size(3))

lemma last_part_subset: "set (last_part d s) \<subseteq> set s" "set (but_last_part d s) \<subseteq> set s"
  by (auto simp: last_part_def but_last_part_def dest: set_takeWhileD set_dropWhileD)

lemma py_lower_char_low: "ord (py_lower_char c) < 65 \<Longrightarrow> py_lower_char c = c"
  by (auto simp: py_lower_char_def ascii_upper_def ord_def Let_def split: if_splits)

lemma py_lower_low: "d \<in> set (py_lower s) \<Longrightarrow> ord d < 65 \<Longrightarrow> d \<in> set s"
  by (auto simp: py_lower_def dest: py_lower_char_low)

text \<open>Nothing of the fragment's separator is left anywhere in the parts but in the fragment itself.\<close>

lemma urlparse_no_hash:
  assumes "urlparse bracket_ok dflt url = Inr u" and "CHR ''#'' \<notin> set dflt"
  shows "CHR ''#'' \<notin> set (up_scheme u) \<union> set (up_netloc u) \<union> set (up_path u) \<union> set (up_params u) \<union> set (up_query u)"
proof -
  let ?s = "url_clean url"
  obtain n r where nr: "split_netloc (drop_scheme ?s) = (n, r)" by (cases "split_netloc (drop_scheme ?s)")
  have n: "CHR ''#'' \<notin> set n"
    using nr by (auto simp: split_netloc_def netloc_end_def dest!: set_takeWhileD split: if_splits)
  have nh: "\<not> scheme_char (CHR ''#'')" by (simp add: scheme_char_def ascii_lower_def ascii_upper_def ascii_digit_def ord_def)
  have sc: "has_scheme ?s \<Longrightarrow> CHR ''#'' \<notin> set (py_lower (before (CHR '':'') ?s))"
    using py_lower_low [of "CHR ''#''" "before (CHR '':'') ?s"] nh by (auto simp: has_scheme_def Let_def list_all_iff ord_def)
  have r1: "CHR ''#'' \<notin> set (before (CHR ''#'') r)" using before_subset by fast
  have r2: "CHR ''#'' \<notin> set (before (CHR ''?'') (before (CHR ''#'') r))" "CHR ''#'' \<notin> set (after (CHR ''?'') (before (CHR ''#'') r))"
    using r1 before_subset after_subset by fast+
  have p: "CHR ''#'' \<notin> set (fst (split_params t)) \<union> set (snd (split_params t))" if "CHR ''#'' \<notin> set t" for t
    using that before_subset [of "CHR '';''"] after_subset [of "CHR '';''"] last_part_subset [of "CHR ''/''"]
    by (fastforce simp: split_params_def cut_at_def)
  show ?thesis
    using assms nr n sc r2 p [OF r2(1)]
    by (auto simp: urlparse_def cut_at_def Let_def rbind_def check_brackets_def split: sum.splits if_splits prod.splits)
qed

lemma urldefrag_no_hash:
  assumes "urldefrag bracket_ok url = Inr v"
  shows "CHR ''#'' \<notin> set v"
proof (cases "CHR ''#'' \<in> set url")
  case True
  then obtain u where u: "urlparse bracket_ok [] url = Inr u" "v = urlunparse (u\<lparr>up_fragment := []\<rparr>)"
    using assms by (auto simp: urldefrag_def rbind_def split: sum.splits)
  then show ?thesis using urlparse_no_hash [OF u(1)] by (auto simp: urlunparse_def Let_def)
qed (use assms in \<open>simp add: urldefrag_def\<close>)

end
