(* ===== verification/Auth.thy ===== *)
theory Auth
  imports Url
begin

text \<open>
  Who a request comes from (\<open>app/smartbrain_3000/auth.py\<close>) and the three guards every request passes
  (\<open>OriginGuard\<close> and \<open>HostGuard\<close> of \<open>main.py\<close>, then \<open>SessionGuard\<close>): browser sessions, the local token, the relay
  credential, and the authority each gives. SHA-256 and the standard library's check of a bracketed host in a URL
  are parameters; random tokens are arguments. Header names and values are the Latin-1 reading of their bytes.
\<close>

section \<open>Requests\<close>

datatype authority = Desktop | Remote

record request =
  rq_type :: string
  rq_method :: "string option"
  rq_path :: string
  rq_headers :: "(string \<times> string) list"

record auth_app =
  ap_token :: string
  ap_sessions :: "(string \<times> authority) list"
  ap_relay :: string
  ap_unlocked :: bool

definition COOKIE_NAME :: string where "COOKIE_NAME = ''sb_session''"
definition RELAY_HEADER :: string where "RELAY_HEADER = ''x-sb-relay''"
definition DEVICE_HEADER :: string where "DEVICE_HEADER = ''x-sb-device''"
definition MIN_TOKEN_CHARS :: nat where "MIN_TOKEN_CHARS = 32"
definition MAX_SESSIONS :: nat where "MAX_SESSIONS = 64"
definition LOOPBACK_HOSTS :: "string list" where
  "LOOPBACK_HOSTS = [''127.0.0.1'', ''localhost'', ''::1'', ''[::1]'']"
definition PHONE_VIA :: string where "PHONE_VIA = ''paired phone''"
definition LAN_VIA :: string where "LAN_VIA = ''LAN browser''"

definition OPEN_ROUTES :: "(string \<times> string) list" where
  "OPEN_ROUTES =
    [(''GET'', ''/api/health''), (''HEAD'', ''/api/health''), (''GET'', ''/api/account/status''),
     (''POST'', ''/api/account/setup''), (''POST'', ''/api/account/unlock''),
     (''GET'', ''/api/email/oauth/callback''), (''HEAD'', ''/api/email/oauth/callback'')]"

text \<open>A dict built from the header list under lowered names: the last value of a name wins.\<close>

definition lower_headers :: "(string \<times> string) list \<Rightarrow> (string \<times> string) list" where
  "lower_headers hs = fold (\<lambda>(k, v) d. dict_set d (py_lower k) v) hs []"

definition header :: "(string \<times> string) list \<Rightarrow> string \<Rightarrow> string \<Rightarrow> string" where
  "header d k dflt = (case map_of d k of Some v \<Rightarrow> v | None \<Rightarrow> dflt)"

text \<open>\<open>str.upper\<close> of a method name; methods are ASCII.\<close>

definition ascii_up :: "string \<Rightarrow> string" where
  "ascii_up = map (\<lambda>c. if ascii_lower c then char_of (ord c - 32) else c)"

section \<open>Origin labels\<close>

definition via_of :: "request \<Rightarrow> authority option \<Rightarrow> string option" where
  "via_of rq a =
     (if a \<noteq> Some Remote then None
      else if list_ex (\<lambda>(k, v). py_lower k = RELAY_HEADER) (rq_headers rq) then Some PHONE_VIA else Some LAN_VIA)"

definition relay_headers :: "string \<Rightarrow> string \<Rightarrow> (string \<times> string) list" where
  "relay_headers relay_secret device_id = [(RELAY_HEADER, relay_secret), (DEVICE_HEADER, take 64 device_id)]"

section \<open>The local token\<close>

definition valid_token :: "string \<Rightarrow> bool" where
  "valid_token t = (MIN_TOKEN_CHARS \<le> length t \<and> list_all (\<lambda>c. ord c < 128) t \<and> \<not> list_ex py_isspace t)"

text \<open>
  What the token file holds when it is read; the token to use and, when a new file is written, its content.
  The environment's token and a fresh one are arguments.
\<close>

datatype token_file = Missing | Unreadable | Holds string

definition load_local_token :: "string \<Rightarrow> bool \<Rightarrow> token_file \<Rightarrow> string \<Rightarrow> (string \<times> string option) result" where
  "load_local_token env has_path file fresh =
     (let e = strip env in
      if e \<noteq> [] then
        (if valid_token e then Inr (e, None)
         else Inl (ValueErr ''SMARTBRAIN_LOCAL_TOKEN must be >= 32 non-space ASCII chars''))
      else if \<not> has_path then Inr (fresh, None)
      else (case file of
          Holds s \<Rightarrow> if valid_token (strip s) then Inr (strip s, None) else Inr (fresh, Some (fresh @ [char_of (10 :: nat)]))
        | _ \<Rightarrow> Inr (fresh, Some (fresh @ [char_of (10 :: nat)]))))"

section \<open>Browser sessions\<close>

text \<open>\<open>while len(d) > 64: d.popitem(last=False)\<close>.\<close>

fun evict :: "(string \<times> authority) list \<Rightarrow> (string \<times> authority) list" where
  "evict [] = []"
| "evict (x # ds) = (if length (x # ds) > MAX_SESSIONS then evict ds else x # ds)"

definition session_mint :: "(string \<Rightarrow> string) \<Rightarrow> string \<Rightarrow> authority \<Rightarrow> (string \<times> authority) list \<Rightarrow> (string \<times> authority) list" where
  "session_mint digest token a ds = evict (dict_set ds (digest token) a)"

definition session_authority :: "(string \<Rightarrow> string) \<Rightarrow> string \<Rightarrow> (string \<times> authority) list \<Rightarrow> authority option" where
  "session_authority digest token ds =
     (if token = [] \<or> length token > 128 then None else map_of ds (digest token))"

section \<open>The authority of a request\<close>

fun cookie_of :: "string list \<Rightarrow> string" where
  "cookie_of [] = []"
| "cookie_of (p # ps) =
     (let part = strip p in
      if before (CHR ''='') part = COOKIE_NAME then strip (after (CHR ''='') part) else cookie_of ps)"

definition cookie_value :: "string \<Rightarrow> string" where
  "cookie_value raw = cookie_of (split_on (CHR '';'') raw)"

definition host_name :: "string \<Rightarrow> string" where
  "host_name h =
     (let host = py_lower (strip h) in
      if startswith host ''['' then before (CHR '']'') host @ '']''
      else if length (filter (\<lambda>c. c = CHR '':'') host) = 1 then before (CHR '':'') host else host)"

definition host_authority :: "string \<Rightarrow> authority" where
  "host_authority h = (if host_name h \<in> set LOOPBACK_HOSTS then Desktop else Remote)"

definition authority_of :: "(string \<Rightarrow> string) \<Rightarrow> auth_app \<Rightarrow> request \<Rightarrow> authority option" where
  "authority_of digest ap rq =
     (let hs = lower_headers (rq_headers rq) in
      case map_of hs RELAY_HEADER of
        Some relay \<Rightarrow> if relay = ap_relay ap then Some Remote else None
      | None \<Rightarrow>
          let authz = header hs ''authorization'' [] in
          if startswith authz ''Bearer '' then (if strip (drop 7 authz) = ap_token ap then Some Desktop else None)
          else let cookie = cookie_value (header hs ''cookie'' []);
                   minted = (if cookie = [] then None else session_authority digest cookie (ap_sessions ap))
               in case minted of
                    None \<Rightarrow> None
                  | Some m \<Rightarrow> Some (if m = Desktop \<and> host_authority (header hs ''host'' []) = Desktop then Desktop else Remote))"

text \<open>\<open>_mint_session\<close> of \<open>account.py\<close>: none for a relayed request; the cookie's token when one is minted.\<close>

definition mint_session :: "(string \<Rightarrow> string) \<Rightarrow> string \<Rightarrow> request \<Rightarrow> auth_app \<Rightarrow> string option \<times> auth_app" where
  "mint_session digest fresh rq ap =
     (let hs = lower_headers (rq_headers rq) in
      if header hs RELAY_HEADER [] \<noteq> [] then (None, ap)
      else (Some fresh, ap\<lparr>ap_sessions := session_mint digest fresh (host_authority (header hs ''host'' [])) (ap_sessions ap)\<rparr>))"

section \<open>The guards\<close>

text \<open>What becomes of a request: passed on without a look at credentials, served with an authority, or refused.\<close>

datatype verdict = Through | Served "authority option" "string option" | Refused int

definition is_api :: "string \<Rightarrow> bool" where
  "is_api path = (path = ''/api'' \<or> startswith path ''/api/'')"

definition guarded_type :: "request \<Rightarrow> bool" where
  "guarded_type rq = (rq_type rq = ''http'' \<or> rq_type rq = ''websocket'')"

definition dispatch :: "auth_app \<Rightarrow> request \<Rightarrow> authority option \<Rightarrow> verdict" where
  "dispatch ap rq a =
     (let mname = ascii_up (case rq_method rq of Some m \<Rightarrow> m | None \<Rightarrow> ''GET'') in
      if a = None \<and> (mname, rq_path rq) \<notin> set OPEN_ROUTES then Refused (if ap_unlocked ap then 401 else 423)
      else Served a (via_of rq a))"

definition session_guard :: "(string \<Rightarrow> string) \<Rightarrow> auth_app \<Rightarrow> request \<Rightarrow> verdict" where
  "session_guard digest ap rq =
     (if \<not> guarded_type rq \<or> \<not> is_api (rq_path rq) then Through
      else dispatch ap rq (authority_of digest ap rq))"

text \<open>\<open>dict(headers)\<close>: names as they are, the last value of a name wins.\<close>

definition raw_headers :: "(string \<times> string) list \<Rightarrow> (string \<times> string) list" where
  "raw_headers hs = fold (\<lambda>(k, v) d. dict_set d k v) hs []"

definition host_guard :: "string list \<Rightarrow> (request \<Rightarrow> verdict) \<Rightarrow> request \<Rightarrow> verdict" where
  "host_guard allowed inner rq =
     (if \<not> guarded_type rq \<or> ''*'' \<in> set allowed then inner rq
      else let host = py_lower (before (CHR '':'') (header (raw_headers (rq_headers rq)) ''host'' [])) in
        if host \<in> py_lower ` set allowed then inner rq else Refused 400)"

definition OAUTH_CALLBACK :: string where "OAUTH_CALLBACK = ''/api/email/oauth/callback''"
definition ALLOWED_SITES :: "string list" where "ALLOWED_SITES = [''same-origin'', ''none'']"

definition origin_matches :: "(string \<Rightarrow> bool) \<Rightarrow> string \<Rightarrow> string \<Rightarrow> bool result" where
  "origin_matches bracket_ok origin host =
     (if host = [] then Inr False
      else rbind (url_netloc bracket_ok origin) (\<lambda>n. Inr (n \<noteq> [] \<and> py_lower n = py_lower (strip host))))"

text \<open>An exception in a guard is the server's 500; nothing behind the guard runs.\<close>

definition origin_guard :: "(string \<Rightarrow> bool) \<Rightarrow> (request \<Rightarrow> verdict) \<Rightarrow> request \<Rightarrow> verdict" where
  "origin_guard bracket_ok inner rq =
     (if \<not> guarded_type rq then inner rq
      else if \<not> (startswith (rq_path rq) ''/api'' \<or> startswith (rq_path rq) ''/mcp'') then inner rq
      else let hs = raw_headers (rq_headers rq);
               mname = ascii_up (case rq_method rq of Some m \<Rightarrow> m | None \<Rightarrow> []);
               site = py_lower (strip (header hs ''sec-fetch-site'' []));
               origin = strip (header hs ''origin'' [])
           in if rq_path rq = OAUTH_CALLBACK \<and> (mname = ''GET'' \<or> mname = ''HEAD'')
                 \<and> py_lower (strip (header hs ''sec-fetch-mode'' ''navigate'')) = ''navigate'' then inner rq
              else if site \<noteq> [] \<and> site \<notin> set ALLOWED_SITES then Refused 403
              else if origin = [] then inner rq
              else (case origin_matches bracket_ok origin (header hs ''host'' []) of
                  Inr True \<Rightarrow> inner rq | Inr False \<Rightarrow> Refused 403 | Inl _ \<Rightarrow> Refused 500))"

text \<open>The application's stack: the middleware added last is outermost.\<close>

definition guards :: "(string \<Rightarrow> bool) \<Rightarrow> (string \<Rightarrow> string) \<Rightarrow> string list \<Rightarrow> auth_app \<Rightarrow> request \<Rightarrow> verdict" where
  "guards bracket_ok digest allowed ap = origin_guard bracket_ok (host_guard allowed (session_guard digest ap))"

text \<open>The routes declared \<open>DESKTOP_ONLY\<close>: a 403 for any other authority.\<close>

definition from_paired_phone :: "authority option \<Rightarrow> bool" where
  "from_paired_phone a = (a \<noteq> Some Desktop)"

definition require_desktop :: "authority option \<Rightarrow> unit result" where
  "require_desktop a = (if from_paired_phone a
     then Inl (Http 403 ''Finish this on your Mac: it can't be done from a paired phone or a LAN browser.'') else Inr ())"

section \<open>The session table\<close>

lemma evict_drop: "evict ds = drop (length ds - MAX_SESSIONS) ds"
  by (induction ds) (auto simp: Suc_diff_le)

lemma evict_subset: "set (evict ds) \<subseteq> set ds"
  by (simp add: evict_drop set_drop_subset)

definition mint_run :: "(string \<Rightarrow> string) \<Rightarrow> (string \<times> authority) list \<Rightarrow> (string \<times> authority) list" where
  "mint_run digest ms = fold (\<lambda>(t, a). session_mint digest t a) ms []"

lemma mint_run_snoc: "mint_run digest (ms @ [(t, a)]) = session_mint digest t a (mint_run digest ms)"
  by (simp add: mint_run_def)

text \<open>
  The session table holds the 64 newest sessions of this run and nothing else: after any minting of
  distinct tokens, a token is known exactly if it is among the last 64, with the authority it was minted under.
\<close>

theorem session_table_keeps_newest:
  assumes "distinct (map (digest \<circ> fst) ms)"
  shows "mint_run digest ms = drop (length ms - MAX_SESSIONS) (map (\<lambda>(t, a). (digest t, a)) ms) \<and>
    length (mint_run digest ms) \<le> 64"
proof (intro conjI)
  have run: "mint_run digest ms = drop (length ms - MAX_SESSIONS) (map (\<lambda>(t, a). (digest t, a)) ms)"
    using assms
  proof (induction ms rule: rev_induct)
    case (snoc m ms)
    obtain t a where m: "m = (t, a)" by (cases m)
    let ?old = "map (\<lambda>(t, a). (digest t, a)) ms"
    have IH: "mint_run digest ms = drop (length ms - MAX_SESSIONS) ?old" using snoc by simp
    have "digest t \<notin> fst ` set ?old" using snoc.prems m by (auto simp: image_iff)
    then have "digest t \<notin> fst ` set (drop (length ms - MAX_SESSIONS) ?old)" using set_drop_subset by fastforce
    then have "mint_run digest (ms @ [m]) = evict (drop (length ms - MAX_SESSIONS) ?old @ [(digest t, a)])"
      by (simp add: m mint_run_snoc session_mint_def IH dict_set_new)
    also have "\<dots> = drop (length (ms @ [m]) - MAX_SESSIONS) (?old @ [(digest t, a)])"
      by (cases "length ms < MAX_SESSIONS") (auto simp: evict_drop Suc_diff_le)
    finally show ?case by (simp add: m)
  qed (simp add: mint_run_def)
  then show "mint_run digest ms = drop (length ms - MAX_SESSIONS) (map (\<lambda>(t, a). (digest t, a)) ms)" .
  show "length (mint_run digest ms) \<le> 64" by (simp add: run MAX_SESSIONS_def)
qed

theorem session_table_keeps_newest_witness:
  "mint_run (\<lambda>t. t) (map (\<lambda>n. (replicate n (CHR ''a''), Desktop)) [0..<65]) =
     map (\<lambda>n. (replicate n (CHR ''a''), Desktop)) [1..<65]"
proof -
  let ?ms = "map (\<lambda>n. (replicate n (CHR ''a''), Desktop)) [0..<65]"
  have d: "distinct (map ((\<lambda>t. t) \<circ> fst) ?ms)"
    by (auto simp: distinct_map inj_on_def replicate_eq_replicate)
  have "map (\<lambda>(t, a). (t, a)) ?ms = ?ms" by simp
  then show ?thesis
    using session_table_keeps_newest [OF d] by (simp add: MAX_SESSIONS_def drop_map)
qed

section \<open>Where authority comes from\<close>

text \<open>Requests that passed an unlock, in order: each with the token that was drawn for it.\<close>

definition unlock_run :: "(string \<Rightarrow> string) \<Rightarrow> (string \<times> request) list \<Rightarrow> auth_app \<Rightarrow> auth_app" where
  "unlock_run digest us ap = fold (\<lambda>(t, rq) ap. snd (mint_session digest t rq ap)) us ap"

lemma mint_session_keeps: "ap_token (snd (mint_session digest t rq ap)) = ap_token ap"
  "ap_relay (snd (mint_session digest t rq ap)) = ap_relay ap"
  by (simp_all add: mint_session_def Let_def)

lemma map_of_evict: "distinct (map fst ds) \<Longrightarrow> map_of (evict ds) k = Some v \<Longrightarrow> map_of ds k = Some v"
  by (metis evict_drop distinct_drop drop_map evict_subset map_of_SomeD map_of_eq_Some_iff subsetD)

lemma distinct_session_mint: "distinct (map fst ds) \<Longrightarrow> distinct (map fst (session_mint digest t a ds))"
  by (simp add: session_mint_def evict_drop distinct_drop distinct_dict_set flip: drop_map)

definition req_host :: "request \<Rightarrow> string" where
  "req_host rq = header (lower_headers (rq_headers rq)) ''host'' []"

definition minted_by :: "(string \<times> request) list \<Rightarrow> string \<Rightarrow> authority \<Rightarrow> bool" where
  "minted_by us t a = list_ex (\<lambda>(t', rq). t' = t \<and> header (lower_headers (rq_headers rq)) RELAY_HEADER [] = [] \<and>
     a = host_authority (req_host rq)) us"

lemma mint_session_one:
  assumes "inj digest" and "distinct (map fst (ap_sessions ap))"
    and "map_of (ap_sessions (snd (mint_session digest tok rq ap))) (digest t) = Some a"
  shows "map_of (ap_sessions ap) (digest t) = Some a \<or> minted_by [(tok, rq)] t a"
proof (cases "header (lower_headers (rq_headers rq)) RELAY_HEADER [] = []")
  case True
  have "map_of (dict_set (ap_sessions ap) (digest tok) (host_authority (req_host rq))) (digest t) = Some a"
    using assms(2,3) True map_of_evict [of "dict_set (ap_sessions ap) (digest tok) (host_authority (req_host rq))"]
    by (simp add: mint_session_def session_mint_def distinct_dict_set req_host_def Let_def del: map_of_dict_set)
  then show ?thesis using assms(1) True by (auto simp: inj_def minted_by_def split: if_splits)
qed (use assms(3) in \<open>simp add: mint_session_def Let_def\<close>)

lemma unlock_run_sessions:
  assumes "inj digest" and "distinct (map fst (ap_sessions ap))"
    and "map_of (ap_sessions (unlock_run digest us ap)) (digest t) = Some a"
  shows "map_of (ap_sessions ap) (digest t) = Some a \<or> minted_by us t a"
  using assms(2,3)
proof (induction us arbitrary: ap)
  case (Cons u us)
  obtain tok rq where u: "u = (tok, rq)" by (cases u)
  let ?ap = "snd (mint_session digest tok rq ap)"
  have d: "distinct (map fst (ap_sessions ?ap))"
    using Cons.prems(1) by (simp add: mint_session_def Let_def distinct_session_mint)
  have "unlock_run digest (u # us) ap = unlock_run digest us ?ap" by (simp add: unlock_run_def u)
  then have "map_of (ap_sessions ?ap) (digest t) = Some a \<or> minted_by us t a"
    using Cons.IH [OF d] Cons.prems(2) by metis
  then show ?case
    using mint_session_one [OF assms(1) Cons.prems(1)] u by (auto simp: minted_by_def)
qed (simp add: unlock_run_def)

text \<open>
  C16: Desktop authority has two sources only. A request that is given it carries no relay header and either
  presents the local token, or a session cookie minted for an unlock that came in over a loopback Host and not
  through the relay, and itself names a loopback Host; so a session opened from the LAN or by a phone never acts
  as the Desktop, whatever Host header is sent with it later.
\<close>

theorem desktop_authority_provenance:
  assumes "inj digest" and "ap_sessions ap = []"
    and "authority_of digest (unlock_run digest us ap) rq = Some Desktop"
  shows "map_of (lower_headers (rq_headers rq)) RELAY_HEADER = None \<and>
     (strip (drop 7 (header (lower_headers (rq_headers rq)) ''authorization'' [])) = ap_token (unlock_run digest us ap) \<or>
      (minted_by us (cookie_value (header (lower_headers (rq_headers rq)) ''cookie'' [])) Desktop \<and>
       host_authority (req_host rq) = Desktop))"
proof (intro conjI)
  let ?ap = "unlock_run digest us ap" and ?hs = "lower_headers (rq_headers rq)"
  let ?c = "cookie_value (header ?hs ''cookie'' [])"
  have r: "map_of ?hs RELAY_HEADER = None"
    using assms(3) by (auto simp: authority_of_def Let_def split: option.splits if_splits)
  then show "map_of ?hs RELAY_HEADER = None" .
  show "strip (drop 7 (header ?hs ''authorization'' [])) = ap_token ?ap \<or>
      (minted_by us ?c Desktop \<and> host_authority (req_host rq) = Desktop)"
  proof (cases "startswith (header ?hs ''authorization'' []) ''Bearer ''")
    case True
    then show ?thesis using assms(3) r by (simp add: authority_of_def Let_def split: if_splits)
  next
    case False
    have s: "session_authority digest ?c (ap_sessions ?ap) = Some Desktop" "host_authority (req_host rq) = Desktop"
      using assms(3) r False by (auto simp: authority_of_def req_host_def Let_def split: option.splits if_splits)
    then have "map_of (ap_sessions ?ap) (digest ?c) = Some Desktop" by (metis session_authority_def option.distinct(1))
    then have "minted_by us ?c Desktop" using unlock_run_sessions [OF assms(1), of ap us] assms(2) by auto
    then show ?thesis using s(2) by simp
  qed
qed

text \<open>
  C17: Nothing under /api is served without a credential unless the route is open: a request to it that the
  stack of guards lets through is served with the authority of its credential, or is one of the seven open
  routes; and it is never waved through unexamined.
\<close>

theorem api_needs_credential:
  assumes "guarded_type rq" and "is_api (rq_path rq)"
  shows "guards bracket_ok digest allowed ap rq \<noteq> Through \<and>
    (\<forall>a via. guards bracket_ok digest allowed ap rq = Served a via \<longrightarrow> a = authority_of digest ap rq \<and> via = via_of rq a \<and>
      (a = None \<longrightarrow> (ascii_up (case rq_method rq of Some m \<Rightarrow> m | None \<Rightarrow> ''GET''), rq_path rq) \<in> set OPEN_ROUTES))"
proof -
  have inner: "session_guard digest ap rq = dispatch ap rq (authority_of digest ap rq)"
    using assms by (simp add: session_guard_def)
  have host: "host_guard allowed f rq = f rq \<or> host_guard allowed f rq = Refused 400" for f
    by (simp add: host_guard_def Let_def)
  have origin: "origin_guard bracket_ok f rq = f rq \<or> (\<exists>n. origin_guard bracket_ok f rq = Refused n)" for f
    by (auto simp: origin_guard_def Let_def split: sum.splits bool.splits)
  have all: "guards bracket_ok digest allowed ap rq = dispatch ap rq (authority_of digest ap rq) \<or>
      (\<exists>n. guards bracket_ok digest allowed ap rq = Refused n)"
    using origin [of "host_guard allowed (session_guard digest ap)"] host [of "session_guard digest ap"]
    unfolding guards_def inner by metis
  show ?thesis
    using all by (auto simp: dispatch_def Let_def split: if_splits)
qed

definition demo_browser :: "string \<Rightarrow> request" where
  "demo_browser path = \<lparr>rq_type = ''http'', rq_method = Some ''GET'', rq_path = path,
     rq_headers = [(''host'', ''localhost''), (''cookie'', ''sb_session=t1'')]\<rparr>"

definition demo_app :: auth_app where
  "demo_app = \<lparr>ap_token = ''secret'', ap_sessions = [], ap_relay = ''relay'', ap_unlocked = True\<rparr>"

lemma demo_browser_authority:
  "authority_of (\<lambda>t. t) (unlock_run (\<lambda>t. t) [(''t1'', demo_browser ''/api/account/unlock'')] demo_app) (demo_browser ''/api/tasks'') = Some Desktop"
  by (simp add: authority_of_def unlock_run_def mint_session_def session_mint_def session_authority_def demo_browser_def demo_app_def
      lower_headers_def header_def RELAY_HEADER_def COOKIE_NAME_def py_lower_def py_lower_char_def ascii_upper_def ascii_lower_def ord_def
      startswith_def cookie_value_def strip_def lstrip_def py_isspace_def before_def after_def host_authority_def host_name_def
      LOOPBACK_HOSTS_def MAX_SESSIONS_def Let_def)

theorem desktop_authority_provenance_witness:
  "map_of (lower_headers (rq_headers (demo_browser ''/api/tasks''))) RELAY_HEADER = None"
  using desktop_authority_provenance [OF _ _ demo_browser_authority] by (simp add: demo_app_def)

theorem api_needs_credential_witness:
  "guards (\<lambda>_. True) (\<lambda>t. t) [''localhost''] demo_app (demo_browser ''/api/tasks'') \<noteq> Through"
  by (rule conjunct1 [OF api_needs_credential]) (simp_all add: demo_browser_def guarded_type_def is_api_def startswith_def)

end
