(* ===== verification/Devices.thy ===== *)
theory Devices
  imports Secret_Store Calendar
begin

text \<open>
  Paired devices (\<open>app/smartbrain_3000/devices.py\<close>): one JSON record per device in the secret store and, in the
  plaintext meta table, the keyed digests of the live device ids. HMAC-SHA256 and \<open>datetime.fromisoformat\<close>
  are parameters; random identifiers, credentials and nonces are arguments.
\<close>

section \<open>Effects\<close>

text \<open>Code that writes before it raises keeps what it wrote: an outcome together with the state it leaves.\<close>

type_synonym ('a, 's) eff = "'s \<Rightarrow> 'a result \<times> 's"

definition ereturn :: "'a \<Rightarrow> ('a, 's) eff" where
  "ereturn x s = (Inr x, s)"

definition eraise :: "pyerr \<Rightarrow> ('a, 's) eff" where
  "eraise e s = (Inl e, s)"

definition ebind :: "('a, 's) eff \<Rightarrow> ('a \<Rightarrow> ('b, 's) eff) \<Rightarrow> ('b, 's) eff" where
  "ebind m f s = (case m s of (Inl e, s') \<Rightarrow> (Inl e, s') | (Inr x, s') \<Rightarrow> f x s')"

definition elift :: "'a result \<Rightarrow> ('a, 's) eff" where
  "elift r s = (r, s)"

named_theorems eff_simps \<open>equations of effects\<close>

lemma eff_eqs [eff_simps]:
  "ereturn x s = (Inr x, s)" "eraise e s = (Inl e, s)" "elift r s = (r, s)"
  "ebind m f s = (case m s of (Inl e, s') \<Rightarrow> (Inl e, s') | (Inr x, s') \<Rightarrow> f x s')"
  by (simp_all add: ereturn_def eraise_def elift_def ebind_def)

section \<open>State and surroundings\<close>

definition DEV_PREFIX :: string where "DEV_PREFIX = ''device:''"
definition MAX_LABEL :: nat where "MAX_LABEL = 64"
definition LAST_SEEN_MIN_S :: int where "LAST_SEEN_MIN_S = 3600"
definition META_DIGESTS :: string where "META_DIGESTS = ''devices:known_digests''"
definition META_BOOT_KEY :: string where "META_BOOT_KEY = ''devices:boot_key''"

text \<open>The secret table, and the meta table when it is bound.\<close>

record 'c dev_state =
  dv_rows :: "'c secret_row list"
  dv_meta :: "(string \<rightharpoonup> string) option"

text \<open>\<open>fromisoformat\<close>: a moment with a time zone, one without, or \<open>ValueError\<close>.\<close>

datatype iso_time = Aware int | Naive int

record 'c dev_env =
  de_sealer :: "'c sealer"
  de_hmac :: "bytes \<Rightarrow> string \<Rightarrow> string"
  de_iso :: "string \<Rightarrow> iso_time option"

record dev_fresh =
  df_id :: string
  df_credential :: string
  df_boot :: string
  df_nonce :: bytes
  df_now :: int

definition meta_get :: "(string \<rightharpoonup> string) \<Rightarrow> string \<Rightarrow> string option" where
  "meta_get m k = m k"

definition dev_key :: "string \<Rightarrow> string result" where
  "dev_key i = (if i = [] \<or> CHR '':'' \<in> set i then Inl (Assertion ''device id must be non-empty'') else Inr (DEV_PREFIX @ i))"

text \<open>\<open>datetime.now(UTC).isoformat()\<close>.\<close>

definition iso_now :: "int \<Rightarrow> string" where
  "iso_now t = map (\<lambda>c. if c = CHR '' '' then CHR ''T'' else c) (ts_text t) @ ''+00:00''"

text \<open>\<open>bytes.fromhex\<close>: pairs of hexadecimal digits, blanks allowed between them.\<close>

definition ascii_blank :: "char \<Rightarrow> bool" where
  "ascii_blank c = (ord c = 32 \<or> (9 \<le> ord c \<and> ord c \<le> 13))"

fun fromhex :: "string \<Rightarrow> bytes option" where
  "fromhex [] = Some []"
| "fromhex (c # cs) =
     (if ascii_blank c then fromhex cs
      else case cs of
          d # ds \<Rightarrow> if ascii_hex c \<and> ascii_hex d
            then map_option (\<lambda>bs. of_nat (16 * hex_val c + hex_val d) # bs) (fromhex ds) else None
        | [] \<Rightarrow> None)"

section \<open>The digest set\<close>

definition boot_key :: "string \<Rightarrow> (bytes option, 'c dev_state) eff" where
  "boot_key fresh s = (case dv_meta s of
       None \<Rightarrow> (Inr None, s)
     | Some m \<Rightarrow>
         let stored = meta_get m META_BOOT_KEY;
             missing = (stored = None \<or> stored = Some []);
             raw = (if missing then fresh else the stored);
             s' = (if missing then s\<lparr>dv_meta := Some (m(META_BOOT_KEY \<mapsto> raw))\<rparr> else s)
         in (case fromhex raw of Some key \<Rightarrow> (Inr (Some key), s') | None \<Rightarrow> (Inl (ValueErr ''fromhex''), s')))"

text \<open>\<open>set(v)\<close> of a decoded JSON value: its items, its keys or its characters.\<close>

definition py_set :: "jval \<Rightarrow> jval list result" where
  "py_set v = (case v of
       JList vs \<Rightarrow> if list_ex (\<lambda>x. case x of JList _ \<Rightarrow> True | JObj _ \<Rightarrow> True | _ \<Rightarrow> False) vs
         then Inl (OtherErr ''TypeError'') else Inr (remdups vs)
     | JObj d \<Rightarrow> Inr (remdups (map (JStr \<circ> fst) d))
     | JStr t \<Rightarrow> Inr (remdups (map (\<lambda>c. JStr [c]) t))
     | _ \<Rightarrow> Inl (OtherErr ''TypeError''))"

definition known_digests :: "'c dev_state \<Rightarrow> jval list result" where
  "known_digests s = (case dv_meta s of
       None \<Rightarrow> Inr []
     | Some m \<Rightarrow> (case meta_get m META_DIGESTS of
           None \<Rightarrow> Inr []
         | Some raw \<Rightarrow> if raw = [] then Inr []
             else (case json_loads raw of None \<Rightarrow> Inr [] | Some v \<Rightarrow> py_set v)))"

text \<open>
  \<open>sorted\<close> of the set: its texts in order. Texts do not compare with anything else; two or more values none of
  which is a text, which this code never stores, are refused as well.
\<close>

definition sort_digests :: "jval list \<Rightarrow> jval list result" where
  "sort_digests ds =
     (if length ds \<le> 1 then Inr ds
      else rmap1 (\<lambda>ts. map JStr (order_by (\<le>) ts))
        (rmap (\<lambda>d. case d of JStr t \<Rightarrow> Inr t | _ \<Rightarrow> Inl (OtherErr ''TypeError'')) ds))"

definition update_known :: "'c dev_env \<Rightarrow> string \<Rightarrow> string \<Rightarrow> bool \<Rightarrow> (unit, 'c dev_state) eff" where
  "update_known E fresh i add =
     ebind (boot_key fresh) (\<lambda>key. case key of
         None \<Rightarrow> ereturn ()
       | Some k \<Rightarrow> (\<lambda>s. case known_digests s of
             Inl e \<Rightarrow> (Inl e, s)
           | Inr ds \<Rightarrow>
               let d = JStr (de_hmac E k i);
                   ds' = (if add then (if d \<in> set ds then ds else ds @ [d]) else filter (\<lambda>x. x \<noteq> d) ds)
               in (case sort_digests ds' of
                     Inl e \<Rightarrow> (Inl e, s)
                   | Inr sorted_ds \<Rightarrow> (Inr (), s\<lparr>dv_meta := map_option (\<lambda>m. m(META_DIGESTS \<mapsto> json_dumps (JList sorted_ds))) (dv_meta s)\<rparr>))))"

definition is_known_device_id :: "'c dev_env \<Rightarrow> string \<Rightarrow> string \<Rightarrow> (bool, 'c dev_state) eff" where
  "is_known_device_id E fresh i =
     (if i = [] \<or> CHR '':'' \<in> set i then ereturn False
      else ebind (boot_key fresh) (\<lambda>key. case key of
          None \<Rightarrow> ereturn False
        | Some k \<Rightarrow> (\<lambda>s. elift (rmap1 (\<lambda>ds. JStr (de_hmac E k i) \<in> set ds) (known_digests s)) s)))"

section \<open>Device records\<close>

definition dev_get :: "'c dev_env \<Rightarrow> string \<Rightarrow> (string option, 'c dev_state) eff" where
  "dev_get E k s = (secret_get (de_sealer E) k (dv_rows s), s)"

definition dev_put :: "'c dev_env \<Rightarrow> bytes \<Rightarrow> string \<Rightarrow> string \<Rightarrow> (unit, 'c dev_state) eff" where
  "dev_put E nonce k v s = (case secret_put (de_sealer E) nonce k v (dv_rows s) of
       Inl e \<Rightarrow> (Inl e, s) | Inr rows \<Rightarrow> (Inr (), s\<lparr>dv_rows := rows\<rparr>))"

definition clean_label :: "string \<Rightarrow> string" where
  "clean_label label =
     (let t = take MAX_LABEL (strip (if label = [] then ''device'' else label)) in if t = [] then ''device'' else t)"

definition new_record :: "dev_fresh \<Rightarrow> string \<Rightarrow> jdict" where
  "new_record f label = [(''device_id'', JStr (df_id f)), (''label'', JStr (clean_label label)),
     (''created_at'', JStr (iso_now (df_now f))), (''last_seen'', JNull), (''credential'', JStr (df_credential f))]"

definition create_device :: "'c dev_env \<Rightarrow> dev_fresh \<Rightarrow> string \<Rightarrow> (jdict, 'c dev_state) eff" where
  "create_device E f label =
     (let rec = new_record f label in
      ebind (elift (dev_key (df_id f))) (\<lambda>k.
      ebind (dev_put E (df_nonce f) k (json_dumps (JObj rec))) (\<lambda>_.
      ebind (dev_get E k) (\<lambda>v. if v = None then eraise (Assertion ''device record must persist'')
        else ebind (update_known E (df_boot f) (df_id f) True) (\<lambda>_. ereturn rec)))))"

text \<open>\<open>json.loads\<close> of a stored record, and the dict it must be for what follows.\<close>

definition load_record :: "string \<Rightarrow> jdict result" where
  "load_record raw = (case json_loads raw of
       None \<Rightarrow> Inl (ValueErr ''json'') | Some (JObj d) \<Rightarrow> Inr d | Some _ \<Rightarrow> Inl (OtherErr ''TypeError''))"

record dev_view =
  wv_id :: jval
  wv_label :: jval
  wv_created :: string
  wv_seen :: jval

definition dev_field :: "jdict \<Rightarrow> string \<Rightarrow> jval result" where
  "dev_field d k = (case map_of d k of Some v \<Rightarrow> Inr v | None \<Rightarrow> Inl (OtherErr ''KeyError''))"

definition dev_view_of :: "jdict \<Rightarrow> dev_view result" where
  "dev_view_of rec = rbind (dev_field rec ''device_id'') (\<lambda>i. rbind (dev_field rec ''label'') (\<lambda>l.
     rbind (dev_field rec ''created_at'') (\<lambda>c. (case c of
         JStr t \<Rightarrow> Inr \<lparr>wv_id = i, wv_label = l, wv_created = t, wv_seen = opt_get rec ''last_seen'' JNull\<rparr>
       | _ \<Rightarrow> Inl (OtherErr ''TypeError'')))))"

definition list_devices :: "'c dev_env \<Rightarrow> 'c dev_state \<Rightarrow> dev_view list result" where
  "list_devices E s = rmap1 (order_by (\<lambda>a b. wv_created a \<le> wv_created b))
     (rmap (\<lambda>k. rbind (secret_get (de_sealer E) k (dv_rows s)) (\<lambda>v. case v of
          None \<Rightarrow> Inl (OtherErr ''TypeError'') | Some raw \<Rightarrow> rbind (load_record raw) dev_view_of))
       (filter (\<lambda>k. startswith k DEV_PREFIX) (secret_keys (dv_rows s))))"

definition revoke_device :: "'c dev_env \<Rightarrow> string \<Rightarrow> string \<Rightarrow> (unit, 'c dev_state) eff" where
  "revoke_device E fresh i =
     (if i = [] then eraise (Assertion ''device id required'')
      else ebind (elift (dev_key i)) (\<lambda>k.
        ebind (\<lambda>s. case secret_delete (de_sealer E) k (dv_rows s) of
            Inl e \<Rightarrow> (Inl e, s) | Inr rows \<Rightarrow> (Inr (), s\<lparr>dv_rows := rows\<rparr>)) (\<lambda>_.
        if CHR '':'' \<notin> set i then update_known E fresh i False else ereturn ())))"

definition device_exists :: "'c dev_env \<Rightarrow> string \<Rightarrow> 'c dev_state \<Rightarrow> bool result" where
  "device_exists E i s =
     (if i = [] \<or> CHR '':'' \<in> set i then Inr False
      else rbind (dev_key i) (\<lambda>k. rmap1 (\<lambda>v. v \<noteq> None) (secret_get (de_sealer E) k (dv_rows s))))"

section \<open>Verification\<close>

definition stamp_last_seen :: "'c dev_env \<Rightarrow> bytes \<Rightarrow> string \<Rightarrow> jdict \<Rightarrow> int \<Rightarrow> (unit, 'c dev_state) eff" where
  "stamp_last_seen E nonce i rec now =
     (let prev = opt_get rec ''last_seen'' JNull;
          stamped = ebind (elift (dev_key i)) (\<lambda>k.
            dev_put E nonce k (json_dumps (JObj (dict_set rec ''last_seen'' (JStr (iso_now now))))))
      in if \<not> truthy prev then stamped
         else (case prev of
             JStr t \<Rightarrow> (case de_iso E t of
                 None \<Rightarrow> stamped
               | Some (Naive _) \<Rightarrow> eraise (OtherErr ''TypeError'')
               | Some (Aware seen) \<Rightarrow> if now - seen < LAST_SEEN_MIN_S * MICROS then ereturn () else stamped)
           | _ \<Rightarrow> eraise (OtherErr ''TypeError'')))"

text \<open>\<open>secrets.compare_digest\<close> of two values: texts must be ASCII.\<close>

definition is_ascii :: "string \<Rightarrow> bool" where
  "is_ascii s = list_all (\<lambda>c. ord c < 128) s"

definition compare_digest :: "jval \<Rightarrow> string \<Rightarrow> bool result" where
  "compare_digest v c = (case v of
       JStr t \<Rightarrow> if is_ascii t \<and> is_ascii c then Inr (t = c) else Inl (OtherErr ''TypeError'')
     | _ \<Rightarrow> Inl (OtherErr ''TypeError''))"

text \<open>What follows a match: it may raise, but then what it wrote stays and the answer does not change.\<close>

definition bookkeeping :: "'c dev_env \<Rightarrow> dev_fresh \<Rightarrow> string \<Rightarrow> jdict \<Rightarrow> (unit, 'c dev_state) eff" where
  "bookkeeping E f i rec =
     ebind (stamp_last_seen E (df_nonce f) i rec (df_now f)) (\<lambda>_.
     ebind (is_known_device_id E (df_boot f) i) (\<lambda>known.
       if known then ereturn () else update_known E (df_boot f) i True))"

definition verify_device :: "'c dev_env \<Rightarrow> dev_fresh \<Rightarrow> string \<Rightarrow> string \<Rightarrow> (bool, 'c dev_state) eff" where
  "verify_device E f i cred =
     (if i = [] \<or> CHR '':'' \<in> set i \<or> cred = [] then ereturn False
      else ebind (elift (dev_key i)) (\<lambda>k. ebind (dev_get E k) (\<lambda>raw. case raw of
          None \<Rightarrow> ereturn False
        | Some t \<Rightarrow> ebind (elift (load_record t)) (\<lambda>rec.
            ebind (elift (compare_digest (opt_get rec ''credential'' (JStr [])) cred)) (\<lambda>same.
              if \<not> same then ereturn False
              else (\<lambda>s. (Inr True, snd (bookkeeping E f i rec s))))))))"

section \<open>The digest set follows the devices\<close>

definition boot_ok :: "string \<Rightarrow> bool" where
  "boot_ok fresh = (fresh \<noteq> [] \<and> fromhex fresh \<noteq> None)"

definition meta_rel :: "'c dev_env \<Rightarrow> string set \<Rightarrow> 'c dev_state \<Rightarrow> bool" where
  "meta_rel E D s \<longleftrightarrow> (case dv_meta s of None \<Rightarrow> True
     | Some m \<Rightarrow> \<exists>ds. known_digests s = Inr ds \<and> set ds \<subseteq> range JStr \<and>
         (if m META_BOOT_KEY = None \<or> m META_BOOT_KEY = Some [] then ds = [] \<and> D = {}
          else \<exists>k. fromhex (the (m META_BOOT_KEY)) = Some k \<and> set ds = JStr ` de_hmac E k ` D))"

lemma meta_keys_differ [simp]: "META_BOOT_KEY \<noteq> META_DIGESTS" "META_DIGESTS \<noteq> META_BOOT_KEY"
  by (simp_all add: META_BOOT_KEY_def META_DIGESTS_def)

lemma rmap_texts: "set ds \<subseteq> range JStr \<Longrightarrow>
  \<exists>ts. rmap (\<lambda>d. case d of JStr t \<Rightarrow> Inr t | _ \<Rightarrow> Inl (OtherErr ''TypeError'')) ds = Inr ts \<and> ds = map JStr ts"
  by (induction ds) auto

lemma sort_digests_texts: "set ds \<subseteq> range JStr \<Longrightarrow> \<exists>ds'. sort_digests ds = Inr ds' \<and> set ds' = set ds"
  using rmap_texts [of ds] by (auto simp: sort_digests_def)

lemma py_set_texts: "set ds \<subseteq> range JStr \<Longrightarrow> py_set (JList ds) = Inr (remdups ds)"
  by (auto simp: py_set_def list_ex_iff split: jval.splits)

lemma texts_json_ok: "set ds \<subseteq> range JStr \<Longrightarrow> json_ok (JList ds)"
  by (auto simp: list_all_iff)

lemma boot_key_rel:
  assumes "meta_rel E D s" and "boot_ok fresh"
  shows "(dv_meta s = None \<and> boot_key fresh s = (Inr None, s)) \<or>
    (\<exists>k s' ds m. boot_key fresh s = (Inr (Some k), s') \<and> dv_rows s' = dv_rows s \<and> dv_meta s' = Some m \<and>
       m META_BOOT_KEY \<noteq> None \<and> m META_BOOT_KEY \<noteq> Some [] \<and> fromhex (the (m META_BOOT_KEY)) = Some k \<and>
       known_digests s' = Inr ds \<and> set ds = JStr ` de_hmac E k ` D \<and> meta_rel E D s')"
proof (cases "dv_meta s")
  case None
  then show ?thesis by (simp add: boot_key_def)
next
  case (Some m)
  show ?thesis
  proof (cases "m META_BOOT_KEY = None \<or> m META_BOOT_KEY = Some []")
    case True
    obtain k where k: "fromhex fresh = Some k" using assms(2) by (auto simp: boot_ok_def)
    let ?s = "s\<lparr>dv_meta := Some (m(META_BOOT_KEY \<mapsto> fresh))\<rparr>"
    have d: "D = {}" "known_digests s = Inr []" using assms(1) Some True by (auto simp: meta_rel_def)
    have kd: "known_digests ?s = Inr []" using d(2) Some by (simp add: known_digests_def meta_get_def)
    have "boot_key fresh s = (Inr (Some k), ?s)"
      using Some True k by (auto simp: boot_key_def meta_get_def Let_def)
    moreover have "meta_rel E D ?s" using kd k assms(2) by (auto simp: meta_rel_def boot_ok_def d(1))
    ultimately show ?thesis using kd k assms(2) d(1)
      by (intro disjI2 exI [of _ k] exI [of _ ?s] exI [of _ "[]"] exI [of _ "m(META_BOOT_KEY \<mapsto> fresh)"]) (auto simp: boot_ok_def)
  next
    case False
    then obtain k ds where "known_digests s = Inr ds" "fromhex (the (m META_BOOT_KEY)) = Some k" "set ds = JStr ` de_hmac E k ` D"
      using assms(1) Some by (auto simp: meta_rel_def)
    moreover from this have "boot_key fresh s = (Inr (Some k), s)"
      using Some False by (auto simp: boot_key_def meta_get_def Let_def)
    ultimately show ?thesis using Some False assms(1)
      by (intro disjI2 exI [of _ k] exI [of _ s] exI [of _ ds] exI [of _ m]) auto
  qed
qed

lemma update_known_rel:
  assumes "meta_rel E D s" and "boot_ok fresh" and inj: "\<And>k. inj (de_hmac E k)"
  shows "\<exists>s'. update_known E fresh i add s = (Inr (), s') \<and> dv_rows s' = dv_rows s \<and>
    meta_rel E (if add then insert i D else D - {i}) s'"
  using boot_key_rel [OF assms(1,2)]
proof (elim disjE exE conjE)
  assume "dv_meta s = None" "boot_key fresh s = (Inr None, s)"
  then show ?thesis by (simp add: update_known_def eff_simps meta_rel_def)
next
  fix k s' ds m
  assume b: "boot_key fresh s = (Inr (Some k), s')" and rows: "dv_rows s' = dv_rows s" and m: "dv_meta s' = Some m"
    and bk: "m META_BOOT_KEY \<noteq> None" "m META_BOOT_KEY \<noteq> Some []" "fromhex (the (m META_BOOT_KEY)) = Some k"
    and ds: "known_digests s' = Inr ds" "set ds = JStr ` de_hmac E k ` D"
  let ?d = "JStr (de_hmac E k i)"
  let ?D = "if add then insert i D else D - {i}"
  define ds' where "ds' = (if add then (if ?d \<in> set ds then ds else ds @ [?d]) else filter (\<lambda>x. x \<noteq> ?d) ds)"
  have set': "set ds' = JStr ` de_hmac E k ` ?D"
    using ds(2) inj [of k] by (auto simp: ds'_def inj_on_def)
  then have texts: "set ds' \<subseteq> range JStr" by auto
  then obtain so where so: "sort_digests ds' = Inr so" "set so = set ds'" using sort_digests_texts by blast
  let ?m = "m(META_DIGESTS \<mapsto> json_dumps (JList so))"
  let ?s = "s'\<lparr>dv_meta := Some ?m\<rparr>"
  have u: "update_known E fresh i add s = (Inr (), ?s)"
    using b m ds(1) so(1) by (simp add: update_known_def eff_simps ds'_def Let_def)
  have "json_loads (json_dumps (JList so)) = Some (JList so)"
    using loads_dumps texts_json_ok texts so(2) by metis
  moreover have "json_dumps (JList so) \<noteq> []" by simp
  ultimately have kd: "known_digests ?s = Inr (remdups so)"
    using py_set_texts [of so] texts so(2) by (simp add: known_digests_def meta_get_def)
  have "meta_rel E ?D ?s"
    using kd bk texts so(2) set' by (auto simp: meta_rel_def)
  then show ?thesis using u rows by auto
qed

lemma is_known_rel:
  assumes "meta_rel E D s" and "boot_ok fresh" and inj: "\<And>k. inj (de_hmac E k)"
  shows "\<exists>s' b. is_known_device_id E fresh i s = (Inr b, s') \<and> dv_rows s' = dv_rows s \<and> meta_rel E D s' \<and>
    (dv_meta s \<noteq> None \<longrightarrow> b = (i \<noteq> [] \<and> CHR '':'' \<notin> set i \<and> i \<in> D))"
proof (cases "i = [] \<or> CHR '':'' \<in> set i")
  case True
  then show ?thesis using assms(1) by (auto simp: is_known_device_id_def eff_simps)
next
  case False
  have m: "JStr (de_hmac E k i) \<in> JStr ` de_hmac E k ` D \<longleftrightarrow> i \<in> D" for k
    using inj [of k] by (auto simp: inj_on_def)
  show ?thesis
    using boot_key_rel [OF assms(1,2)] False assms(1)
    by (elim disjE exE conjE) (auto simp: is_known_device_id_def eff_simps m)
qed

section \<open>What the devices module promises\<close>

text \<open>The live devices as a map from identifiers to credentials.\<close>

datatype dev_event =
    Pair dev_fresh string
  | Revoke string string
  | Connect dev_fresh string string

definition id_ok :: "string \<Rightarrow> bool" where
  "id_ok i = (i \<noteq> [] \<and> CHR '':'' \<notin> set i)"

definition dev_spec :: "dev_event \<Rightarrow> (string \<rightharpoonup> string) \<Rightarrow> (string \<rightharpoonup> string)" where
  "dev_spec e a = (case e of Pair f l \<Rightarrow> a(df_id f \<mapsto> df_credential f) | Revoke b i \<Rightarrow> a(i := None) | Connect f i c \<Rightarrow> a)"

definition dev_step :: "'c dev_env \<Rightarrow> dev_event \<Rightarrow> 'c dev_state \<Rightarrow> 'c dev_state" where
  "dev_step E e s = (case e of Pair f l \<Rightarrow> snd (create_device E f l s) | Revoke b i \<Rightarrow> snd (revoke_device E b i s)
     | Connect f i c \<Rightarrow> snd (verify_device E f i c s))"

text \<open>What \<open>token_urlsafe\<close> and \<open>token_hex\<close> draw: a colon-free identifier, an ASCII credential, a hexadecimal key.\<close>

definition fresh_ok :: "dev_fresh \<Rightarrow> bool" where
  "fresh_ok f = (id_ok (df_id f) \<and> df_credential f \<noteq> [] \<and> is_ascii (df_credential f) \<and> boot_ok (df_boot f))"

definition dev_event_ok :: "dev_event \<Rightarrow> bool" where
  "dev_event_ok e = (case e of Pair f _ \<Rightarrow> fresh_ok f | Revoke b _ \<Rightarrow> boot_ok b | Connect f _ _ \<Rightarrow> boot_ok (df_boot f))"

definition record_ok :: "string \<Rightarrow> string \<Rightarrow> jdict \<Rightarrow> bool" where
  "record_ok i c rec \<longleftrightarrow> json_ok (JObj rec) \<and> map_of rec ''credential'' = Some (JStr c) \<and> map_of rec ''device_id'' = Some (JStr i) \<and>
     (\<exists>l t. map_of rec ''label'' = Some l \<and> map_of rec ''created_at'' = Some (JStr t))"

definition row_holds :: "(string \<rightharpoonup> string) \<Rightarrow> string \<Rightarrow> string option \<Rightarrow> bool" where
  "row_holds V i cred \<longleftrightarrow> (case cred of
        None \<Rightarrow> V (DEV_PREFIX @ i) = None
      | Some c \<Rightarrow> id_ok i \<and> is_ascii c \<and>
          (\<exists>rec. record_ok i c rec \<and> V (DEV_PREFIX @ i) = Some (json_dumps (JObj rec))))"

definition rows_rel :: "'c dev_env \<Rightarrow> (string \<rightharpoonup> string) \<Rightarrow> 'c secret_row list \<Rightarrow> bool" where
  "rows_rel E a rows \<longleftrightarrow> secrets_ok (de_sealer E) rows \<and> (\<forall>i. row_holds (secret_view (de_sealer E) rows) i (a i))"

lemma row_holds_other [simp]: "j \<noteq> i \<Longrightarrow> row_holds (V(DEV_PREFIX @ i := x)) j c = row_holds V j c"
  by (simp add: row_holds_def split: option.split)

lemma row_holds_None [simp]: "row_holds (V(DEV_PREFIX @ i := None)) i None"
  by (simp add: row_holds_def)

lemma row_holds_record: "id_ok i \<Longrightarrow> is_ascii c \<Longrightarrow> record_ok i c rec \<Longrightarrow>
  row_holds (V(DEV_PREFIX @ i \<mapsto> json_dumps (JObj rec))) i (Some c)"
  by (auto simp: row_holds_def simp del: json_dumps.simps)

definition dev_rel :: "'c dev_env \<Rightarrow> (string \<rightharpoonup> string) \<Rightarrow> 'c dev_state \<Rightarrow> bool" where
  "dev_rel E a s \<longleftrightarrow> rows_rel E a (dv_rows s) \<and> meta_rel E (dom a) s"

lemma prefix_nonempty [simp]: "DEV_PREFIX \<noteq> []" "DEV_PREFIX @ i \<noteq> []"
  by (simp_all add: DEV_PREFIX_def)

lemma load_record_dumps: "json_ok (JObj rec) \<Longrightarrow> load_record (json_dumps (JObj rec)) = Inr rec"
  using loads_dumps [of "JObj rec"] by (simp only: load_record_def) simp

lemma new_record_ok: "record_ok (df_id f) (df_credential f) (new_record f label)"
  by (simp add: record_ok_def new_record_def)

lemma json_ok_dict_set: "json_ok (JObj d) \<Longrightarrow> json_ok v \<Longrightarrow> json_ok (JObj (dict_set d k v))"
proof -
  assume d: "json_ok (JObj d)" and v: "json_ok v"
  have "list_all (\<lambda>(k, v). json_ok v) (dict_set d k v)" if "list_all (\<lambda>(k, v). json_ok v) d"
    using that v by (induction d k v rule: dict_set.induct) auto
  then show ?thesis using d by (simp add: distinct_dict_set)
qed

lemma record_ok_stamp: "record_ok i c rec \<Longrightarrow> record_ok i c (dict_set rec ''last_seen'' (JStr t))"
  using json_ok_dict_set [of rec "JStr t" "''last_seen''"] unfolding record_ok_def by (simp del: json_ok.simps(4))

text \<open>Writing or deleting a record is an update of the map at its device and of nothing else.\<close>

lemma dev_put_rel:
  assumes "rows_rel E a (dv_rows s)" and "id_ok i" and "is_ascii c" and "record_ok i c rec"
  shows "\<exists>rows. dev_put E n (DEV_PREFIX @ i) (json_dumps (JObj rec)) s = (Inr (), s\<lparr>dv_rows := rows\<rparr>) \<and>
    rows_rel E (a(i \<mapsto> c)) rows \<and> (\<forall>k. k \<noteq> DEV_PREFIX @ i \<longrightarrow> secret_view (de_sealer E) rows k = secret_view (de_sealer E) (dv_rows s) k)"
proof -
  have ok: "secrets_ok (de_sealer E) (dv_rows s)" using assms(1) by (simp add: rows_rel_def)
  obtain rows where r: "secret_put (de_sealer E) n (DEV_PREFIX @ i) (json_dumps (JObj rec)) (dv_rows s) = Inr rows"
    "secrets_ok (de_sealer E) rows"
    "secret_view (de_sealer E) rows = (secret_view (de_sealer E) (dv_rows s))(DEV_PREFIX @ i \<mapsto> json_dumps (JObj rec))"
    using secrets.put_view [OF ok prefix_nonempty(2)] by blast
  have "rows_rel E (a(i \<mapsto> c)) rows"
    using assms r(2) row_holds_record [OF assms(2-4)] unfolding rows_rel_def r(3) by (auto simp del: json_dumps.simps)
  then show ?thesis using r by (auto simp: dev_put_def)
qed

lemma dev_delete_rel:
  assumes "rows_rel E a rows"
  shows "\<exists>rows'. secret_delete (de_sealer E) (DEV_PREFIX @ i) rows = Inr rows' \<and> rows_rel E (a(i := None)) rows' \<and>
    (\<forall>k. k \<noteq> DEV_PREFIX @ i \<longrightarrow> secret_view (de_sealer E) rows' k = secret_view (de_sealer E) rows k)"
proof -
  have ok: "secrets_ok (de_sealer E) rows" using assms(1) by (simp add: rows_rel_def)
  obtain rows' where r: "secret_delete (de_sealer E) (DEV_PREFIX @ i) rows = Inr rows'" "secrets_ok (de_sealer E) rows'"
    "secret_view (de_sealer E) rows' = (secret_view (de_sealer E) rows)(DEV_PREFIX @ i := None)"
    using secrets.del_view [OF ok prefix_nonempty(2)] by blast
  have "rows_rel E (a(i := None)) rows'"
    using assms r(2) unfolding rows_rel_def r(3) by auto
  then show ?thesis using r by auto
qed

lemma dev_get_rel: "rows_rel E a (dv_rows s) \<Longrightarrow>
  dev_get E (DEV_PREFIX @ i) s = (Inr (secret_view (de_sealer E) (dv_rows s) (DEV_PREFIX @ i)), s)"
  using secrets.get_view [OF _ prefix_nonempty(2)] by (auto simp: dev_get_def rows_rel_def)

text \<open>Meta updates leave the rows alone, so the two halves of the relation combine.\<close>

lemma dev_relI: "rows_rel E a (dv_rows s) \<Longrightarrow> meta_rel E D s \<Longrightarrow> D = dom a \<Longrightarrow> dev_rel E a s"
  by (simp add: dev_rel_def)

lemma meta_rel_rows [simp]: "meta_rel E D (s\<lparr>dv_rows := rows\<rparr>) = meta_rel E D s"
  by (simp add: meta_rel_def known_digests_def split: option.splits)

lemma create_device_rel:
  assumes "dev_rel E a s" and "fresh_ok f" and inj: "\<And>k. inj (de_hmac E k)"
  shows "\<exists>s'. create_device E f label s = (Inr (new_record f label), s') \<and> dev_rel E (a(df_id f \<mapsto> df_credential f)) s' \<and>
    (\<forall>k. \<not> startswith k DEV_PREFIX \<longrightarrow> secret_view (de_sealer E) (dv_rows s') k = secret_view (de_sealer E) (dv_rows s) k)"
proof -
  have f: "id_ok (df_id f)" "is_ascii (df_credential f)" "boot_ok (df_boot f)" using assms(2) by (simp_all add: fresh_ok_def)
  have k: "dev_key (df_id f) = Inr (DEV_PREFIX @ df_id f)" using f(1) by (auto simp: dev_key_def id_ok_def)
  obtain rows where p: "dev_put E (df_nonce f) (DEV_PREFIX @ df_id f) (json_dumps (JObj (new_record f label))) s = (Inr (), s\<lparr>dv_rows := rows\<rparr>)"
    "rows_rel E (a(df_id f \<mapsto> df_credential f)) rows"
    "\<forall>k. k \<noteq> DEV_PREFIX @ df_id f \<longrightarrow> secret_view (de_sealer E) rows k = secret_view (de_sealer E) (dv_rows s) k"
    using dev_put_rel [OF _ f(1,2) new_record_ok] assms(1) unfolding dev_rel_def by blast
  let ?s1 = "s\<lparr>dv_rows := rows\<rparr>"
  have m1: "meta_rel E (dom a) ?s1" using assms(1) by (simp add: dev_rel_def)
  obtain s' where u: "update_known E (df_boot f) (df_id f) True ?s1 = (Inr (), s')" "dv_rows s' = rows" "meta_rel E (insert (df_id f) (dom a)) s'"
    using update_known_rel [OF m1 f(3) inj, where add = True] by auto
  have g: "dev_get E (DEV_PREFIX @ df_id f) ?s1 = (Inr (secret_view (de_sealer E) rows (DEV_PREFIX @ df_id f)), ?s1)"
    using dev_get_rel [of E _ ?s1] p(2) by simp
  have ne: "secret_view (de_sealer E) rows (DEV_PREFIX @ df_id f) \<noteq> None"
    using p(2) unfolding rows_rel_def by (auto simp: row_holds_def dest!: spec [of _ "df_id f"])
  have "create_device E f label s = (Inr (new_record f label), s')"
    using k p(1) g ne u(1) by (simp add: create_device_def eff_simps Let_def)
  moreover have "dev_rel E (a(df_id f \<mapsto> df_credential f)) s'"
    using p(2) u(2,3) by (simp add: dev_rel_def)
  moreover have "DEV_PREFIX @ df_id f \<noteq> k" if "\<not> startswith k DEV_PREFIX" for k
    using that by (auto simp: startswith_def)
  ultimately show ?thesis using p(3) u(2) by metis
qed

lemma revoke_device_rel:
  assumes "dev_rel E a s" and "boot_ok b" and inj: "\<And>k. inj (de_hmac E k)"
  shows "dev_rel E (a(i := None)) (snd (revoke_device E b i s)) \<and>
    (\<forall>k. \<not> startswith k DEV_PREFIX \<longrightarrow> secret_view (de_sealer E) (dv_rows (snd (revoke_device E b i s))) k = secret_view (de_sealer E) (dv_rows s) k)"
proof (cases "id_ok i")
  case False
  have "row_holds (secret_view (de_sealer E) (dv_rows s)) i (a i)" using assms(1) by (simp add: dev_rel_def rows_rel_def)
  then have "a i = None" using False by (cases "a i") (simp_all add: row_holds_def)
  then have "a(i := None) = a" by (simp add: fun_upd_idem)
  then show ?thesis using assms(1) False by (auto simp: revoke_device_def id_ok_def eff_simps dev_key_def)
next
  case True
  have k: "dev_key i = Inr (DEV_PREFIX @ i)" using True by (auto simp: dev_key_def id_ok_def)
  obtain rows where d: "secret_delete (de_sealer E) (DEV_PREFIX @ i) (dv_rows s) = Inr rows" "rows_rel E (a(i := None)) rows"
    "\<forall>k. k \<noteq> DEV_PREFIX @ i \<longrightarrow> secret_view (de_sealer E) rows k = secret_view (de_sealer E) (dv_rows s) k"
    using dev_delete_rel assms(1) unfolding dev_rel_def by blast
  let ?s1 = "s\<lparr>dv_rows := rows\<rparr>"
  have m1: "meta_rel E (dom a) ?s1" using assms(1) by (simp add: dev_rel_def)
  obtain s' where u: "update_known E b i False ?s1 = (Inr (), s')" "dv_rows s' = rows" "meta_rel E (dom a - {i}) s'"
    using update_known_rel [OF m1 assms(2) inj, where add = False] by auto
  have "revoke_device E b i s = (Inr (), s')"
    using True k d(1) u(1) by (auto simp: revoke_device_def id_ok_def eff_simps)
  moreover have "dev_rel E (a(i := None)) s'" using d(2) u(2,3) by (simp add: dev_rel_def)
  moreover have "DEV_PREFIX @ i \<noteq> k" if "\<not> startswith k DEV_PREFIX" for k
    using that by (auto simp: startswith_def)
  ultimately show ?thesis using d(3) u(2) by (metis snd_conv)
qed

definition others_kept :: "'c dev_env \<Rightarrow> 'c dev_state \<Rightarrow> 'c dev_state \<Rightarrow> bool" where
  "others_kept E s s' \<longleftrightarrow> (\<forall>k. \<not> startswith k DEV_PREFIX \<longrightarrow>
     secret_view (de_sealer E) (dv_rows s') k = secret_view (de_sealer E) (dv_rows s) k)"

lemma others_kept_refl [simp]: "others_kept E s s"
  by (simp add: others_kept_def)

lemma others_kept_trans: "others_kept E s s' \<Longrightarrow> others_kept E s' s'' \<Longrightarrow> others_kept E s s''"
  by (simp add: others_kept_def)

lemma others_kept_rows: "dv_rows s' = dv_rows s \<Longrightarrow> others_kept E s s'"
  by (simp add: others_kept_def)

lemma stamp_rel:
  assumes "dev_rel E a s" and "a i = Some c" and "record_ok i c rec"
  shows "dev_rel E a (snd (stamp_last_seen E n i rec now s)) \<and> others_kept E s (snd (stamp_last_seen E n i rec now s))"
proof -
  have rr: "rows_rel E a (dv_rows s)" "meta_rel E (dom a) s" using assms(1) by (simp_all add: dev_rel_def)
  have "row_holds (secret_view (de_sealer E) (dv_rows s)) i (Some c)" using rr(1) assms(2) by (metis rows_rel_def)
  then have i: "id_ok i" "is_ascii c" by (simp_all add: row_holds_def)
  have k: "dev_key i = Inr (DEV_PREFIX @ i)" using i(1) by (auto simp: dev_key_def id_ok_def)
  let ?rec = "dict_set rec ''last_seen'' (JStr (iso_now now))"
  let ?stamped = "ebind (elift (dev_key i)) (\<lambda>k. dev_put E n k (json_dumps (JObj ?rec)))"
  obtain rows where p: "dev_put E n (DEV_PREFIX @ i) (json_dumps (JObj ?rec)) s = (Inr (), s\<lparr>dv_rows := rows\<rparr>)"
    "rows_rel E (a(i \<mapsto> c)) rows" "\<forall>k. k \<noteq> DEV_PREFIX @ i \<longrightarrow> secret_view (de_sealer E) rows k = secret_view (de_sealer E) (dv_rows s) k"
    using dev_put_rel [OF rr(1) i record_ok_stamp [OF assms(3)]] by blast
  have a: "a(i \<mapsto> c) = a" using assms(2) by (simp add: fun_upd_idem)
  have "startswith (DEV_PREFIX @ i) DEV_PREFIX" by (simp add: startswith_def)
  then have o: "others_kept E s (s\<lparr>dv_rows := rows\<rparr>)" using p(3) unfolding others_kept_def by (metis dev_state.select_convs(1) dev_state.surjective dev_state.update_convs(1))
  have w: "?stamped s = (Inr (), s\<lparr>dv_rows := rows\<rparr>) \<and> dev_rel E a (s\<lparr>dv_rows := rows\<rparr>) \<and> others_kept E s (s\<lparr>dv_rows := rows\<rparr>)"
    using k p(1,2) o rr(2) unfolding a by (auto simp: eff_simps dev_rel_def simp del: json_dumps.simps)
  have "stamp_last_seen E n i rec now s = ?stamped s \<or> snd (stamp_last_seen E n i rec now s) = s"
    unfolding stamp_last_seen_def Let_def
    by (auto simp: ereturn_def eraise_def split: jval.splits option.splits iso_time.splits)
  then show ?thesis using w assms(1) by auto
qed

lemma bookkeeping_rel:
  assumes "dev_rel E a s" and "a i = Some c" and "record_ok i c rec" and "boot_ok (df_boot f)" and inj: "\<And>k. inj (de_hmac E k)"
  shows "dev_rel E a (snd (bookkeeping E f i rec s)) \<and> others_kept E s (snd (bookkeeping E f i rec s))"
proof -
  obtain r s1 where st: "stamp_last_seen E (df_nonce f) i rec (df_now f) s = (r, s1)" by (cases "stamp_last_seen E (df_nonce f) i rec (df_now f) s")
  have s1: "dev_rel E a s1" "others_kept E s s1" using stamp_rel [OF assms(1-3), of "df_nonce f" "df_now f"] st by simp_all
  show ?thesis
  proof (cases r)
    case (Inl e)
    then show ?thesis using s1 st by (simp add: bookkeeping_def eff_simps)
  next
    case (Inr u)
    obtain s2 b where k: "is_known_device_id E (df_boot f) i s1 = (Inr b, s2)" "dv_rows s2 = dv_rows s1" "meta_rel E (dom a) s2"
      using is_known_rel [OF _ assms(4) inj] s1(1) unfolding dev_rel_def by blast
    have s2: "dev_rel E a s2" "others_kept E s s2"
      using k(2,3) s1 others_kept_rows [of s2 s1 E] others_kept_trans by (auto simp: dev_rel_def)
    obtain s3 where u3: "update_known E (df_boot f) i True s2 = (Inr (), s3)" "dv_rows s3 = dv_rows s2" "meta_rel E (insert i (dom a)) s3"
      using update_known_rel [OF k(3) assms(4) inj, where add = True] by auto
    have "insert i (dom a) = dom a" using assms(2) by auto
    then have s3: "dev_rel E a s3" "others_kept E s s3"
      using u3(2,3) s2 others_kept_rows [of s3 s2 E] others_kept_trans by (auto simp: dev_rel_def)
    show ?thesis
      using s2 s3 st k(1) u3(1) Inr by (cases b) (simp_all add: bookkeeping_def eff_simps)
  qed
qed

text \<open>The answer for a device that is registered. A credential that is not ASCII makes the comparison raise.\<close>

lemma verify_live:
  assumes "dev_rel E a s" and "a i = Some c" and "cred \<noteq> []"
  shows "\<exists>rec. record_ok i c rec \<and> verify_device E f i cred s =
    (if is_ascii cred then if c = cred then (Inr True, snd (bookkeeping E f i rec s)) else (Inr False, s)
     else (Inl (OtherErr ''TypeError''), s))"
proof -
  have rr: "rows_rel E a (dv_rows s)" using assms(1) by (simp add: dev_rel_def)
  have h: "row_holds (secret_view (de_sealer E) (dv_rows s)) i (Some c)" using rr assms(2) unfolding rows_rel_def by metis
  then have i: "id_ok i" "i \<noteq> []" "CHR '':'' \<notin> set i" by (simp_all add: row_holds_def id_ok_def)
  have k: "dev_key i = Inr (DEV_PREFIX @ i)" using i by (auto simp: dev_key_def)
  have g: "dev_get E (DEV_PREFIX @ i) s = (Inr (secret_view (de_sealer E) (dv_rows s) (DEV_PREFIX @ i)), s)"
    by (rule dev_get_rel [OF rr])
  obtain rec where r: "record_ok i c rec" "secret_view (de_sealer E) (dv_rows s) (DEV_PREFIX @ i) = Some (json_dumps (JObj rec))" "is_ascii c"
    using h by (auto simp: row_holds_def simp del: json_dumps.simps)
  have l: "load_record (json_dumps (JObj rec)) = Inr rec" using r(1) by (intro load_record_dumps) (simp add: record_ok_def)
  have cr: "opt_get rec ''credential'' (JStr []) = JStr c" using r(1) by (simp add: record_ok_def opt_get_def)
  show ?thesis
    using i assms(3) k g r l cr
    by (intro exI [of _ rec]) (auto simp: verify_device_def eff_simps compare_digest_def simp del: json_dumps.simps)
qed

lemma verify_non_ascii_raises:
  "dev_rel E a s \<Longrightarrow> a i = Some c \<Longrightarrow> \<not> is_ascii cred \<Longrightarrow> verify_device E f i cred s = (Inl (OtherErr ''TypeError''), s)"
  using verify_live [of E a s i c cred f] by (cases "cred = []") (auto simp: is_ascii_def)

lemma verify_device_rel:
  assumes "dev_rel E a s" and "boot_ok (df_boot f)" and inj: "\<And>k. inj (de_hmac E k)"
  shows "dev_rel E a (snd (verify_device E f i cred s)) \<and> others_kept E s (snd (verify_device E f i cred s)) \<and>
    (cred \<noteq> [] \<longrightarrow> is_ascii cred \<longrightarrow> fst (verify_device E f i cred s) = Inr (a i = Some cred))"
proof (cases "id_ok i \<and> cred \<noteq> []")
  case False
  have h: "row_holds (secret_view (de_sealer E) (dv_rows s)) i (a i)" using assms(1) by (simp add: dev_rel_def rows_rel_def)
  have "\<not> id_ok i \<Longrightarrow> a i = None" using h by (cases "a i") (simp_all add: row_holds_def)
  moreover have "verify_device E f i cred s = (Inr False, s)" using False by (auto simp: verify_device_def id_ok_def eff_simps)
  ultimately show ?thesis using assms(1) False by auto
next
  case True
  have k: "dev_key i = Inr (DEV_PREFIX @ i)" using True by (auto simp: dev_key_def id_ok_def)
  have rr: "rows_rel E a (dv_rows s)" using assms(1) by (simp add: dev_rel_def)
  have g: "dev_get E (DEV_PREFIX @ i) s = (Inr (secret_view (de_sealer E) (dv_rows s) (DEV_PREFIX @ i)), s)"
    by (rule dev_get_rel [OF rr])
  have h: "row_holds (secret_view (de_sealer E) (dv_rows s)) i (a i)" using rr by (simp add: rows_rel_def)
  show ?thesis
  proof (cases "a i")
    case None
    then have "verify_device E f i cred s = (Inr False, s)"
      using h True k g by (auto simp: verify_device_def row_holds_def id_ok_def eff_simps)
    then show ?thesis using None assms(1) by simp
  next
    case (Some c)
    then obtain rec where "record_ok i c rec" "verify_device E f i cred s =
        (if is_ascii cred then if c = cred then (Inr True, snd (bookkeeping E f i rec s)) else (Inr False, s)
         else (Inl (OtherErr ''TypeError''), s))"
      using verify_live [OF assms(1) Some, of cred f] True by auto
    then show ?thesis using Some bookkeeping_rel [OF assms(1) Some _ assms(2) inj] assms(1) by auto
  qed
qed

definition dev_start :: "'c dev_env \<Rightarrow> 'c dev_state \<Rightarrow> bool" where
  "dev_start E s \<longleftrightarrow> secrets_ok (de_sealer E) (dv_rows s) \<and>
     (\<forall>k \<in> dom (secret_view (de_sealer E) (dv_rows s)). \<not> startswith k DEV_PREFIX) \<and>
     (case dv_meta s of None \<Rightarrow> True | Some m \<Rightarrow> m META_BOOT_KEY = None \<and> m META_DIGESTS = None)"

lemma dev_start_rel: "dev_start E s \<Longrightarrow> dev_rel E Map.empty s"
proof -
  assume s: "dev_start E s"
  have "startswith (DEV_PREFIX @ i) DEV_PREFIX" for i by (simp add: startswith_def)
  then have "secret_view (de_sealer E) (dv_rows s) (DEV_PREFIX @ i) = None" for i
    using s unfolding dev_start_def by (metis domIff)
  then have "rows_rel E Map.empty (dv_rows s)" using s by (simp add: dev_start_def rows_rel_def row_holds_def)
  moreover have "meta_rel E {} s"
    using s by (auto simp: dev_start_def meta_rel_def known_digests_def meta_get_def split: option.splits)
  ultimately show ?thesis by (simp add: dev_rel_def)
qed

lemma dev_step_rel:
  assumes "dev_rel E a s" and "dev_event_ok e" and inj: "\<And>k. inj (de_hmac E k)"
  shows "dev_rel E (dev_spec e a) (dev_step E e s) \<and> others_kept E s (dev_step E e s)"
proof (cases e)
  case (Pair f l)
  then have f: "fresh_ok f" using assms(2) by (simp add: dev_event_ok_def)
  show ?thesis
    using create_device_rel [OF assms(1) f inj, of l] Pair by (auto simp: dev_spec_def dev_step_def others_kept_def)
next
  case (Revoke b i)
  then have "boot_ok b" using assms(2) by (simp add: dev_event_ok_def)
  then show ?thesis
    using revoke_device_rel [OF assms(1) _ inj] Revoke by (auto simp: dev_spec_def dev_step_def others_kept_def)
next
  case (Connect f i c)
  then have "boot_ok (df_boot f)" using assms(2) by (simp add: dev_event_ok_def)
  then show ?thesis
    using verify_device_rel [OF assms(1) _ inj] Connect by (auto simp: dev_spec_def dev_step_def)
qed

lemma dev_run_rel:
  assumes "dev_rel E a s" and "list_all dev_event_ok es" and inj: "\<And>k. inj (de_hmac E k)"
  shows "dev_rel E (fold dev_spec es a) (fold (dev_step E) es s) \<and> others_kept E s (fold (dev_step E) es s)"
  using assms(1,2)
proof (induction es arbitrary: a s)
  case (Cons e es)
  then have e: "dev_rel E (dev_spec e a) (dev_step E e s)" "others_kept E s (dev_step E e s)"
    using dev_step_rel [OF Cons.prems(1) _ inj] by simp_all
  then show ?case using Cons.IH [OF e(1)] Cons.prems(2) others_kept_trans by auto
qed simp

lemma startswith_iff: "startswith k p \<longleftrightarrow> (\<exists>i. k = p @ i)"
  unfolding startswith_def by (metis append_eq_conv_conj append_take_drop_id)

lemma list_devices_rel:
  assumes "dev_rel E a s"
  shows "\<exists>vs. list_devices E s = Inr vs \<and> set (map wv_id vs) = JStr ` dom a"
proof -
  let ?S = "de_sealer E" and ?rows = "dv_rows s"
  let ?F = "\<lambda>k. rbind (secret_get ?S k ?rows) (\<lambda>v. case v of
          None \<Rightarrow> Inl (OtherErr ''TypeError'') | Some raw \<Rightarrow> rbind (load_record raw) dev_view_of)"
  let ?ks = "filter (\<lambda>k. startswith k DEV_PREFIX) (secret_keys ?rows)"
  have rr: "secrets_ok ?S ?rows" "\<And>i. row_holds (secret_view ?S ?rows) i (a i)" using assms by (simp_all add: dev_rel_def rows_rel_def)
  have held: "secret_view ?S ?rows (DEV_PREFIX @ i) \<noteq> None \<longleftrightarrow> i \<in> dom a" for i
    using rr(2) [of i] by (cases "a i") (auto simp: row_holds_def simp del: json_dumps.simps)
  have "k \<in> set ?ks \<longleftrightarrow> k \<in> (\<lambda>i. DEV_PREFIX @ i) ` dom a" for k
  proof -
    have "k \<in> set ?ks \<longleftrightarrow> startswith k DEV_PREFIX \<and> secret_view ?S ?rows k \<noteq> None"
      using secrets.keys_view [OF rr(1)] by auto
    also have "\<dots> \<longleftrightarrow> (\<exists>i. k = DEV_PREFIX @ i \<and> i \<in> dom a)" unfolding startswith_iff using held by blast
    finally show ?thesis by blast
  qed
  then have ks: "set ?ks = (\<lambda>i. DEV_PREFIX @ i) ` dom a" by blast
  have one: "\<exists>v. ?F (DEV_PREFIX @ i) = Inr v \<and> wv_id v = JStr i" if "i \<in> dom a" for i
  proof -
    obtain c where c: "a i = Some c" using \<open>i \<in> dom a\<close> by auto
    obtain rec where r: "record_ok i c rec" "secret_view ?S ?rows (DEV_PREFIX @ i) = Some (json_dumps (JObj rec))"
      using rr(2) [of i] c by (auto simp: row_holds_def simp del: json_dumps.simps)
    have l: "load_record (json_dumps (JObj rec)) = Inr rec" using r(1) by (intro load_record_dumps) (simp add: record_ok_def)
    show ?thesis
      using secrets.get_view [OF rr(1) prefix_nonempty(2), of i] r l
      by (auto simp: record_ok_def dev_view_of_def dev_field_def simp del: json_dumps.simps json_ok.simps)
  qed
  define g where "g k = (case ?F k of Inr v \<Rightarrow> v | Inl _ \<Rightarrow> undefined)" for k
  have "rmap ?F ?ks = Inr (map g ?ks)"
    by (rule rmap_Inr_map) (use ks one in \<open>fastforce simp: g_def simp del: set_filter\<close>)
  moreover have "wv_id ` g ` set ?ks = JStr ` dom a"
    unfolding ks using one by (force simp: g_def image_image intro!: image_cong)
  ultimately show ?thesis unfolding list_devices_def by (auto simp: image_image)
qed

lemma dev_run_holds:
  assumes "dev_start E s" and "list_all dev_event_ok es" and inj: "\<And>k. inj (de_hmac E k)"
  shows "dev_rel E (fold dev_spec es Map.empty) (fold (dev_step E) es s)"
    and "row_holds (secret_view (de_sealer E) (dv_rows (fold (dev_step E) es s))) i (fold dev_spec es Map.empty i)"
    and "\<not> id_ok i \<Longrightarrow> fold dev_spec es Map.empty i = None"
proof -
  let ?s = "fold (dev_step E) es s" and ?a = "fold dev_spec es Map.empty"
  show r: "dev_rel E ?a ?s" using dev_run_rel [OF dev_start_rel [OF assms(1)] assms(2) inj] by simp
  show h: "row_holds (secret_view (de_sealer E) (dv_rows ?s)) i (?a i)" using r by (simp add: dev_rel_def rows_rel_def)
  show "?a i = None" if "\<not> id_ok i" using h that by (cases "?a i") (simp_all add: row_holds_def)
qed

lemma device_exists_run:
  assumes "dev_start E s" and "list_all dev_event_ok es" and inj: "\<And>k. inj (de_hmac E k)"
  shows "device_exists E i (fold (dev_step E) es s) = Inr (fold dev_spec es Map.empty i \<noteq> None)"
proof -
  let ?s = "fold (dev_step E) es s" and ?a = "fold dev_spec es Map.empty"
  note h = dev_run_holds(1) [OF assms] dev_run_holds(2,3) [OF assms, where i = i]
  have ok: "secrets_ok (de_sealer E) (dv_rows ?s)" using h(1) by (simp add: dev_rel_def rows_rel_def)
  show ?thesis
  proof (cases "id_ok i")
    case True
    then have "device_exists E i ?s = Inr (secret_view (de_sealer E) (dv_rows ?s) (DEV_PREFIX @ i) \<noteq> None)"
      using secrets.get_view [OF ok prefix_nonempty(2), of i] by (auto simp: device_exists_def id_ok_def dev_key_def)
    then show ?thesis using h(2) by (cases "?a i") (auto simp: row_holds_def simp del: json_dumps.simps)
  qed (use h(3) in \<open>auto simp: device_exists_def id_ok_def\<close>)
qed

lemma is_known_run:
  assumes "dev_start E s" and "list_all dev_event_ok es" and inj: "\<And>k. inj (de_hmac E k)" and "boot_ok boot"
  shows "fst (is_known_device_id E boot i (fold (dev_step E) es s)) =
      Inr (dv_meta (fold (dev_step E) es s) \<noteq> None \<and> fold dev_spec es Map.empty i \<noteq> None)"
proof (cases "dv_meta (fold (dev_step E) es s)")
  case None
  then show ?thesis by (simp add: is_known_device_id_def eff_simps boot_key_def)
next
  case (Some m)
  let ?s = "fold (dev_step E) es s" and ?a = "fold dev_spec es Map.empty"
  note h = dev_run_holds(1) [OF assms(1-3)] dev_run_holds(2,3) [OF assms(1-3), where i = i]
  show ?thesis
    using is_known_rel [OF _ assms(4) inj, of "dom ?a" ?s i] h(1,3) Some by (auto simp: dev_rel_def id_ok_def)
qed

text \<open>
  C21: Pairing, revoking and connecting implement a map from live devices to their credentials, for any
  sequence of them: a connection is accepted exactly when it presents the credential its device was minted
  with and the device has not been revoked since (a revoked credential never works again); the same devices
  exist, are listed, and are the ones recognised while locked; and no other secret is touched.
\<close>

theorem devices_refine:
  assumes "dev_start E s" and "list_all dev_event_ok es" and inj: "\<And>k. inj (de_hmac E k)"
    and "boot_ok (df_boot f)" and "cred \<noteq> []" and "is_ascii cred"
  shows "fst (verify_device E f i cred (fold (dev_step E) es s)) = Inr (fold dev_spec es Map.empty i = Some cred) \<and>
    device_exists E i (fold (dev_step E) es s) = Inr (fold dev_spec es Map.empty i \<noteq> None) \<and>
    fst (is_known_device_id E (df_boot f) i (fold (dev_step E) es s)) =
      Inr (dv_meta (fold (dev_step E) es s) \<noteq> None \<and> fold dev_spec es Map.empty i \<noteq> None) \<and>
    (\<exists>vs. list_devices E (fold (dev_step E) es s) = Inr vs \<and> set (map wv_id vs) = JStr ` dom (fold dev_spec es Map.empty)) \<and>
    others_kept E s (fold (dev_step E) es s)"
proof -
  have r: "dev_rel E (fold dev_spec es Map.empty) (fold (dev_step E) es s)" "others_kept E s (fold (dev_step E) es s)"
    using dev_run_rel [OF dev_start_rel [OF assms(1)] assms(2) inj] by simp_all
  show ?thesis
    using verify_device_rel [OF r(1) assms(4) inj] assms(5,6) list_devices_rel [OF r(1)] r(2)
    by (simp add: device_exists_run [OF assms(1-3)] is_known_run [OF assms(1-4)])
qed

definition demo_dev :: "(bytes \<times> bytes \<times> string \<times> plain) dev_env" where
  "demo_dev = \<lparr>de_sealer = demo_sealer, de_hmac = (\<lambda>k i. i), de_iso = (\<lambda>_. None)\<rparr>"

definition demo_dev_start :: "(bytes \<times> bytes \<times> string \<times> plain) dev_state" where
  "demo_dev_start = \<lparr>dv_rows = [], dv_meta = Some Map.empty\<rparr>"

definition demo_fresh :: dev_fresh where
  "demo_fresh = \<lparr>df_id = ''d1'', df_credential = ''tok'', df_boot = ''00ff'', df_nonce = [1], df_now = 0\<rparr>"

lemma demo_fresh_fields [simp]: "df_id demo_fresh = ''d1''" "df_credential demo_fresh = ''tok''" "df_boot demo_fresh = ''00ff''"
  by (simp_all add: demo_fresh_def)

lemma secret_view_Nil [simp]: "secret_view S [] = Map.empty"
  by (simp add: secret_view_def fun_eq_iff)

lemma demo_dev_ok: "dev_start demo_dev demo_dev_start" "inj (de_hmac demo_dev k)" "boot_ok ''00ff''"
  "fresh_ok demo_fresh" "boot_ok (df_boot demo_fresh)"
  by (simp_all add: dev_start_def demo_dev_def demo_dev_start_def demo_sealer_roundtrip secrets_ok_Nil
      boot_ok_def fresh_ok_def id_ok_def is_ascii_def ord_def ascii_blank_def ascii_hex_def ascii_digit_def Let_def)

theorem devices_refine_witness:
  "fst (verify_device demo_dev demo_fresh ''d1'' ''tok'' (fold (dev_step demo_dev) [Pair demo_fresh ''phone''] demo_dev_start)) = Inr True
   \<and> fst (verify_device demo_dev demo_fresh ''d1'' ''tok''
        (fold (dev_step demo_dev) [Pair demo_fresh ''phone'', Revoke ''00ff'' ''d1''] demo_dev_start)) = Inr False"
proof
  have c: "is_ascii ''tok''" by (simp add: is_ascii_def ord_def)
  show "fst (verify_device demo_dev demo_fresh ''d1'' ''tok'' (fold (dev_step demo_dev) [Pair demo_fresh ''phone''] demo_dev_start)) = Inr True"
    by (subst devices_refine [OF demo_dev_ok(1) _ demo_dev_ok(2,5) _ c, THEN conjunct1])
      (simp_all add: dev_event_ok_def demo_dev_ok dev_spec_def)
  show "fst (verify_device demo_dev demo_fresh ''d1'' ''tok''
        (fold (dev_step demo_dev) [Pair demo_fresh ''phone'', Revoke ''00ff'' ''d1''] demo_dev_start)) = Inr False"
    by (subst devices_refine [OF demo_dev_ok(1) _ demo_dev_ok(2,5) _ c, THEN conjunct1])
      (simp_all add: dev_event_ok_def demo_dev_ok dev_spec_def)
qed

end
