(* ===== verification/Account.thy ===== *)
theory Account
  imports Keyvault Auth Devices
begin

text \<open>
  The account routes (\<open>app/smartbrain_3000/account.py\<close>): set-up, unlock with its throttle, lock, the two ways to set a
  new passphrase, and the secrets pages. Of the stores an unlock opens, the secret store is here; the gateway calls
  and the best-effort steps around an unlock are not. The monotonic clock is read in whole microseconds.
\<close>

section \<open>The unlock throttle\<close>

definition MIN_PASSPHRASE :: nat where "MIN_PASSPHRASE = 8"
definition FREE_FAILURES :: nat where "FREE_FAILURES = 5"
definition BACKOFF_BASE :: int where "BACKOFF_BASE = 1 * MICROS"
definition BACKOFF_MAX :: int where "BACKOFF_MAX = 300 * MICROS"
definition MAX_COUNTED_FAILURES :: nat where "MAX_COUNTED_FAILURES = 64"

record unlock_guard =
  ug_busy :: bool
  ug_failures :: nat
  ug_not_before :: int

definition fresh_guard :: unlock_guard where
  "fresh_guard = \<lparr>ug_busy = False, ug_failures = 0, ug_not_before = 0\<rparr>"

text \<open>\<open>math.ceil\<close> of microseconds as seconds.\<close>

definition ceil_seconds :: "int \<Rightarrow> int" where
  "ceil_seconds w = - ((- w) div MICROS)"

definition retry_after :: "unlock_guard \<Rightarrow> int \<Rightarrow> int result" where
  "retry_after g now =
     (let wait = ug_not_before g - now in
      if wait > BACKOFF_MAX then Inl (Assertion ''the delay never exceeds the cap'') else Inr (max 0 (ceil_seconds wait)))"

definition guard_record :: "bool \<Rightarrow> int \<Rightarrow> unlock_guard \<Rightarrow> unlock_guard" where
  "guard_record ok now g =
     (if ok then g\<lparr>ug_failures := 0, ug_not_before := 0\<rparr>
      else let n = min (ug_failures g + 1) MAX_COUNTED_FAILURES in
        if n \<ge> FREE_FAILURES
        then g\<lparr>ug_failures := n, ug_not_before := now + min (BACKOFF_BASE * 2 ^ (n - FREE_FAILURES)) BACKOFF_MAX\<rparr>
        else g\<lparr>ug_failures := n\<rparr>)"

text \<open>The two halves of \<open>_credential_attempt\<close>: entering takes the slot or answers 429; leaving records and frees it.\<close>

definition attempt_begin :: "string \<Rightarrow> int \<Rightarrow> unlock_guard \<Rightarrow> unit result \<times> unlock_guard" where
  "attempt_begin what now g =
     (if ug_busy g then (Inl (Http 429 (''another '' @ what @ '' attempt is in progress; try again in a moment'')), g)
      else case retry_after g now of
          Inl e \<Rightarrow> (Inl e, g)
        | Inr wait \<Rightarrow>
            if wait > 0 then (Inl (Http 429 (''too many failed '' @ what @ '' attempts; try again in '' @ str_int wait @ '' s'')), g)
            else (Inr (), g\<lparr>ug_busy := True\<rparr>))"

definition attempt_end :: "'a result \<Rightarrow> int \<Rightarrow> unlock_guard \<Rightarrow> unlock_guard" where
  "attempt_end r now g =
     (case r of Inr _ \<Rightarrow> guard_record True now g
      | Inl (Http c _) \<Rightarrow> if c = 401 then guard_record False now g else g
      | Inl _ \<Rightarrow> g)\<lparr>ug_busy := False\<rparr>"

section \<open>Account state\<close>

record 'c account =
  ac_rows :: "'c wrap_row list"
  ac_master :: "bytes option"
  ac_auth :: auth_app
  ac_guard :: unlock_guard

record 'c account_env =
  ae_kv :: "'c kv_env"
  ae_digest :: "string \<Rightarrow> string"

text \<open>What a call takes from its surroundings: the clock around the check, and random bytes and tokens.\<close>

record call_env =
  cl_start :: int
  cl_end :: int
  cl_token :: string
  cl_salt :: bytes
  cl_nonce :: bytes

text \<open>A block under the throttle; what the block does to the rest of the state stays when it raises.\<close>

definition credential_attempt :: "string \<Rightarrow> call_env \<Rightarrow> ('a, 'c account) eff \<Rightarrow> ('a, 'c account) eff" where
  "credential_attempt what cl body s =
     (case attempt_begin what (cl_start cl) (ac_guard s) of
        (Inl e, g) \<Rightarrow> (Inl e, s\<lparr>ac_guard := g\<rparr>)
      | (Inr _, g) \<Rightarrow> (case body (s\<lparr>ac_guard := g\<rparr>) of
          (r, s') \<Rightarrow> (r, s'\<lparr>ac_guard := attempt_end r (cl_end cl) (ac_guard s')\<rparr>)))"

definition set_unlocked :: "bytes \<Rightarrow> (unit, 'c account) eff" where
  "set_unlocked master s =
     (if length master \<noteq> KEY_BYTES then (Inl (Assertion ''master key must be 32 bytes''), s)
      else (Inr (), s\<lparr>ac_master := Some master, ac_auth := (ac_auth s)\<lparr>ap_unlocked := True\<rparr>\<rparr>))"

definition mint_browser :: "'c account_env \<Rightarrow> call_env \<Rightarrow> request \<Rightarrow> (string option, 'c account) eff" where
  "mint_browser A cl rq s = (case mint_session (ae_digest A) (cl_token cl) rq (ac_auth s) of
     (cookie, ap) \<Rightarrow> (Inr cookie, s\<lparr>ac_auth := ap\<rparr>))"

section \<open>Routes\<close>

record status_view =
  sv_initialized :: bool
  sv_unlocked :: bool
  sv_recovery :: bool
  sv_session :: bool

definition account_status :: "authority option \<Rightarrow> 'c account \<Rightarrow> status_view" where
  "account_status a s = \<lparr>sv_initialized = is_initialized (ac_rows s), sv_unlocked = ap_unlocked (ac_auth s),
     sv_recovery = has_recovery (ac_rows s), sv_session = (a \<noteq> None)\<rparr>"

definition PRODUCT :: string where "PRODUCT = ''SmartBrain_3000''"
definition LICENSOR :: string where "LICENSOR = ''The Frels Holdings LLC''"

text \<open>The body's declared minimum length is checked by the framework before the route runs (422).\<close>

definition account_setup ::
    "'c account_env \<Rightarrow> call_env \<Rightarrow> bytes \<Rightarrow> bytes \<Rightarrow> bytes \<Rightarrow> request \<Rightarrow> string \<Rightarrow> (string \<times> string \<times> string option, 'c account) eff" where
  "account_setup A cl master raw nonce2 rq pass =
     (if length pass < MIN_PASSPHRASE then eraise (Http 422 ''passphrase too short'')
      else (\<lambda>s. if is_initialized (ac_rows s) then (Inl (Http 409 ''already initialized''), s)
        else case set_passphrase (ae_kv A) master (cl_salt cl) (cl_nonce cl) pass (ac_rows s) of
            Inl e \<Rightarrow> (Inl e, s)
          | Inr (key, rows) \<Rightarrow>
              (case add_recovery_key (ae_kv A) key raw nonce2 rows of
                 Inl e \<Rightarrow> (Inl e, s\<lparr>ac_rows := rows\<rparr>)
               | Inr (shown, rows') \<Rightarrow>
                   ebind (set_unlocked key) (\<lambda>_. ebind (mint_browser A cl rq) (\<lambda>cookie.
                     if \<not> has_recovery rows' then eraise (Assertion ''recovery key must exist after setup'')
                     else ebind (elift (emergency_kit_text shown PRODUCT LICENSOR)) (\<lambda>kit. ereturn (shown, kit, cookie)))) (s\<lparr>ac_rows := rows'\<rparr>))))"

definition nonempty :: "string option \<Rightarrow> bool" where
  "nonempty v = (v \<noteq> None \<and> v \<noteq> Some [])"

text \<open>Whatever goes wrong in opening a wrap is a wrong credential.\<close>

definition derive_unlock_key :: "'c account_env \<Rightarrow> string option \<Rightarrow> string option \<Rightarrow> 'c wrap_row list \<Rightarrow> bytes result" where
  "derive_unlock_key A pass rec rows =
     (case (if nonempty pass then unlock (ae_kv A) (the pass) rows else unlock_with_recovery (ae_kv A) (the rec) rows) of
        Inl e \<Rightarrow> Inl (Http 401 ''invalid credentials'') | Inr key \<Rightarrow> Inr key)"

definition account_unlock ::
    "'c account_env \<Rightarrow> call_env \<Rightarrow> request \<Rightarrow> string option \<Rightarrow> string option \<Rightarrow> (string option, 'c account) eff" where
  "account_unlock A cl rq pass rec =
     (\<lambda>s. if \<not> is_initialized (ac_rows s) then (Inl (Http 409 ''not initialized; run setup''), s)
      else if \<not> (nonempty pass \<or> nonempty rec) then (Inl (Http 400 ''passphrase or recovery_key required''), s)
      else ebind (credential_attempt ''unlock'' cl (\<lambda>s. case derive_unlock_key A pass rec (ac_rows s) of
            Inl e \<Rightarrow> (Inl e, s)
          | Inr key \<Rightarrow> (case ac_master s of
                Some cur \<Rightarrow> if cur = key then (Inr (), s) else (Inl (Http 401 ''invalid credentials''), s)
              | None \<Rightarrow> set_unlocked key s)))
        (\<lambda>_. mint_browser A cl rq) s)"

definition account_lock :: "'c account \<Rightarrow> 'c account" where
  "account_lock s = s\<lparr>ac_master := None, ac_auth := (ac_auth s)\<lparr>ap_unlocked := False\<rparr>\<rparr>"

definition require_store :: "'c account \<Rightarrow> unit result" where
  "require_store s = (if ap_unlocked (ac_auth s) then Inr () else Inl (Http 423 ''locked: unlock first''))"

definition change_passphrase ::
    "'c account_env \<Rightarrow> call_env \<Rightarrow> authority option \<Rightarrow> string \<Rightarrow> string \<Rightarrow> (unit, 'c account) eff" where
  "change_passphrase A cl a current new =
     ebind (elift (require_desktop a)) (\<lambda>_.
     if current = [] \<or> length new < MIN_PASSPHRASE then eraise (Http 422 ''passphrase too short'')
     else ebind (\<lambda>s. (require_store s, s)) (\<lambda>_. credential_attempt ''passphrase'' cl (\<lambda>s.
       case unlock (ae_kv A) current (ac_rows s) of
         Inl e \<Rightarrow> (Inl (Http 401 ''current passphrase is incorrect''), s)
       | Inr key \<Rightarrow> (case reset_passphrase (ae_kv A) key (cl_salt cl) (cl_nonce cl) new (ac_rows s) of
             Inl e \<Rightarrow> (Inl e, s) | Inr rows \<Rightarrow> (Inr (), s\<lparr>ac_rows := rows\<rparr>)))))"

definition reset_by_recovery ::
    "'c account_env \<Rightarrow> call_env \<Rightarrow> authority option \<Rightarrow> string \<Rightarrow> string \<Rightarrow> (unit, 'c account) eff" where
  "reset_by_recovery A cl a new rec =
     ebind (elift (require_desktop a)) (\<lambda>_.
     if rec = [] \<or> length new < MIN_PASSPHRASE then eraise (Http 422 ''passphrase too short'')
     else ebind (\<lambda>s. (require_store s, s)) (\<lambda>_ s. case ac_master s of
         None \<Rightarrow> (Inl (Assertion ''unlocked session must hold the master key''), s)
       | Some master \<Rightarrow> credential_attempt ''recovery key'' cl (\<lambda>s.
           case unlock_with_recovery (ae_kv A) rec (ac_rows s) of
             Inl e \<Rightarrow> (Inl (Http 401 ''incorrect recovery key''), s)
           | Inr proven \<Rightarrow>
               if proven \<noteq> master then (Inl (Http 401 ''incorrect recovery key''), s)
               else (case reset_passphrase (ae_kv A) master (cl_salt cl) (cl_nonce cl) new (ac_rows s) of
                   Inl e \<Rightarrow> (Inl e, s) | Inr rows \<Rightarrow> (Inr (), s\<lparr>ac_rows := rows\<rparr>))) s))"

text \<open>The secrets pages reach the names of provider keys only.\<close>

definition endswith :: "string \<Rightarrow> string \<Rightarrow> bool" where
  "endswith s e = (length e \<le> length s \<and> drop (length s - length e) s = e)"

definition provider_key :: "string \<Rightarrow> bool" where
  "provider_key k = ((startswith k ''provider:'' \<or> startswith k ''websearch:'') \<and> endswith k '':api_key'')"

definition require_provider_key :: "string \<Rightarrow> unit result" where
  "require_provider_key k = (if provider_key k then Inr () else Inl (Http 403 ''this endpoint manages provider keys only''))"

definition list_secrets :: "'c account \<Rightarrow> 'c secret_row list \<Rightarrow> string list result" where
  "list_secrets s rows = rbind (require_store s) (\<lambda>_. Inr (filter provider_key (secret_keys rows)))"

definition put_secret :: "'c sealer \<Rightarrow> 'c account \<Rightarrow> authority option \<Rightarrow> bytes \<Rightarrow> string \<Rightarrow> string \<Rightarrow> 'c secret_row list \<Rightarrow> 'c secret_row list result" where
  "put_secret S s a nonce k v rows =
     rbind (require_desktop a) (\<lambda>_.
     if v = [] then Inl (Http 422 ''value too short'')
     else if k = [] then Inl (Assertion ''secret key must be non-empty'')
     else rbind (require_provider_key k) (\<lambda>_. rbind (require_store s) (\<lambda>_. secret_put S nonce k v rows)))"

definition delete_secret :: "'c sealer \<Rightarrow> 'c account \<Rightarrow> authority option \<Rightarrow> string \<Rightarrow> 'c secret_row list \<Rightarrow> 'c secret_row list result" where
  "delete_secret S s a k rows =
     rbind (require_desktop a) (\<lambda>_.
     if k = [] then Inl (Assertion ''secret key must be non-empty'')
     else rbind (require_provider_key k) (\<lambda>_. rbind (require_store s) (\<lambda>_. secret_delete S k rows)))"

section \<open>The throttle bounds guessing\<close>

definition delay :: "nat \<Rightarrow> int" where
  "delay n = (if n < FREE_FAILURES then 0 else min (BACKOFF_BASE * 2 ^ (min n MAX_COUNTED_FAILURES - FREE_FAILURES)) BACKOFF_MAX)"

text \<open>Wrong credentials one after another: when each is let in and when its failure is recorded.\<close>

fun guesses :: "(int \<times> int) list \<Rightarrow> unlock_guard \<Rightarrow> unlock_guard option" where
  "guesses [] g = Some g"
| "guesses ((t, u) # ts) g = (case attempt_begin ''unlock'' t g of
     (Inr _, g') \<Rightarrow> guesses ts (attempt_end (Inl (Http 401 ''invalid credentials'') :: unit result) u g') | _ \<Rightarrow> None)"

definition guard_after :: "nat \<Rightarrow> int \<Rightarrow> unlock_guard \<Rightarrow> bool" where
  "guard_after n u g \<longleftrightarrow> \<not> ug_busy g \<and> ug_failures g = min n MAX_COUNTED_FAILURES \<and>
     (if n < FREE_FAILURES then ug_not_before g = 0 else ug_not_before g = u + delay n)"

lemma ceil_seconds_pos: "ceil_seconds w > 0 \<longleftrightarrow> w > 0"
  by (auto simp: ceil_seconds_def MICROS_def)

lemma attempt_begin_admits:
  "fst (attempt_begin what t g) = Inr () \<longleftrightarrow> \<not> ug_busy g \<and> ug_not_before g \<le> t"
  using ceil_seconds_pos [of "ug_not_before g - t"]
  by (auto simp: attempt_begin_def retry_after_def BACKOFF_MAX_def MICROS_def Let_def)

lemma guess_step:
  assumes "guard_after n u g" and "fst (attempt_begin what t g) = Inr ()" and "t \<le> u'"
  shows "guard_after (Suc n) u' (attempt_end (Inl (Http 401 m) :: unit result) u' (snd (attempt_begin what t g)))"
    and "n < FREE_FAILURES \<or> u + delay n \<le> t"
proof -
  have s: "snd (attempt_begin what t g) = g\<lparr>ug_busy := True\<rparr>"
    using assms(2) by (auto simp: attempt_begin_def split: if_splits sum.splits)
  show "guard_after (Suc n) u' (attempt_end (Inl (Http 401 m) :: unit result) u' (snd (attempt_begin what t g)))"
    using assms(1) unfolding s
    by (auto simp: guard_after_def attempt_end_def guard_record_def delay_def MAX_COUNTED_FAILURES_def FREE_FAILURES_def Let_def min_def)
  show "n < FREE_FAILURES \<or> u + delay n \<le> t"
    using assms(1,2) unfolding attempt_begin_admits by (auto simp: guard_after_def split: if_splits)
qed

lemma delay_capped: "14 \<le> n \<Longrightarrow> delay n = BACKOFF_MAX"
proof -
  assume n: "14 \<le> n"
  have "(2 :: int) ^ 9 \<le> 2 ^ (min n 64 - 5)" using n by (intro power_increasing) auto
  then show ?thesis using n by (simp add: delay_def FREE_FAILURES_def MAX_COUNTED_FAILURES_def BACKOFF_BASE_def BACKOFF_MAX_def MICROS_def min_def)
qed

lemma guesses_spread:
  assumes "guard_after n u g" and "14 \<le> n" and "guesses ts g \<noteq> None" and "list_all (\<lambda>(t, u). t \<le> u) ts" and "ts \<noteq> []"
  shows "u + BACKOFF_MAX * int (length ts) \<le> fst (last ts)"
  using assms
proof (induction ts arbitrary: n u g)
  case (Cons tu ts)
  obtain t u' where tu: "tu = (t, u')" by (cases tu)
  have adm: "fst (attempt_begin ''unlock'' t g) = Inr ()"
    using Cons.prems(3) by (auto simp: tu split: prod.splits sum.splits)
  let ?g = "attempt_end (Inl (Http 401 ''invalid credentials'') :: unit result) u' (snd (attempt_begin ''unlock'' t g))"
  have le: "t \<le> u'" using Cons.prems(4) by (simp add: tu)
  note st = guess_step [OF Cons.prems(1) adm le]
  have tb: "u + BACKOFF_MAX \<le> t" using st(2) Cons.prems(2) delay_capped [OF Cons.prems(2)] by (auto simp: FREE_FAILURES_def)
  show ?case
  proof (cases "ts = []")
    case True
    then show ?thesis using tb by (simp add: tu)
  next
    case False
    have rest: "guesses ts ?g \<noteq> None" using Cons.prems(3) adm by (auto simp: tu split: prod.splits)
    have "u' + BACKOFF_MAX * int (length ts) \<le> fst (last ts)"
      by (rule Cons.IH [OF st(1) _ rest]) (use Cons.prems(2,4) False in \<open>auto simp: tu\<close>)
    then show ?thesis using tb le False by (simp add: algebra_simps)
  qed
qed simp

lemma guesses_append: "guesses (xs @ ys) g = (case guesses xs g of None \<Rightarrow> None | Some g' \<Rightarrow> guesses ys g')"
  by (induction xs g rule: guesses.induct) (auto split: prod.splits sum.splits)

lemma guesses_count:
  assumes "guard_after n u g" and "guesses ts g \<noteq> None" and "list_all (\<lambda>(t, u). t \<le> u) ts"
  shows "\<exists>g'. guesses ts g = Some g' \<and> guard_after (n + length ts) (if ts = [] then u else snd (last ts)) g'"
  using assms
proof (induction ts arbitrary: n u g)
  case (Cons tu ts)
  obtain t u' where tu: "tu = (t, u')" by (cases tu)
  have adm: "fst (attempt_begin ''unlock'' t g) = Inr ()"
    using Cons.prems(2) by (auto simp: tu split: prod.splits sum.splits)
  let ?g = "attempt_end (Inl (Http 401 ''invalid credentials'') :: unit result) u' (snd (attempt_begin ''unlock'' t g))"
  have le: "t \<le> u'" using Cons.prems(3) by (simp add: tu)
  have eq: "guesses (tu # ts) g = guesses ts ?g" using adm by (auto simp: tu split: prod.splits)
  have "\<exists>g'. guesses ts ?g = Some g' \<and> guard_after (Suc n + length ts) (if ts = [] then u' else snd (last ts)) g'"
    by (rule Cons.IH [OF guess_step(1) [OF Cons.prems(1) adm le]]) (use Cons.prems(2,3) eq in \<open>auto simp: tu\<close>)
  then show ?case unfolding eq by (auto simp: tu)
qed auto

lemma guard_after_fresh: "guard_after 0 u fresh_guard"
  by (simp add: guard_after_def fresh_guard_def FREE_FAILURES_def)

text \<open>
  C20: Guessing is bounded and nobody is locked out. Of wrong credentials tried one after another, any number n
  beyond the fourteenth takes at least (n - 14) times 300 seconds to try, whatever the timing of the attempts; and
  after any number of failures, an attempt made 300 seconds after the last one is let in.
\<close>

theorem throttle_bounds_guessing:
  assumes "guesses (ts @ ys) fresh_guard \<noteq> None" and "list_all (\<lambda>(t, u). t \<le> u) (ts @ ys)" and "length ts = 14"
  shows "(ys = [] \<or> snd (last ts) + 300 * MICROS * int (length ys) \<le> fst (last ys)) \<and>
    (\<exists>g. guesses (ts @ ys) fresh_guard = Some g \<and>
      (\<forall>now. snd (last (ts @ ys)) + 300 * MICROS \<le> now \<longrightarrow> fst (attempt_begin ''unlock'' now g) = Inr ()))"
proof (intro conjI)
  have ne: "ts \<noteq> []" using assms(3) by auto
  have "guesses ts fresh_guard \<noteq> None" using assms(1) by (auto simp: guesses_append split: option.splits)
  moreover have "list_all (\<lambda>(t, u). t \<le> u) ts" using assms(2) by simp
  ultimately obtain g where g: "guesses ts fresh_guard = Some g" "guard_after (0 + length ts) (snd (last ts)) g"
    using guesses_count [OF guard_after_fresh, of ts 0] ne by auto
  then have more: "guesses ys g \<noteq> None" using assms(1) by (simp add: guesses_append)
  have "14 \<le> 0 + length ts" using assms(3) by simp
  from guesses_spread [OF g(2) this more]
  show "ys = [] \<or> snd (last ts) + 300 * MICROS * int (length ys) \<le> fst (last ys)"
    using assms(2) by (cases "ys = []") (auto simp: BACKOFF_MAX_def)
  obtain g' where g': "guesses (ts @ ys) fresh_guard = Some g'" "guard_after (0 + length (ts @ ys)) (snd (last (ts @ ys))) g'"
    using guesses_count [OF guard_after_fresh assms(1,2), of 0] ne by auto
  have d: "delay (length (ts @ ys)) = 300 * MICROS" using assms(3) delay_capped [of "length (ts @ ys)"] by (simp add: BACKOFF_MAX_def)
  have "\<not> ug_busy g' \<and> ug_not_before g' = snd (last (ts @ ys)) + delay (length (ts @ ys))"
    using g'(2) assms(3) by (simp add: guard_after_def FREE_FAILURES_def del: last_append)
  then have "fst (attempt_begin ''unlock'' now g') = Inr ()" if "snd (last (ts @ ys)) + 300 * MICROS \<le> now" for now
    using that unfolding attempt_begin_admits d by (simp del: last_append)
  then show "\<exists>g. guesses (ts @ ys) fresh_guard = Some g \<and>
      (\<forall>now. snd (last (ts @ ys)) + 300 * MICROS \<le> now \<longrightarrow> fst (attempt_begin ''unlock'' now g) = Inr ())"
    using g'(1) by blast
qed

text \<open>Fifteen guesses, each ten minutes after the last.\<close>

definition demo_guesses :: "nat \<Rightarrow> nat \<Rightarrow> (int \<times> int) list" where
  "demo_guesses a b = map (\<lambda>k. (int k * 600000000, int k * 600000000)) [a..<b]"

lemma guess_admitted: "guard_after n u g \<Longrightarrow> u + BACKOFF_MAX \<le> t \<or> n = 0 \<and> 0 \<le> t \<Longrightarrow> 0 \<le> t \<Longrightarrow>
  fst (attempt_begin ''unlock'' t g) = Inr ()"
  unfolding attempt_begin_admits by (auto simp: guard_after_def delay_def FREE_FAILURES_def split: if_splits)

theorem throttle_bounds_guessing_witness:
  "fst (attempt_begin ''unlock'' (14 * 600000000 + 300000000) (the (guesses (demo_guesses 0 15) fresh_guard))) = Inr ()"
proof -
  have "\<exists>g. guesses (demo_guesses 0 m) fresh_guard = Some g \<and> guard_after m (int (m - 1) * 600000000) g" for m
  proof (induction m)
    case 0
    then show ?case using guard_after_fresh by (simp add: demo_guesses_def)
  next
    case (Suc m)
    then obtain g where g: "guesses (demo_guesses 0 m) fresh_guard = Some g" "guard_after m (int (m - 1) * 600000000) g" by blast
    have adm: "fst (attempt_begin ''unlock'' (int m * 600000000) g) = Inr ()"
      by (rule guess_admitted [OF g(2)]) (cases m; simp add: BACKOFF_MAX_def MICROS_def)+
    have "demo_guesses 0 (Suc m) = demo_guesses 0 m @ [(int m * 600000000, int m * 600000000)]" by (simp add: demo_guesses_def)
    then show ?case
      using g(1) adm guess_step(1) [OF g(2) adm order_refl] by (auto simp: guesses_append split: prod.splits sum.splits)
  qed
  from this [of 15] have "guesses (demo_guesses 0 15) fresh_guard \<noteq> None" by auto
  moreover have e: "demo_guesses 0 15 = demo_guesses 0 14 @ demo_guesses 14 15"
    using upt_add_eq_append [of 0 14 1] by (simp add: demo_guesses_def)
  moreover have "snd (last (demo_guesses 0 14 @ demo_guesses 14 15)) = 14 * 600000000" by (simp add: demo_guesses_def)
  moreover have "list_all (\<lambda>(t, u). t \<le> u) (demo_guesses 0 14 @ demo_guesses 14 15)" "length (demo_guesses 0 14) = 14"
    by (simp_all add: demo_guesses_def list_all_iff)
  ultimately show ?thesis
    using throttle_bounds_guessing [of "demo_guesses 0 14" "demo_guesses 14 15"] by (auto simp: MICROS_def)
qed

section \<open>The vault behind the routes\<close>

text \<open>The secrets of an initialised account; the master key of an unlocked one is the vault's.\<close>

definition account_rel :: "'c account_env \<Rightarrow> (bytes \<times> string \<times> bytes) option \<Rightarrow> 'c account \<Rightarrow> bool" where
  "account_rel A v s \<longleftrightarrow> (case v of
       None \<Rightarrow> ac_rows s = [] \<and> ac_master s = None
     | Some (mk, pass, raw) \<Rightarrow> kv_rel (ae_kv A) mk pass (Some raw) (ac_rows s) \<and> (ac_master s = None \<or> ac_master s = Some mk)) \<and>
     (ap_unlocked (ac_auth s) \<longleftrightarrow> ac_master s \<noteq> None)"

definition kv_laws :: "'c account_env \<Rightarrow> string set \<Rightarrow> bool" where
  "kv_laws A P \<longleftrightarrow> aead_roundtrip (kv_aead (ae_kv A)) \<and> aead_authentic (kv_aead (ae_kv A)) \<and> argon_ok (ae_kv A) \<and> argon_distinct (ae_kv A) P"

lemma setup_rel:
  assumes "kv_laws A P" and "account_rel A None s" and "8 \<le> length pass" and "length mk = KEY_BYTES" and "length raw = KEY_BYTES"
    and "length (cl_salt cl) = SALT_BYTES"
  shows "\<exists>shown kit cookie s'. account_setup A cl mk raw n2 rq pass s = (Inr (shown, kit, cookie), s') \<and>
    decode_recovery shown = Inr raw \<and> account_rel A (Some (mk, pass, raw)) s' \<and> ac_master s' = Some mk \<and> ac_guard s' = ac_guard s"
proof -
  have rows: "ac_rows s = []" "pass \<noteq> []" using assms(2,3) by (auto simp: account_rel_def)
  obtain r1 where r1: "set_passphrase (ae_kv A) mk (cl_salt cl) (cl_nonce cl) pass [] = Inr (mk, r1)" "kv_rel (ae_kv A) mk pass None r1"
    using set_passphrase_rel [OF _ rows(2) assms(4,6)] assms(1) unfolding kv_laws_def by blast
  obtain shown r2 where r2: "add_recovery_key (ae_kv A) mk raw n2 r1 = Inr (shown, r2)" "kv_rel (ae_kv A) mk pass (Some raw) r2"
    "decode_recovery shown = Inr raw"
    using add_recovery_rel [OF r1(2) assms(5)] by blast
  have i: "\<not> is_initialized []" by (simp add: is_initialized_def has_wrap_def)
  have h: "has_recovery r2" using r2(2) by (auto simp: kv_rel_def has_recovery_def has_wrap_def)
  have "shown \<noteq> []" using r2(3) by (auto simp: decode_recovery_def)
  then obtain kit where k: "emergency_kit_text shown PRODUCT LICENSOR = Inr kit"
    by (simp add: emergency_kit_text_def PRODUCT_def)
  show ?thesis
    using h k assms(3,4) rows(1) r1(1) r2 i
    by (cases "mint_session (ae_digest A) (cl_token cl) rq ((ac_auth s)\<lparr>ap_unlocked := True\<rparr>)")
      (auto simp: account_setup_def MIN_PASSPHRASE_def eff_simps set_unlocked_def mint_browser_def account_rel_def mint_session_def Let_def
        split: if_splits)
qed

lemma derive_unlock_key_rel:
  assumes "kv_laws A P" and "kv_rel (ae_kv A) mk pass (Some raw) rows" and "pass \<in> P"
    and "nonempty p \<longrightarrow> the p \<in> P" and "nonempty p \<or> nonempty rec"
  shows "derive_unlock_key A p rec rows =
    (if (if nonempty p then the p = pass else decode_recovery (the rec) = Inr raw) then Inr mk
     else Inl (Http 401 ''invalid credentials''))"
proof (cases "nonempty p")
  case True
  then obtain q where q: "p = Some q" "q \<noteq> []" by (auto simp: nonempty_def)
  then show ?thesis
    using unlock_rel [OF _ _ _ assms(2), of q P] assms(1,3,4) True by (auto simp: derive_unlock_key_def kv_laws_def)
next
  case False
  show ?thesis
  proof (cases "decode_recovery (the rec)")
    case (Inl e)
    obtain r where "row_find kw_method ''recovery'' rows = Some r" using assms(2) by (auto simp: kv_rel_def)
    then have "\<exists>e. unlock_with_recovery (ae_kv A) (the rec) rows = Inl e" using Inl by (simp add: unlock_with_recovery_def)
    then show ?thesis using False Inl by (auto simp: derive_unlock_key_def)
  next
    case (Inr raw')
    have "unlock_with_recovery (ae_kv A) (the rec) rows = (if raw' = raw then Inr mk else Inl InvalidTag)"
      using recovery_rel [OF _ _ assms(2) Inr] assms(1) by (simp add: kv_laws_def)
    then show ?thesis using False Inr by (auto simp: derive_unlock_key_def)
  qed
qed

text \<open>A block under the throttle leaves the guard free, and runs only when it was let in.\<close>

lemma credential_attempt_cases:
  "credential_attempt what cl body s =
    (if fst (attempt_begin what (cl_start cl) (ac_guard s)) = Inr ()
     then (let g = (ac_guard s)\<lparr>ug_busy := True\<rparr>; (r, s') = body (s\<lparr>ac_guard := g\<rparr>)
           in (r, s'\<lparr>ac_guard := attempt_end r (cl_end cl) (ac_guard s')\<rparr>))
     else (Inl (projl (fst (attempt_begin what (cl_start cl) (ac_guard s)))), s))"
  by (auto simp: credential_attempt_def attempt_begin_def Let_def split: sum.splits prod.splits)

lemma account_rel_guard [simp]: "account_rel A v (s\<lparr>ac_guard := g\<rparr>) = account_rel A v s"
  by (simp add: account_rel_def split: option.split)

definition succeeded :: "'a result \<Rightarrow> bool" where
  "succeeded r = (case r of Inr _ \<Rightarrow> True | Inl _ \<Rightarrow> False)"

lemma mint_browser_rel:
  assumes "account_rel A v s" and "mint_browser A cl rq s = (r, s')"
  shows "account_rel A v s' \<and> succeeded r \<and> ac_master s' = ac_master s \<and> ac_rows s' = ac_rows s \<and>
    ap_unlocked (ac_auth s') = ap_unlocked (ac_auth s)"
  using assms by (auto simp: account_rel_def mint_browser_def mint_session_def succeeded_def Let_def split: option.splits if_splits)

datatype account_event =
    Setup call_env bytes bytes bytes request string
  | Unlock call_env request "string option" "string option"
  | Lock
  | Change call_env "authority option" string string
  | ResetByRecovery call_env "authority option" string string

definition call_ok :: "call_env \<Rightarrow> bool" where
  "call_ok cl = (length (cl_salt cl) = SALT_BYTES)"

definition account_event_ok :: "string set \<Rightarrow> account_event \<Rightarrow> bool" where
  "account_event_ok P e = (case e of
       Setup cl mk raw n rq pass \<Rightarrow> call_ok cl \<and> length mk = KEY_BYTES \<and> length raw = KEY_BYTES \<and> pass \<in> P
     | Unlock cl rq p rec \<Rightarrow> nonempty p \<longrightarrow> the p \<in> P
     | Lock \<Rightarrow> True
     | Change cl a cur new \<Rightarrow> call_ok cl \<and> cur \<in> P \<and> new \<in> P
     | ResetByRecovery cl a new rec \<Rightarrow> call_ok cl \<and> new \<in> P)"

definition account_call :: "'c account_env \<Rightarrow> account_event \<Rightarrow> 'c account \<Rightarrow> bool \<times> 'c account" where
  "account_call A e s = (case e of
       Setup cl mk raw n rq pass \<Rightarrow> map_prod succeeded id (account_setup A cl mk raw n rq pass s)
     | Unlock cl rq p rec \<Rightarrow> map_prod succeeded id (account_unlock A cl rq p rec s)
     | Lock \<Rightarrow> (True, account_lock s)
     | Change cl a cur new \<Rightarrow> map_prod succeeded id (change_passphrase A cl a cur new s)
     | ResetByRecovery cl a new rec \<Rightarrow> map_prod succeeded id (reset_by_recovery A cl a new rec s))"

text \<open>The secrets change by calls that succeed: set-up draws them, the other two replace the passphrase.\<close>

definition account_spec :: "account_event \<Rightarrow> bool \<Rightarrow> (bytes \<times> string \<times> bytes) option \<Rightarrow> (bytes \<times> string \<times> bytes) option" where
  "account_spec e fine v =
     (if \<not> fine then v
      else case e of
          Setup cl mk raw n rq pass \<Rightarrow> Some (mk, pass, raw)
        | Change cl a cur new \<Rightarrow> map_option (\<lambda>(mk, _, raw). (mk, new, raw)) v
        | ResetByRecovery cl a new rec \<Rightarrow> map_option (\<lambda>(mk, _, raw). (mk, new, raw)) v
        | _ \<Rightarrow> v)"

definition pass_in :: "string set \<Rightarrow> (bytes \<times> string \<times> bytes) option \<Rightarrow> bool" where
  "pass_in P v = (case v of None \<Rightarrow> True | Some (mk, pass, raw) \<Rightarrow> pass \<in> P)"

lemma change_passphrase_rel:
  assumes "kv_laws A P" and "account_rel A v s" and "pass_in P v" and "call_ok cl" and "cur \<in> P"
    and "change_passphrase A cl a cur new s = (r, s')"
  shows "account_rel A (account_spec (Change cl a cur new) (succeeded r) v) s' \<and>
    (succeeded r \<longrightarrow> a = Some Desktop \<and> (\<exists>mk raw. v = Some (mk, cur, raw)))"
proof (cases "a = Some Desktop \<and> cur \<noteq> [] \<and> 8 \<le> length new \<and> ap_unlocked (ac_auth s) \<and>
    fst (attempt_begin ''passphrase'' (cl_start cl) (ac_guard s)) = Inr ()")
  case False
  then have "\<exists>e. (r, s') = (Inl e, s)"
    using assms(6) by (auto simp: change_passphrase_def require_desktop_def from_paired_phone_def require_store_def MIN_PASSPHRASE_def
        eff_simps credential_attempt_cases split: if_splits)
  then show ?thesis using assms(2) by (auto simp: account_spec_def succeeded_def)
next
  case True
  have "ac_master s \<noteq> None" using assms(2) True by (simp add: account_rel_def)
  then obtain mk pass raw where v: "v = Some (mk, pass, raw)" using assms(2) by (cases v) (auto simp: account_rel_def)
  have kv: "kv_rel (ae_kv A) mk pass (Some raw) (ac_rows s)" "pass \<in> P" using assms(2,3) v by (auto simp: account_rel_def pass_in_def)
  have u: "unlock (ae_kv A) cur (ac_rows s) = (if cur = pass then Inr mk else Inl InvalidTag)"
    using unlock_rel [OF _ _ _ kv(1), of cur P] assms(1,5) kv(2) True by (auto simp: kv_laws_def)
  have "new \<noteq> []" using True by auto
  then obtain rows where rows: "reset_passphrase (ae_kv A) mk (cl_salt cl) (cl_nonce cl) new (ac_rows s) = Inr rows"
    "kv_rel (ae_kv A) mk new (Some raw) rows"
    using reset_passphrase_rel [OF _ kv(1), of new "cl_salt cl" "cl_nonce cl"] assms(1,4) by (auto simp: kv_laws_def call_ok_def)
  have "(r, s') = (if cur = pass
      then (Inr (), s\<lparr>ac_rows := rows, ac_guard := attempt_end (Inr () :: unit result) (cl_end cl) ((ac_guard s)\<lparr>ug_busy := True\<rparr>)\<rparr>)
      else (Inl (Http 401 ''current passphrase is incorrect''),
        s\<lparr>ac_guard := attempt_end (Inl (Http 401 ''current passphrase is incorrect'') :: unit result) (cl_end cl) ((ac_guard s)\<lparr>ug_busy := True\<rparr>)\<rparr>))"
    using assms(6) True u rows(1)
    by (auto simp: change_passphrase_def require_desktop_def from_paired_phone_def require_store_def MIN_PASSPHRASE_def
        eff_simps credential_attempt_cases Let_def)
  then show ?thesis
    using assms(2) v rows(2) True by (auto simp: account_spec_def succeeded_def account_rel_def split: if_splits)
qed

lemma reset_by_recovery_rel:
  assumes "kv_laws A P" and "account_rel A v s" and "call_ok cl" and "reset_by_recovery A cl a new rec s = (r, s')"
  shows "account_rel A (account_spec (ResetByRecovery cl a new rec) (succeeded r) v) s' \<and>
    (succeeded r \<longrightarrow> a = Some Desktop \<and> (\<exists>mk pass raw. v = Some (mk, pass, raw) \<and> decode_recovery rec = Inr raw))"
proof (cases "a = Some Desktop \<and> rec \<noteq> [] \<and> 8 \<le> length new \<and> ap_unlocked (ac_auth s) \<and>
    fst (attempt_begin ''recovery key'' (cl_start cl) (ac_guard s)) = Inr ()")
  case False
  then have "\<exists>e. (r, s') = (Inl e, s)"
    using assms(4) by (auto simp: reset_by_recovery_def require_desktop_def from_paired_phone_def require_store_def MIN_PASSPHRASE_def
        eff_simps credential_attempt_cases split: if_splits option.splits)
  then show ?thesis using assms(2) by (auto simp: account_spec_def succeeded_def)
next
  case True
  have m: "ac_master s \<noteq> None" using assms(2) True by (simp add: account_rel_def)
  then obtain mk pass raw where v: "v = Some (mk, pass, raw)" using assms(2) by (cases v) (auto simp: account_rel_def)
  have kv: "kv_rel (ae_kv A) mk pass (Some raw) (ac_rows s)" and mk: "ac_master s = Some mk" using assms(2) v m by (auto simp: account_rel_def)
  have u: "(\<exists>e. unlock_with_recovery (ae_kv A) rec (ac_rows s) = Inl e) \<and> decode_recovery rec \<noteq> Inr raw \<or>
      unlock_with_recovery (ae_kv A) rec (ac_rows s) = Inr mk \<and> decode_recovery rec = Inr raw"
  proof (cases "decode_recovery rec")
    case (Inl e)
    obtain r where "row_find kw_method ''recovery'' (ac_rows s) = Some r" using kv by (auto simp: kv_rel_def)
    then show ?thesis using Inl by (simp add: unlock_with_recovery_def)
  next
    case (Inr raw')
    then show ?thesis using recovery_rel [OF _ _ kv Inr] assms(1) by (auto simp: kv_laws_def)
  qed
  have "new \<noteq> []" using True by auto
  then obtain rows where rows: "reset_passphrase (ae_kv A) mk (cl_salt cl) (cl_nonce cl) new (ac_rows s) = Inr rows"
    "kv_rel (ae_kv A) mk new (Some raw) rows"
    using reset_passphrase_rel [OF _ kv, of new "cl_salt cl" "cl_nonce cl"] assms(1,3) by (auto simp: kv_laws_def call_ok_def)
  have "(r, s') = (if decode_recovery rec = Inr raw
      then (Inr (), s\<lparr>ac_rows := rows, ac_guard := attempt_end (Inr () :: unit result) (cl_end cl) ((ac_guard s)\<lparr>ug_busy := True\<rparr>)\<rparr>)
      else (Inl (Http 401 ''incorrect recovery key''),
        s\<lparr>ac_guard := attempt_end (Inl (Http 401 ''incorrect recovery key'') :: unit result) (cl_end cl) ((ac_guard s)\<lparr>ug_busy := True\<rparr>)\<rparr>))"
    using assms(4) True u rows(1) mk
    by (auto simp: reset_by_recovery_def require_desktop_def from_paired_phone_def require_store_def MIN_PASSPHRASE_def
        eff_simps credential_attempt_cases Let_def)
  then show ?thesis
    using assms(2) v rows(2) True by (auto simp: account_spec_def succeeded_def account_rel_def split: if_splits)
qed

lemma unlock_route_eq:
  assumes "kv_laws A P" and "account_rel A (Some (mk, pass, raw)) s" and "pass \<in> P" and "nonempty p \<longrightarrow> the p \<in> P"
    and "nonempty p \<or> nonempty rec"
  shows "account_unlock A cl rq p rec s =
    (if fst (attempt_begin ''unlock'' (cl_start cl) (ac_guard s)) \<noteq> Inr ()
     then (Inl (projl (fst (attempt_begin ''unlock'' (cl_start cl) (ac_guard s)))), s)
     else if (if nonempty p then the p = pass else decode_recovery (the rec) = Inr raw)
     then mint_browser A cl rq (s\<lparr>ac_master := Some mk, ac_auth := (ac_auth s)\<lparr>ap_unlocked := True\<rparr>,
            ac_guard := attempt_end (Inr () :: unit result) (cl_end cl) ((ac_guard s)\<lparr>ug_busy := True\<rparr>)\<rparr>)
     else (Inl (Http 401 ''invalid credentials''),
       s\<lparr>ac_guard := attempt_end (Inl (Http 401 ''invalid credentials'') :: unit result) (cl_end cl) ((ac_guard s)\<lparr>ug_busy := True\<rparr>)\<rparr>))"
proof -
  have kv: "kv_rel (ae_kv A) mk pass (Some raw) (ac_rows s)" "ac_master s = None \<or> ac_master s = Some mk"
    "ap_unlocked (ac_auth s) \<longleftrightarrow> ac_master s \<noteq> None" using assms(2) by (simp_all add: account_rel_def)
  have i: "is_initialized (ac_rows s)" "length mk = KEY_BYTES" using kv(1) by (auto simp: kv_rel_def is_initialized_def has_wrap_def)
  have ap: "ap_unlocked (ac_auth s) \<Longrightarrow> (ac_auth s)\<lparr>ap_unlocked := True\<rparr> = ac_auth s" by simp
  have ms: "ac_master s = Some mk \<Longrightarrow> s\<lparr>ac_master := Some mk\<rparr> = s" by simp
  note d = derive_unlock_key_rel [OF assms(1) kv(1) assms(3-5)]
  show ?thesis
  proof (cases "ac_master s")
    case None
    then show ?thesis
      using i assms(5) d by (auto simp: account_unlock_def eff_simps credential_attempt_cases set_unlocked_def Let_def)
  next
    case (Some x)
    then have e: "s\<lparr>ac_master := Some mk, ac_auth := (ac_auth s)\<lparr>ap_unlocked := True\<rparr>\<rparr> = s" using kv(2,3) by simp
    then have e2: "s\<lparr>ac_master := Some mk, ac_auth := (ac_auth s)\<lparr>ap_unlocked := True\<rparr>, ac_guard := g\<rparr> = s\<lparr>ac_guard := g\<rparr>" for g
      by (metis (no_types, lifting) account.surjective account.update_convs(4))
    show ?thesis
      using Some i assms(5) d kv(2) unfolding e2 by (auto simp: account_unlock_def eff_simps credential_attempt_cases Let_def)
  qed
qed

section \<open>Runs of the account routes\<close>

lemma setup_again:
  assumes "account_rel A (Some v) s"
  shows "\<exists>e. account_setup A cl mk raw n rq pass s = (Inl e, s)"
proof -
  have "is_initialized (ac_rows s)" using assms by (auto simp: account_rel_def kv_rel_def is_initialized_def has_wrap_def split: prod.splits)
  then show ?thesis by (auto simp: account_setup_def eraise_def)
qed

lemma unlock_uninitialized:
  "account_rel A None s \<Longrightarrow> account_unlock A cl rq p rec s = (Inl (Http 409 ''not initialized; run setup''), s)"
  by (simp add: account_rel_def account_unlock_def is_initialized_def has_wrap_def)

lemma unlock_nothing: "\<not> (nonempty p \<or> nonempty rec) \<Longrightarrow> \<exists>e. account_unlock A cl rq p rec s = (Inl e, s)"
  by (auto simp: account_unlock_def)

lemma account_call_rel:
  assumes "kv_laws A P" and "account_rel A v s" and "pass_in P v" and "account_event_ok P e" and "account_call A e s = (fine, s')"
  shows "account_rel A (account_spec e fine v) s' \<and> pass_in P (account_spec e fine v)"
proof (cases e)
  case (Setup cl mk raw n rq pass)
  have ok: "call_ok cl" "length mk = KEY_BYTES" "length raw = KEY_BYTES" "pass \<in> P" using assms(4) by (auto simp: Setup account_event_ok_def)
  show ?thesis
  proof (cases v)
    case None
    show ?thesis
    proof (cases "8 \<le> length pass")
      case True
      then obtain shown kit cookie t where "account_setup A cl mk raw n rq pass s = (Inr (shown, kit, cookie), t)" "account_rel A (Some (mk, pass, raw)) t"
        using setup_rel [OF assms(1), of s pass mk raw cl n rq] assms(2) ok None by (auto simp: call_ok_def)
      then show ?thesis using assms(5) ok by (auto simp: Setup account_call_def account_spec_def succeeded_def pass_in_def)
    next
      case False
      then show ?thesis using assms(2,3,5) None
        by (auto simp: Setup account_call_def account_setup_def MIN_PASSPHRASE_def eraise_def account_spec_def succeeded_def)
    qed
  next
    case (Some w)
    then show ?thesis using setup_again [of A w s cl mk raw n rq pass] assms(2,3,5)
      by (auto simp: Setup account_call_def account_spec_def succeeded_def)
  qed
next
  case (Unlock cl rq p rec)
  show ?thesis
  proof (cases "v = None \<or> \<not> (nonempty p \<or> nonempty rec)")
    case True
    then obtain err where "account_unlock A cl rq p rec s = (Inl err, s)"
      using unlock_uninitialized [of A s] unlock_nothing [of p rec A cl rq s] assms(2) by blast
    then show ?thesis using assms(2,3,5) by (auto simp: Unlock account_call_def account_spec_def succeeded_def)
  next
    case False
    then obtain mk pass raw where v: "v = Some (mk, pass, raw)" by (cases v) auto
    have ne: "nonempty p \<or> nonempty rec" using False by blast
    have P: "pass \<in> P" "nonempty p \<longrightarrow> the p \<in> P" using assms(3,4) by (auto simp: v Unlock pass_in_def account_event_ok_def)
    have r: "account_rel A v s" by (rule assms(2))
    have m: "account_rel A v (s\<lparr>ac_master := Some mk, ac_auth := (ac_auth s)\<lparr>ap_unlocked := True\<rparr>, ac_guard := g\<rparr>)" for g
      using r by (simp add: account_rel_def v)
    obtain res where c: "account_unlock A cl rq p rec s = (res, s')"
      using assms(5) by (cases "account_unlock A cl rq p rec s") (auto simp: Unlock account_call_def)
    have "account_rel A v s'"
      using c r mint_browser_rel [OF m] unfolding unlock_route_eq [OF assms(1) r [unfolded v] P ne]
      by (auto split: if_splits)
    then show ?thesis using assms(3) by (simp add: Unlock account_spec_def)
  qed
next
  case Lock
  then show ?thesis using assms(2,3,5)
    by (auto simp: account_call_def account_spec_def account_lock_def account_rel_def split: option.splits)
next
  case (Change cl a cur new)
  then show ?thesis
    using change_passphrase_rel [OF assms(1-3), of cl cur a new] assms(3,4,5)
    by (cases "change_passphrase A cl a cur new s")
      (auto simp: account_call_def account_event_ok_def account_spec_def pass_in_def split: option.splits)
next
  case (ResetByRecovery cl a new rec)
  then show ?thesis
    using reset_by_recovery_rel [OF assms(1,2), of cl a new rec] assms(3,4,5)
    by (cases "reset_by_recovery A cl a new rec s")
      (auto simp: account_call_def account_event_ok_def account_spec_def pass_in_def split: option.splits)
qed

fun account_run :: "'c account_env \<Rightarrow> account_event list \<Rightarrow> 'c account \<times> (bytes \<times> string \<times> bytes) option \<Rightarrow>
    'c account \<times> (bytes \<times> string \<times> bytes) option" where
  "account_run A [] sv = sv"
| "account_run A (e # es) (s, v) = (case account_call A e s of (fine, s') \<Rightarrow> account_run A es (s', account_spec e fine v))"

lemma account_run_rel:
  "account_rel A v s \<Longrightarrow> pass_in P v \<Longrightarrow> list_all (account_event_ok P) es \<Longrightarrow> kv_laws A P \<Longrightarrow> account_run A es (s, v) = (s', v') \<Longrightarrow>
   account_rel A v' s' \<and> pass_in P v'"
proof (induction es arbitrary: s v)
  case (Cons e es)
  obtain fine t where c: "account_call A e s = (fine, t)" by (cases "account_call A e s")
  show ?case
    by (rule Cons.IH) (use account_call_rel [OF Cons.prems(4,1,2) _ c] Cons.prems c in auto)
qed auto

text \<open>A new installation: nothing stored, locked, any tokens.\<close>

definition new_account :: "string \<Rightarrow> string \<Rightarrow> 'c account" where
  "new_account token relay = \<lparr>ac_rows = [], ac_master = None,
     ac_auth = \<lparr>ap_token = token, ap_sessions = [], ap_relay = relay, ap_unlocked = False\<rparr>, ac_guard = fresh_guard\<rparr>"

lemma new_account_rel: "account_rel A None (new_account token relay)"
  by (simp add: account_rel_def new_account_def)

text \<open>
  C18: Over any history of set-up, unlock, lock and passphrase-reset calls, failing ones included, an unlock that the
  throttle lets in succeeds exactly when it presents the passphrase set last or, without one, the Recovery Key shown
  at set-up; it then holds the master key drawn at set-up. One that fails changes nothing but the throttle. The
  app counts as unlocked exactly while it holds the key.
\<close>

theorem unlock_needs_current_secret:
  assumes "kv_laws A P" and "list_all (account_event_ok P) es" and "account_run A es (new_account token relay, None) = (s, v)"
    and "fst (attempt_begin ''unlock'' (cl_start cl) (ac_guard s)) = Inr ()" and "nonempty p \<longrightarrow> the p \<in> P" and "nonempty p \<or> nonempty rec"
    and "account_unlock A cl rq p rec s = (r, s')"
  shows "succeeded r = (case v of None \<Rightarrow> False
      | Some (mk, pass, raw) \<Rightarrow> if nonempty p then the p = pass else decode_recovery (the rec) = Inr raw) \<and>
    (if succeeded r then ac_master s' = map_option fst v \<and> ap_unlocked (ac_auth s')
     else ac_rows s' = ac_rows s \<and> ac_master s' = ac_master s \<and> ac_auth s' = ac_auth s) \<and>
    (ap_unlocked (ac_auth s) \<longleftrightarrow> ac_master s \<noteq> None)"
proof -
  have r: "account_rel A v s" "pass_in P v"
    using account_run_rel [OF new_account_rel _ assms(2,1,3)] by (simp_all add: pass_in_def)
  have u: "ap_unlocked (ac_auth s) \<longleftrightarrow> ac_master s \<noteq> None" using r(1) by (simp add: account_rel_def)
  show ?thesis
  proof (cases v)
    case None
    then show ?thesis using unlock_uninitialized [of A s cl rq p rec] r(1) assms(7) u by (auto simp: succeeded_def)
  next
    case (Some w)
    then obtain mk pass raw where v: "v = Some (mk, pass, raw)" by (cases w) auto
    have "pass \<in> P" using r(2) by (simp add: v pass_in_def)
    from unlock_route_eq [OF assms(1) r(1) [unfolded v] this assms(5,6), of cl rq]
    show ?thesis
      using assms(4,7) u unfolding v
      by (auto simp: succeeded_def mint_browser_def mint_session_def Let_def split: if_splits prod.splits)
  qed
qed

definition demo_account :: "(bytes \<times> bytes \<times> string \<times> plain) account_env" where
  "demo_account = \<lparr>ae_kv = demo_kv, ae_digest = (\<lambda>t. t)\<rparr>"

definition demo_call :: call_env where
  "demo_call = \<lparr>cl_start = 0, cl_end = 0, cl_token = ''t1'', cl_salt = replicate 16 0, cl_nonce = [1]\<rparr>"

definition demo_history :: "account_event list" where
  "demo_history = [Setup demo_call (replicate 32 9) (replicate 32 1) [2] (demo_browser ''/api/account/setup'') ''old phrase'', Lock]"

theorem unlock_needs_current_secret_witness:
  "succeeded (fst (account_unlock demo_account demo_call (demo_browser ''/api/account/unlock'') (Some ''old phrase'') None
      (fst (account_run demo_account demo_history (new_account ''secret'' ''relay'', None))))) \<and>
   \<not> succeeded (fst (account_unlock demo_account demo_call (demo_browser ''/api/account/unlock'') (Some ''a guess'') None
      (fst (account_run demo_account demo_history (new_account ''secret'' ''relay'', None)))))"
proof -
  let ?P = "{''old phrase'', ''a guess''}" and ?new = "new_account ''secret'' ''relay'' :: (bytes \<times> bytes \<times> string \<times> plain) account"
  let ?v = "(replicate 32 9, ''old phrase'', replicate 32 1)"
  have laws: "kv_laws demo_account ?P"
    by (simp add: kv_laws_def demo_account_def demo_kv_ok) (simp add: demo_kv_def argon_distinct_def)
  have len: "length (replicate 32 (9 :: 8 word)) = KEY_BYTES" "length (replicate 32 (1 :: 8 word)) = KEY_BYTES"
    "length (cl_salt demo_call) = SALT_BYTES" by (simp_all add: KEY_BYTES_def SALT_BYTES_def demo_call_def)
  obtain shown kit cookie t where t: "account_setup demo_account demo_call (replicate 32 9) (replicate 32 1) [2]
      (demo_browser ''/api/account/setup'') ''old phrase'' ?new = (Inr (shown, kit, cookie), t)" "ac_guard t = fresh_guard"
    using setup_rel [where pass = "''old phrase''" and ?n2.0 = "[2]" and rq = "demo_browser ''/api/account/setup''", OF laws new_account_rel [where token = "''secret''" and relay = "''relay''"] _ len] by (auto simp: new_account_def)
  have run: "account_run demo_account demo_history (?new, None) = (account_lock t, Some ?v)"
    by (simp add: demo_history_def account_call_def t(1) account_spec_def succeeded_def)
  have ok: "list_all (account_event_ok ?P) demo_history" "nonempty (Some ''old phrase'')" "nonempty (Some ''a guess'')"
    using len by (simp_all add: demo_history_def account_event_ok_def call_ok_def nonempty_def)
  have adm: "fst (attempt_begin ''unlock'' (cl_start demo_call) (ac_guard (account_lock t))) = Inr ()"
    by (simp add: attempt_begin_admits account_lock_def t(2) fresh_guard_def demo_call_def)
  show ?thesis
    using unlock_needs_current_secret [OF laws ok(1) run adm, of "Some ''old phrase''" None, OF _ _ surjective_pairing]
      unlock_needs_current_secret [OF laws ok(1) run adm, of "Some ''a guess''" None, OF _ _ surjective_pairing]
    by (simp add: run ok(2,3))
qed

end
