(* ===== verification/Bridge.thy ===== *)
theory Bridge
  imports Auth Tool_Args
begin

text \<open>
  The bridge from a paired phone to the local API (\<open>app/smartbrain_3000/webrtc_bridge.py\<close>): which request frames it
  lets through, the headers it forwards and adds, and the frames it answers with. The HTTP client, and the
  application behind it, is a parameter.
\<close>

section \<open>Frames\<close>

text \<open>
  A request frame as the channel builds it: its fields are JSON values from the phone, its body is bytes.
\<close>

record frame =
  fr_id :: jval
  fr_method :: jval
  fr_path :: jval
  fr_headers :: jval
  fr_body :: bytes

text \<open>A request ready to send, the application's answer, and a response frame.\<close>

record sending =
  sd_method :: string
  sd_path :: string
  sd_headers :: "(string \<times> jval) list"
  sd_body :: bytes

record app_reply =
  ar_status :: int
  ar_headers :: "(string \<times> string) list"
  ar_body :: bytes

record reply_frame =
  rf_id :: string
  rf_status :: int
  rf_headers :: "(string \<times> string) list"
  rf_body :: bytes

definition ALLOWED_PREFIX :: string where "ALLOWED_PREFIX = ''/api/''"
definition ALLOWED_METHODS :: "string list" where "ALLOWED_METHODS = [''GET'', ''POST'', ''PUT'', ''PATCH'', ''DELETE'']"
definition MAX_BODY_BYTES :: nat where "MAX_BODY_BYTES = 25 * 1024 * 1024"
definition FORWARD_REQUEST_HEADERS :: "string list" where
  "FORWARD_REQUEST_HEADERS = [''content-type'', ''accept'', ''accept-language'']"
definition FORWARD_RESPONSE_HEADERS :: "string list" where
  "FORWARD_RESPONSE_HEADERS = [''content-type'', ''content-disposition'', ''cache-control'']"

text \<open>
  \<open>str(v or "")\<close>. A value that is neither empty nor a text prints as something that is no method and no path.
\<close>

definition text_or_empty :: "jval \<Rightarrow> string" where
  "text_or_empty v = (case v of JStr s \<Rightarrow> s | _ \<Rightarrow> if truthy v then json_dumps v else [])"

definition parse_request :: "frame \<Rightarrow> sending result" where
  "parse_request f =
     (let mname = ascii_up (text_or_empty (fr_method f)); path = text_or_empty (fr_path f) in
      if mname \<notin> set ALLOWED_METHODS then Inl (ValueErr ''method not allowed'')
      else if \<not> startswith path ALLOWED_PREFIX \<or> contains path ''://'' \<or> startswith path ''//'' then
        Inl (ValueErr ''path must be a local /api/* path'')
      else if ''..'' \<in> set (split_on (CHR ''/'') path) \<or> list_ex (\<lambda>c. ord c \<in> {92, 13, 10, 9}) path \<or> list_ex (\<lambda>c. ord c = 0) path
        then Inl (ValueErr ''illegal path segment'')
      else if length (fr_body f) > MAX_BODY_BYTES then Inl (ValueErr ''request body exceeds the size cap'')
      else (case (if truthy (fr_headers f) then fr_headers f else JObj []) of
          JObj hs \<Rightarrow> Inr \<lparr>sd_method = mname, sd_path = path,
            sd_headers = filter (\<lambda>(k, v). py_lower k \<in> set FORWARD_REQUEST_HEADERS) hs, sd_body = fr_body f\<rparr>
        | _ \<Rightarrow> Inl (Assertion ''headers must be a dict'')))"

definition error_detail :: "pyerr \<Rightarrow> string" where
  "error_detail e = (case e of ValueErr m \<Rightarrow> m | _ \<Rightarrow> [])"

text \<open>The JSON body of an error, as its ASCII bytes.\<close>

definition error_frame :: "string \<Rightarrow> int \<Rightarrow> string \<Rightarrow> reply_frame" where
  "error_frame rid status detail = \<lparr>rf_id = rid, rf_status = status, rf_headers = [(''content-type'', ''application/json'')],
     rf_body = ascii_bytes (json_dumps (JObj [(''detail'', JStr detail)]))\<rparr>"

definition response_headers :: "(string \<times> string) list \<Rightarrow> (string \<times> string) list" where
  "response_headers hs = filter (\<lambda>(k, v). py_lower k \<in> set FORWARD_RESPONSE_HEADERS) hs"

text \<open>\<open>{**headers, **relay}\<close>.\<close>

definition with_relay :: "string \<Rightarrow> string \<Rightarrow> (string \<times> jval) list \<Rightarrow> (string \<times> jval) list" where
  "with_relay relay_secret device_id hs = fold (\<lambda>(k, v) d. dict_set d k (JStr v)) (relay_headers relay_secret device_id) hs"

text \<open>\<open>handle_frame\<close>; the client answers or raises an exception of some class.\<close>

definition handle_frame :: "(sending \<Rightarrow> string + app_reply) \<Rightarrow> string \<Rightarrow> string \<Rightarrow> frame \<Rightarrow> reply_frame result" where
  "handle_frame client relay_secret device_id f = (case fr_id f of
       JStr rid \<Rightarrow>
         if rid = [] then Inl (Assertion ''request frame must carry a string id'')
         else (case parse_request f of
             Inl (ValueErr m) \<Rightarrow> Inr (error_frame rid 400 m)
           | Inl e \<Rightarrow> Inl e
           | Inr rq \<Rightarrow> (case client (rq\<lparr>sd_headers := with_relay relay_secret device_id (sd_headers rq)\<rparr>) of
                 Inl exn \<Rightarrow> Inr (error_frame rid 502 (''upstream error: '' @ exn))
               | Inr r \<Rightarrow> Inr \<lparr>rf_id = rid, rf_status = ar_status r, rf_headers = response_headers (ar_headers r), rf_body = ar_body r\<rparr>))
     | _ \<Rightarrow> Inl (Assertion ''request frame must carry a string id''))"

section \<open>What reaches the application\<close>

lemma forwarded_names: "parse_request f = Inr rq \<Longrightarrow> (k, v) \<in> set (sd_headers rq) \<Longrightarrow> py_lower k \<in> set FORWARD_REQUEST_HEADERS"
  by (auto simp: parse_request_def Let_def split: if_splits jval.splits)

lemma parse_request_confined: "parse_request f = Inr rq \<Longrightarrow>
  startswith (sd_path rq) ''/api/'' \<and> ''..'' \<notin> set (split_on (CHR ''/'') (sd_path rq)) \<and> length (sd_body rq) \<le> MAX_BODY_BYTES \<and>
  sd_method rq \<in> set ALLOWED_METHODS"
  by (auto simp: parse_request_def ALLOWED_PREFIX_def Let_def split: if_splits jval.splits)

lemma with_relay_entries:
  assumes "py_lower ` fst ` set hs \<subseteq> set FORWARD_REQUEST_HEADERS"
  shows "set (with_relay sec dev hs) = set hs \<union> {(RELAY_HEADER, JStr sec), (DEVICE_HEADER, JStr (take 64 dev))}"
proof -
  have n: "py_lower RELAY_HEADER = RELAY_HEADER" "py_lower DEVICE_HEADER = DEVICE_HEADER" "RELAY_HEADER \<noteq> DEVICE_HEADER"
    "RELAY_HEADER \<notin> set FORWARD_REQUEST_HEADERS" "DEVICE_HEADER \<notin> set FORWARD_REQUEST_HEADERS"
    by (simp_all add: RELAY_HEADER_def DEVICE_HEADER_def FORWARD_REQUEST_HEADERS_def py_lower_def py_lower_char_def ascii_upper_def ord_def Let_def)
  then have "RELAY_HEADER \<notin> fst ` set hs" "DEVICE_HEADER \<notin> fst ` set hs" using assms by force+
  then show ?thesis using n by (simp add: with_relay_def relay_headers_def dict_set_new)
qed

text \<open>The request the application sees: the client's own headers, then the frame's, whose values are texts.\<close>

definition wire_request :: "(string \<times> string) list \<Rightarrow> sending \<Rightarrow> request" where
  "wire_request base s = \<lparr>rq_type = ''http'', rq_method = Some (sd_method s), rq_path = sd_path s,
     rq_headers = base @ map (\<lambda>(k, v). (k, text_or_empty v)) (sd_headers s)\<rparr>"

lemma map_of_lower_headers:
  "map_of (lower_headers hs) k = map_of (rev (map (\<lambda>(n, v). (py_lower n, v)) hs)) k"
proof -
  have "map_of (fold (\<lambda>(k, v) d. dict_set d (py_lower k) v) hs d) k =
      (case map_of (rev (map (\<lambda>(n, v). (py_lower n, v)) hs)) k of None \<Rightarrow> map_of d k | Some v \<Rightarrow> Some v)" for d
  proof (induction hs arbitrary: d)
    case (Cons h hs)
    obtain n v where h: "h = (n, v)" by (cases h)
    show ?case using Cons [of "dict_set d (py_lower n) v"] by (auto simp: h map_add_def split: option.splits)
  qed simp
  then show ?thesis unfolding lower_headers_def by (auto split: option.splits)
qed

lemma lower_header_unique:
  assumes "(n, v) \<in> set hs" and "py_lower n = k" and "\<And>n' v'. (n', v') \<in> set hs \<Longrightarrow> py_lower n' = k \<Longrightarrow> v' = v"
  shows "map_of (lower_headers hs) k = Some v"
proof -
  let ?l = "rev (map (\<lambda>(n, v). (py_lower n, v)) hs)"
  have "k \<in> fst ` set ?l" using assms(1,2) by force
  then obtain w where w: "map_of ?l k = Some w" using weak_map_of_SomeI by fastforce
  then have "(k, w) \<in> set ?l" by (rule map_of_SomeD)
  then have "w = v" using assms(3) by auto
  then show ?thesis using w by (simp add: map_of_lower_headers)
qed


definition demo_frame :: frame where
  "demo_frame = \<lparr>fr_id = JStr ''r1'', fr_method = JStr ''get'', fr_path = JStr ''/api/x'',
     fr_headers = JObj [(''X-SB-Relay'', JStr ''forged''), (''authorization'', JStr ''Bearer t''), (''Accept'', JStr ''a'')], fr_body = []\<rparr>"

lemma ascii_up_get: "ascii_up ''get'' = ''GET''"
  by code_simp

lemma demo_names: "py_lower ''Accept'' = ''accept''" "py_lower ''X-SB-Relay'' = ''x-sb-relay''" "py_lower ''authorization'' = ''authorization''"
  by code_simp+

lemma demo_frame_parses:
  "parse_request demo_frame = Inr \<lparr>sd_method = ''GET'', sd_path = ''/api/x'', sd_headers = [(''Accept'', JStr ''a'')], sd_body = []\<rparr>"
  by (simp add: parse_request_def demo_frame_def text_or_empty_def ascii_up_get ord_def ALLOWED_METHODS_def
      startswith_def ALLOWED_PREFIX_def MAX_BODY_BYTES_def truthy_def FORWARD_REQUEST_HEADERS_def demo_names Let_def)


end
