(* ===== verification/Identity.thy ===== *)
theory Identity
  imports Devices
begin

text \<open>
  The Desktop's signing identities (\<open>app/smartbrain_3000/identity.py\<close>): an Ed25519 key per purpose, made once and
  kept in the secret store. The Ed25519 primitives and base64 are parameters; a generated key is an argument.
\<close>

definition PRIVKEY_SECRET :: string where "PRIVKEY_SECRET = ''webrtc:identity_ed25519''"
definition VAULT_PUBLISHER_SECRET :: string where "VAULT_PUBLISHER_SECRET = ''vault:publisher_ed25519''"
definition NI_PUBLISHER_SECRET :: string where "NI_PUBLISHER_SECRET = ''ni:publisher_ed25519''"

record sign_env =
  sg_public :: "bytes \<Rightarrow> bytes"
  sg_sign :: "bytes \<Rightarrow> bytes \<Rightarrow> bytes"
  sg_verify :: "bytes \<Rightarrow> bytes \<Rightarrow> bytes \<Rightarrow> bool"
  sg_b64e :: "bytes \<Rightarrow> string"
  sg_b64d :: "string \<Rightarrow> bytes option"

text \<open>\<open>from_private_bytes\<close> takes 32 bytes.\<close>

definition load_or_create :: "'c dev_env \<Rightarrow> sign_env \<Rightarrow> bytes \<Rightarrow> bytes \<Rightarrow> string \<Rightarrow> (bytes, 'c dev_state) eff" where
  "load_or_create E G seed nonce sname =
     (if sname = [] then eraise (Assertion ''secret key name required'')
      else ebind (dev_get E sname) (\<lambda>raw. case raw of
          Some t \<Rightarrow> (case sg_b64d G t of
              None \<Rightarrow> eraise (ValueErr ''base64'')
            | Some key \<Rightarrow> if length key = 32 then ereturn key else eraise (ValueErr ''private key length''))
        | None \<Rightarrow> ebind (dev_put E nonce sname (sg_b64e G seed)) (\<lambda>_.
            ebind (dev_get E sname) (\<lambda>v.
              if v = None then eraise (Assertion ''identity key must persist'') else ereturn seed))))"

definition public_key_b64 :: "'c dev_env \<Rightarrow> sign_env \<Rightarrow> bytes \<Rightarrow> bytes \<Rightarrow> string \<Rightarrow> (string, 'c dev_state) eff" where
  "public_key_b64 E G seed nonce sname =
     ebind (load_or_create E G seed nonce sname) (\<lambda>key. ereturn (sg_b64e G (sg_public G key)))"

definition sign_data :: "'c dev_env \<Rightarrow> sign_env \<Rightarrow> bytes \<Rightarrow> bytes \<Rightarrow> bytes \<Rightarrow> string \<Rightarrow> (string, 'c dev_state) eff" where
  "sign_data E G seed nonce data sname =
     ebind (load_or_create E G seed nonce sname) (\<lambda>key. ereturn (sg_b64e G (sg_sign G key data)))"

text \<open>Any failure of decoding or checking is a refusal.\<close>

definition verify_signature :: "sign_env \<Rightarrow> string \<Rightarrow> bytes \<Rightarrow> string \<Rightarrow> bool" where
  "verify_signature G pub data sig = (case (sg_b64d G pub, sg_b64d G sig) of
       (Some p, Some s) \<Rightarrow> length p = 32 \<and> sg_verify G p data s | _ \<Rightarrow> False)"

section \<open>What is relied on\<close>

definition b64_ok :: "sign_env \<Rightarrow> bool" where
  "b64_ok G \<longleftrightarrow> (\<forall>b. sg_b64d G (sg_b64e G b) = Some b)"

text \<open>A signature checks under its key's public half for the signed data, and for no other data.\<close>

definition ed25519_ok :: "sign_env \<Rightarrow> bool" where
  "ed25519_ok G \<longleftrightarrow> (\<forall>k. length (sg_public G k) = 32) \<and>
     (\<forall>k d d'. sg_verify G (sg_public G k) d' (sg_sign G k d) \<longleftrightarrow> d' = d)"

text \<open>The key in the store under a name.\<close>

definition identity_key :: "'c dev_env \<Rightarrow> sign_env \<Rightarrow> string \<Rightarrow> 'c dev_state \<Rightarrow> bytes option" where
  "identity_key E G sname s = (case secret_view (de_sealer E) (dv_rows s) sname of
       None \<Rightarrow> None | Some t \<Rightarrow> (case sg_b64d G t of None \<Rightarrow> None | Some k \<Rightarrow> if length k = 32 then Some k else None))"

text \<open>The first use makes the key and later uses find it; no other secret changes.\<close>

lemma load_or_create_rel:
  assumes "secrets_ok (de_sealer E) (dv_rows s)" and "b64_ok G" and "sname \<noteq> []" and "length seed = 32"
    and "identity_key E G sname s \<noteq> None \<or> secret_view (de_sealer E) (dv_rows s) sname = None"
  shows "\<exists>s' key. load_or_create E G seed nonce sname s = (Inr key, s') \<and> secrets_ok (de_sealer E) (dv_rows s') \<and>
    identity_key E G sname s' = Some key \<and> key = (case identity_key E G sname s of Some k \<Rightarrow> k | None \<Rightarrow> seed) \<and>
    (\<forall>k. k \<noteq> sname \<longrightarrow> secret_view (de_sealer E) (dv_rows s') k = secret_view (de_sealer E) (dv_rows s) k) \<and>
    dv_meta s' = dv_meta s"
proof (cases "secret_view (de_sealer E) (dv_rows s) sname")
  case None
  have g: "dev_get E sname s = (Inr None, s)"
    using secrets.get_view [OF assms(1,3)] None by (simp add: dev_get_def)
  obtain rows where r: "secret_put (de_sealer E) nonce sname (sg_b64e G seed) (dv_rows s) = Inr rows"
    "secrets_ok (de_sealer E) rows" "secret_view (de_sealer E) rows = (secret_view (de_sealer E) (dv_rows s))(sname \<mapsto> sg_b64e G seed)"
    using secrets.put_view [OF assms(1,3)] by blast
  have g2: "dev_get E sname (s\<lparr>dv_rows := rows\<rparr>) = (Inr (Some (sg_b64e G seed)), s\<lparr>dv_rows := rows\<rparr>)"
    using secrets.get_view [OF r(2) assms(3)] r(3) by (simp add: dev_get_def)
  have "load_or_create E G seed nonce sname s = (Inr seed, s\<lparr>dv_rows := rows\<rparr>)"
    using assms(3) g g2 r(1) by (simp add: load_or_create_def eff_simps dev_put_def)
  moreover have "identity_key E G sname (s\<lparr>dv_rows := rows\<rparr>) = Some seed" "identity_key E G sname s = None"
    using r(3) None assms(2,4) by (simp_all add: identity_key_def b64_ok_def)
  ultimately show ?thesis using r(2,3) by (intro exI [of _ "s\<lparr>dv_rows := rows\<rparr>"]) auto
next
  case (Some t)
  then obtain k where k: "sg_b64d G t = Some k" "length k = 32" "identity_key E G sname s = Some k"
    using assms(5) by (auto simp: identity_key_def split: option.splits if_splits)
  have "dev_get E sname s = (Inr (Some t), s)"
    using secrets.get_view [OF assms(1,3)] Some by (simp add: dev_get_def)
  then have "load_or_create E G seed nonce sname s = (Inr k, s)"
    using assms(3) k by (simp add: load_or_create_def eff_simps)
  then show ?thesis using assms(1) k by auto
qed

text \<open>
  A Desktop proves itself with the key the phone pinned: whatever happened to be in the store before, the
  public key shown at pairing and a signature made later come from one key, so the signature checks under that
  public key for the data that was signed, and for no other data (another channel's binding, say).
\<close>

theorem identity_is_stable:
  assumes "secrets_ok (de_sealer E) (dv_rows s)" and "b64_ok G" and "ed25519_ok G" and "sname \<noteq> []"
    and "length seed = 32" and "length seed' = 32" and "secret_view (de_sealer E) (dv_rows s) sname = None"
  shows "\<exists>pub s' sig s''. public_key_b64 E G seed nonce sname s = (Inr pub, s') \<and>
    sign_data E G seed' nonce' data sname s' = (Inr sig, s'') \<and>
    (\<forall>d. verify_signature G pub d sig \<longleftrightarrow> d = data)"
proof -
  obtain s' key where p: "load_or_create E G seed nonce sname s = (Inr key, s')" "secrets_ok (de_sealer E) (dv_rows s')"
    "identity_key E G sname s' = Some key"
    using load_or_create_rel [OF assms(1,2,4,5), of nonce] assms(7) by blast
  obtain s'' where q: "load_or_create E G seed' nonce' sname s' = (Inr key, s'')"
    using load_or_create_rel [OF p(2) assms(2,4,6), of nonce'] p(3) by auto
  have "verify_signature G (sg_b64e G (sg_public G key)) d (sg_b64e G (sg_sign G key data)) \<longleftrightarrow> d = data" for d
    using assms(2,3) by (simp add: verify_signature_def b64_ok_def ed25519_ok_def)
  then show ?thesis using p(1) q by (simp add: public_key_b64_def sign_data_def eff_simps)
qed

definition demo_sign :: sign_env where
  "demo_sign = \<lparr>sg_public = (\<lambda>k. take 32 (k @ replicate 32 0)), sg_sign = (\<lambda>k d. d), sg_verify = (\<lambda>p d s. d = s),
     sg_b64e = map (\<lambda>w. char_of (unat w)), sg_b64d = (\<lambda>t. Some (map (\<lambda>c. of_nat (ord c)) t))\<rparr>"

lemma demo_sign_ok: "b64_ok demo_sign" "ed25519_ok demo_sign"
proof -
  have "of_nat (ord (char_of (unat w))) = w" for w :: "8 word"
  proof -
    have "(unsigned w :: nat) < 2 ^ LENGTH(8)" by (rule unsigned_less)
    then show ?thesis by simp
  qed
  then show "b64_ok demo_sign" by (simp add: b64_ok_def demo_sign_def comp_def)
  show "ed25519_ok demo_sign" by (auto simp: ed25519_ok_def demo_sign_def)
qed

theorem identity_is_stable_witness:
  "\<exists>pub s' sig s''. public_key_b64 demo_dev demo_sign (replicate 32 1) [1] PRIVKEY_SECRET demo_dev_start = (Inr pub, s') \<and>
    sign_data demo_dev demo_sign (replicate 32 2) [2] [9, 9] PRIVKEY_SECRET s' = (Inr sig, s'') \<and>
    (\<forall>d. verify_signature demo_sign pub d sig \<longleftrightarrow> d = [9, 9])"
  by (rule identity_is_stable [OF _ demo_sign_ok])
    (simp_all add: demo_dev_def demo_dev_start_def secrets_ok_Nil demo_sealer_roundtrip PRIVKEY_SECRET_def)

end
