(* ===== verification/Remote_Channel.thy ===== *)
theory Remote_Channel
  imports Bridge Identity
begin

text \<open>
  The data channel of a paired phone (\<open>app/smartbrain_3000/webrtc_peer.py\<close>): device authentication, requests and
  their bound, requests and responses that cross in parts. A message is atomic up to the point where it hands the
  request to a worker thread; the rest is a step of its own. Base64 is a parameter (of \<open>sign_env\<close>).
\<close>

section \<open>Messages out\<close>

definition MAX_MESSAGE_BYTES :: nat where "MAX_MESSAGE_BYTES = 256 * 1024"
definition MAX_INFLIGHT :: nat where "MAX_INFLIGHT = 16"
definition MAX_NONCE_BYTES :: nat where "MAX_NONCE_BYTES = 64"
definition MAX_RESPONSE_BYTES :: nat where "MAX_RESPONSE_BYTES = 8 * 1024 * 1024"
definition CHUNK_B64_CHARS :: nat where "CHUNK_B64_CHARS = 192 * 1024"
definition MAX_REQUEST_BYTES :: nat where "MAX_REQUEST_BYTES = 20 * 1024 * 1024"
definition MAX_REQUEST_PARTS :: int where "MAX_REQUEST_PARTS = 512"

definition headers_json :: "(string \<times> string) list \<Rightarrow> jval" where
  "headers_json hs = JObj (map (\<lambda>(k, v). (k, JStr v)) hs)"

definition encode_response :: "sign_env \<Rightarrow> reply_frame \<Rightarrow> string" where
  "encode_response G r = json_dumps (JObj [(''id'', JStr (rf_id r)), (''status'', JInt (rf_status r)),
     (''headers'', headers_json (rf_headers r)), (''body_b64'', JStr (sg_b64e G (rf_body r)))])"

definition error_response :: "sign_env \<Rightarrow> string \<Rightarrow> int \<Rightarrow> string \<Rightarrow> string" where
  "error_response G rid status detail = encode_response G \<lparr>rf_id = (if rid = [] then ''?'' else rid), rf_status = status,
     rf_headers = [], rf_body = ascii_bytes (json_dumps (JObj [(''detail'', JStr detail)]))\<rparr>"

definition part_frame :: "reply_frame \<Rightarrow> nat \<Rightarrow> nat \<Rightarrow> string \<Rightarrow> jdict" where
  "part_frame r n i piece = [(''id'', JStr (rf_id r)), (''seq'', JInt (int i)), (''more'', JBool (i + 1 < n)), (''body_b64'', JStr piece)]
     @ (if i = 0 then [(''status'', JInt (rf_status r)), (''headers'', headers_json (rf_headers r))] else [])"

definition response_pieces :: "sign_env \<Rightarrow> reply_frame \<Rightarrow> string list" where
  "response_pieces G r = (let ps = split_every CHUNK_B64_CHARS (sg_b64e G (rf_body r)) in if ps = [] then [''''] else ps)"

definition encode_response_parts :: "sign_env \<Rightarrow> reply_frame \<Rightarrow> string list" where
  "encode_response_parts G r = (let ps = response_pieces G r in
     map (\<lambda>(i, p). json_dumps (JObj (part_frame r (length ps) i p))) (enumerate 0 ps))"

section \<open>Requests in parts\<close>

record part_state =
  pt_head :: jdict
  pt_pieces :: "string list"
  pt_chars :: nat
  pt_next :: int

definition field :: "jdict \<Rightarrow> string \<Rightarrow> jval" where
  "field d k = opt_get d k JNull"

text \<open>\<open>isinstance(v, int)\<close>, which a boolean is.\<close>

definition as_int :: "jval \<Rightarrow> int option" where
  "as_int v = (case v of JInt i \<Rightarrow> Some i | JBool b \<Rightarrow> Some (of_bool b) | _ \<Rightarrow> None)"

definition HEAD_FIELDS :: "string list" where
  "HEAD_FIELDS = [''id'', ''method'', ''path'', ''headers'', ''chunks'']"

definition assemble_request_part :: "(string \<times> part_state) list \<Rightarrow> jdict \<Rightarrow> jdict option \<times> (string \<times> part_state) list" where
  "assemble_request_part parts msg =
     (let rid = text_or_empty (field msg ''id'') in
      case as_int (field msg ''seq'') of
        None \<Rightarrow> (None, parts)
      | Some q \<Rightarrow>
          if rid = [] then (None, parts)
          else
            let known = (if q = 0
                  then Some \<lparr>pt_head = map (\<lambda>k. (k, field msg k)) HEAD_FIELDS, pt_pieces = [], pt_chars = 0, pt_next = 0\<rparr>
                  else map_of parts rid)
            in case known of
                None \<Rightarrow> (None, dict_del parts rid)
              | Some st \<Rightarrow>
                  if q \<noteq> pt_next st then (None, dict_del parts rid)
                  else
                    let piece = text_or_empty (field msg ''body_b64'');
                        st' = st\<lparr>pt_chars := pt_chars st + length piece, pt_next := pt_next st + 1\<rparr>
                    in if pt_chars st' > MAX_REQUEST_BYTES * 4 div 3 \<or> pt_next st' > MAX_REQUEST_PARTS then (None, dict_del parts rid)
                       else let st'' = st'\<lparr>pt_pieces := pt_pieces st @ [piece]\<rparr> in
                         if field msg ''more'' = JBool True then (None, dict_set parts rid st'')
                         else (Some (dict_set (pt_head st'') ''body_b64'' (JStr (concat (pt_pieces st'')))), dict_del parts rid))"

section \<open>The channel's session\<close>

record session =
  ss_authed :: bool
  ss_device :: string
  ss_inflight :: nat
  ss_parts :: "(string \<times> part_state) list"

definition new_session :: session where
  "new_session = \<lparr>ss_authed = False, ss_device = [], ss_inflight = 0, ss_parts = []\<rparr>"

text \<open>What handling a message does: texts sent, whether the channel is closed, a request handed to a worker.\<close>

record chan_out =
  co_sent :: "string list"
  co_closed :: bool
  co_admitted :: "jdict option"

definition say :: "jdict list \<Rightarrow> bool \<Rightarrow> chan_out" where
  "say ms closed = \<lparr>co_sent = map (\<lambda>d. json_dumps (JObj d)) ms, co_closed = closed, co_admitted = None\<rparr>"

record 'c chan_env =
  ce_dev :: "'c dev_env"
  ce_sign :: sign_env
  ce_binding :: bytes
  ce_client :: "sending \<Rightarrow> string + app_reply"
  ce_relay :: string

text \<open>
  The hello: a nonce of 1 to 64 bytes is answered with the public key and a signature over nonce and channel binding;
  any failure is logged and answered with nothing.
\<close>

definition hello_reply :: "'c chan_env \<Rightarrow> dev_fresh \<Rightarrow> bytes \<Rightarrow> jdict \<Rightarrow> 'c dev_state \<Rightarrow> chan_out \<times> 'c dev_state" where
  "hello_reply C f seed msg s = (case sg_b64d (ce_sign C) (text_or_empty (field msg ''nonce'')) of
       None \<Rightarrow> (say [] False, s)
     | Some nonce \<Rightarrow>
         if nonce = [] \<or> length nonce > MAX_NONCE_BYTES then (say [] False, s)
         else (case sign_data (ce_dev C) (ce_sign C) seed (df_nonce f) (nonce @ ce_binding C) PRIVKEY_SECRET s of
             (Inl e, s') \<Rightarrow> (say [] False, s')
           | (Inr sig, s') \<Rightarrow> (case public_key_b64 (ce_dev C) (ce_sign C) seed (df_nonce f) PRIVKEY_SECRET s' of
                 (Inl e, s'') \<Rightarrow> (say [] False, s'')
               | (Inr pub, s'') \<Rightarrow> (say [[(''type'', JStr ''hello_ok''), (''pubkey'', JStr pub), (''signature'', JStr sig)]] False, s''))))"

definition handle_channel_auth ::
    "'c chan_env \<Rightarrow> bool \<Rightarrow> dev_fresh \<Rightarrow> bytes \<Rightarrow> jdict \<Rightarrow> session \<Rightarrow> (chan_out \<times> session, 'c dev_state) eff" where
  "handle_channel_auth C unlocked f seed msg ss =
     (let mtype = field msg ''type''; device_id = text_or_empty (field msg ''device_id'') in
      if \<not> unlocked then
        (if mtype = JStr ''hello'' then ereturn (say [[(''type'', JStr ''locked_challenge'')]] False, ss)
         else if mtype = JStr ''whoami'' then
           ebind (is_known_device_id (ce_dev C) (df_boot f) device_id) (\<lambda>known.
             ereturn (say (if known then [[(''type'', JStr ''auth_error''), (''reason'', JStr ''locked'')]] else []) True, ss))
         else ereturn (say [] True, ss))
      else if mtype = JStr ''hello'' then (\<lambda>s. case hello_reply C f seed msg s of (out, s') \<Rightarrow> (Inr (out, ss), s'))
      else if mtype = JStr ''auth'' then
        ebind (verify_device (ce_dev C) f device_id (text_or_empty (field msg ''credential''))) (\<lambda>ok.
          if ok then ereturn (say [[(''type'', JStr ''auth_ok'')]] False, ss\<lparr>ss_authed := True, ss_device := device_id\<rparr>)
          else ereturn (say [[(''type'', JStr ''auth_error'')]] True, ss))
      else ereturn (say [[(''type'', JStr ''auth_error'')]] True, ss))"

text \<open>The first half of a request: revocation check, bound, admission.\<close>

definition request_begin :: "'c chan_env \<Rightarrow> bool \<Rightarrow> string \<Rightarrow> jdict \<Rightarrow> session \<Rightarrow> (chan_out \<times> session, 'c dev_state) eff" where
  "request_begin C unlocked boot msg ss =
     (if \<not> ss_authed ss then eraise (Assertion ''_handle_request requires an authed session'')
      else let rid = (if truthy (field msg ''id'') then text_or_empty (field msg ''id'') else ''?'') in
        ebind (if unlocked then (\<lambda>s. elift (device_exists (ce_dev C) (ss_device ss) s) s)
               else is_known_device_id (ce_dev C) boot (ss_device ss)) (\<lambda>known.
          if \<not> known then ereturn (\<lparr>co_sent = [error_response (ce_sign C) rid 401 ''device revoked''], co_closed = False, co_admitted = None\<rparr>, ss)
          else if ss_inflight ss \<ge> MAX_INFLIGHT then
            ereturn (\<lparr>co_sent = [error_response (ce_sign C) rid 429 ''too many in-flight requests''], co_closed = False, co_admitted = None\<rparr>, ss)
          else ereturn (\<lparr>co_sent = [], co_closed = False, co_admitted = Some msg\<rparr>, ss\<lparr>ss_inflight := ss_inflight ss + 1\<rparr>)))"

text \<open>The second half, when the worker is done: the texts sent, none when anything raised.\<close>

definition request_frame :: "'c chan_env \<Rightarrow> jdict \<Rightarrow> frame option" where
  "request_frame C msg = (case (if truthy (field msg ''body_b64'') then field msg ''body_b64'' else JStr []) of
       JStr b \<Rightarrow> map_option (\<lambda>body. \<lparr>fr_id = field msg ''id'', fr_method = field msg ''method'', fr_path = field msg ''path'',
           fr_headers = (if truthy (field msg ''headers'') then field msg ''headers'' else JObj []), fr_body = body\<rparr>)
         (sg_b64d (ce_sign C) b)
     | _ \<Rightarrow> None)"

definition request_replies :: "'c chan_env \<Rightarrow> string \<Rightarrow> jdict \<Rightarrow> string list" where
  "request_replies C device_id msg = (case request_frame C msg of
       None \<Rightarrow> []
     | Some fr \<Rightarrow> (case handle_frame (ce_client C) (ce_relay C) device_id fr of
           Inl e \<Rightarrow> []
         | Inr resp \<Rightarrow>
             let out = encode_response (ce_sign C) resp in
             if length out > MAX_MESSAGE_BYTES then
               (if field msg ''chunks'' = JBool True \<and> length (rf_body resp) \<le> MAX_RESPONSE_BYTES
                then encode_response_parts (ce_sign C) resp
                else [error_response (ce_sign C) (rf_id resp) 413 ''response exceeds channel limit''])
             else [out]))"

definition request_finish :: "'c chan_env \<Rightarrow> jdict \<Rightarrow> session \<Rightarrow> string list \<times> session" where
  "request_finish C msg ss = (request_replies C (ss_device ss) msg, ss\<lparr>ss_inflight := ss_inflight ss - 1\<rparr>)"

definition serve_message :: "'c chan_env \<Rightarrow> bool \<Rightarrow> dev_fresh \<Rightarrow> bytes \<Rightarrow> string \<Rightarrow> session \<Rightarrow> (chan_out \<times> session, 'c dev_state) eff" where
  "serve_message C unlocked f seed raw ss =
     (if length raw > MAX_MESSAGE_BYTES then ereturn (say [] False, ss)
      else case json_loads raw of
        Some (JObj msg) \<Rightarrow>
          if \<not> ss_authed ss then handle_channel_auth C unlocked f seed msg ss
          else if field msg ''type'' = JStr ''ping'' then ereturn (say [[(''type'', JStr ''pong''), (''t'', field msg ''t'')]] False, ss)
          else if field msg ''rq'' = JBool True then
            (case assemble_request_part (ss_parts ss) msg of
               (None, parts) \<Rightarrow> ereturn (say [] False, ss\<lparr>ss_parts := parts\<rparr>)
             | (Some whole, parts) \<Rightarrow> request_begin C unlocked (df_boot f) whole (ss\<lparr>ss_parts := parts\<rparr>))
          else request_begin C unlocked (df_boot f) msg ss
      | _ \<Rightarrow> ereturn (say [] False, ss))"

section \<open>Parts put together\<close>

text \<open>The part frames a client sends for one request, and a stream of part frames of several.\<close>

definition request_part :: "jdict \<Rightarrow> string \<Rightarrow> nat \<Rightarrow> nat \<Rightarrow> string \<Rightarrow> jdict" where
  "request_part hd_fields rid n i piece = [(''rq'', JBool True), (''id'', JStr rid), (''seq'', JInt (int i)),
     (''more'', JBool (i + 1 < n)), (''body_b64'', JStr piece)] @ (if i = 0 then hd_fields else [])"

definition request_parts :: "jdict \<Rightarrow> string \<Rightarrow> string list \<Rightarrow> jdict list" where
  "request_parts hd_fields rid pieces = map (\<lambda>(i, p). request_part hd_fields rid (length pieces) i p) (enumerate 0 pieces)"

definition mid :: "jdict \<Rightarrow> string" where
  "mid m = text_or_empty (field m ''id'')"

fun run_parts :: "jdict list \<Rightarrow> (string \<times> part_state) list \<Rightarrow> (string \<times> jdict) list" where
  "run_parts [] parts = []"
| "run_parts (m # ms) parts =
     (case assemble_request_part parts m of
        (None, parts') \<Rightarrow> run_parts ms parts'
      | (Some whole, parts') \<Rightarrow> (mid m, whole) # run_parts ms parts')"

definition whole_request :: "jdict \<Rightarrow> string \<Rightarrow> string list \<Rightarrow> jdict" where
  "whole_request hd_fields rid pieces =
     dict_set (map (\<lambda>k. (k, field (request_part hd_fields rid (length pieces) 0 (hd pieces)) k)) HEAD_FIELDS) ''body_b64'' (JStr (concat pieces))"

lemma assemble_other:
  assumes "mid m \<noteq> rid"
  shows "map_of (snd (assemble_request_part parts m)) rid = map_of parts rid"
  using assms unfolding assemble_request_part_def mid_def
  by (auto simp: Let_def split: option.splits)

lemma request_part_fields:
  "field (request_part h rid n i p) ''id'' = JStr rid" "field (request_part h rid n i p) ''seq'' = JInt (int i)"
  "field (request_part h rid n i p) ''more'' = JBool (i + 1 < n)" "field (request_part h rid n i p) ''body_b64'' = JStr p"
  "mid (request_part h rid n i p) = rid"
  by (simp_all add: request_part_def field_def opt_get_def mid_def text_or_empty_def)

definition head_of :: "jdict \<Rightarrow> string \<Rightarrow> string list \<Rightarrow> jdict" where
  "head_of h rid pieces = map (\<lambda>k. (k, field (request_part h rid (length pieces) 0 (hd pieces)) k)) HEAD_FIELDS"

text \<open>The state kept for a request after its first \<open>k\<close> parts.\<close>

definition after_parts :: "jdict \<Rightarrow> string \<Rightarrow> string list \<Rightarrow> nat \<Rightarrow> part_state" where
  "after_parts h rid pieces k = \<lparr>pt_head = head_of h rid pieces, pt_pieces = take k pieces,
     pt_chars = length (concat (take k pieces)), pt_next = int k\<rparr>"

definition fits :: "string list \<Rightarrow> bool" where
  "fits pieces = (length pieces \<le> 512 \<and> length (concat pieces) \<le> MAX_REQUEST_BYTES * 4 div 3)"

lemma assemble_next:
  assumes "rid \<noteq> []" and "fits pieces" and "k < length pieces" and "k = 0 \<or> map_of parts rid = Some (after_parts h rid pieces k)"
  shows "assemble_request_part parts (request_part h rid (length pieces) k (pieces ! k)) =
    (if k + 1 < length pieces then (None, dict_set parts rid (after_parts h rid pieces (k + 1)))
     else (Some (whole_request h rid pieces), dict_del parts rid))"
proof -
  let ?m = "request_part h rid (length pieces) k (pieces ! k)"
  have st: "(if int k = 0 then Some \<lparr>pt_head = map (\<lambda>k. (k, field ?m k)) HEAD_FIELDS, pt_pieces = [], pt_chars = 0, pt_next = 0\<rparr>
      else map_of parts rid) = Some (after_parts h rid pieces k)"
  proof (cases "k = 0")
    case True
    then have "pieces ! k = hd pieces" using assms(3) by (simp add: hd_conv_nth)
    then show ?thesis using True by (simp add: after_parts_def head_of_def)
  next
    case False
    then show ?thesis using assms(4) by simp
  qed
  have tk: "take (k + 1) pieces = take k pieces @ [pieces ! k]" using assms(3) by (simp add: take_Suc_conv_app_nth)
  have len: "length (concat (take k pieces)) + length (pieces ! k) \<le> length (concat pieces)"
  proof -
    have "length (concat (take (k + 1) pieces)) \<le> length (concat pieces)"
      by (metis append_take_drop_id concat_append le_add1 length_append)
    then show ?thesis unfolding tk by simp
  qed
  have bounds: "\<not> (length (concat (take k pieces)) + length (pieces ! k) > MAX_REQUEST_BYTES * 4 div 3 \<or> int k + 1 > MAX_REQUEST_PARTS)"
    using assms(2,3) len by (simp add: fits_def MAX_REQUEST_PARTS_def)
  have last: "\<not> k + 1 < length pieces \<Longrightarrow> concat (take k pieces) @ pieces ! k = concat pieces"
    using assms(3) tk by (metis Suc_eq_plus1 Suc_lessI concat.simps(1) concat.simps(2) concat_append append_Nil2 less_Suc_eq take_all_iff linorder_not_less)
  show ?thesis
    unfolding assemble_request_part_def
    using assms(1) st bounds last tk
    by (simp add: request_part_fields text_or_empty_def as_int_def Let_def whole_request_def after_parts_def head_of_def add.commute)
qed

lemma run_parts_from:
  assumes "rid \<noteq> []" and "fits pieces" and "pieces \<noteq> []"
  shows "k \<le> length pieces \<Longrightarrow> filter (\<lambda>m. mid m = rid) ms = drop k (request_parts h rid pieces) \<Longrightarrow>
    k = 0 \<or> k = length pieces \<or> map_of parts rid = Some (after_parts h rid pieces k) \<Longrightarrow>
    map snd (filter (\<lambda>(i, w). i = rid) (run_parts ms parts)) = (if k < length pieces then [whole_request h rid pieces] else [])"
proof (induction ms arbitrary: k parts)
  case Nil
  then show ?case by (simp add: request_parts_def)
next
  case (Cons m ms)
  show ?case
  proof (cases "mid m = rid")
    case False
    obtain o' parts' where a: "assemble_request_part parts m = (o', parts')" by (cases "assemble_request_part parts m")
    have "map_of parts' rid = map_of parts rid" using assemble_other [OF False, of parts] a by simp
    then have "map snd (filter (\<lambda>(i, w). i = rid) (run_parts ms parts')) = (if k < length pieces then [whole_request h rid pieces] else [])"
      using Cons.IH [of k parts'] Cons.prems False by auto
    then show ?thesis using a False by (cases o') auto
  next
    case True
    then have dk: "drop k (request_parts h rid pieces) = m # filter (\<lambda>m. mid m = rid) ms" using Cons.prems(2) by simp
    then have k: "k < length pieces" by (metis drop_all length_map length_enumerate list.distinct(1) not_le request_parts_def)
    have m: "m = request_part h rid (length pieces) k (pieces ! k)"
      using dk k nth_via_drop [of k "request_parts h rid pieces" m] by (auto simp: request_parts_def nth_enumerate_eq)
    have rest: "filter (\<lambda>m. mid m = rid) ms = drop (k + 1) (request_parts h rid pieces)"
      using dk by (metis Suc_eq_plus1 drop_Suc list.sel(3) tl_drop)
    have st: "k = 0 \<or> map_of parts rid = Some (after_parts h rid pieces k)" using Cons.prems(3) k by auto
    show ?thesis
    proof (cases "k + 1 < length pieces")
      case True
      then have a: "assemble_request_part parts m = (None, dict_set parts rid (after_parts h rid pieces (k + 1)))"
        using assemble_next [OF assms(1,2) k st] m by simp
      show ?thesis using Cons.IH [of "k + 1" "dict_set parts rid (after_parts h rid pieces (k + 1))"] True rest a k by simp
    next
      case False
      then have a: "assemble_request_part parts m = (Some (whole_request h rid pieces), dict_del parts rid)"
        using assemble_next [OF assms(1,2) k st] m by simp
      have "k + 1 = length pieces" using False k by simp
      then show ?thesis using Cons.IH [of "length pieces" "dict_del parts rid"] rest a k True by simp
    qed
  qed
qed

text \<open>
  C40: A request sent in parts arrives whole: if the parts of a request come in order, in at most 512 parts and
  within the size bound, then whatever parts of other requests come between them, exactly one request with its
  id is handed on, with the method, path and headers of its first part and its pieces joined in order.
\<close>

theorem request_parts_roundtrip:
  assumes "rid \<noteq> []" and "fits pieces" and "pieces \<noteq> []"
    and "filter (\<lambda>m. mid m = rid) ms = request_parts h rid pieces"
  shows "map snd (filter (\<lambda>(i, w). i = rid) (run_parts ms [])) = [whole_request h rid pieces]"
  using run_parts_from [OF assms(1-3), of 0 ms h "[]"] assms(3,4) by simp

definition demo_stream :: "jdict list" where
  "demo_stream = [request_part [(''path'', JStr ''/api/x'')] ''r'' 2 0 ''ab'', request_part [] ''q'' 1 0 ''zz'',
     request_part [(''path'', JStr ''/api/x'')] ''r'' 2 1 ''cd'']"

theorem request_parts_roundtrip_witness:
  "map snd (filter (\<lambda>(i, w). i = ''r'') (run_parts demo_stream [])) =
     [whole_request [(''path'', JStr ''/api/x'')] ''r'' [''ab'', ''cd'']]"
proof (rule request_parts_roundtrip)
  show "fits [''ab'', ''cd'']" by (simp add: fits_def MAX_REQUEST_BYTES_def)
  show "filter (\<lambda>m. mid m = ''r'') demo_stream = request_parts [(''path'', JStr ''/api/x'')] ''r'' [''ab'', ''cd'']"
    by (simp add: demo_stream_def request_part_fields request_parts_def numeral_2_eq_2)
qed simp_all

text \<open>
  Each stream is bounded, their number is not: first parts under ever new ids are all kept, with nothing that
  ever drops them.
\<close>

definition first_part :: "nat \<Rightarrow> jdict" where
  "first_part i = request_part [] (replicate (Suc i) (CHR ''a'')) 2 0 ''x''"

lemma open_streams_unbounded:
  "length (fold (\<lambda>m parts. snd (assemble_request_part parts m)) (map first_part [0..<n]) []) = n"
proof -
  let ?run = "\<lambda>n. fold (\<lambda>m parts. snd (assemble_request_part parts m)) (map first_part [0..<n]) []"
  have "length (?run n) = n \<and> fst ` set (?run n) = (\<lambda>i. replicate (Suc i) (CHR ''a'')) ` {0..<n}"
  proof (induction n)
    case (Suc n)
    let ?id = "replicate (Suc n) (CHR ''a'')"
    have "fits [''x'', ''y'']" by (simp add: fits_def MAX_REQUEST_BYTES_def)
    then have a: "assemble_request_part (?run n) (first_part n) = (None, dict_set (?run n) ?id (after_parts [] ?id [''x'', ''y''] 1))"
      using assemble_next [of ?id "[''x'', ''y'']" 0 "?run n" "[]"] by (simp add: first_part_def numeral_2_eq_2)
    have "?id \<notin> fst ` set (?run n)" using Suc by (auto simp del: replicate_Suc simp: replicate_eq_replicate)
    then have "length (dict_set (?run n) ?id (after_parts [] ?id [''x'', ''y''] 1)) = Suc n"
      using Suc by (simp add: length_dict_set)
    then show ?case using a Suc keys_dict_set [of "?run n" ?id "after_parts [] ?id [''x'', ''y''] 1"]
      by (auto simp: atLeast0_lessThan_Suc)
  qed simp
  then show ?thesis by simp
qed

text \<open>
  The parts of a response: each within the frame bound, all but the last marked as continued, and their pieces
  joined are the encoded body.
\<close>

lemma response_pieces_ok:
  "concat (response_pieces G r) = sg_b64e G (rf_body r) \<and> list_all (\<lambda>p. length p \<le> CHUNK_B64_CHARS) (response_pieces G r) \<and> response_pieces G r \<noteq> []"
proof -
  have p: "0 < CHUNK_B64_CHARS" by (simp add: CHUNK_B64_CHARS_def)
  have le: "list_all (\<lambda>p. length p \<le> n) (split_every n xs)" for n and xs :: string
    by (induction n xs rule: split_every.induct) (subst split_every.simps, auto)
  have c: "concat (split_every CHUNK_B64_CHARS (sg_b64e G (rf_body r))) = sg_b64e G (rf_body r)" by (rule concat_split_every [OF p])
  show ?thesis
  proof (cases "split_every CHUNK_B64_CHARS (sg_b64e G (rf_body r)) = []")
    case True
    then show ?thesis using c by (simp add: response_pieces_def)
  next
    case False
    then show ?thesis using c le by (simp add: response_pieces_def Let_def)
  qed
qed

section \<open>The channel as a state machine\<close>

text \<open>
  The whole situation: the live devices (as the registry promises them), the store, the lock, the channel's session,
  the requests a worker has in hand, and, as a record of the past, each device that proved itself, what it presented and
  the registry at that moment.
\<close>

record 'c chan_cfg =
  cg_devices :: "string \<rightharpoonup> string"
  cg_state :: "'c dev_state"
  cg_unlocked :: bool
  cg_session :: session
  cg_running :: "jdict list"
  cg_proofs :: "(string \<times> string \<times> (string \<rightharpoonup> string)) list"

definition credential_of :: "string \<Rightarrow> string" where
  "credential_of raw = (case json_loads raw of Some (JObj m) \<Rightarrow> text_or_empty (field m ''credential'') | _ \<Rightarrow> [])"

inductive chan_step :: "'c chan_env \<Rightarrow> 'c chan_cfg \<Rightarrow> 'c chan_cfg \<Rightarrow> bool" for C where
  lock: "chan_step C g (g\<lparr>cg_unlocked := b\<rparr>)"
| devices: "dev_event_ok e \<Longrightarrow>
    chan_step C g (g\<lparr>cg_devices := dev_spec e (cg_devices g), cg_state := dev_step (ce_dev C) e (cg_state g)\<rparr>)"
| served: "serve_message C (cg_unlocked g) f seed raw (cg_session g) (cg_state g) = (Inr (out, ss), s) \<Longrightarrow> boot_ok (df_boot f) \<Longrightarrow>
    length seed = 32 \<Longrightarrow>
    chan_step C g (g\<lparr>cg_state := s, cg_session := ss,
      cg_running := (case co_admitted out of None \<Rightarrow> cg_running g | Some m \<Rightarrow> cg_running g @ [m]),
      cg_proofs := (if ss_authed ss \<and> \<not> ss_authed (cg_session g) then (ss_device ss, credential_of raw, cg_devices g) # cg_proofs g else cg_proofs g)\<rparr>)"
| dropped: "serve_message C (cg_unlocked g) f seed raw (cg_session g) (cg_state g) = (Inl e, s) \<Longrightarrow> boot_ok (df_boot f) \<Longrightarrow>
    length seed = 32 \<Longrightarrow> chan_step C g (g\<lparr>cg_state := s\<rparr>)"
| finished: "m \<in> set (cg_running g) \<Longrightarrow>
    chan_step C g (g\<lparr>cg_session := snd (request_finish C m (cg_session g)), cg_running := remove1 m (cg_running g)\<rparr>)"

inductive chan_reachable :: "'c chan_env \<Rightarrow> 'c dev_state \<Rightarrow> 'c chan_cfg \<Rightarrow> bool" for C s0 where
  start: "chan_reachable C s0 \<lparr>cg_devices = Map.empty, cg_state = s0, cg_unlocked = b, cg_session = new_session, cg_running = [], cg_proofs = []\<rparr>"
| step: "chan_reachable C s0 g \<Longrightarrow> chan_step C g g' \<Longrightarrow> chan_reachable C s0 g'"

text \<open>What serving one message can do to the session.\<close>

lemma request_begin_cases:
  assumes "request_begin C u boot msg ss s = (Inr (out, ss'), s')"
  shows "(co_admitted out = None \<and> ss' = ss) \<or>
    (\<exists>m. co_admitted out = Some m \<and> ss' = ss\<lparr>ss_inflight := ss_inflight ss + 1\<rparr> \<and> ss_inflight ss < MAX_INFLIGHT \<and> ss_authed ss)"
  using assms unfolding request_begin_def
  by (auto simp: eff_simps Let_def split: if_splits prod.splits sum.splits)

lemma auth_cases:
  assumes "handle_channel_auth C u f seed msg ss s = (Inr (out, ss'), s')"
  shows "co_admitted out = None \<and> (ss' = ss \<or>
    (u \<and> ss' = ss\<lparr>ss_authed := True, ss_device := text_or_empty (field msg ''device_id'')\<rparr> \<and>
     verify_device (ce_dev C) f (text_or_empty (field msg ''device_id'')) (text_or_empty (field msg ''credential'')) s = (Inr True, s')))"
proof -
  have h: "co_admitted (fst (hello_reply C f seed msg s)) = None"
    unfolding hello_reply_def say_def by (simp split: option.splits prod.splits sum.splits)
  show ?thesis
    using assms h unfolding handle_channel_auth_def
    by (auto simp: eff_simps Let_def say_def split: if_splits prod.splits sum.splits)
qed

lemma serve_cases:
  assumes "serve_message C u f seed raw ss s = (Inr (out, ss'), s')"
  shows "(co_admitted out = None \<and> ss_authed ss' = ss_authed ss \<and> ss_device ss' = ss_device ss \<and> ss_inflight ss' = ss_inflight ss) \<or>
    (\<exists>m. co_admitted out = Some m \<and> ss_authed ss' \<and> ss_authed ss \<and> ss_device ss' = ss_device ss \<and>
       ss_inflight ss' = ss_inflight ss + 1 \<and> ss_inflight ss < MAX_INFLIGHT) \<or>
    (co_admitted out = None \<and> u \<and> \<not> ss_authed ss \<and> ss_authed ss' \<and> ss_inflight ss' = ss_inflight ss \<and>
       verify_device (ce_dev C) f (ss_device ss') (credential_of raw) s = (Inr True, s'))"
proof (cases "json_loads raw")
  case None
  then show ?thesis using assms by (auto simp: serve_message_def eff_simps say_def split: if_splits)
next
  case (Some v)
  show ?thesis
  proof (cases "\<exists>msg. v = JObj msg \<and> length raw \<le> MAX_MESSAGE_BYTES")
    case False
    then show ?thesis using assms Some by (auto simp: serve_message_def eff_simps say_def split: if_splits jval.splits)
  next
    case True
    then obtain msg where v: "v = JObj msg" "length raw \<le> MAX_MESSAGE_BYTES" by blast
    have cred: "credential_of raw = text_or_empty (field msg ''credential'')" using Some v by (simp add: credential_of_def)
    show ?thesis
    proof (cases "ss_authed ss")
      case False
      then have "handle_channel_auth C u f seed msg ss s = (Inr (out, ss'), s')" using assms Some v by (simp add: serve_message_def)
      from auth_cases [OF this] show ?thesis using False cred by auto
    next
      case authed: True
      have rb: ?thesis if "request_begin C u (df_boot f) msg' (ss\<lparr>ss_parts := ps\<rparr>) s = (Inr (out, ss'), s')" for msg' ps
        using request_begin_cases [OF that] authed by auto
      have same: "ss\<lparr>ss_parts := ss_parts ss\<rparr> = ss" by simp
      have sm: "serve_message C u f seed raw ss s =
          (if field msg ''type'' = JStr ''ping'' then ereturn (say [[(''type'', JStr ''pong''), (''t'', field msg ''t'')]] False, ss)
          else if field msg ''rq'' = JBool True then
            (case assemble_request_part (ss_parts ss) msg of
               (None, parts) \<Rightarrow> ereturn (say [] False, ss\<lparr>ss_parts := parts\<rparr>)
             | (Some whole, parts) \<Rightarrow> request_begin C u (df_boot f) whole (ss\<lparr>ss_parts := parts\<rparr>))
          else request_begin C u (df_boot f) msg ss) s"
        using Some v authed by (simp add: serve_message_def)
      consider "field msg ''type'' = JStr ''ping''" | "field msg ''type'' \<noteq> JStr ''ping''" "field msg ''rq'' = JBool True"
        | "field msg ''type'' \<noteq> JStr ''ping''" "field msg ''rq'' \<noteq> JBool True" by blast
      then show ?thesis
      proof cases
        case 1
        then show ?thesis using assms sm by (auto simp: eff_simps say_def)
      next
        case 2
        obtain w ps where a: "assemble_request_part (ss_parts ss) msg = (w, ps)" by (cases "assemble_request_part (ss_parts ss) msg")
        show ?thesis
        proof (cases w)
          case None
          then show ?thesis using assms sm 2 a by (auto simp: eff_simps say_def)
        next
          case (Some whole)
          then have "request_begin C u (df_boot f) whole (ss\<lparr>ss_parts := ps\<rparr>) s = (Inr (out, ss'), s')" using assms sm 2 a by simp
          then show ?thesis by (rule rb)
        qed
      next
        case 3
        then have "request_begin C u (df_boot f) msg (ss\<lparr>ss_parts := ss_parts ss\<rparr>) s = (Inr (out, ss'), s')" using assms sm same by simp
        then show ?thesis by (rule rb)
      qed
    qed
  qed
qed

text \<open>Serving keeps the store in agreement with the registry.\<close>

lemma verify_True:
  assumes "dev_rel E a s" and "verify_device E f i cred s = (Inr True, s')"
  shows "a i = Some cred"
proof (cases "a i")
  case None
  have h: "row_holds (secret_view (de_sealer E) (dv_rows s)) i (a i)" using assms(1) by (simp add: dev_rel_def rows_rel_def)
  have g: "dev_get E (DEV_PREFIX @ i) s = (Inr (secret_view (de_sealer E) (dv_rows s) (DEV_PREFIX @ i)), s)"
    by (rule dev_get_rel [of E a s]) (use assms(1) in \<open>simp add: dev_rel_def\<close>)
  have "verify_device E f i cred s = (Inr False, s)"
    using h g None by (auto simp: verify_device_def row_holds_def dev_key_def eff_simps)
  then show ?thesis using assms(2) by simp
next
  case (Some c)
  have "cred \<noteq> []" using assms(2) by (auto simp: verify_device_def eff_simps)
  then show ?thesis using verify_live [OF assms(1) Some, of cred f] assms(2) Some by (auto split: if_splits)
qed

lemma load_or_create_dev_rel:
  assumes "dev_rel E a s" and "sname \<noteq> []" and "\<not> startswith sname DEV_PREFIX"
  shows "dev_rel E a (snd (load_or_create E G seed n sname s))"
proof -
  have ok: "secrets_ok (de_sealer E) (dv_rows s)" using assms(1) by (simp add: dev_rel_def rows_rel_def)
  obtain rows where r: "secret_put (de_sealer E) n sname (sg_b64e G seed) (dv_rows s) = Inr rows" "secrets_ok (de_sealer E) rows"
    "secret_view (de_sealer E) rows = (secret_view (de_sealer E) (dv_rows s))(sname \<mapsto> sg_b64e G seed)"
    using secrets.put_view [OF ok assms(2)] by blast
  have "DEV_PREFIX @ i \<noteq> sname" for i using assms(3) unfolding startswith_iff by blast
  then have "row_holds (secret_view (de_sealer E) rows) i c = row_holds (secret_view (de_sealer E) (dv_rows s)) i c" for i c
    by (auto simp: r(3) row_holds_def split: option.split)
  then have put: "dev_rel E a (s\<lparr>dv_rows := rows\<rparr>)" using assms(1) r(2) by (simp add: dev_rel_def rows_rel_def)
  have "snd (load_or_create E G seed n sname s) \<in> {s, s\<lparr>dv_rows := rows\<rparr>}"
    using assms(2) r(1) unfolding load_or_create_def
    by (auto simp: eff_simps dev_get_def dev_put_def split: sum.splits option.splits)
  then show ?thesis using put assms(1) by auto
qed

lemma hello_dev_rel: "dev_rel (ce_dev C) a s \<Longrightarrow> dev_rel (ce_dev C) a (snd (hello_reply C f seed msg s))"
proof -
  assume s: "dev_rel (ce_dev C) a s"
  have n: "PRIVKEY_SECRET \<noteq> []" "\<not> startswith PRIVKEY_SECRET DEV_PREFIX" by (simp_all add: PRIVKEY_SECRET_def startswith_def DEV_PREFIX_def)
  have sign: "dev_rel (ce_dev C) a (snd (sign_data (ce_dev C) G sd nn d PRIVKEY_SECRET t))" if "dev_rel (ce_dev C) a t" for t G sd nn d
    using load_or_create_dev_rel [OF that n, of G sd nn] by (auto simp: sign_data_def eff_simps split: prod.splits sum.splits)
  have pub: "dev_rel (ce_dev C) a (snd (public_key_b64 (ce_dev C) G sd nn PRIVKEY_SECRET t))" if "dev_rel (ce_dev C) a t" for t G sd nn
    using load_or_create_dev_rel [OF that n, of G sd nn] by (auto simp: public_key_b64_def eff_simps split: prod.splits sum.splits)
  show ?thesis
    using s sign [OF s] pub unfolding hello_reply_def
    by (auto split: option.splits prod.splits sum.splits) (metis snd_conv)+
qed

lemma is_known_dev_rel:
  assumes "dev_rel E a s" and "boot_ok b" and "\<And>k. inj (de_hmac E k)"
  shows "dev_rel E a (snd (is_known_device_id E b i s))"
proof -
  obtain s' r where "is_known_device_id E b i s = (Inr r, s')" "dv_rows s' = dv_rows s" "meta_rel E (dom a) s'"
    using is_known_rel [OF _ assms(2,3)] assms(1) unfolding dev_rel_def by blast
  then show ?thesis using assms(1) by (simp add: dev_rel_def)
qed

lemma auth_dev_rel:
  assumes "dev_rel (ce_dev C) a s" and "boot_ok (df_boot f)" and "\<And>k. inj (de_hmac (ce_dev C) k)"
  shows "dev_rel (ce_dev C) a (snd (handle_channel_auth C u f seed msg ss s))"
proof -
  let ?d = "text_or_empty (field msg ''device_id'')" and ?c = "text_or_empty (field msg ''credential'')"
  have v: "dev_rel (ce_dev C) a (snd (verify_device (ce_dev C) f ?d ?c s))" using verify_device_rel [OF assms] by blast
  have k: "dev_rel (ce_dev C) a (snd (is_known_device_id (ce_dev C) (df_boot f) ?d s))" by (rule is_known_dev_rel [OF assms])
  have h: "dev_rel (ce_dev C) a (snd (hello_reply C f seed msg s))" by (rule hello_dev_rel [OF assms(1)])
  show ?thesis
    unfolding handle_channel_auth_def Let_def
    using assms(1) v k h by (auto simp: eff_simps split: prod.splits sum.splits)
qed

lemma begin_dev_rel:
  assumes "dev_rel (ce_dev C) a s" and "boot_ok b" and "\<And>k. inj (de_hmac (ce_dev C) k)"
  shows "dev_rel (ce_dev C) a (snd (request_begin C u b msg ss s))"
proof -
  have k: "dev_rel (ce_dev C) a (snd (is_known_device_id (ce_dev C) b (ss_device ss) s))" by (rule is_known_dev_rel [OF assms])
  show ?thesis
    unfolding request_begin_def Let_def
    using assms(1) k by (auto simp: eff_simps split: prod.splits sum.splits)
qed

lemma serve_dev_rel:
  assumes "dev_rel (ce_dev C) a s" and "boot_ok (df_boot f)" and "\<And>k. inj (de_hmac (ce_dev C) k)"
  shows "dev_rel (ce_dev C) a (snd (serve_message C u f seed raw ss s))"
  unfolding serve_message_def
  using assms(1) auth_dev_rel [OF assms] begin_dev_rel [OF assms]
  by (auto simp: ereturn_def split: option.splits jval.splits prod.splits)

definition chan_inv :: "'c chan_env \<Rightarrow> 'c chan_cfg \<Rightarrow> bool" where
  "chan_inv C g \<longleftrightarrow> dev_rel (ce_dev C) (cg_devices g) (cg_state g) \<and>
     ss_inflight (cg_session g) = length (cg_running g) \<and> length (cg_running g) \<le> MAX_INFLIGHT \<and>
     (\<not> ss_authed (cg_session g) \<longrightarrow> cg_running g = []) \<and>
     (ss_authed (cg_session g) \<longrightarrow> (\<exists>c a. (ss_device (cg_session g), c, a) \<in> set (cg_proofs g) \<and> a (ss_device (cg_session g)) = Some c))"

lemma chan_inv_served:
  assumes "chan_inv C g" and "\<And>k. inj (de_hmac (ce_dev C) k)"
    and "serve_message C (cg_unlocked g) f seed raw (cg_session g) (cg_state g) = (Inr (out, ss), s)" and "boot_ok (df_boot f)"
  shows "chan_inv C (g\<lparr>cg_state := s, cg_session := ss,
      cg_running := (case co_admitted out of None \<Rightarrow> cg_running g | Some m \<Rightarrow> cg_running g @ [m]),
      cg_proofs := (if ss_authed ss \<and> \<not> ss_authed (cg_session g) then (ss_device ss, credential_of raw, cg_devices g) # cg_proofs g else cg_proofs g)\<rparr>)"
proof -
  have d: "dev_rel (ce_dev C) (cg_devices g) s"
    using serve_dev_rel [OF _ assms(4,2), of "cg_devices g" "cg_state g" "cg_unlocked g" seed raw "cg_session g"] assms(1,3)
    by (simp add: chan_inv_def)
  have v: "verify_device (ce_dev C) f i c (cg_state g) = (Inr True, s) \<Longrightarrow> cg_devices g i = Some c" for i c
    using verify_True assms(1) unfolding chan_inv_def by blast
  show ?thesis
    using serve_cases [OF assms(3)] assms(1) d v
    by (elim disjE exE conjE) (auto simp: chan_inv_def)
qed

lemma chan_inv_step:
  assumes "chan_step C g g'" and "chan_inv C g" and "\<And>k. inj (de_hmac (ce_dev C) k)"
  shows "chan_inv C g'"
  using assms(1,2)
proof (cases rule: chan_step.cases)
  case (devices e)
  then show ?thesis using dev_step_rel [OF _ _ assms(3), of "cg_devices g" "cg_state g" e] assms(2) by (simp add: chan_inv_def)
next
  case (served f seed raw out ss s)
  show ?thesis unfolding served(1) by (rule chan_inv_served [OF assms(2,3) served(2,3)])
next
  case (dropped f seed raw e s)
  have "dev_rel (ce_dev C) (cg_devices g) s"
    using serve_dev_rel [OF _ dropped(3) assms(3), of "cg_devices g" "cg_state g" "cg_unlocked g" seed raw "cg_session g"] assms(2) dropped(2)
    by (simp add: chan_inv_def)
  then show ?thesis using assms(2) dropped(1) by (simp add: chan_inv_def)
next
  case (finished m)
  then show ?thesis using assms(2) by (auto simp: chan_inv_def request_finish_def length_remove1)
qed (use assms(2) in \<open>simp add: chan_inv_def\<close>)

text \<open>
  C22: In every situation a channel can reach, whatever messages the phone sends and however pairing, revoking,
  locking and the workers interleave: at most 16 requests are in a worker's hands and none before the channel is
  authenticated; and an authenticated channel acts for a device that presented the very credential it was
  registered with at that moment.
\<close>

theorem channel_invariant:
  assumes "chan_reachable C s0 g" and "dev_start (ce_dev C) s0" and "\<And>k. inj (de_hmac (ce_dev C) k)"
  shows "length (cg_running g) \<le> 16 \<and> ss_inflight (cg_session g) = length (cg_running g) \<and>
    (cg_running g = [] \<or> ss_authed (cg_session g)) \<and>
    (\<not> ss_authed (cg_session g) \<or> (\<exists>c a. (ss_device (cg_session g), c, a) \<in> set (cg_proofs g) \<and> a (ss_device (cg_session g)) = Some c))"
proof -
  have "chan_inv C g"
    using assms(1)
  proof (induction rule: chan_reachable.induct)
    case (start b)
    then show ?case using dev_start_rel [OF assms(2)] by (simp add: chan_inv_def new_session_def)
  next
    case (step g g')
    then show ?case using chan_inv_step [OF _ _ assms(3)] by blast
  qed
  then show ?thesis by (auto simp: chan_inv_def MAX_INFLIGHT_def)
qed

text \<open>
  C23: Revoking a device cuts off its live channel: after any history of pairings, revocations and connections, a
  request on an authenticated channel whose device is no longer registered is answered 401 and goes nowhere,
  locked or unlocked; while the device is registered and the vault is open, it is admitted up to the bound.
\<close>

theorem revocation_cuts_channel:
  assumes "dev_start (ce_dev C) s" and "list_all dev_event_ok es" and inj: "\<And>k. inj (de_hmac (ce_dev C) k)" and "boot_ok boot"
    and "ss_authed ss" and "ss_inflight ss < 16"
  shows "fst (request_begin C True boot msg ss (fold (dev_step (ce_dev C)) es s)) =
      (if fold dev_spec es Map.empty (ss_device ss) = None
       then Inr (\<lparr>co_sent = [error_response (ce_sign C) (if truthy (field msg ''id'') then text_or_empty (field msg ''id'') else ''?'') 401 ''device revoked''],
                  co_closed = False, co_admitted = None\<rparr>, ss)
       else Inr (\<lparr>co_sent = [], co_closed = False, co_admitted = Some msg\<rparr>, ss\<lparr>ss_inflight := ss_inflight ss + 1\<rparr>)) \<and>
    (fold dev_spec es Map.empty (ss_device ss) = None \<longrightarrow> fst (request_begin C False boot msg ss (fold (dev_step (ce_dev C)) es s)) =
      Inr (\<lparr>co_sent = [error_response (ce_sign C) (if truthy (field msg ''id'') then text_or_empty (field msg ''id'') else ''?'') 401 ''device revoked''],
            co_closed = False, co_admitted = None\<rparr>, ss))"
proof -
  let ?s = "fold (dev_step (ce_dev C)) es s" and ?a = "fold dev_spec es Map.empty"
  have ex: "device_exists (ce_dev C) (ss_device ss) ?s = Inr (?a (ss_device ss) \<noteq> None)"
    by (rule device_exists_run [OF assms(1,2) inj])
  have kn: "fst (is_known_device_id (ce_dev C) boot (ss_device ss) ?s) = Inr (dv_meta ?s \<noteq> None \<and> ?a (ss_device ss) \<noteq> None)"
    by (rule is_known_run [OF assms(1,2) inj assms(4)])
  have up: "fst (request_begin C True boot msg ss ?s) =
      (if ?a (ss_device ss) = None
       then Inr (\<lparr>co_sent = [error_response (ce_sign C) (if truthy (field msg ''id'') then text_or_empty (field msg ''id'') else ''?'') 401 ''device revoked''],
                  co_closed = False, co_admitted = None\<rparr>, ss)
       else Inr (\<lparr>co_sent = [], co_closed = False, co_admitted = Some msg\<rparr>, ss\<lparr>ss_inflight := ss_inflight ss + 1\<rparr>))"
    using assms(5,6) ex by (simp add: request_begin_def eff_simps MAX_INFLIGHT_def Let_def)
  have "fst (request_begin C False boot msg ss ?s) =
      Inr (\<lparr>co_sent = [error_response (ce_sign C) (if truthy (field msg ''id'') then text_or_empty (field msg ''id'') else ''?'') 401 ''device revoked''],
            co_closed = False, co_admitted = None\<rparr>, ss)" if "?a (ss_device ss) = None"
    using assms(5) kn that
    by (cases "is_known_device_id (ce_dev C) boot (ss_device ss) ?s") (auto simp: request_begin_def eff_simps Let_def)
  then show ?thesis using up by blast
qed

definition demo_chan :: "(bytes \<times> bytes \<times> string \<times> plain) chan_env" where
  "demo_chan = \<lparr>ce_dev = demo_dev, ce_sign = demo_sign, ce_binding = [1], ce_client = (\<lambda>_. Inl ''ConnectError''), ce_relay = ''relay''\<rparr>"

theorem channel_invariant_witness:
  "length (cg_running \<lparr>cg_devices = Map.empty, cg_state = demo_dev_start, cg_unlocked = True, cg_session = new_session, cg_running = [], cg_proofs = []\<rparr>) \<le> 16"
  by (rule conjunct1 [OF channel_invariant [where C = demo_chan, OF chan_reachable.start]]) (simp_all add: demo_chan_def demo_dev_ok)

theorem revocation_cuts_channel_witness:
  "fst (request_begin demo_chan True ''00ff'' [] (new_session\<lparr>ss_authed := True, ss_device := ''d1''\<rparr>)
     (fold (dev_step (ce_dev demo_chan)) [Pair demo_fresh ''phone'', Revoke ''00ff'' ''d1''] demo_dev_start)) =
   Inr (\<lparr>co_sent = [error_response (ce_sign demo_chan) ''?'' 401 ''device revoked''], co_closed = False, co_admitted = None\<rparr>,
     new_session\<lparr>ss_authed := True, ss_device := ''d1''\<rparr>)"
  by (subst revocation_cuts_channel [THEN conjunct1])
    (simp_all add: demo_chan_def demo_dev_ok dev_event_ok_def dev_spec_def new_session_def field_def opt_get_def truthy_def)

end
