(* ===== verification/Address_Guard.thy ===== *)
theory Address_Guard
  imports Prelude
begin

text \<open>
  Which addresses the guarded fetch refuses (\<open>_unwrap\<close> and \<open>_is_unsafe\<close> of \<open>app/smartbrain_3000/netguard.py\<close>). An
  address is the number the resolver's text denotes; the tables of Python's \<open>ipaddress\<close> are written out as blocks,
  and what is left of the address space as intervals.
\<close>

unbundle bit_operations_syntax

section \<open>Blocks\<close>

datatype ip = V4 "32 word" | V6 "128 word"

text \<open>A block is its first address and the length of its prefix.\<close>

definition in_net :: "'a::len word \<Rightarrow> 'a word \<times> nat \<Rightarrow> bool" where
  "in_net a n = (drop_bit (LENGTH('a) - snd n) a = drop_bit (LENGTH('a) - snd n) (fst n))"

definition in_nets :: "'a::len word \<Rightarrow> ('a word \<times> nat) list \<Rightarrow> bool" where
  "in_nets a ns = list_ex (in_net a) ns"

definition dotted :: "nat \<Rightarrow> nat \<Rightarrow> nat \<Rightarrow> nat \<Rightarrow> 32 word" where
  "dotted a b c d = of_nat (((a * 256 + b) * 256 + c) * 256 + d)"

definition V4_PRIVATE :: "(32 word \<times> nat) list" where
  "V4_PRIVATE = [(dotted 0 0 0 0, 8), (dotted 10 0 0 0, 8), (dotted 127 0 0 0, 8), (dotted 169 254 0 0, 16),
     (dotted 172 16 0 0, 12), (dotted 192 0 0 0, 24), (dotted 192 0 0 170, 31), (dotted 192 0 2 0, 24),
     (dotted 192 168 0 0, 16), (dotted 198 18 0 0, 15), (dotted 198 51 100 0, 24), (dotted 203 0 113 0, 24),
     (dotted 240 0 0 0, 4), (dotted 255 255 255 255, 32)]"

definition V4_EXCEPTIONS :: "(32 word \<times> nat) list" where
  "V4_EXCEPTIONS = [(dotted 192 0 0 9, 32), (dotted 192 0 0 10, 32)]"

definition V4_SHARED :: "32 word \<times> nat" where "V4_SHARED = (dotted 100 64 0 0, 10)"
definition V4_MULTICAST :: "32 word \<times> nat" where "V4_MULTICAST = (dotted 224 0 0 0, 4)"
definition V4_RESERVED :: "32 word \<times> nat" where "V4_RESERVED = (dotted 240 0 0 0, 4)"

text \<open>The first address of an IPv6 block, from its leading 32 bits and the rest.\<close>

definition hex6 :: "nat \<Rightarrow> nat \<Rightarrow> 128 word" where
  "hex6 hi lo = of_nat (hi * 2 ^ 96 + lo)"

definition V6_PRIVATE :: "(128 word \<times> nat) list" where
  "V6_PRIVATE = [(hex6 0 1, 128), (hex6 0 0, 128), (hex6 0 (0xFFFF * 2 ^ 32), 96), (hex6 0x0064FF9B (1 * 2 ^ 80), 48), (hex6 0x01000000 0, 64),
     (hex6 0x20010000 0, 23), (hex6 0x20010DB8 0, 32), (hex6 0x20020000 0, 16), (hex6 0x3FFF0000 0, 20), (hex6 0xFC000000 0, 7),
     (hex6 0xFE800000 0, 10)]"

definition V6_EXCEPTIONS :: "(128 word \<times> nat) list" where
  "V6_EXCEPTIONS = [(hex6 0x20010001 1, 128), (hex6 0x20010001 2, 128), (hex6 0x20010003 0, 32),
     (hex6 0x20010004 (0x0112 * 2 ^ 80), 48), (hex6 0x20010020 0, 28), (hex6 0x20010030 0, 28)]"

definition V6_RESERVED :: "(128 word \<times> nat) list" where
  "V6_RESERVED = [(hex6 0 0, 8), (hex6 0x01000000 0, 8), (hex6 0x02000000 0, 7), (hex6 0x04000000 0, 6), (hex6 0x08000000 0, 5),
     (hex6 0x10000000 0, 4), (hex6 0x40000000 0, 3), (hex6 0x60000000 0, 3), (hex6 0x80000000 0, 3), (hex6 0xA0000000 0, 3),
     (hex6 0xC0000000 0, 3), (hex6 0xE0000000 0, 4), (hex6 0xF0000000 0, 5), (hex6 0xF8000000 0, 6), (hex6 0xFE000000 0, 9)]"

definition V6_MULTICAST :: "128 word \<times> nat" where "V6_MULTICAST = (hex6 0xFF000000 0, 8)"
definition NAT64_WK :: "128 word \<times> nat" where "NAT64_WK = (hex6 0x0064FF9B 0, 96)"

definition v4_global :: "32 word \<Rightarrow> bool" where
  "v4_global a = (\<not> in_net a V4_SHARED \<and> \<not> (in_nets a V4_PRIVATE \<and> \<not> in_nets a V4_EXCEPTIONS))"

definition v6_global :: "128 word \<Rightarrow> bool" where
  "v6_global a = (\<not> (in_nets a V6_PRIVATE \<and> \<not> in_nets a V6_EXCEPTIONS))"

definition low32 :: "128 word \<Rightarrow> 32 word" where
  "low32 a = ucast (a AND 0xFFFFFFFF)"

definition unwrap :: "ip \<Rightarrow> ip" where
  "unwrap a = (case a of V4 w \<Rightarrow> V4 w
     | V6 w \<Rightarrow> if drop_bit 32 w = 0xFFFF then V4 (low32 w) else if in_net w NAT64_WK then V4 (low32 w) else V6 w)"

definition is_unsafe :: "ip \<Rightarrow> bool" where
  "is_unsafe raw = (case unwrap raw of
       V4 a \<Rightarrow> if in_net a V4_MULTICAST \<or> in_net a V4_RESERVED \<or> a = 0 then True else \<not> v4_global a
     | V6 a \<Rightarrow> if in_net a V6_MULTICAST \<or> in_nets a V6_RESERVED \<or> a = 0 then True else \<not> v6_global a)"

text \<open>The same as intervals of numbers: what the guard lets through.\<close>

definition PUBLIC_V4 :: "(nat \<times> nat) list" where
  "PUBLIC_V4 = [(0x01000000, 0x09FFFFFF), (0x0B000000, 0x643FFFFF), (0x64800000, 0x7EFFFFFF), (0x80000000, 0xA9FDFFFF),
     (0xA9FF0000, 0xAC0FFFFF), (0xAC200000, 0xBFFFFFFF), (0xC0000009, 0xC000000A), (0xC0000100, 0xC00001FF),
     (0xC0000300, 0xC0A7FFFF), (0xC0A90000, 0xC611FFFF), (0xC6140000, 0xC63363FF), (0xC6336500, 0xCB0070FF),
     (0xCB007200, 0xDFFFFFFF)]"

text \<open>The deprecated site-local block \<open>fec0::/10\<close>, the last one, is in none of the library's tables.\<close>

definition PUBLIC_V6 :: "(nat \<times> nat) list" where
  "PUBLIC_V6 =
     [(0x20000000000000000000000000000000, 0x2000FFFFFFFFFFFFFFFFFFFFFFFFFFFF),
     (0x20010001000000000000000000000001, 0x20010001000000000000000000000002),
     (0x20010003000000000000000000000000, 0x20010003FFFFFFFFFFFFFFFFFFFFFFFF),
     (0x20010004011200000000000000000000, 0x200100040112FFFFFFFFFFFFFFFFFFFF),
     (0x20010020000000000000000000000000, 0x2001003FFFFFFFFFFFFFFFFFFFFFFFFF),
     (0x20010200000000000000000000000000, 0x20010DB7FFFFFFFFFFFFFFFFFFFFFFFF),
     (0x20010DB9000000000000000000000000, 0x2001FFFFFFFFFFFFFFFFFFFFFFFFFFFF),
     (0x20030000000000000000000000000000, 0x3FFEFFFFFFFFFFFFFFFFFFFFFFFFFFFF),
     (0x3FFF1000000000000000000000000000, 0x3FFFFFFFFFFFFFFFFFFFFFFFFFFFFFFF),
     (0xFEC00000000000000000000000000000, 0xFEFFFFFFFFFFFFFFFFFFFFFFFFFFFFFF)]"

definition in_span :: "nat \<Rightarrow> nat \<times> nat \<Rightarrow> bool" where
  "in_span n s = (fst s \<le> n \<and> n \<le> snd s)"

lemma in_net_span:
  fixes a b :: "'a::len word"
  assumes "2 ^ (LENGTH('a) - k) dvd unat b"
  shows "in_net a (b, k) \<longleftrightarrow> in_span (unat a) (unat b, unat b + 2 ^ (LENGTH('a) - k) - 1)"
proof -
  let ?m = "2 ^ (LENGTH('a) - k) :: nat"
  obtain q where q: "unat b = ?m * q" using assms by (auto simp: dvd_def)
  have "in_net a (b, k) \<longleftrightarrow> unat a div ?m = q"
    unfolding in_net_def by (simp add: word_unat_eq_iff unat_drop_bit_eq q) (simp add: drop_bit_eq_div q)
  also have "\<dots> \<longleftrightarrow> ?m * q \<le> unat a \<and> unat a < ?m * q + ?m"
    (is "_ \<longleftrightarrow> ?r")
  proof -
    have m: "0 < ?m" by simp
    have "unat a div ?m = q \<longleftrightarrow> q \<le> unat a div ?m \<and> unat a div ?m < q + 1" by linarith
    then show ?thesis using m by (simp only: less_eq_div_iff_mult_less_eq div_less_iff_less_mult) (simp add: algebra_simps)
  qed
  moreover have "0 < ?m" by simp
  ultimately show ?thesis unfolding in_span_def q fst_conv snd_conv by linarith
qed

lemma in_net_dotted:
  assumes "2 ^ (32 - k) dvd ((p * 256 + q) * 256 + r) * 256 + s" and "((p * 256 + q) * 256 + r) * 256 + s < 2 ^ 32"
  shows "in_net a (dotted p q r s, k) =
    in_span (unat a) (((p * 256 + q) * 256 + r) * 256 + s, ((p * 256 + q) * 256 + r) * 256 + s + 2 ^ (32 - k) - 1)"
proof -
  have "unat (dotted p q r s) = ((p * 256 + q) * 256 + r) * 256 + s"
    unfolding dotted_def unat_of_nat using assms(2) by simp
  then show ?thesis using in_net_span [of k "dotted p q r s" a] assms(1) by simp
qed

lemma in_net_hex6:
  assumes "2 ^ (128 - k) dvd hi * 2 ^ 96 + lo" and "hi * 2 ^ 96 + lo < 2 ^ 128"
  shows "in_net a (hex6 hi lo, k) = in_span (unat a) (hi * 2 ^ 96 + lo, hi * 2 ^ 96 + lo + 2 ^ (128 - k) - 1)"
proof -
  have "unat (hex6 hi lo) = hi * 2 ^ 96 + lo" unfolding hex6_def unat_of_nat using assms(2) by simp
  then show ?thesis using in_net_span [of k "hex6 hi lo" a] assms(1) by simp
qed

text \<open>Comparisons with every boundary, one interval at a time.\<close>

lemma interval_cases: "(n < b \<Longrightarrow> P) \<Longrightarrow> (b \<le> n \<Longrightarrow> P) \<Longrightarrow> P" for n b :: nat
  by (meson not_le)

lemma interval_step: "lo \<le> n \<Longrightarrow> (lo \<le> n \<Longrightarrow> n < b \<Longrightarrow> P) \<Longrightarrow> (b \<le> n \<Longrightarrow> P) \<Longrightarrow> P" for n b lo :: nat
  by (meson not_le)

definition refused_v4 :: "nat \<Rightarrow> bool" where
  "refused_v4 n \<longleftrightarrow> in_span n (0xE0000000, 0xEFFFFFFF) \<or> in_span n (0xF0000000, 0xFFFFFFFF) \<or> in_span n (0x64400000, 0x647FFFFF) \<or>
     list_ex (in_span n) [(0, 0x00FFFFFF), (0x0A000000, 0x0AFFFFFF), (0x7F000000, 0x7FFFFFFF), (0xA9FE0000, 0xA9FEFFFF),
       (0xAC100000, 0xAC1FFFFF), (0xC0000000, 0xC00000FF), (0xC00000AA, 0xC00000AB), (0xC0000200, 0xC00002FF),
       (0xC0A80000, 0xC0A8FFFF), (0xC6120000, 0xC613FFFF), (0xC6336400, 0xC63364FF), (0xCB007100, 0xCB0071FF),
       (0xF0000000, 0xFFFFFFFF), (0xFFFFFFFF, 0xFFFFFFFF)] \<and> \<not> list_ex (in_span n) [(0xC0000009, 0xC0000009), (0xC000000A, 0xC000000A)]"

lemma unsafe_v4_spans: "is_unsafe (V4 a) = refused_v4 (unat a)"
  unfolding is_unsafe_def unwrap_def v4_global_def V4_SHARED_def V4_MULTICAST_def V4_RESERVED_def V4_PRIVATE_def
    V4_EXCEPTIONS_def in_nets_def refused_v4_def
  apply (cases "a = 0")
   apply (simp add: in_span_def)
  apply (simp add: in_net_dotted)
  done

lemma refused_v4_spans: "n < 2 ^ 32 \<Longrightarrow> refused_v4 n = (\<not> list_ex (in_span n) PUBLIC_V4)"
  unfolding refused_v4_def PUBLIC_V4_def in_span_def list_ex_Nil_iff list_ex_Cons_iff fst_conv snd_conv
  apply (rule interval_cases [of n "0x1000000"], simp)
  apply (erule interval_step [where b = "0xa000000"], simp)
  apply (erule interval_step [where b = "0xb000000"], simp)
  apply (erule interval_step [where b = "0x64400000"], simp)
  apply (erule interval_step [where b = "0x64800000"], simp)
  apply (erule interval_step [where b = "0x7f000000"], simp)
  apply (erule interval_step [where b = "0x80000000"], simp)
  apply (erule interval_step [where b = "0xa9fe0000"], simp)
  apply (erule interval_step [where b = "0xa9ff0000"], simp)
  apply (erule interval_step [where b = "0xac100000"], simp)
  apply (erule interval_step [where b = "0xac200000"], simp)
  apply (erule interval_step [where b = "0xc0000000"], simp)
  apply (erule interval_step [where b = "0xc0000009"], simp)
  apply (erule interval_step [where b = "0xc000000a"], simp)
  apply (erule interval_step [where b = "0xc000000b"], simp)
  apply (erule interval_step [where b = "0xc00000aa"], simp)
  apply (erule interval_step [where b = "0xc00000ac"], simp)
  apply (erule interval_step [where b = "0xc0000100"], simp)
  apply (erule interval_step [where b = "0xc0000200"], simp)
  apply (erule interval_step [where b = "0xc0000300"], simp)
  apply (erule interval_step [where b = "0xc0a80000"], simp)
  apply (erule interval_step [where b = "0xc0a90000"], simp)
  apply (erule interval_step [where b = "0xc6120000"], simp)
  apply (erule interval_step [where b = "0xc6140000"], simp)
  apply (erule interval_step [where b = "0xc6336400"], simp)
  apply (erule interval_step [where b = "0xc6336500"], simp)
  apply (erule interval_step [where b = "0xcb007100"], simp)
  apply (erule interval_step [where b = "0xcb007200"], simp)
  apply (erule interval_step [where b = "0xe0000000"], simp)
  apply (erule interval_step [where b = "0xf0000000"], simp)
  apply (erule interval_step [where b = "0xffffffff"], simp)
  by simp

definition refused_v6 :: "nat \<Rightarrow> bool" where
  "refused_v6 n \<longleftrightarrow> in_span n (0xFF000000000000000000000000000000, 0xFFFFFFFFFFFFFFFFFFFFFFFFFFFFFFFF) \<or> list_ex (in_span n)
     [(0x0, 0xFFFFFFFFFFFFFFFFFFFFFFFFFFFFFF),
     (0x1000000000000000000000000000000, 0x1FFFFFFFFFFFFFFFFFFFFFFFFFFFFFF),
     (0x2000000000000000000000000000000, 0x3FFFFFFFFFFFFFFFFFFFFFFFFFFFFFF),
     (0x4000000000000000000000000000000, 0x7FFFFFFFFFFFFFFFFFFFFFFFFFFFFFF),
     (0x8000000000000000000000000000000, 0xFFFFFFFFFFFFFFFFFFFFFFFFFFFFFFF),
     (0x10000000000000000000000000000000, 0x1FFFFFFFFFFFFFFFFFFFFFFFFFFFFFFF),
     (0x40000000000000000000000000000000, 0x5FFFFFFFFFFFFFFFFFFFFFFFFFFFFFFF),
     (0x60000000000000000000000000000000, 0x7FFFFFFFFFFFFFFFFFFFFFFFFFFFFFFF),
     (0x80000000000000000000000000000000, 0x9FFFFFFFFFFFFFFFFFFFFFFFFFFFFFFF),
     (0xA0000000000000000000000000000000, 0xBFFFFFFFFFFFFFFFFFFFFFFFFFFFFFFF),
     (0xC0000000000000000000000000000000, 0xDFFFFFFFFFFFFFFFFFFFFFFFFFFFFFFF),
     (0xE0000000000000000000000000000000, 0xEFFFFFFFFFFFFFFFFFFFFFFFFFFFFFFF),
     (0xF0000000000000000000000000000000, 0xF7FFFFFFFFFFFFFFFFFFFFFFFFFFFFFF),
     (0xF8000000000000000000000000000000, 0xFBFFFFFFFFFFFFFFFFFFFFFFFFFFFFFF),
     (0xFE000000000000000000000000000000, 0xFE7FFFFFFFFFFFFFFFFFFFFFFFFFFFFF)] \<or> list_ex (in_span n)
     [(0x1, 0x1), (0x0, 0x0), (0xFFFF00000000, 0xFFFFFFFFFFFF),
     (0x64FF9B000100000000000000000000, 0x64FF9B0001FFFFFFFFFFFFFFFFFFFF),
     (0x1000000000000000000000000000000, 0x100000000000000FFFFFFFFFFFFFFFF),
     (0x20010000000000000000000000000000, 0x200101FFFFFFFFFFFFFFFFFFFFFFFFFF),
     (0x20010DB8000000000000000000000000, 0x20010DB8FFFFFFFFFFFFFFFFFFFFFFFF),
     (0x20020000000000000000000000000000, 0x2002FFFFFFFFFFFFFFFFFFFFFFFFFFFF),
     (0x3FFF0000000000000000000000000000, 0x3FFF0FFFFFFFFFFFFFFFFFFFFFFFFFFF),
     (0xFC000000000000000000000000000000, 0xFDFFFFFFFFFFFFFFFFFFFFFFFFFFFFFF),
     (0xFE800000000000000000000000000000, 0xFEBFFFFFFFFFFFFFFFFFFFFFFFFFFFFF)] \<and> \<not> list_ex (in_span n)
     [(0x20010001000000000000000000000001, 0x20010001000000000000000000000001),
     (0x20010001000000000000000000000002, 0x20010001000000000000000000000002),
     (0x20010003000000000000000000000000, 0x20010003FFFFFFFFFFFFFFFFFFFFFFFF),
     (0x20010004011200000000000000000000, 0x200100040112FFFFFFFFFFFFFFFFFFFF),
     (0x20010020000000000000000000000000, 0x2001002FFFFFFFFFFFFFFFFFFFFFFFFF),
     (0x20010030000000000000000000000000, 0x2001003FFFFFFFFFFFFFFFFFFFFFFFFF)]"

lemma unsafe_v6_spans: "unwrap (V6 a) = V6 a \<Longrightarrow> is_unsafe (V6 a) = refused_v6 (unat a)"
  unfolding is_unsafe_def v6_global_def V6_MULTICAST_def V6_RESERVED_def V6_PRIVATE_def V6_EXCEPTIONS_def in_nets_def refused_v6_def
  apply (cases "a = 0")
   apply (simp add: in_span_def)
  apply (simp add: in_net_hex6)
  done

lemma refused_v6_spans: "n < 2 ^ 128 \<Longrightarrow> refused_v6 n = (\<not> list_ex (in_span n) PUBLIC_V6)"
  unfolding refused_v6_def PUBLIC_V6_def in_span_def list_ex_Nil_iff list_ex_Cons_iff fst_conv snd_conv
  apply (rule interval_cases [of n "0x1"], simp)
  apply (erule interval_step [where b = "0x2"], simp)
  apply (erule interval_step [where b = "0xFFFF00000000"], simp)
  apply (erule interval_step [where b = "0x1000000000000"], simp)
  apply (erule interval_step [where b = "0x64FF9B000100000000000000000000"], simp)
  apply (erule interval_step [where b = "0x64FF9B000200000000000000000000"], simp)
  apply (erule interval_step [where b = "0x1000000000000000000000000000000"], simp)
  apply (erule interval_step [where b = "0x1000000000000010000000000000000"], simp)
  apply (erule interval_step [where b = "0x2000000000000000000000000000000"], simp)
  apply (erule interval_step [where b = "0x4000000000000000000000000000000"], simp)
  apply (erule interval_step [where b = "0x8000000000000000000000000000000"], simp)
  apply (erule interval_step [where b = "0x10000000000000000000000000000000"], simp)
  apply (erule interval_step [where b = "0x20000000000000000000000000000000"], simp)
  apply (erule interval_step [where b = "0x20010000000000000000000000000000"], simp)
  apply (erule interval_step [where b = "0x20010001000000000000000000000001"], simp)
  apply (erule interval_step [where b = "0x20010001000000000000000000000002"], simp)
  apply (erule interval_step [where b = "0x20010001000000000000000000000003"], simp)
  apply (erule interval_step [where b = "0x20010003000000000000000000000000"], simp)
  apply (erule interval_step [where b = "0x20010004000000000000000000000000"], simp)
  apply (erule interval_step [where b = "0x20010004011200000000000000000000"], simp)
  apply (erule interval_step [where b = "0x20010004011300000000000000000000"], simp)
  apply (erule interval_step [where b = "0x20010020000000000000000000000000"], simp)
  apply (erule interval_step [where b = "0x20010030000000000000000000000000"], simp)
  apply (erule interval_step [where b = "0x20010040000000000000000000000000"], simp)
  apply (erule interval_step [where b = "0x20010200000000000000000000000000"], simp)
  apply (erule interval_step [where b = "0x20010DB8000000000000000000000000"], simp)
  apply (erule interval_step [where b = "0x20010DB9000000000000000000000000"], simp)
  apply (erule interval_step [where b = "0x20020000000000000000000000000000"], simp)
  apply (erule interval_step [where b = "0x20030000000000000000000000000000"], simp)
  apply (erule interval_step [where b = "0x3FFF0000000000000000000000000000"], simp)
  apply (erule interval_step [where b = "0x3FFF1000000000000000000000000000"], simp)
  apply (erule interval_step [where b = "0x40000000000000000000000000000000"], simp)
  apply (erule interval_step [where b = "0x60000000000000000000000000000000"], simp)
  apply (erule interval_step [where b = "0x80000000000000000000000000000000"], simp)
  apply (erule interval_step [where b = "0xA0000000000000000000000000000000"], simp)
  apply (erule interval_step [where b = "0xC0000000000000000000000000000000"], simp)
  apply (erule interval_step [where b = "0xE0000000000000000000000000000000"], simp)
  apply (erule interval_step [where b = "0xF0000000000000000000000000000000"], simp)
  apply (erule interval_step [where b = "0xF8000000000000000000000000000000"], simp)
  apply (erule interval_step [where b = "0xFC000000000000000000000000000000"], simp)
  apply (erule interval_step [where b = "0xFE000000000000000000000000000000"], simp)
  apply (erule interval_step [where b = "0xFE800000000000000000000000000000"], simp)
  apply (erule interval_step [where b = "0xFEC00000000000000000000000000000"], simp)
  apply (erule interval_step [where b = "0xFF000000000000000000000000000000"], simp)
  by simp

section \<open>What the guard lets through\<close>

lemma unat_drop: "unat (drop_bit k w) = unat w div 2 ^ k"
  by (simp only: unat_drop_bit_eq) (simp only: drop_bit_eq_div)

lemma unat_below32: "unat (w :: 32 word) < 2 ^ 32"
  using unsigned_less [of w] by simp

lemma unat_below128: "unat (w :: 128 word) < 2 ^ 128"
  using unsigned_less [of w] by simp

lemma unat_low32: "unat (low32 w) = unat w mod 2 ^ 32"
proof -
  have t: "unat (take_bit k w) = unat w mod 2 ^ k" for k by (simp only: unsigned_take_bit_eq) (simp only: take_bit_eq_mod)
  have "(0xFFFFFFFF :: 128 word) = mask 32" by (simp add: mask_numeral)
  then have "low32 w = ucast (take_bit 32 w)" unfolding low32_def take_bit_eq_mask by simp
  moreover have "unat (ucast (take_bit 32 w) :: 32 word) = take_bit 32 (unat (take_bit 32 w))"
    by (simp only: unsigned_ucast_eq) simp
  ultimately show ?thesis by (simp only: t) (simp only: take_bit_eq_mod mod_mod_trivial)
qed

lemma low32_of_nat: "q * 2 ^ 32 + unat v < 2 ^ 128 \<Longrightarrow> low32 (of_nat (q * 2 ^ 32 + unat v)) = v"
proof -
  assume "q * 2 ^ 32 + unat v < 2 ^ 128"
  then have "unat (of_nat (q * 2 ^ 32 + unat v) :: 128 word) = q * 2 ^ 32 + unat v" unfolding unat_of_nat by simp
  then have "unat (low32 (of_nat (q * 2 ^ 32 + unat v))) = unat v"
    unfolding unat_low32 using unat_below32 [of v] by (simp only: mod_mult_self3 mod_less)
  then show ?thesis by (simp only: word_unat_eq_iff)
qed

lemma unwrap_v4_mapped: "unwrap (V6 (of_nat (0xFFFF * 2 ^ 32 + unat v))) = V4 v"
proof -
  let ?n = "0xFFFF * 2 ^ 32 + unat v"
  have u: "unat (of_nat ?n :: 128 word) = ?n" unfolding unat_of_nat using unat_below32 [of v] by simp
  have "unat (drop_bit 32 (of_nat ?n :: 128 word)) = unat (0xFFFF :: 128 word)"
    unfolding unat_drop u using unat_below32 [of v] by simp
  then have "drop_bit 32 (of_nat ?n :: 128 word) = 0xFFFF" by (simp only: word_unat_eq_iff)
  moreover have "low32 (of_nat ?n) = v" using unat_below32 [of v] by (intro low32_of_nat) simp
  ultimately show ?thesis unfolding unwrap_def by (simp only: ip.case if_True refl)
qed

lemma unwrap_nat64: "unwrap (V6 (of_nat (0x0064FF9B * 2 ^ 96 + unat v))) = V4 v"
proof -
  let ?n = "0x0064FF9B * 2 ^ 64 * 2 ^ 32 + unat v" and ?m = "0x0064FF9B * 2 ^ 96 + unat v"
  have e: "?m = ?n" by simp
  have u: "unat (of_nat ?n :: 128 word) = ?n" unfolding unat_of_nat using unat_below32 [of v] by simp
  have h: "unat (hex6 0x0064FF9B 0) = 0x0064FF9B * 2 ^ 96" unfolding hex6_def unat_of_nat by simp
  have "unat (drop_bit 32 (of_nat ?n :: 128 word)) = unat (drop_bit 32 (hex6 0x0064FF9B 0))"
    unfolding unat_drop u h using unat_below32 [of v] by simp
  then have n: "in_net (of_nat ?n) NAT64_WK"
    unfolding in_net_def NAT64_WK_def fst_conv snd_conv by (simp only: word_unat_eq_iff) simp
  have "low32 (of_nat ?n) = v" using unat_below32 [of v] by (intro low32_of_nat) simp
  then show ?thesis unfolding unwrap_def e using n by (simp only: ip.case if_True if_cancel)
qed

text \<open>
  C32: Exactly the globally reachable addresses pass the guard: an IPv4 address in none of the special-purpose blocks, or
  an IPv6 address in the allocated unicast space outside its special-purpose blocks, or (the one gap) in the
  deprecated site-local block. An IPv4 address wrapped as IPv4-mapped or NAT64 IPv6 is judged as itself.
\<close>

theorem guard_accepts_only_public:
  "(is_unsafe a \<longleftrightarrow> (case unwrap a of
      V4 w \<Rightarrow> \<not> list_ex (in_span (unat w)) PUBLIC_V4
    | V6 w \<Rightarrow> \<not> list_ex (in_span (unat w)) PUBLIC_V6)) \<and>
   unwrap (V6 (of_nat (0xFFFF * 2 ^ 32 + unat v))) = V4 v \<and>
   unwrap (V6 (of_nat (0x0064FF9B * 2 ^ 96 + unat v))) = V4 v"
proof (intro conjI)
  have u: "is_unsafe a = is_unsafe (unwrap a)" "unwrap (unwrap a) = unwrap a"
    by (auto simp: is_unsafe_def unwrap_def split: ip.split if_split)
  show "is_unsafe a \<longleftrightarrow> (case unwrap a of
      V4 w \<Rightarrow> \<not> list_ex (in_span (unat w)) PUBLIC_V4 | V6 w \<Rightarrow> \<not> list_ex (in_span (unat w)) PUBLIC_V6)"
  proof (cases "unwrap a")
    case (V4 w)
    then show ?thesis using u(1) refused_v4_spans [OF unat_below32 [of w]] unsafe_v4_spans [of w] by simp
  next
    case (V6 w)
    then show ?thesis using u refused_v6_spans [OF unat_below128 [of w]] unsafe_v6_spans [of w] by simp
  qed
qed (rule unwrap_v4_mapped unwrap_nat64)+

end
