(* ===== verification/Net_Guard.thy ===== *)
theory Net_Guard
  imports Url Address_Guard
begin

text \<open>
  The guarded fetch (\<open>app/smartbrain_3000/netguard.py\<close>): the pinned request, the redirect loop, the capped read, the
  checks of a body. The resolver, the HTTP client and the politeness hook are parameters; the clock is read as
  seconds since the read began, in microseconds. Decoding a body to text, the scrubbing of keys and the hook's own waiting
  and reuse of responses are not here.
\<close>

section \<open>Constants\<close>

definition SCHEMES :: "string list" where "SCHEMES = [''http'', ''https'']"
definition MAX_REDIRECTS :: nat where "MAX_REDIRECTS = 3"
definition MAX_FETCH_BYTES :: nat where "MAX_FETCH_BYTES = 8000000"
definition VAULT_FETCH_DEADLINE :: int where "VAULT_FETCH_DEADLINE = 60 * MICROS"
definition ALLOWED_CT :: "string list" where "ALLOWED_CT = [''text/'', ''application/json'']"
definition INGEST_CT :: "string list" where
  "INGEST_CT = [''text/'', ''application/json'', ''application/pdf'', ''application/xml'', ''application/octet-stream'']"
definition INGEST_MAX_BYTES :: nat where "INGEST_MAX_BYTES = 25000000"
definition IMAGE_MAX_BYTES :: nat where "IMAGE_MAX_BYTES = 4000000"
definition VAULT_CT :: "string list" where
  "VAULT_CT = [''application/zip'', ''application/octet-stream'', ''application/x-zip-compressed'']"
definition MANIFEST_CT :: "string list" where
  "MANIFEST_CT = [''application/json'', ''text/plain'', ''application/octet-stream'']"
definition ZIP_MAGIC :: bytes where "ZIP_MAGIC = [0x50, 0x4B, 0x03, 0x04]"
definition MAX_MEDIA :: nat where "MAX_MEDIA = 100"
definition LIBRARY_PACK_CT :: "string list" where
  "LIBRARY_PACK_CT = [''application/octet-stream'', ''application/gzip'', ''application/x-gzip'']"

section \<open>Errors\<close>

text \<open>A \<open>FetchError\<close> with its attributes, or any other exception that escapes.\<close>

record fetch_error =
  fe_message :: string
  fe_status :: "int option"
  fe_kind :: "string option"
  fe_type :: string
  fe_retry :: "string option"

datatype fetch_fail = Fetch fetch_error | Raised pyerr

type_synonym 'a fetched = "fetch_fail + 'a"

definition refuse_fetch :: "string \<Rightarrow> 'a fetched" where
  "refuse_fetch m = Inl (Fetch \<lparr>fe_message = m, fe_status = None, fe_kind = None, fe_type = [], fe_retry = None\<rparr>)"

definition refuse_kind :: "string \<Rightarrow> string \<Rightarrow> string \<Rightarrow> 'a fetched" where
  "refuse_kind m k t = Inl (Fetch \<lparr>fe_message = m, fe_status = None, fe_kind = Some k, fe_type = take MAX_MEDIA t, fe_retry = None\<rparr>)"

definition fbind :: "'a fetched \<Rightarrow> ('a \<Rightarrow> 'b fetched) \<Rightarrow> 'b fetched" where
  "fbind r f = (case r of Inl e \<Rightarrow> Inl e | Inr x \<Rightarrow> f x)"

text \<open>Whether a refusal asks for the user's own key.\<close>

definition key_wall :: "fetch_error \<Rightarrow> bool" where
  "key_wall e =
     (if fe_kind e = Some ''challenge'' \<or> fe_kind e = Some ''rate_limited'' then False
      else fe_status e = Some 401 \<or> (fe_status e = Some 403 \<and> contains (fe_type e) ''json''))"

section \<open>Looking at a body\<close>

definition media_type :: "string \<Rightarrow> string" where
  "media_type ctype = take MAX_MEDIA (py_lower (strip (before (CHR '';'') ctype)))"

definition is_json_type :: "string \<Rightarrow> bool" where
  "is_json_type ctype =
     (let media = py_lower (strip (before (CHR '';'') ctype)) in
      startswith media ''application/'' \<and> startswith (rev media) (rev ''+json''))"

text \<open>The \<open>charset\<close> parameter; quotes of either kind around it are dropped.\<close>

definition strip_quotes :: "string \<Rightarrow> string" where
  "strip_quotes s = rev (dropWhile (\<lambda>c. c \<in> {CHR 0x22, CHR 0x27}) (rev (dropWhile (\<lambda>c. c \<in> {CHR 0x22, CHR 0x27}) s)))"

fun first_charset :: "string list \<Rightarrow> string" where
  "first_charset [] = []"
| "first_charset (p # ps) =
     (let q = strip p in
      if py_lower (strip (before (CHR ''='') q)) = ''charset'' then py_lower (strip_quotes (strip (after (CHR ''='') q)))
      else first_charset ps)"

definition declared_charset :: "string \<Rightarrow> string" where
  "declared_charset ctype = first_charset (tl (split_on (CHR '';'') ctype))"

definition UTF16_NAMES :: "string list" where
  "UTF16_NAMES = [''utf-16'', ''utf16'', ''utf-16le'', ''utf-16-le'', ''utf-16be'', ''utf-16-be'']"

text \<open>The NUL bytes at even and at odd positions of the first 64.\<close>

definition nuls_at :: "nat \<Rightarrow> bytes \<Rightarrow> nat" where
  "nuls_at parity head = length (filter (\<lambda>i. i mod 2 = parity \<and> head ! i = 0) [0..<length head])"

definition utf16_order :: "bytes \<Rightarrow> string option" where
  "utf16_order content =
     (let head = take 64 content in
      if head = [] then None
      else let even_nuls = nuls_at 0 head; odd_nuls = nuls_at 1 head; least = max (length head div 4) 1 in
        if even_nuls \<ge> least \<and> even_nuls > odd_nuls then Some ''utf-16-be''
        else if odd_nuls \<ge> least \<and> odd_nuls > even_nuls then Some ''utf-16-le'' else None)"

definition BINARY_MAGIC :: "bytes list" where
  "BINARY_MAGIC = [ascii_bytes ''%PDF-'', ZIP_MAGIC, 0x89 # ascii_bytes ''PNG'', ascii_bytes ''GIF8'', [0xFF, 0xD8, 0xFF],
     [0x1F, 0x8B], [0xD0, 0xCF, 0x11, 0xE0], ascii_bytes ''Rar!'', ascii_bytes ''7z'' @ [0xBC, 0xAF], ascii_bytes ''BZh'']"

definition BINARY_HEAD :: nat where "BINARY_HEAD = 1024"

definition control_byte :: "8 word \<Rightarrow> bool" where
  "control_byte b = (b < 32 \<and> b \<notin> {9, 10, 12, 13} \<or> b = 0x7F)"

text \<open>
  The incremental decoder on the head: for a lead byte the ranges its followers must lie in; what the cut left
  unfinished is not an error.
\<close>

definition utf8_follow :: "nat \<Rightarrow> (nat \<times> nat) list option" where
  "utf8_follow b =
     (let more = (0x80, 0xBF) in
      if b < 0x80 then Some []
      else if 0xC2 \<le> b \<and> b \<le> 0xDF then Some [more]
      else if b = 0xE0 then Some [(0xA0, 0xBF), more]
      else if b = 0xED then Some [(0x80, 0x9F), more]
      else if 0xE1 \<le> b \<and> b \<le> 0xEF then Some [more, more]
      else if b = 0xF0 then Some [(0x90, 0xBF), more, more]
      else if 0xF1 \<le> b \<and> b \<le> 0xF3 then Some [more, more, more]
      else if b = 0xF4 then Some [(0x80, 0x8F), more, more]
      else None)"

fun utf8_run :: "(nat \<times> nat) list \<Rightarrow> nat list \<Rightarrow> bool" where
  "utf8_run due [] = True"
| "utf8_run [] (b # bs) = (case utf8_follow b of None \<Rightarrow> False | Some due \<Rightarrow> utf8_run due bs)"
| "utf8_run ((lo, hi) # due) (b # bs) = (lo \<le> b \<and> b \<le> hi \<and> utf8_run due bs)"

definition utf8_head :: "bytes \<Rightarrow> bool" where
  "utf8_head head = utf8_run [] (map unat head)"

text \<open>The shares of the head are 10% and 30%; comparing the products is exact for a head of this length.\<close>

definition looks_binary :: "bytes \<Rightarrow> string \<Rightarrow> bool" where
  "looks_binary body ctype =
     (let head = take BINARY_HEAD body; declared = declared_charset ctype in
      if list_ex (startswith head) BINARY_MAGIC then True
      else if head = [] \<or> startswith head [0xFF, 0xFE] \<or> startswith head [0xFE, 0xFF] \<or> declared \<in> set UTF16_NAMES
        \<or> utf16_order head \<noteq> None then False
      else if 10 * length (filter control_byte head) \<ge> length head then True
      else 10 * length (filter (\<lambda>b. b \<ge> 128) head) \<ge> 3 * length head \<and> declared \<in> {[], ''utf-8'', ''utf8''} \<and> \<not> utf8_head head)"

section \<open>Responses\<close>

text \<open>The body as it arrives: a chunk and when, or an error of the client in the middle.\<close>

datatype arrival = Chunk int bytes | ReadError string

record response =
  rs_status :: int
  rs_redirect :: bool
  rs_header :: "string \<Rightarrow> string option"
  rs_body :: "arrival list"

definition header_text :: "response \<Rightarrow> string \<Rightarrow> string" where
  "header_text rs name = (case rs_header rs name of None \<Rightarrow> [] | Some v \<Rightarrow> v)"

definition response_media :: "response \<Rightarrow> string" where
  "response_media rs = media_type (header_text rs ''content-type'')"

definition CHALLENGE_HEADERS :: "(string \<times> string list) list" where
  "CHALLENGE_HEADERS = [(''cf-mitigated'', [''challenge'']), (''x-vercel-mitigated'', [''challenge'']),
     (''x-amzn-waf-action'', [''challenge'', ''captcha''])]"

definition challenge_header :: "response \<Rightarrow> bool" where
  "challenge_header rs = list_ex (\<lambda>(name, values). let v = py_lower (header_text rs name) in v \<noteq> [] \<and> list_ex (contains v) values) CHALLENGE_HEADERS"

definition CHALLENGE_BODY_MARKERS :: "bytes list" where
  "CHALLENGE_BODY_MARKERS = map ascii_bytes [''challenge-platform'', ''cf-chl'', ''cf_chl'', ''captcha-delivery.com'', ''px-captcha'',
     ''_incapsula_resource'', ''kpsdk'', ''awswaf'', ''sgcaptcha'', ''sucuri_cloudproxy'',
     ''verify you are human'', ''checking your browser'', ''checking if the site connection'',
     ''just a moment'', ''are you a robot'', ''complete the security check'']"

definition CHALLENGE_HEAD_BYTES :: nat where "CHALLENGE_HEAD_BYTES = 16384"
definition CHALLENGE_HEAD_DEADLINE :: int where "CHALLENGE_HEAD_DEADLINE = 5 * MICROS"

text \<open>The head of an error page, until the cap or the deadline; an error while reading is no marker.\<close>

fun read_head :: "bytes \<Rightarrow> arrival list \<Rightarrow> bytes option" where
  "read_head head [] = Some head"
| "read_head head (ReadError e # es) = None"
| "read_head head (Chunk t c # es) =
     (let head' = head @ c in
      if length head' \<ge> CHALLENGE_HEAD_BYTES \<or> t > CHALLENGE_HEAD_DEADLINE then Some head' else read_head head' es)"

definition byte_lower :: "8 word \<Rightarrow> 8 word" where
  "byte_lower b = (if 0x41 \<le> b \<and> b \<le> 0x5A then b + 32 else b)"

definition is_challenge :: "response \<Rightarrow> bool" where
  "is_challenge rs =
     (if challenge_header rs then True
      else if \<not> contains (response_media rs) ''html'' then False
      else case read_head [] (rs_body rs) of
          None \<Rightarrow> False
        | Some head \<Rightarrow> list_ex (contains (map byte_lower (take CHALLENGE_HEAD_BYTES head))) CHALLENGE_BODY_MARKERS)"

text \<open>
  The capped read. The check of the head, when there is one, sees the first bytes as soon as enough have arrived, and
  once.
\<close>

fun read_capped :: "nat \<Rightarrow> int option \<Rightarrow> (bytes \<Rightarrow> unit fetched) option \<Rightarrow> bytes \<Rightarrow> arrival list \<Rightarrow> bytes fetched" where
  "read_capped cap deadline check acc [] =
     (case check of None \<Rightarrow> Inr acc | Some f \<Rightarrow> fbind (f (take BINARY_HEAD acc)) (\<lambda>_. Inr acc))"
| "read_capped cap deadline check acc (ReadError e # es) = refuse_fetch (''fetch failed while reading: '' @ e)"
| "read_capped cap deadline check acc (Chunk t c # es) =
     (if (case deadline of None \<Rightarrow> False | Some d \<Rightarrow> t > d) then refuse_fetch ''host too slow''
      else let acc' = acc @ c in
        if length acc' > cap then refuse_fetch ''response too large''
        else (case check of
            None \<Rightarrow> read_capped cap deadline None acc' es
          | Some f \<Rightarrow> if length acc' \<ge> BINARY_HEAD
              then fbind (f (take BINARY_HEAD acc')) (\<lambda>_. read_capped cap deadline None acc' es)
              else read_capped cap deadline check acc' es))"

definition binary_refusal :: "string \<Rightarrow> string \<Rightarrow> string \<Rightarrow> bytes \<Rightarrow> unit fetched" where
  "binary_refusal media ctype kind head =
     (if looks_binary head ctype
      then refuse_kind (''the body is a file, not text ('' @ (if media = [] then ''unlabelled'' else media) @ '')'') kind media
      else Inr ())"

section \<open>The guarded request\<close>

record fetch_req =
  fr_types :: "string list"
  fr_cap :: nat
  fr_deadline :: "int option"
  fr_zip :: bool
  fr_post :: bool
  fr_content :: "bytes option"
  fr_headers :: "(string \<times> string) list"
  fr_redirects :: bool
  fr_binary :: "string option"

text \<open>What goes out: the address dialled is in the URL, the name in the \<open>Host\<close> header and the TLS handshake.\<close>

record dial =
  di_url :: string
  di_name :: string
  di_post :: bool
  di_content :: "bytes option"
  di_headers :: "(string \<times> string) list"

text \<open>
  The resolver's answer: the distinct addresses, each as text and as a number, in the order the set of them is walked; the
  operating system's error; or another exception. It may change from one hop to the next.
\<close>

datatype resolved = Addresses "(string \<times> ip) list" | Unresolved string | Resolve_Raises pyerr

record net_env =
  ne_resolve :: "nat \<Rightarrow> string \<Rightarrow> resolved"
  ne_send :: "nat \<Rightarrow> dial \<Rightarrow> string + response"
  ne_port_ok :: "(nat option \<Rightarrow> string \<Rightarrow> bool) option"
  ne_bracket_ok :: "string \<Rightarrow> bool"

definition validated_ip :: "resolved \<Rightarrow> string fetched" where
  "validated_ip r =
     (case r of
        Unresolved m \<Rightarrow> refuse_fetch (''cannot resolve host: '' @ m)
      | Resolve_Raises e \<Rightarrow> Inl (Raised e)
      | Addresses as \<Rightarrow>
          if as = [] then Inl (Raised (Assertion ''no addresses resolved''))
          else (case List.find (\<lambda>(_, a). is_unsafe a) as of
              Some (raw, _) \<Rightarrow> refuse_fetch (''blocked non-global address: '' @ raw)
            | None \<Rightarrow> Inr (fst (hd as))))"

definition pin_netloc :: "nat option \<Rightarrow> string \<Rightarrow> string" where
  "pin_netloc port raw =
     (let n = (if CHR '':'' \<in> set raw then ''['' @ raw @ '']'' else raw) in
      case port of None \<Rightarrow> n | Some p \<Rightarrow> n @ '':'' @ str_nat p)"

definition pin_url :: "url_parts \<Rightarrow> nat option \<Rightarrow> string \<Rightarrow> string" where
  "pin_url u port raw = urlunparse (u\<lparr>up_netloc := pin_netloc port raw\<rparr>)"

definition send_pinned :: "fetch_req \<Rightarrow> url_parts \<Rightarrow> nat option \<Rightarrow> string \<Rightarrow> string \<Rightarrow> dial" where
  "send_pinned rq u port host raw =
     \<lparr>di_url = pin_url u port raw, di_name = host, di_post = fr_post rq, di_content = fr_content rq,
      di_headers = fold (\<lambda>(k, v) d. dict_set d k v) (fr_headers rq)
        [(''Host'', case port of None \<Rightarrow> host | Some p \<Rightarrow> host @ '':'' @ str_nat p)]\<rparr>"

text \<open>The checks of a URL before anything is resolved.\<close>

definition check_url :: "(string \<Rightarrow> bool) \<Rightarrow> string \<Rightarrow> (url_parts \<times> string \<times> nat option) fetched" where
  "check_url bracket_ok url =
     (case urlparse bracket_ok [] url of
        Inl e \<Rightarrow> Inl (Raised e)
      | Inr u \<Rightarrow>
          if up_scheme u \<notin> set SCHEMES then refuse_fetch ''scheme not allowed''
          else if has_userinfo (up_netloc u) then refuse_fetch ''userinfo in URL not allowed''
          else (case url_hostname (up_netloc u) of
              None \<Rightarrow> refuse_fetch ''no host in URL''
            | Some host \<Rightarrow> (case url_port (up_netloc u) of
                  Inl _ \<Rightarrow> refuse_fetch ''invalid port in URL'' | Inr port \<Rightarrow> Inr (u, host, port))))"

definition hop :: "net_env \<Rightarrow> nat \<Rightarrow> fetch_req \<Rightarrow> string \<Rightarrow> dial fetched" where
  "hop E k rq current =
     fbind (check_url (ne_bracket_ok E) current) (\<lambda>(u, host, port).
       if (case ne_port_ok E of None \<Rightarrow> False | Some ok \<Rightarrow> \<not> ok port host) then refuse_kind ''port not allowed'' ''port_refused'' []
       else fbind (validated_ip (ne_resolve E k host)) (\<lambda>raw. Inr (send_pinned rq u port host raw)))"

record page =
  pg_url :: string
  pg_status :: int
  pg_type :: string
  pg_content :: bytes

datatype after_hop = Follow string | Arrived page

definition type_allowed :: "string list \<Rightarrow> string \<Rightarrow> bool" where
  "type_allowed types media = (list_ex (startswith media) types \<or> (''application/json'' \<in> set types \<and> is_json_type media))"

definition receive :: "net_env \<Rightarrow> fetch_req \<Rightarrow> string \<Rightarrow> response \<Rightarrow> after_hop fetched" where
  "receive E rq current rs =
     (if rs_redirect rs \<and> fr_post rq then refuse_fetch ''redirect on POST not allowed''
      else if rs_redirect rs \<and> \<not> fr_redirects rq then refuse_fetch ''redirect refused''
      else if rs_redirect rs then
        (if header_text rs ''location'' = [] then refuse_fetch ''redirect without location''
         else case urljoin (ne_bracket_ok E) current (header_text rs ''location'') of Inl e \<Rightarrow> Inl (Raised e) | Inr next_url \<Rightarrow> Inr (Follow next_url))
      else if rs_status rs > 599 then Inl (Raised (Assertion ''status must be an HTTP code''))
      else if rs_status rs \<ge> 400 then
        Inl (Fetch \<lparr>fe_message = ''upstream returned HTTP '' @ str_int (rs_status rs), fe_status = Some (rs_status rs),
          fe_kind = (if is_challenge rs then Some ''challenge'' else None), fe_type = response_media rs,
          fe_retry = (case rs_header rs ''retry-after'' of Some v \<Rightarrow> if v = [] then None else Some (take 64 v) | None \<Rightarrow> None)\<rparr>)
      else if challenge_header rs then refuse_kind ''upstream answered with a bot challenge'' ''challenge'' []
      else let ctype = header_text rs ''content-type''; media = response_media rs; ct_ok = type_allowed (fr_types rq) media;
               bad_type = ''content-type not allowed: '' @ (if ctype = [] then ''unknown'' else ctype) in
        if \<not> ct_ok \<and> \<not> fr_zip rq then refuse_kind bad_type ''not_json'' media
        else fbind (read_capped (fr_cap rq) (fr_deadline rq) (map_option (binary_refusal media ctype) (fr_binary rq)) [] (rs_body rs))
          (\<lambda>content. if \<not> ct_ok \<and> \<not> startswith content ZIP_MAGIC then refuse_fetch bad_type
             else Inr (Arrived \<lparr>pg_url = current, pg_status = rs_status rs, pg_type = ctype, pg_content = content\<rparr>)))"

text \<open>The bounded loop over hops; the dials made are part of the result.\<close>

fun guarded_hops :: "net_env \<Rightarrow> fetch_req \<Rightarrow> nat \<Rightarrow> nat \<Rightarrow> string \<Rightarrow> dial list \<times> page fetched" where
  "guarded_hops E rq 0 k current = ([], refuse_fetch ''too many redirects'')"
| "guarded_hops E rq (Suc n) k current =
     (case hop E k rq current of
        Inl e \<Rightarrow> ([], Inl e)
      | Inr d \<Rightarrow> (case ne_send E k d of
            Inl err_class \<Rightarrow> ([d], refuse_fetch (''could not connect: '' @ err_class))
          | Inr rs \<Rightarrow> (case receive E rq current rs of
                Inl e \<Rightarrow> ([d], Inl e)
              | Inr (Arrived p) \<Rightarrow> ([d], Inr p)
              | Inr (Follow next_url) \<Rightarrow> (case guarded_hops E rq n (Suc k) next_url of (ds, r) \<Rightarrow> (d # ds, r)))))"

definition guarded_get_once :: "net_env \<Rightarrow> fetch_req \<Rightarrow> string \<Rightarrow> dial list \<times> page fetched" where
  "guarded_get_once E rq url =
     (if url = [] then ([], Inl (Raised (Assertion ''url required'')))
      else if fr_types rq = [] \<or> fr_cap rq = 0 then ([], Inl (Raised (Assertion ''allowed content-types + positive cap required'')))
      else guarded_hops E rq (MAX_REDIRECTS + 1) 0 url)"

section \<open>The fetchers\<close>

definition plain_req :: "string list \<Rightarrow> nat \<Rightarrow> fetch_req" where
  "plain_req types cap = \<lparr>fr_types = types, fr_cap = cap, fr_deadline = None, fr_zip = False, fr_post = False, fr_content = None,
     fr_headers = [], fr_redirects = True, fr_binary = None\<rparr>"

definition safe_fetch_req :: fetch_req where "safe_fetch_req = plain_req ALLOWED_CT MAX_FETCH_BYTES"
definition safe_fetch_feed_req :: fetch_req where "safe_fetch_feed_req = plain_req [''application/'', ''text/''] MAX_FETCH_BYTES"
definition safe_fetch_bytes_req :: fetch_req where "safe_fetch_bytes_req = plain_req INGEST_CT INGEST_MAX_BYTES"

definition JSON_ACCEPT :: string where "JSON_ACCEPT = ''application/json, text/plain;q=0.5, */*;q=0.1''"

definition json_headers :: "(string \<times> string) list \<Rightarrow> (string \<times> string) list" where
  "json_headers hs = (if list_ex (\<lambda>(k, _). py_lower k = ''accept'') hs then hs else dict_set hs ''Accept'' JSON_ACCEPT)"

definition safe_fetch_json_req :: "(string \<times> string) list \<Rightarrow> bool \<Rightarrow> fetch_req" where
  "safe_fetch_json_req hs redirects =
     (plain_req [''application/json'', ''text/''] MAX_FETCH_BYTES)\<lparr>fr_headers := json_headers hs, fr_redirects := redirects\<rparr>"

definition safe_post_json_req :: "bytes \<Rightarrow> (string \<times> string) list \<Rightarrow> fetch_req" where
  "safe_post_json_req body hs =
     (plain_req [''application/json'', ''text/''] MAX_FETCH_BYTES)\<lparr>fr_post := True, fr_content := Some body,
       fr_headers := json_headers (fold (\<lambda>(k, v) d. dict_set d k v) hs [(''Content-Type'', ''application/json'')])\<rparr>"

definition safe_fetch_page_req :: "(string \<times> string) list \<Rightarrow> bool \<Rightarrow> int option \<Rightarrow> fetch_req" where
  "safe_fetch_page_req hs redirects deadline =
     (plain_req [''text/html'', ''application/xhtml+xml'', ''text/''] MAX_FETCH_BYTES)
       \<lparr>fr_headers := hs, fr_redirects := redirects, fr_deadline := deadline\<rparr>"

definition safe_fetch_image_req :: "(string \<times> string) list \<Rightarrow> bool \<Rightarrow> int option \<Rightarrow> fetch_req" where
  "safe_fetch_image_req hs redirects deadline =
     (plain_req [''image/'', ''application/octet-stream''] IMAGE_MAX_BYTES)
       \<lparr>fr_headers := hs, fr_redirects := redirects, fr_deadline := deadline\<rparr>"

definition FORMATS :: "(string \<times> string list \<times> string) list" where
  "FORMATS =
     [(''csv'', [''text/csv'', ''application/csv'', ''text/plain'', ''application/octet-stream'', ''text/''], ''not_csv''),
      (''feed'', [''application/'', ''text/''], ''not_feed''), (''xml'', [''application/'', ''text/''], ''not_xml''),
      (''text'', [''text/''], ''not_text''), (''sniff'', [''application/'', ''text/''], ''not_text'')]"

definition format_error_kind :: "string \<Rightarrow> string result" where
  "format_error_kind fmt = (case map_of FORMATS fmt of
     None \<Rightarrow> Inl (Assertion ''fmt must be a supported textual format'') | Some (_, kind) \<Rightarrow> Inr kind)"

definition safe_fetch_text_req :: "string \<Rightarrow> (string \<times> string) list \<Rightarrow> bool \<Rightarrow> fetch_req result" where
  "safe_fetch_text_req fmt hs redirects = (case map_of FORMATS fmt of
     None \<Rightarrow> Inl (Assertion ''fmt must be a supported textual format'')
   | Some (types, kind) \<Rightarrow> Inr ((plain_req types MAX_FETCH_BYTES)\<lparr>fr_headers := hs, fr_redirects := redirects, fr_binary := Some kind\<rparr>))"

definition strip_fragment :: "(string \<Rightarrow> bool) \<Rightarrow> string \<Rightarrow> string result" where
  "strip_fragment bracket_ok url = (if url = [] then Inl (Assertion ''url required'') else urldefrag bracket_ok url)"

text \<open>A fetch of a shared vault or of one of its parts: the fragment, which holds a sealed share's key, goes first.\<close>

definition stripped_get :: "net_env \<Rightarrow> fetch_req \<Rightarrow> string \<Rightarrow> dial list \<times> bytes fetched" where
  "stripped_get E rq url =
     (case strip_fragment (ne_bracket_ok E) url of
        Inl e \<Rightarrow> ([], Inl (Raised e))
      | Inr v \<Rightarrow> (case guarded_get_once E rq v of (ds, r) \<Rightarrow> (ds, fbind r (\<lambda>p. Inr (pg_content p)))))"

definition vault_req :: "nat \<Rightarrow> fetch_req" where
  "vault_req cap = (plain_req VAULT_CT cap)\<lparr>fr_deadline := Some VAULT_FETCH_DEADLINE, fr_zip := True\<rparr>"

definition manifest_req :: "nat \<Rightarrow> fetch_req" where
  "manifest_req cap = (plain_req MANIFEST_CT cap)\<lparr>fr_deadline := Some VAULT_FETCH_DEADLINE\<rparr>"

definition library_pack_req :: "nat \<Rightarrow> fetch_req" where
  "library_pack_req cap = (plain_req LIBRARY_PACK_CT cap)\<lparr>fr_deadline := Some VAULT_FETCH_DEADLINE\<rparr>"

text \<open>The checks alone; a name that does not resolve passes, to fail when it is fetched.\<close>

definition validate_public_url :: "net_env \<Rightarrow> string \<Rightarrow> unit fetched" where
  "validate_public_url E url =
     (if url = [] then Inl (Raised (Assertion ''url required''))
      else case strip_fragment (ne_bracket_ok E) url of
          Inl e \<Rightarrow> Inl (Raised e)
        | Inr v \<Rightarrow> fbind (check_url (ne_bracket_ok E) v) (\<lambda>(u, host, port).
            case validated_ip (ne_resolve E 0 host) of
              Inl (Fetch e) \<Rightarrow> if startswith (fe_message e) ''cannot resolve host'' then Inr () else Inl (Fetch e)
            | Inl (Raised e) \<Rightarrow> Inl (Raised e)
            | Inr _ \<Rightarrow> Inr ()))"

section \<open>Every connection goes to a checked address\<close>

definition answers_public :: "resolved \<Rightarrow> bool" where
  "answers_public r = (case r of Addresses as \<Rightarrow> as \<noteq> [] \<and> list_all (\<lambda>(_, a). \<not> is_unsafe a) as | _ \<Rightarrow> False)"

definition first_answer :: "resolved \<Rightarrow> string" where
  "first_answer r = (case r of Addresses ((raw, _) # _) \<Rightarrow> raw | _ \<Rightarrow> [])"

text \<open>A URL whose scheme is HTTP's and whose authority is one address and an optional port.\<close>

definition pinned_to :: "string \<Rightarrow> string \<Rightarrow> bool" where
  "pinned_to url raw \<longleftrightarrow> (\<exists>scheme port rest. scheme \<in> set SCHEMES \<and> url = scheme @ ''://'' @ pin_netloc port raw @ rest \<and>
     (rest = [] \<or> netloc_end (hd rest)))"

lemma find_None_all: "List.find p xs = None \<longleftrightarrow> list_all (\<lambda>x. \<not> p x) xs"
  by (induction xs) auto

lemma validated_ip_Inr: "validated_ip r = Inr raw \<Longrightarrow> answers_public r \<and> raw = first_answer r"
  by (cases r) (auto simp: validated_ip_def answers_public_def first_answer_def refuse_fetch_def find_None_all split_def
      split: option.splits if_splits list.splits)

lemma hd_append_cases: "hd (xs @ ys) = (if xs = [] then hd ys else hd xs)"
  by simp

lemma pin_url_pinned:
  assumes "up_scheme u \<in> set SCHEMES"
  shows "pinned_to (pin_url u port raw) raw"
proof -
  let ?p0 = "if up_params u = [] then up_path u else up_path u @ '';'' @ up_params u"
  let ?p = "if ?p0 \<noteq> [] \<and> hd ?p0 \<noteq> CHR ''/'' then CHR ''/'' # ?p0 else ?p0"
  let ?q = "if up_query u = [] then [] else ''?'' @ up_query u" and ?f = "if up_fragment u = [] then [] else ''#'' @ up_fragment u"
  have s: "up_scheme u \<noteq> []" "up_scheme u \<in> set USES_NETLOC" using assms by (auto simp: SCHEMES_def USES_NETLOC_def)
  have e: "pin_url u port raw = up_scheme u @ ''://'' @ pin_netloc port raw @ ?p @ ?q @ ?f"
    using s by (simp add: pin_url_def urlunparse_def Let_def)
  have "?p @ ?q @ ?f = [] \<or> netloc_end (hd (?p @ ?q @ ?f))"
    by (auto simp: netloc_end_def hd_append_cases)
  then show ?thesis unfolding pinned_to_def using e assms by blast
qed

lemma check_url_Inr: "check_url b url = Inr (u, host, port) \<Longrightarrow> up_scheme u \<in> set SCHEMES \<and> \<not> has_userinfo (up_netloc u) \<and>
    urlparse b [] url = Inr u \<and> url_hostname (up_netloc u) = Some host"
  by (auto simp: check_url_def refuse_fetch_def split: sum.splits if_splits option.splits)

definition dial_ok :: "net_env \<Rightarrow> nat \<Rightarrow> dial \<Rightarrow> bool" where
  "dial_ok E k d \<longleftrightarrow> answers_public (ne_resolve E k (di_name d)) \<and> pinned_to (di_url d) (first_answer (ne_resolve E k (di_name d)))"

lemma hop_ok: "hop E k rq current = Inr d \<Longrightarrow> dial_ok E k d \<and> di_post d = fr_post rq"
  using pin_url_pinned
  by (auto simp: hop_def fbind_def dial_ok_def send_pinned_def refuse_kind_def split: sum.splits if_splits option.splits prod.splits
      dest!: validated_ip_Inr check_url_Inr)

lemma guarded_hops_ok:
  "guarded_hops E rq n k current = (ds, r) \<Longrightarrow> length ds \<le> n \<and> (\<forall>i < length ds. dial_ok E (k + i) (ds ! i))"
proof (induction E rq n k current arbitrary: ds r rule: guarded_hops.induct)
  case (2 E rq n k current)
  show ?case
  proof (cases "hop E k rq current")
    case (Inr d)
    note d = hop_ok [OF this]
    show ?thesis
    proof (cases "\<exists>rs nxt. ne_send E k d = Inr rs \<and> receive E rq current rs = Inr (Follow nxt)")
      case True
      then obtain rs nxt where f: "ne_send E k d = Inr rs" "receive E rq current rs = Inr (Follow nxt)" by blast
      obtain ds' r' where rest: "guarded_hops E rq n (Suc k) nxt = (ds', r')" by (cases "guarded_hops E rq n (Suc k) nxt")
      have "length ds' \<le> n \<and> (\<forall>i < length ds'. dial_ok E (Suc k + i) (ds' ! i))"
        using "2.IH" [OF Inr f] rest by simp
      then show ?thesis using "2.prems" Inr f rest d by (auto simp: nth_Cons split: nat.splits)
    next
      case False
      then have "ds = [d]" using "2.prems" Inr by (auto split: sum.splits after_hop.splits)
      then show ?thesis using d by simp
    qed
  qed (use "2.prems" in simp)
qed simp

text \<open>
  C31: However the resolver answers from one moment to the next and whatever the servers reply, the guarded fetch makes
  at most four connections, and each one is to an address that was resolved for the name on that very hop, when every address of
  the answer was globally reachable: the URL dialled has that address as its authority.
\<close>

theorem fetch_dials_checked_addresses:
  assumes "guarded_get_once E rq url = (ds, r)"
  shows "length ds \<le> 4 \<and> (\<forall>i < length ds. answers_public (ne_resolve E i (di_name (ds ! i))) \<and>
    pinned_to (di_url (ds ! i)) (first_answer (ne_resolve E i (di_name (ds ! i)))))"
proof (cases "url = [] \<or> fr_types rq = [] \<or> fr_cap rq = 0")
  case True
  then have "ds = []" using assms by (auto simp: guarded_get_once_def split: if_splits)
  then show ?thesis by simp
next
  case False
  then show ?thesis
    using guarded_hops_ok [of E rq 4 0 url ds r] assms by (auto simp: guarded_get_once_def MAX_REDIRECTS_def dial_ok_def)
qed

lemma guarded_get_hops:
  "guarded_get_once E rq url = (ds, r) \<Longrightarrow> ds = [] \<and> (\<forall>p. r \<noteq> Inr p) \<or> guarded_hops E rq 4 0 url = (ds, r)"
  by (auto simp: guarded_get_once_def MAX_REDIRECTS_def simp del: guarded_hops.simps split: if_splits)

text \<open>
  A fetch that refuses redirects (the callers' rule for a request with a credential) and a POST make at most one
  connection, to the host of the URL they were given: the body and the headers are seen by no other server.
\<close>

theorem credentials_stay_on_one_host:
  assumes "guarded_get_once E rq url = (ds, r)" and "fr_post rq \<or> \<not> fr_redirects rq"
  shows "ds = [] \<or> (\<exists>d u. ds = [d] \<and> urlparse (ne_bracket_ok E) [] url = Inr u \<and> url_hostname (up_netloc u) = Some (di_name d))"
proof -
  have stop: "receive E rq c rs \<noteq> Inr (Follow nxt)" for c rs nxt
    using assms(2) by (auto simp: receive_def Let_def fbind_def refuse_fetch_def refuse_kind_def split: sum.splits if_splits)
  have one: "guarded_hops E rq n k url = (ds, r) \<Longrightarrow> ds = [] \<or> (\<exists>d. ds = [d] \<and> hop E k rq url = Inr d)" for n k
    using stop by (cases n) (auto split: sum.splits after_hop.splits)
  have "hop E k rq url = Inr d \<Longrightarrow> \<exists>u. urlparse (ne_bracket_ok E) [] url = Inr u \<and> url_hostname (up_netloc u) = Some (di_name d)" for k d
    by (auto simp: hop_def fbind_def send_pinned_def refuse_kind_def dest!: check_url_Inr split: sum.splits if_splits prod.splits)
  note to_host = this
  show ?thesis
  proof (cases "ds = []")
    case False
    then obtain d where "ds = [d]" "hop E 0 rq url = Inr d" using guarded_get_hops [OF assms(1)] one by blast
    then show ?thesis using to_host by blast
  qed simp
qed

text \<open>What the capped read returns, with the check it was given.\<close>

lemma read_capped_bounded:
  "read_capped cap deadline check acc es = Inr body \<Longrightarrow> length acc \<le> cap \<Longrightarrow> length body \<le> cap"
  by (induction cap deadline check acc es rule: read_capped.induct)
    (auto simp: refuse_fetch_def fbind_def Let_def split: option.splits if_splits sum.splits)

lemma read_capped_extends: "read_capped cap deadline check acc es = Inr body \<Longrightarrow> \<exists>more. body = acc @ more"
  by (induction cap deadline check acc es rule: read_capped.induct)
    (fastforce simp: refuse_fetch_def fbind_def Let_def split: option.splits if_splits sum.splits)+

lemma read_capped_checked:
  "read_capped cap deadline (Some f) acc es = Inr body \<Longrightarrow> f (take BINARY_HEAD body) = Inr ()"
proof (induction es arbitrary: acc)
  case (Cons e es)
  then show ?case
  proof (cases e)
    case (Chunk t c)
    show ?thesis
    proof (cases "length (acc @ c) \<ge> BINARY_HEAD")
      case True
      then have ok: "f (take BINARY_HEAD (acc @ c)) = Inr ()" and rest: "read_capped cap deadline None (acc @ c) es = Inr body"
        using Cons.prems Chunk by (auto simp: refuse_fetch_def fbind_def Let_def split: option.splits if_splits sum.splits)
      obtain more where "body = (acc @ c) @ more" using read_capped_extends [OF rest] by blast
      then show ?thesis using ok True by simp
    next
      case False
      then show ?thesis using Cons.prems Chunk Cons.IH [of "acc @ c"]
        by (auto simp: refuse_fetch_def Let_def split: option.splits if_splits)
    qed
  qed (simp add: refuse_fetch_def)
qed (auto simp: fbind_def split: sum.splits)

text \<open>What arrives is what the request allows.\<close>

definition page_ok :: "fetch_req \<Rightarrow> page \<Rightarrow> bool" where
  "page_ok rq p \<longleftrightarrow> length (pg_content p) \<le> fr_cap rq \<and> pg_status p < 400 \<and>
     (type_allowed (fr_types rq) (media_type (pg_type p)) \<or> fr_zip rq \<and> startswith (pg_content p) ZIP_MAGIC) \<and>
     (fr_binary rq \<noteq> None \<longrightarrow> \<not> looks_binary (take BINARY_HEAD (pg_content p)) (pg_type p))"

lemma receive_page:
  assumes "receive E rq c rs = Inr (Arrived p)"
  shows "page_ok rq p"
proof -
  let ?ct = "header_text rs ''content-type''"
  let ?ok = "type_allowed (fr_types rq) (media_type ?ct)"
  let ?check = "map_option (binary_refusal (media_type ?ct) ?ct) (fr_binary rq)"
  have n: "\<not> rs_redirect rs" "rs_status rs < 400"
    using assms by (auto simp: receive_def Let_def refuse_fetch_def refuse_kind_def split: sum.splits if_splits)
  then obtain body where b: "read_capped (fr_cap rq) (fr_deadline rq) ?check [] (rs_body rs) = Inr body"
    and t: "?ok \<or> fr_zip rq \<and> startswith body ZIP_MAGIC"
    and p: "p = \<lparr>pg_url = c, pg_status = rs_status rs, pg_type = ?ct, pg_content = body\<rparr>"
    using assms unfolding receive_def
    by (auto simp: Let_def fbind_def refuse_fetch_def refuse_kind_def response_media_def split: sum.splits if_splits)
  have "\<not> looks_binary (take BINARY_HEAD body) ?ct" if "fr_binary rq = Some kind" for kind
    using read_capped_checked b that by (fastforce simp: binary_refusal_def refuse_kind_def split: if_splits)
  then show ?thesis using n t p read_capped_bounded [OF b] by (auto simp: page_ok_def)
qed

lemma guarded_hops_page: "guarded_hops E rq n k c = (ds, Inr p) \<Longrightarrow> page_ok rq p"
proof (induction E rq n k c arbitrary: ds rule: guarded_hops.induct)
  case (2 E rq n k current)
  obtain d where d: "hop E k rq current = Inr d" using "2.prems" by (cases "hop E k rq current") auto
  obtain rs where s: "ne_send E k d = Inr rs" using "2.prems" d by (cases "ne_send E k d") (auto simp: refuse_fetch_def)
  show ?case
  proof (cases "receive E rq current rs")
    case (Inr a)
    then show ?thesis using "2.prems" d s "2.IH" [OF d s Inr] by (cases a) (auto dest: receive_page split: prod.splits)
  qed (use "2.prems" d s in simp)
qed (simp add: refuse_fetch_def)

text \<open>
  A body that the guarded fetch returns is within the cap, from an answer that is no error, of a type on the
  allow-list (or, for a vault, a ZIP archive whatever its label), and, where a textual format was asked for, its head is
  not a file's.
\<close>

theorem fetched_body_is_allowed:
  assumes "guarded_get_once E rq url = (ds, Inr p)"
  shows "length (pg_content p) \<le> fr_cap rq \<and> pg_status p < 400 \<and>
    (type_allowed (fr_types rq) (media_type (pg_type p)) \<or> fr_zip rq \<and> startswith (pg_content p) ZIP_MAGIC) \<and>
    (fr_binary rq = None \<or> \<not> looks_binary (take BINARY_HEAD (pg_content p)) (pg_type p))"
  using guarded_hops_page [of E rq 4 0 url ds p] guarded_get_hops [OF assms] by (auto simp: page_ok_def)

section \<open>A shared vault's key is not sent\<close>

lemma urlparse_no_fragment:
  assumes "urlparse bracket_ok dflt url = Inr u" and "CHR ''#'' \<notin> set url"
  shows "up_fragment u = []"
proof -
  obtain n r where nr: "split_netloc (drop_scheme (url_clean url)) = (n, r)" by (cases "split_netloc (drop_scheme (url_clean url))")
  have "set (url_clean url) \<subseteq> set url" by (auto simp: url_clean_def dest: set_dropWhileD)
  then have "CHR ''#'' \<notin> set (drop_scheme (url_clean url))"
    using assms(2) after_subset [of "CHR '':''" "url_clean url"] by (auto simp: drop_scheme_def)
  then have "CHR ''#'' \<notin> set r"
    using nr by (auto simp: split_netloc_def dest!: set_dropWhileD in_set_dropD split: if_splits)
  then have "dropWhile (\<lambda>c. c \<noteq> CHR ''#'') r = []" by (induction r) auto
  then have "after (CHR ''#'') r = []" unfolding after_def by (simp only: list.sel)
  then show ?thesis using assms(1) nr
    by (auto simp: urlparse_def Let_def rbind_def cut_at_def split: sum.splits prod.splits)
qed

lemma str_nat_no_hash: "CHR ''#'' \<notin> set (str_nat n)"
  using str_nat_digits [of n] by (auto simp: list_all_iff ascii_digit_def ord_def)

lemma pin_url_no_hash:
  assumes "urlparse b [] url = Inr u" and "CHR ''#'' \<notin> set url \<union> set raw"
  shows "CHR ''#'' \<notin> set (pin_url u port raw)"
proof -
  have "CHR ''#'' \<notin> set (pin_netloc port raw)"
    using assms(2) str_nat_no_hash by (auto simp: pin_netloc_def Let_def split: option.splits)
  then show ?thesis using urlparse_no_hash [OF assms(1)] urlparse_no_fragment [OF assms(1)] assms(2)
    by (auto simp: pin_url_def urlunparse_def Let_def)
qed

text \<open>
  The key of a sealed share, which travels in the fragment of the vault's URL, is not sent: the first URL that a
  fetch of a vault or one of its parts dials has no fragment, whatever the text it was given, when the resolver's
  addresses have no hash sign in them.
\<close>

theorem vault_key_stays_home:
  assumes "stripped_get E rq url = (d # ds, r)" and "CHR ''#'' \<notin> set (first_answer (ne_resolve E 0 (di_name d)))"
  shows "CHR ''#'' \<notin> set (di_url d)"
proof -
  obtain v r' where v: "strip_fragment (ne_bracket_ok E) url = Inr v" and g: "guarded_get_once E rq v = (d # ds, r')"
    using assms(1) by (auto simp: stripped_get_def split: sum.splits prod.splits)
  have nh: "CHR ''#'' \<notin> set v" using v urldefrag_no_hash by (auto simp: strip_fragment_def split: if_splits)
  have "hop E 0 rq v = Inr d"
    using guarded_get_hops [OF g] by (auto simp: eval_nat_numeral split: sum.splits after_hop.splits prod.splits)
  then obtain u host port raw where "urlparse (ne_bracket_ok E) [] v = Inr u" "d = send_pinned rq u port host raw"
      "validated_ip (ne_resolve E 0 host) = Inr raw"
    by (auto simp: hop_def fbind_def refuse_kind_def dest!: check_url_Inr split: sum.splits if_splits prod.splits)
  then show ?thesis using pin_url_no_hash nh assms(2) validated_ip_Inr by (auto simp: send_pinned_def)
qed

text \<open>
  The checks alone accept a URL only when every address its name resolves to, at that moment, is globally
  reachable, or the name does not resolve.
\<close>

theorem accepted_url_is_public:
  assumes "validate_public_url E url = Inr ()"
  shows "\<exists>v u host port. strip_fragment (ne_bracket_ok E) url = Inr v \<and> check_url (ne_bracket_ok E) v = Inr (u, host, port) \<and>
    (answers_public (ne_resolve E 0 host) \<or> (\<exists>m. ne_resolve E 0 host = Unresolved m))"
proof -
  obtain v where v: "strip_fragment (ne_bracket_ok E) url = Inr v" using assms
    by (auto simp: validate_public_url_def split: if_splits sum.splits)
  then obtain u host port where c: "check_url (ne_bracket_ok E) v = Inr (u, host, port)" using assms
    by (auto simp: validate_public_url_def fbind_def split: if_splits sum.splits)
  show ?thesis
  proof (cases "validated_ip (ne_resolve E 0 host)")
    case (Inr raw)
    then show ?thesis using v c validated_ip_Inr by blast
  next
    case (Inl e)
    then have "\<exists>m. ne_resolve E 0 host = Unresolved m" using assms v c
      by (cases "ne_resolve E 0 host")
        (auto simp: validate_public_url_def fbind_def validated_ip_def refuse_fetch_def startswith_def
          split: if_splits sum.splits fetch_fail.splits option.splits)
    then show ?thesis using v c by blast
  qed
qed

text \<open>
  A name with an address that is not public is never connected to: the fetch fails with the guard's own error
  before the first connection.
\<close>

theorem unsafe_answer_is_refused:
  assumes "check_url (ne_bracket_ok E) url = Inr (u, host, port)" and "ne_resolve E 0 host = Addresses as"
    and "(raw, a) \<in> set as" and "is_unsafe a" and "ne_port_ok E = None" and "url \<noteq> []" and "fr_types rq \<noteq> []" and "0 < fr_cap rq"
  shows "\<exists>bad. guarded_get_once E rq url = ([], refuse_fetch (''blocked non-global address: '' @ bad))"
proof -
  have "List.find (\<lambda>(_, a). is_unsafe a) as \<noteq> None" using assms(3,4) by (auto simp: find_None_iff)
  then obtain bad b where "List.find (\<lambda>(_, a). is_unsafe a) as = Some (bad, b)" by auto
  moreover have "as \<noteq> []" using assms(3) by auto
  ultimately have "validated_ip (ne_resolve E 0 host) = refuse_fetch (''blocked non-global address: '' @ bad)"
    using assms(2) by (simp add: validated_ip_def)
  then have "guarded_get_once E rq url = ([], refuse_fetch (''blocked non-global address: '' @ bad))"
    using assms by (simp add: guarded_get_once_def MAX_REDIRECTS_def hop_def fbind_def refuse_fetch_def eval_nat_numeral)
  then show ?thesis by blast
qed

section \<open>Examples\<close>

text \<open>Two servers and a resolver: the first site redirects to the second, which answers with a short text.\<close>

definition sample_env :: net_env where
  "sample_env = \<lparr>ne_resolve = (\<lambda>k h. Addresses (if k = 0 then [(''1.1.1.1'', V4 0x01010101)] else [(''2.2.2.2'', V4 0x02020202)])),
     ne_send = (\<lambda>k d. Inr (if k = 0
       then \<lparr>rs_status = 302, rs_redirect = True, rs_header = [''location'' \<mapsto> ''http://b.org/x''], rs_body = []\<rparr>
       else \<lparr>rs_status = 200, rs_redirect = False, rs_header = [''content-type'' \<mapsto> ''text/plain''], rs_body = [Chunk 5 [104, 105]]\<rparr>)),
     ne_port_ok = None, ne_bracket_ok = (\<lambda>_. True)\<rparr>"

definition sample_req :: fetch_req where "sample_req = plain_req [''text/''] 100"
definition first_dial :: dial where
  "first_dial = \<lparr>di_url = ''http://1.1.1.1/'', di_name = ''a.com'', di_post = False, di_content = None, di_headers = [(''Host'', ''a.com'')]\<rparr>"
definition second_dial :: dial where
  "second_dial = \<lparr>di_url = ''http://2.2.2.2/x'', di_name = ''b.org'', di_post = False, di_content = None, di_headers = [(''Host'', ''b.org'')]\<rparr>"
definition sample_page :: page where
  "sample_page = \<lparr>pg_url = ''http://b.org/x'', pg_status = 200, pg_type = ''text/plain'', pg_content = [104, 105]\<rparr>"

lemma sample_addresses: "\<not> is_unsafe (V4 0x01010101)" "\<not> is_unsafe (V4 0x02020202)" "is_unsafe (V4 0x7F000001)"
  by (simp_all add: unsafe_v4_spans refused_v4_spans PUBLIC_V4_def in_span_def)

lemma sample_checks:
  "check_url (ne_bracket_ok sample_env) ''http://a.com/'' =
     Inr (\<lparr>up_scheme = ''http'', up_netloc = ''a.com'', up_path = ''/'', up_params = [], up_query = [], up_fragment = []\<rparr>, ''a.com'', None)"
  "check_url (ne_bracket_ok sample_env) ''http://b.org/x'' =
     Inr (\<lparr>up_scheme = ''http'', up_netloc = ''b.org'', up_path = ''/x'', up_params = [], up_query = [], up_fragment = []\<rparr>, ''b.org'', None)"
  by code_simp+

lemma sample_hops:
  "fr_post rq = False \<Longrightarrow> fr_content rq = None \<Longrightarrow> fr_headers rq = [] \<Longrightarrow> hop sample_env 0 rq ''http://a.com/'' = Inr first_dial"
  "fr_post rq = False \<Longrightarrow> fr_content rq = None \<Longrightarrow> fr_headers rq = [] \<Longrightarrow> hop sample_env (Suc 0) rq ''http://b.org/x'' = Inr second_dial"
  using sample_addresses
  by (simp_all add: hop_def sample_checks fbind_def validated_ip_def send_pinned_def first_dial_def second_dial_def pin_url_def pin_netloc_def
      urlunparse_def USES_NETLOC_def startswith_def) (simp_all add: sample_env_def)

lemma sample_answers:
  "receive sample_env sample_req ''http://a.com/''
     \<lparr>rs_status = 302, rs_redirect = True, rs_header = [''location'' \<mapsto> ''http://b.org/x''], rs_body = []\<rparr> = Inr (Follow ''http://b.org/x'')"
  "receive sample_env (sample_req\<lparr>fr_redirects := False\<rparr>) ''http://a.com/''
     \<lparr>rs_status = 302, rs_redirect = True, rs_header = [''location'' \<mapsto> ''http://b.org/x''], rs_body = []\<rparr> = refuse_fetch ''redirect refused''"
  "receive sample_env sample_req ''http://b.org/x''
     \<lparr>rs_status = 200, rs_redirect = False, rs_header = [''content-type'' \<mapsto> ''text/plain''], rs_body = [Chunk 5 [104, 105]]\<rparr> =
     Inr (Arrived sample_page)"
  by code_simp+

lemma sample_sends:
  "ne_send sample_env 0 d = Inr \<lparr>rs_status = 302, rs_redirect = True, rs_header = [''location'' \<mapsto> ''http://b.org/x''], rs_body = []\<rparr>"
  "ne_send sample_env (Suc 0) d = Inr \<lparr>rs_status = 200, rs_redirect = False, rs_header = [''content-type'' \<mapsto> ''text/plain''], rs_body = [Chunk 5 [104, 105]]\<rparr>"
  by (simp_all add: sample_env_def)

lemma sample_req_fields:
  "fr_post sample_req = False" "fr_content sample_req = None" "fr_headers sample_req = []" "fr_types sample_req = [''text/'']" "fr_cap sample_req = 100"
  "fr_binary sample_req = None" "fr_redirects sample_req = True"
  by (simp_all add: sample_req_def plain_req_def)

lemma sample_fetch:
  "guarded_get_once sample_env sample_req ''http://a.com/'' = ([first_dial, second_dial], Inr sample_page)"
  "guarded_get_once sample_env (sample_req\<lparr>fr_redirects := False\<rparr>) ''http://a.com/'' = ([first_dial], refuse_fetch ''redirect refused'')"
  by (simp_all add: guarded_get_once_def MAX_REDIRECTS_def eval_nat_numeral sample_hops sample_sends sample_answers sample_req_fields
      refuse_fetch_def)

text \<open>A bracket without its partner is no refusal of the guard but the parser's own exception.\<close>

lemma unbalanced_bracket_raises:
  "guarded_get_once sample_env sample_req ''http://[a/'' = ([], Inl (Raised (ValueErr ''Invalid IPv6 URL'')))"
proof -
  have "check_url (\<lambda>_. True) ''http://[a/'' = Inl (Raised (ValueErr ''Invalid IPv6 URL''))" by code_simp
  moreover have "ne_bracket_ok sample_env = (\<lambda>_. True)" by (simp add: sample_env_def)
  ultimately have "hop sample_env 0 sample_req ''http://[a/'' = Inl (Raised (ValueErr ''Invalid IPv6 URL''))"
    by (simp add: hop_def fbind_def)
  then show ?thesis by (simp add: guarded_get_once_def MAX_REDIRECTS_def sample_req_fields eval_nat_numeral)
qed

theorem fetch_dials_checked_addresses_witness:
  "answers_public (ne_resolve sample_env 1 (di_name second_dial)) \<and>
   pinned_to (di_url second_dial) (first_answer (ne_resolve sample_env 1 (di_name second_dial)))"
proof -
  have "\<forall>i < length [first_dial, second_dial]. answers_public (ne_resolve sample_env i (di_name ([first_dial, second_dial] ! i))) \<and>
      pinned_to (di_url ([first_dial, second_dial] ! i)) (first_answer (ne_resolve sample_env i (di_name ([first_dial, second_dial] ! i))))"
    using fetch_dials_checked_addresses [OF sample_fetch(1)] by (rule conjunct2)
  from this [rule_format, of 1] show ?thesis by simp
qed

theorem credentials_stay_on_one_host_witness:
  "\<exists>u. urlparse (ne_bracket_ok sample_env) [] ''http://a.com/'' = Inr u \<and> url_hostname (up_netloc u) = Some (di_name first_dial)"
  using credentials_stay_on_one_host [OF sample_fetch(2)] by simp

theorem fetched_body_is_allowed_witness:
  "length (pg_content sample_page) \<le> 100 \<and> type_allowed [''text/''] (media_type (pg_type sample_page))"
proof -
  have "\<not> fr_zip sample_req" by (simp add: sample_req_def plain_req_def)
  then show ?thesis using fetched_body_is_allowed [OF sample_fetch(1)] by (simp add: sample_req_fields)
qed

theorem vault_key_stays_home_witness: "CHR ''#'' \<notin> set (di_url first_dial)"
proof -
  have "strip_fragment (ne_bracket_ok sample_env) ''http://a.com/#key'' = Inr ''http://a.com/''" by code_simp
  then have "stripped_get sample_env sample_req ''http://a.com/#key'' = (first_dial # [second_dial], Inr (pg_content sample_page))"
    by (simp add: stripped_get_def sample_fetch fbind_def)
  moreover have "CHR ''#'' \<notin> set (first_answer (ne_resolve sample_env 0 (di_name first_dial)))"
    by (simp add: sample_env_def first_answer_def)
  ultimately show ?thesis by (rule vault_key_stays_home)
qed

theorem accepted_url_is_public_witness:
  "\<exists>v u host port. strip_fragment (ne_bracket_ok sample_env) ''http://a.com/'' = Inr v \<and>
    check_url (ne_bracket_ok sample_env) v = Inr (u, host, port) \<and>
    (answers_public (ne_resolve sample_env 0 host) \<or> (\<exists>m. ne_resolve sample_env 0 host = Unresolved m))"
proof (rule accepted_url_is_public)
  have "strip_fragment (ne_bracket_ok sample_env) ''http://a.com/'' = Inr ''http://a.com/''" by code_simp
  moreover have "validated_ip (ne_resolve sample_env 0 h) = Inr ''1.1.1.1''" for h
    using sample_addresses by (simp add: sample_env_def validated_ip_def)
  ultimately show "validate_public_url sample_env ''http://a.com/'' = Inr ()"
    by (simp add: validate_public_url_def sample_checks fbind_def)
qed

theorem unsafe_answer_is_refused_witness:
  "\<exists>bad. guarded_get_once (sample_env\<lparr>ne_resolve := \<lambda>k h. Addresses [(''1.1.1.1'', V4 0x01010101), (''127.0.0.1'', V4 0x7F000001)]\<rparr>)
    sample_req ''http://a.com/'' = ([], refuse_fetch (''blocked non-global address: '' @ bad))"
proof (rule unsafe_answer_is_refused)
  show "check_url (ne_bracket_ok (sample_env\<lparr>ne_resolve := \<lambda>k h. Addresses [(''1.1.1.1'', V4 0x01010101), (''127.0.0.1'', V4 0x7F000001)]\<rparr>)) ''http://a.com/'' =
    Inr (\<lparr>up_scheme = ''http'', up_netloc = ''a.com'', up_path = ''/'', up_params = [], up_query = [], up_fragment = []\<rparr>, ''a.com'', None)"
    using sample_checks by simp
  show "(''127.0.0.1'', V4 0x7F000001) \<in> set [(''1.1.1.1'', V4 0x01010101), (''127.0.0.1'', V4 0x7F000001)]" by simp
qed (use sample_addresses in \<open>simp_all add: sample_req_fields\<close>, simp add: sample_env_def)

end
