(* ===== verification/Broker.thy ===== *)
theory Broker
  imports Address_Guard
begin

text \<open>
  The signalling broker (\<open>src/signaling/server.py\<close>), the public rendezvous of Desktops and phones. The state is the
  \<open>Broker\<close> object and, for each open socket, where its \<open>handle\<close> coroutine waits; an event is what wakes one: a new
  connection, a message, the end of a socket or of the wait for a hello. What runs between two waits is one step.
  Ed25519, HMAC, SHA-256 and base64, the random source, and Python's \<open>str\<close> of a value that is no string are
  parameters. Times are whole microseconds.
\<close>

section \<open>Constants\<close>

definition RATE_MAP_MAX_KEYS :: nat where "RATE_MAP_MAX_KEYS = 1024"
definition BINDING_TOUCH_PERSIST :: int where "BINDING_TOUCH_PERSIST = 3600 * MICROS"
definition REGISTER_PREFIX :: bytes where "REGISTER_PREFIX = ascii_bytes ''sb-register-v1''"
definition REGISTER_NONCE_BYTES :: nat where "REGISTER_NONCE_BYTES = 16"
definition PAIR_PREFIX :: string where "PAIR_PREFIX = ''sbpair-''"
definition PUBKEY_BYTES :: nat where "PUBKEY_BYTES = 32"
definition SIG_BYTES :: nat where "SIG_BYTES = 64"
definition PHONE_PREFIX :: string where "PHONE_PREFIX = ''phone:''"

section \<open>Data\<close>

type_synonym sock = nat

datatype network = Net4 "32 word" nat | Net6 "128 word" nat

record broker_config =
  bc_token :: string
  bc_pair_ice :: "jval list"
  bc_max_phones :: nat
  bc_max_phones_per_desktop :: nat
  bc_rate_limit :: nat
  bc_rate_window :: int
  bc_open_mode :: bool
  bc_turn_urls :: "string list"
  bc_turn_secret :: string
  bc_turn_ttl :: int
  bc_max_desktops :: nat
  bc_reg_rate_limit :: nat
  bc_reg_rate_window :: int
  bc_state_file :: bool
  bc_allow_legacy :: bool
  bc_trusted :: "network list"
  bc_max_conns_per_ip :: nat
  bc_ip_hello_limit :: nat
  bc_ip_hello_window :: int
  bc_offer_limit :: nat
  bc_offer_window :: int
  bc_answer_limit :: nat
  bc_answer_window :: int
  bc_binding_ttl :: int

text \<open>What the constructor asserts.\<close>

definition config_ok :: "broker_config \<Rightarrow> bool" where
  "config_ok C = (0 < bc_max_phones C \<and> 0 < bc_max_phones_per_desktop C \<and> 0 < bc_rate_limit C \<and> 0 < bc_rate_window C \<and>
     0 < bc_max_desktops C \<and> 0 < bc_reg_rate_limit C \<and> 0 < bc_reg_rate_window C \<and> 0 < bc_max_conns_per_ip C \<and>
     0 < bc_ip_hello_limit C \<and> 0 < bc_ip_hello_window C \<and> 0 < bc_offer_limit C \<and> 0 < bc_offer_window C \<and>
     0 < bc_answer_limit C \<and> 0 < bc_answer_window C \<and> 0 < bc_binding_ttl C)"

record broker_env =
  be_b64d :: "string \<Rightarrow> bytes option"
  be_b64e :: "bytes \<Rightarrow> string"
  be_verify :: "bytes \<Rightarrow> bytes \<Rightarrow> bytes \<Rightarrow> bool"
  be_hmac_sha1 :: "string \<Rightarrow> string \<Rightarrow> bytes"
  be_sha256_hex :: "string \<Rightarrow> string"
  be_str :: "jval \<Rightarrow> string"
  be_parse_ip :: "string \<Rightarrow> ip option"
  be_nonce :: "nat \<Rightarrow> bytes"
  be_phone_token :: "nat \<Rightarrow> string"

text \<open>The moment of an event: the two clocks, the sockets a send would fail on, and whether the disk takes a write.\<close>

record moment =
  mo_mono :: int
  mo_wall :: int
  mo_dead :: "sock list"
  mo_disk_ok :: bool

record binding =
  bd_pubkey :: string
  bd_seen :: int

type_synonym bindings = "(string \<times> binding) list"

text \<open>Where a connection's coroutine waits.\<close>

datatype phase =
    AwaitHello
  | Proving string string bytes "string option"
  | DesktopUp string "int list"
  | PhoneUp string string "int list"

record conn =
  cn_ip :: string
  cn_phase :: phase

record broker =
  br_desktops :: "(string \<times> sock) list"
  br_phones :: "(string \<times> sock) list"
  br_phone_rooms :: "(string \<times> string) list"
  br_phones_per_desktop :: "(string \<times> nat) list"
  br_phone_connects :: "(string \<times> int list) list"
  br_desktop_regs :: "int list"
  br_bindings :: bindings
  br_disk :: "bindings option"
  br_ip_conns :: "(string \<times> nat) list"
  br_ip_hellos :: "(string \<times> int list) list"
  br_dropped :: nat
  br_conns :: "(sock \<times> conn) list"
  br_accepted :: nat
  br_minted :: nat

datatype out =
    ErrorMsg string
  | Challenge string
  | Registered
  | Ice "jval list"
  | Offer string jval
  | Answer jval

datatype event =
    Connect string "string list"
  | Recv sock "jval option"
  | Gone sock

section \<open>Helpers\<close>

definition dget :: "('k \<times> 'v) list \<Rightarrow> 'k \<Rightarrow> 'v \<Rightarrow> 'v" where
  "dget d k dflt = (case map_of d k of Some v \<Rightarrow> v | None \<Rightarrow> dflt)"

definition recent :: "int \<Rightarrow> int list \<Rightarrow> int list" where
  "recent cutoff ts = filter (\<lambda>t. t > cutoff) ts"

definition is_ascii :: "string \<Rightarrow> bool" where
  "is_ascii s = list_all (\<lambda>c. ord c < 128) s"

text \<open>\<open>hmac.compare_digest\<close> of two strings: a \<open>TypeError\<close> when one is not ASCII.\<close>

definition compare_digest :: "string \<Rightarrow> string \<Rightarrow> bool result" where
  "compare_digest a b = (if is_ascii a \<and> is_ascii b then Inr (a = b) else Inl (OtherErr ''TypeError''))"

text \<open>\<open>str(v or "")\<close>.\<close>

definition str_or_empty :: "broker_env \<Rightarrow> jval \<Rightarrow> string" where
  "str_or_empty E v = (if \<not> truthy v then [] else case v of JStr s \<Rightarrow> s | _ \<Rightarrow> be_str E v)"

definition mint_turn_credentials :: "broker_env \<Rightarrow> int \<Rightarrow> string \<Rightarrow> int \<Rightarrow> string \<Rightarrow> (string \<times> string) result" where
  "mint_turn_credentials E now secret ttl name =
     (if secret = [] then Inl (Assertion ''TURN secret required to mint credentials'')
      else let username = str_int (now div MICROS + ttl) @ '':'' @ name in
        Inr (username, be_b64e E (be_hmac_sha1 E secret username)))"

definition turn_name :: "broker_env \<Rightarrow> string \<Rightarrow> string" where
  "turn_name E ident =
     (if startswith ident PHONE_PREFIX then filter (\<lambda>c. c \<noteq> CHR '':'') (drop (length PHONE_PREFIX) ident)
      else take 16 (be_sha256_hex E ident))"

definition in_network :: "ip \<Rightarrow> network \<Rightarrow> bool" where
  "in_network a n = (case (a, n) of (V4 w, Net4 p k) \<Rightarrow> in_net w (p, k) | (V6 w, Net6 p k) \<Rightarrow> in_net w (p, k) | _ \<Rightarrow> False)"

definition is_trusted :: "broker_env \<Rightarrow> network list \<Rightarrow> string \<Rightarrow> bool" where
  "is_trusted E trusted text = (case be_parse_ip E text of None \<Rightarrow> False | Some a \<Rightarrow> list_ex (in_network a) trusted)"

text \<open>
  The address the limits key on. The headers are the values of \<open>X-Forwarded-For\<close>; with several the library raises.
\<close>

definition client_ip :: "broker_env \<Rightarrow> network list \<Rightarrow> string \<Rightarrow> string list \<Rightarrow> string result" where
  "client_ip E trusted peer forwarded =
     (if \<not> is_trusted E trusted peer then Inr (if peer = [] then ''?'' else peer)
      else case forwarded of
          _ # _ # _ \<Rightarrow> Inl (OtherErr ''MultipleValuesError'')
        | _ \<Rightarrow> let fwd = (case forwarded of [] \<Rightarrow> [] | v # _ \<Rightarrow> v) in
            (case List.find (\<lambda>hop. hop \<noteq> [] \<and> \<not> is_trusted E trusted hop) (rev (map strip (split_on (CHR '','') fwd))) of
               Some hop \<Rightarrow> Inr (take 64 hop) | None \<Rightarrow> Inr peer))"

definition registration_message :: "bytes \<Rightarrow> string \<Rightarrow> bytes" where
  "registration_message nonce desktop_id = REGISTER_PREFIX @ nonce @ utf8_bytes desktop_id"

definition verify_registration :: "broker_env \<Rightarrow> string \<Rightarrow> string \<Rightarrow> bytes \<Rightarrow> string \<Rightarrow> bool" where
  "verify_registration E pubkey sig nonce desktop_id =
     (case (be_b64d E pubkey, be_b64d E sig) of
        (Some pub, Some s) \<Rightarrow> if length pub \<noteq> PUBKEY_BYTES \<or> length s \<noteq> SIG_BYTES then False
          else be_verify E pub s (registration_message nonce desktop_id)
      | _ \<Rightarrow> False)"

section \<open>Bindings\<close>

definition bind_get :: "bindings \<Rightarrow> string \<Rightarrow> string option" where
  "bind_get m desktop_id = map_option bd_pubkey (map_of m desktop_id)"

text \<open>Saving: the whole map, when there is a file and the disk takes it.\<close>

definition save_bindings :: "broker_config \<Rightarrow> moment \<Rightarrow> broker \<Rightarrow> broker" where
  "save_bindings C t B = (if bc_state_file C \<and> mo_disk_ok t then B\<lparr>br_disk := Some (br_bindings B)\<rparr> else B)"

definition touch :: "broker_config \<Rightarrow> moment \<Rightarrow> string \<Rightarrow> broker \<Rightarrow> broker" where
  "touch C t desktop_id B =
     (case map_of (br_bindings B) desktop_id of
        None \<Rightarrow> B
      | Some e \<Rightarrow> let B' = B\<lparr>br_bindings := dict_set (br_bindings B) desktop_id (e\<lparr>bd_seen := mo_wall t\<rparr>)\<rparr> in
          if mo_wall t - bd_seen e \<ge> BINDING_TOUCH_PERSIST then save_bindings C t B' else B')"

definition reclaim :: "int \<Rightarrow> int \<Rightarrow> bindings \<Rightarrow> bindings" where
  "reclaim ttl now m = filter (\<lambda>(k, e). \<not> now - bd_seen e > ttl) m"

definition bind :: "broker_config \<Rightarrow> moment \<Rightarrow> string \<Rightarrow> string \<Rightarrow> broker \<Rightarrow> bool \<times> broker" where
  "bind C t desktop_id pubkey B =
     (if has_key (br_bindings B) desktop_id then (True, B)
      else let m = (if length (br_bindings B) \<ge> bc_max_desktops C then reclaim (bc_binding_ttl C) (mo_wall t) (br_bindings B)
                    else br_bindings B) in
        if length m \<ge> bc_max_desktops C then (False, B\<lparr>br_bindings := m\<rparr>)
        else (True, save_bindings C t (B\<lparr>br_bindings := dict_set m desktop_id \<lparr>bd_pubkey = pubkey, bd_seen = mo_wall t\<rparr>\<rparr>)))"

text \<open>
  The file of bindings, and reading it back; \<open>float_of\<close> is Python's \<open>float\<close>, which may raise. Any error means an
  empty map.
\<close>

definition binding_json :: "(int \<Rightarrow> string) \<Rightarrow> binding \<Rightarrow> jval" where
  "binding_json num e = JObj [(''pubkey'', JStr (bd_pubkey e)), (''seen'', JFloat (num (bd_seen e)))]"

definition bindings_json :: "(int \<Rightarrow> string) \<Rightarrow> bindings \<Rightarrow> jval" where
  "bindings_json num m = JObj (map (\<lambda>(k, e). (k, binding_json num e)) m)"

fun load_entries :: "broker_env \<Rightarrow> (jval \<Rightarrow> int option) \<Rightarrow> (string \<times> jval) list \<Rightarrow> bindings \<Rightarrow> bindings option" where
  "load_entries E float_of [] loaded = Some loaded"
| "load_entries E float_of ((k, v) # items) loaded =
     (case v of
        JObj d \<Rightarrow>
          if k \<noteq> [] \<and> truthy (opt_get d ''pubkey'' JNull) then
            (case (if truthy (opt_get d ''seen'' JNull) then float_of (opt_get d ''seen'' JNull) else Some 0) of
               None \<Rightarrow> None
             | Some t \<Rightarrow> load_entries E float_of items
                 (dict_set loaded k \<lparr>bd_pubkey = str_or_empty E (opt_get d ''pubkey'' JNull), bd_seen = t\<rparr>))
          else load_entries E float_of items loaded
      | _ \<Rightarrow> load_entries E float_of items loaded)"

definition load_bindings :: "broker_env \<Rightarrow> (jval \<Rightarrow> int option) \<Rightarrow> nat \<Rightarrow> jval option \<Rightarrow> bindings" where
  "load_bindings E float_of max_entries file =
     (case file of
        Some (JObj items) \<Rightarrow>
          (case load_entries E float_of (drop (length items - max_entries) items) [] of None \<Rightarrow> [] | Some m \<Rightarrow> m)
      | _ \<Rightarrow> [])"

section \<open>Admission\<close>

definition start_broker :: "bindings \<Rightarrow> broker" where
  "start_broker m =
     \<lparr>br_desktops = [], br_phones = [], br_phone_rooms = [], br_phones_per_desktop = [], br_phone_connects = [], br_desktop_regs = [],
      br_bindings = m, br_disk = None, br_ip_conns = [], br_ip_hellos = [], br_dropped = 0, br_conns = [], br_accepted = 0, br_minted = 0\<rparr>"

definition prune_buckets :: "int \<Rightarrow> (string \<times> int list) list \<Rightarrow> (string \<times> int list) list" where
  "prune_buckets cutoff m = filter (\<lambda>(k, ts). ts \<noteq> []) (map (\<lambda>(k, ts). (k, recent cutoff ts)) m)"

definition sweep_ip_hellos :: "int \<Rightarrow> (string \<times> int list) list \<Rightarrow> (string \<times> int list) list" where
  "sweep_ip_hellos cutoff m = (let kept = prune_buckets cutoff m in drop (length kept - RATE_MAP_MAX_KEYS) kept)"

definition admit_ip_hello :: "broker_config \<Rightarrow> int \<Rightarrow> string \<Rightarrow> broker \<Rightarrow> bool \<times> broker" where
  "admit_ip_hello C now ip B =
     (let cutoff = now - bc_ip_hello_window C; bucket = recent cutoff (dget (br_ip_hellos B) ip []) in
      if length bucket \<ge> bc_ip_hello_limit C then (False, B)
      else let m = dict_set (br_ip_hellos B) ip (bucket @ [now]) in
        (True, B\<lparr>br_ip_hellos := (if length m > RATE_MAP_MAX_KEYS then sweep_ip_hellos cutoff m else m)\<rparr>))"

text \<open>The last \<open>n\<close> of a list, as the slice \<open>[-n:]\<close> for a positive \<open>n\<close>.\<close>

definition last_n :: "nat \<Rightarrow> 'a list \<Rightarrow> 'a list" where
  "last_n n xs = drop (length xs - n) xs"

definition admit_desktop :: "broker_config \<Rightarrow> int \<Rightarrow> jval \<Rightarrow> broker \<Rightarrow> string option result \<times> broker" where
  "admit_desktop C now token B =
     (if bc_open_mode C then
        if length (br_desktops B) \<ge> bc_max_desktops C then (Inr (Some ''busy''), B)
        else let regs = last_n (bc_reg_rate_limit C) (recent (now - bc_reg_rate_window C) (br_desktop_regs B)) in
          if length regs \<ge> bc_reg_rate_limit C then (Inr (Some ''rate_limited''), B\<lparr>br_desktop_regs := regs\<rparr>)
          else (Inr None, B\<lparr>br_desktop_regs := regs @ [now]\<rparr>)
      else if bc_token C = [] then (Inr (Some ''unauthorized''), B)
      else case token of
          JStr s \<Rightarrow> (case compare_digest s (bc_token C) of
              Inl e \<Rightarrow> (Inl e, B) | Inr eq \<Rightarrow> (Inr (if eq then None else Some ''unauthorized''), B))
        | _ \<Rightarrow> (Inr (Some ''unauthorized''), B))"

definition prune_rate_bucket :: "broker_config \<Rightarrow> string \<Rightarrow> int \<Rightarrow> broker \<Rightarrow> int list" where
  "prune_rate_bucket C desktop_id now B = recent (now - bc_rate_window C) (dget (br_phone_connects B) desktop_id [])"

definition sweep_rate_map :: "broker_config \<Rightarrow> int \<Rightarrow> (string \<times> int list) list \<Rightarrow> (string \<times> int list) list" where
  "sweep_rate_map C now m =
     prune_buckets (now - bc_rate_window C) (take RATE_MAP_MAX_KEYS m) @ drop RATE_MAP_MAX_KEYS m"

definition admit_phone :: "broker_config \<Rightarrow> int \<Rightarrow> string \<Rightarrow> broker \<Rightarrow> string option \<times> broker" where
  "admit_phone C now desktop_id B =
     (if length (br_phones B) \<ge> bc_max_phones C then (Some ''busy'', B)
      else if dget (br_phones_per_desktop B) desktop_id 0 \<ge> bc_max_phones_per_desktop C then (Some ''busy'', B)
      else let bucket = prune_rate_bucket C desktop_id now B in
        if length bucket \<ge> bc_rate_limit C then (Some ''rate_limited'', B)
        else let m = dict_set (br_phone_connects B) desktop_id (bucket @ [now]) in
          (None, B\<lparr>br_phones_per_desktop := dict_set (br_phones_per_desktop B) desktop_id (dget (br_phones_per_desktop B) desktop_id 0 + 1),
            br_phone_connects := (if length m > RATE_MAP_MAX_KEYS then sweep_rate_map C now m else m)\<rparr>))"

text \<open>One fewer; a count that would fall to zero is dropped. The assertion of the code cannot fail on a count.\<close>

definition count_down :: "(string \<times> nat) list \<Rightarrow> string \<Rightarrow> (string \<times> nat) list" where
  "count_down m k = (if dget m k 0 \<le> 1 then dict_del m k else dict_set m k (dget m k 0 - 1))"

definition release_phone :: "string \<Rightarrow> broker \<Rightarrow> broker" where
  "release_phone desktop_id B =
     (if desktop_id = [] then B else B\<lparr>br_phones_per_desktop := count_down (br_phones_per_desktop B) desktop_id\<rparr>)"

definition ice_for_client :: "broker_config \<Rightarrow> broker_env \<Rightarrow> int \<Rightarrow> string \<Rightarrow> jval list" where
  "ice_for_client C E now ident =
     (if bc_turn_secret C \<noteq> [] \<and> bc_turn_urls C \<noteq> [] then
        (case mint_turn_credentials E now (bc_turn_secret C) (bc_turn_ttl C) (turn_name E ident) of
           Inl _ \<Rightarrow> []
         | Inr (user, cred) \<Rightarrow> [JObj [(''urls'', JList (map JStr (bc_turn_urls C))), (''username'', JStr user), (''credential'', JStr cred)]])
      else bc_pair_ice C)"

section \<open>The handler\<close>

text \<open>
  What a step leaves its coroutine to do: wait again, or end; the clean-up of an ended one needs to know what it was.
\<close>

datatype onward = Stay phase | Quit phase

type_synonym sends = "(sock \<times> out) list"

text \<open>Sends go out in order until one fails, which ends the coroutine.\<close>

definition sent :: "moment \<Rightarrow> sends \<Rightarrow> sends" where
  "sent t os = takeWhile (\<lambda>(s, _). s \<notin> set (mo_dead t)) os"

definition all_sent :: "moment \<Rightarrow> sends \<Rightarrow> bool" where
  "all_sent t os = list_all (\<lambda>(s, _). s \<notin> set (mo_dead t)) os"

definition send_on :: "moment \<Rightarrow> sends \<Rightarrow> phase \<Rightarrow> sends \<times> onward" where
  "send_on t os ph = (sent t os, if all_sent t os then Stay ph else Quit ph)"

definition refuse_conn :: "moment \<Rightarrow> sock \<Rightarrow> string \<Rightarrow> broker \<Rightarrow> broker \<times> sends \<times> onward" where
  "refuse_conn t s detail B = (B, sent t [(s, ErrorMsg detail)], Quit AwaitHello)"

definition drop_conn :: "broker \<Rightarrow> broker \<times> sends \<times> onward" where
  "drop_conn B = (B, [], Quit AwaitHello)"

definition register_desktop :: "broker_config \<Rightarrow> broker_env \<Rightarrow> moment \<Rightarrow> sock \<Rightarrow> string \<Rightarrow> broker \<Rightarrow> broker \<times> sends \<times> onward" where
  "register_desktop C E t s desktop_id B =
     (B\<lparr>br_desktops := dict_set (br_desktops B) desktop_id s\<rparr>,
      send_on t ((s, Registered) # (if bc_turn_secret C = [] then [] else [(s, Ice (ice_for_client C E (mo_wall t) desktop_id))]))
        (DesktopUp desktop_id []))"

text \<open>The proof of possession, up to the challenge.\<close>

definition begin_proof :: "broker_config \<Rightarrow> broker_env \<Rightarrow> moment \<Rightarrow> sock \<Rightarrow> string \<Rightarrow> jval \<Rightarrow> broker \<Rightarrow> broker \<times> sends \<times> onward" where
  "begin_proof C E t s desktop_id key B =
     (let pubkey = str_or_empty E key;
          bound = (if startswith desktop_id PAIR_PREFIX then None else bind_get (br_bindings B) desktop_id) in
      if pubkey = [] then
        (if bc_allow_legacy C \<and> bound = None then register_desktop C E t s desktop_id B else refuse_conn t s ''unauthorized'' B)
      else case (case bound of None \<Rightarrow> Inr True | Some k \<Rightarrow> compare_digest k pubkey) of
          Inl _ \<Rightarrow> drop_conn B
        | Inr False \<Rightarrow> refuse_conn t s ''unauthorized'' B
        | Inr True \<Rightarrow> let nonce = be_nonce E (br_minted B) in
            (B\<lparr>br_minted := Suc (br_minted B)\<rparr>,
             case send_on t [(s, Challenge (be_b64e E nonce))] (Proving desktop_id pubkey nonce bound) of
               (os, Stay ph) \<Rightarrow> (os, Stay ph) | (os, Quit _) \<Rightarrow> (os, Quit AwaitHello)))"

text \<open>The answer to the challenge.\<close>

definition on_prove :: "broker_config \<Rightarrow> broker_env \<Rightarrow> moment \<Rightarrow> sock \<Rightarrow> jval option \<Rightarrow> string \<Rightarrow> string \<Rightarrow> bytes \<Rightarrow> string option \<Rightarrow>
    broker \<Rightarrow> broker \<times> sends \<times> onward" where
  "on_prove C E t s payload desktop_id pubkey nonce bound B =
     (case payload of
        Some (JObj reply) \<Rightarrow>
          if opt_get reply ''type'' JNull \<noteq> JStr ''prove'' \<or>
             \<not> verify_registration E pubkey (str_or_empty E (opt_get reply ''sig'' JNull)) nonce desktop_id
          then refuse_conn t s ''unauthorized'' B
          else if startswith desktop_id PAIR_PREFIX then register_desktop C E t s desktop_id B
          else if bound \<noteq> None then register_desktop C E t s desktop_id (touch C t desktop_id B)
          else (case bind C t desktop_id pubkey B of
              (True, B') \<Rightarrow> register_desktop C E t s desktop_id B'
            | (False, B') \<Rightarrow> refuse_conn t s ''busy'' B')
      | _ \<Rightarrow> drop_conn B)"

definition enter_phone :: "broker_config \<Rightarrow> broker_env \<Rightarrow> moment \<Rightarrow> sock \<Rightarrow> string \<Rightarrow> broker \<Rightarrow> broker \<times> sends \<times> onward" where
  "enter_phone C E t s desktop_id B =
     (let ident = PHONE_PREFIX @ be_phone_token E (br_minted B);
          ice = (if bc_turn_secret C \<noteq> [] \<or> startswith desktop_id PAIR_PREFIX then ice_for_client C E (mo_wall t) ident else []) in
      (B\<lparr>br_minted := Suc (br_minted B), br_phones := dict_set (br_phones B) ident s,
         br_phone_rooms := dict_set (br_phone_rooms B) ident desktop_id\<rparr>,
       send_on t (if ice = [] then [] else [(s, Ice ice)]) (PhoneUp ident desktop_id [])))"

definition on_hello :: "broker_config \<Rightarrow> broker_env \<Rightarrow> moment \<Rightarrow> sock \<Rightarrow> string \<Rightarrow> jval option \<Rightarrow> broker \<Rightarrow> broker \<times> sends \<times> onward" where
  "on_hello C E t s ip payload B =
     (case payload of
        Some (JObj hello) \<Rightarrow>
          (case admit_ip_hello C (mo_mono t) ip B of
             (False, B1) \<Rightarrow> refuse_conn t s ''rate_limited'' B1
           | (True, B1) \<Rightarrow>
               let desktop_id = str_or_empty E (opt_get hello ''desktop_id'' JNull) in
               if desktop_id = [] then refuse_conn t s ''missing desktop_id'' B1
               else if opt_get hello ''role'' JNull = JStr ''desktop'' then
                 (case admit_desktop C (mo_mono t) (opt_get hello ''token'' JNull) B1 of
                    (Inl _, B2) \<Rightarrow> drop_conn B2
                  | (Inr (Some detail), B2) \<Rightarrow> refuse_conn t s detail B2
                  | (Inr None, B2) \<Rightarrow>
                      if has_key (br_desktops B2) desktop_id then refuse_conn t s ''already registered'' B2
                      else begin_proof C E t s desktop_id (opt_get hello ''pubkey'' JNull) B2)
               else if opt_get hello ''role'' JNull = JStr ''phone'' then
                 (case admit_phone C (mo_mono t) desktop_id B1 of
                    (Some detail, B2) \<Rightarrow> refuse_conn t s detail B2
                  | (None, B2) \<Rightarrow> enter_phone C E t s desktop_id B2)
               else refuse_conn t s ''bad role'' B1)
      | _ \<Rightarrow> drop_conn B)"

definition phone_loop :: "broker_config \<Rightarrow> moment \<Rightarrow> sock \<Rightarrow> jval option \<Rightarrow> string \<Rightarrow> string \<Rightarrow> int list \<Rightarrow> broker \<Rightarrow>
    broker \<times> sends \<times> onward" where
  "phone_loop C t s payload phone_id desktop_id offers B =
     (case payload of
        Some (JObj msg) \<Rightarrow>
          if opt_get msg ''type'' JNull \<noteq> JStr ''offer'' then (B, [], Stay (PhoneUp phone_id desktop_id offers))
          else let kept = recent (mo_mono t - bc_offer_window C) offers in
            if length kept \<ge> bc_offer_limit C then (B, sent t [(s, ErrorMsg ''rate_limited'')], Quit (PhoneUp phone_id desktop_id kept))
            else let now = PhoneUp phone_id desktop_id (kept @ [mo_mono t]) in
              (case map_of (br_desktops B) desktop_id of
                 None \<Rightarrow> (B, send_on t [(s, ErrorMsg ''desktop offline'')] now)
               | Some desk \<Rightarrow> (B, send_on t [(desk, Offer phone_id (opt_get msg ''sdp'' JNull))] now))
      | _ \<Rightarrow> (B, [], Quit (PhoneUp phone_id desktop_id offers)))"

definition desktop_loop :: "broker_config \<Rightarrow> broker_env \<Rightarrow> moment \<Rightarrow> jval option \<Rightarrow> string \<Rightarrow> int list \<Rightarrow> broker \<Rightarrow>
    broker \<times> sends \<times> onward" where
  "desktop_loop C E t payload desktop_id answers B =
     (case payload of
        Some (JObj msg) \<Rightarrow>
          if opt_get msg ''type'' JNull \<noteq> JStr ''answer'' then (B, [], Stay (DesktopUp desktop_id answers))
          else let kept = recent (mo_mono t - bc_answer_window C) answers in
            if length kept \<ge> bc_answer_limit C then (B\<lparr>br_dropped := br_dropped B + 1\<rparr>, [], Stay (DesktopUp desktop_id kept))
            else let now = DesktopUp desktop_id (kept @ [mo_mono t]); dest = str_or_empty E (opt_get msg ''to'' JNull) in
              (case map_of (br_phones B) dest of
                 None \<Rightarrow> (B, [], Stay now)
               | Some phone \<Rightarrow>
                   if map_of (br_phone_rooms B) dest \<noteq> Some desktop_id then (B\<lparr>br_dropped := br_dropped B + 1\<rparr>, [], Stay now)
                   else (B, send_on t [(phone, Answer (opt_get msg ''sdp'' JNull))] now))
      | _ \<Rightarrow> (B, [], Quit (DesktopUp desktop_id answers)))"

definition on_message :: "broker_config \<Rightarrow> broker_env \<Rightarrow> moment \<Rightarrow> sock \<Rightarrow> conn \<Rightarrow> jval option \<Rightarrow> broker \<Rightarrow> broker \<times> sends \<times> onward" where
  "on_message C E t s c payload B =
     (case cn_phase c of
        AwaitHello \<Rightarrow> on_hello C E t s (cn_ip c) payload B
      | Proving desktop_id pubkey nonce bound \<Rightarrow> on_prove C E t s payload desktop_id pubkey nonce bound B
      | DesktopUp desktop_id answers \<Rightarrow> desktop_loop C E t payload desktop_id answers B
      | PhoneUp phone_id desktop_id offers \<Rightarrow> phone_loop C t s payload phone_id desktop_id offers B)"

text \<open>The \<open>finally\<close> clause.\<close>

definition leave :: "sock \<Rightarrow> string \<Rightarrow> phase \<Rightarrow> broker \<Rightarrow> broker" where
  "leave s ip ph B =
     (let B1 = B\<lparr>br_conns := dict_del (br_conns B) s, br_ip_conns := count_down (br_ip_conns B) ip\<rparr> in
      case ph of
        DesktopUp desktop_id _ \<Rightarrow>
          if map_of (br_desktops B1) desktop_id = Some s then B1\<lparr>br_desktops := dict_del (br_desktops B1) desktop_id\<rparr> else B1
      | PhoneUp ident desktop_id _ \<Rightarrow>
          release_phone desktop_id (B1\<lparr>br_phones := dict_del (br_phones B1) ident, br_phone_rooms := dict_del (br_phone_rooms B1) ident\<rparr>)
      | _ \<Rightarrow> B1)"

definition settle :: "sock \<Rightarrow> conn \<Rightarrow> broker \<times> sends \<times> onward \<Rightarrow> broker \<times> sends" where
  "settle s c r = (case r of
       (B, os, Stay ph) \<Rightarrow> (B\<lparr>br_conns := dict_set (br_conns B) s (c\<lparr>cn_phase := ph\<rparr>)\<rparr>, os)
     | (B, os, Quit ph) \<Rightarrow> (leave s (cn_ip c) ph B, os))"

definition accept :: "broker_config \<Rightarrow> broker_env \<Rightarrow> moment \<Rightarrow> string \<Rightarrow> string list \<Rightarrow> broker \<Rightarrow> broker \<times> sends" where
  "accept C E t peer forwarded B =
     (let s = br_accepted B; B' = B\<lparr>br_accepted := Suc s\<rparr> in
      case client_ip E (bc_trusted C) peer forwarded of
        Inl _ \<Rightarrow> (B', [])
      | Inr ip \<Rightarrow>
          if dget (br_ip_conns B) ip 0 \<ge> bc_max_conns_per_ip C then (B', sent t [(s, ErrorMsg ''busy'')])
          else (B'\<lparr>br_ip_conns := dict_set (br_ip_conns B) ip (dget (br_ip_conns B) ip 0 + 1),
                   br_conns := dict_set (br_conns B) s \<lparr>cn_ip = ip, cn_phase = AwaitHello\<rparr>\<rparr>, []))"

definition handle :: "broker_config \<Rightarrow> broker_env \<Rightarrow> moment \<Rightarrow> event \<Rightarrow> broker \<Rightarrow> broker \<times> sends" where
  "handle C E t ev B =
     (case ev of
        Connect peer forwarded \<Rightarrow> accept C E t peer forwarded B
      | Recv s payload \<Rightarrow> (case map_of (br_conns B) s of
            None \<Rightarrow> (B, []) | Some c \<Rightarrow> settle s c (on_message C E t s c payload B))
      | Gone s \<Rightarrow> (case map_of (br_conns B) s of
            None \<Rightarrow> (B, []) | Some c \<Rightarrow> (leave s (cn_ip c) (cn_phase c) B, [])))"

end
