(* ===== verification/Broker_Safety.thy ===== *)
theory Broker_Safety
  imports Broker
begin

text \<open>
  What every run of the signalling broker keeps: the maps agree with the connections that are open, the caps hold, and a
  registration is only reached through the challenge.
\<close>

section \<open>Counting\<close>

definition count_vals :: "('v \<Rightarrow> bool) \<Rightarrow> ('k \<times> 'v) list \<Rightarrow> nat" where
  "count_vals p d = length (filter (\<lambda>(k, v). p v) d)"

lemma count_vals_set:
  "distinct (map fst d) \<Longrightarrow> map_of d k = Some v \<Longrightarrow> count_vals p (dict_set d k w) + of_bool (p v) = count_vals p d + of_bool (p w)"
  by (induction d k w rule: dict_set.induct) (auto simp: count_vals_def split: if_splits)

lemma count_vals_add: "map_of d k = None \<Longrightarrow> count_vals p (dict_set d k w) = count_vals p d + of_bool (p w)"
  by (induction d k w rule: dict_set.induct) (auto simp: count_vals_def split: if_splits)

lemma dict_del_absent: "map_of d k = None \<Longrightarrow> dict_del d k = d"
  by (induction d) (auto simp: dict_del_def split: if_splits)

lemma count_vals_del:
  "distinct (map fst d) \<Longrightarrow> map_of d k = Some v \<Longrightarrow> count_vals p (dict_del d k) + of_bool (p v) = count_vals p d"
proof (induction d)
  case (Cons a d)
  show ?case
  proof (cases "fst a = k")
    case True
    then have "map_of d k = None" using Cons.prems(1) by (auto simp: map_of_eq_None_iff)
    then have "dict_del (a # d) k = d" using True dict_del_absent [of d k] by (simp add: dict_del_def)
    then show ?thesis using True Cons.prems by (auto simp: count_vals_def split: if_splits)
  next
    case False
    then show ?thesis using Cons by (auto simp: count_vals_def dict_del_def split: if_splits)
  qed
qed simp

lemma dict_del_set: "dict_del (dict_set d k v) k = dict_del d k"
  by (induction d k v rule: dict_set.induct) (auto simp: dict_del_def)

definition counts_ok :: "(string \<times> nat) list \<Rightarrow> (string \<Rightarrow> nat) \<Rightarrow> bool" where
  "counts_ok m f \<longleftrightarrow> (\<forall>k. map_of m k = (if f k = 0 then None else Some (f k)))"

lemma counts_get: "counts_ok m f \<Longrightarrow> dget m k 0 = f k"
  by (auto simp: counts_ok_def dget_def)

lemma counts_up: "counts_ok m f \<Longrightarrow> (\<And>j. g j = (if j = k then Suc (f k) else f j)) \<Longrightarrow> counts_ok (dict_set m k (Suc (dget m k 0))) g"
  using counts_get by (auto simp: counts_ok_def)

lemma counts_down:
  assumes m: "counts_ok m f" and k: "f k = Suc n" and g: "\<And>j. g j = (if j = k then n else f j)"
  shows "counts_ok (count_down m k) g"
proof -
  have "dget m k 0 = Suc n" using counts_get [OF m] k by simp
  then show ?thesis using m unfolding counts_ok_def count_down_def g by (cases n) simp_all
qed

section \<open>Roles\<close>

datatype role = Nobody | Desk string | Phone string string

definition role_of :: "phase \<Rightarrow> role" where
  "role_of ph = (case ph of DesktopUp d _ \<Rightarrow> Desk d | PhoneUp p d _ \<Rightarrow> Phone p d | _ \<Rightarrow> Nobody)"

lemma role_of_simps [simp]:
  "role_of AwaitHello = Nobody" "role_of (Proving a b c d) = Nobody" "role_of (DesktopUp i l) = Desk i" "role_of (PhoneUp p i l) = Phone p i"
  by (simp_all add: role_of_def)

definition role_at :: "broker \<Rightarrow> sock \<Rightarrow> role option" where
  "role_at B s = map_option (\<lambda>c. role_of (cn_phase c)) (map_of (br_conns B) s)"

definition in_room :: "string \<Rightarrow> conn \<Rightarrow> bool" where
  "in_room room c = (case role_of (cn_phase c) of Phone _ d \<Rightarrow> d = room | _ \<Rightarrow> False)"

definition topology :: "broker_env \<Rightarrow> broker \<Rightarrow> bool" where
  "topology E B \<longleftrightarrow>
     distinct (map fst (br_conns B)) \<and> (\<forall>s. role_at B s \<noteq> None \<longrightarrow> s < br_accepted B) \<and>
     (\<forall>i s. map_of (br_desktops B) i = Some s \<longrightarrow> role_at B s = Some (Desk i)) \<and>
     (\<forall>p s. map_of (br_phones B) p = Some s \<longleftrightarrow> (\<exists>room. role_at B s = Some (Phone p room))) \<and>
     (\<forall>p room. map_of (br_phone_rooms B) p = Some room \<longleftrightarrow> (\<exists>s. role_at B s = Some (Phone p room))) \<and>
     (\<forall>s p room. role_at B s = Some (Phone p room) \<longrightarrow> room \<noteq> [] \<and> (\<exists>n < br_minted B. p = PHONE_PREFIX @ be_phone_token E n)) \<and>
     counts_ok (br_ip_conns B) (\<lambda>ip. count_vals (\<lambda>c. cn_ip c = ip) (br_conns B)) \<and>
     counts_ok (br_phones_per_desktop B) (\<lambda>room. count_vals (in_room room) (br_conns B))"

lemma topology_ident:
  "topology E B \<Longrightarrow> role_at B s = Some (Phone p room) \<Longrightarrow> room \<noteq> [] \<and> (\<exists>n < br_minted B. p = PHONE_PREFIX @ be_phone_token E n)"
  unfolding topology_def by blast

lemma topology_below: "topology E B \<Longrightarrow> role_at B s \<noteq> None \<Longrightarrow> s < br_accepted B"
  by (auto simp: topology_def)

lemma topology_maps:
  assumes "topology E B"
  shows "map_of (br_desktops B) i = Some s \<Longrightarrow> role_at B s = Some (Desk i)"
    and "map_of (br_phones B) p = Some s \<longleftrightarrow> (\<exists>room. role_at B s = Some (Phone p room))"
    and "map_of (br_phone_rooms B) p = Some room \<longleftrightarrow> (\<exists>s. role_at B s = Some (Phone p room))"
    and "dget (br_ip_conns B) ip 0 = count_vals (\<lambda>c. cn_ip c = ip) (br_conns B)"
    and "dget (br_phones_per_desktop B) room 0 = count_vals (in_room room) (br_conns B)"
    and "distinct (map fst (br_conns B))"
  using assms unfolding topology_def by (blast, blast, blast, auto intro: counts_get)

lemma topology_unique:
  "topology E B \<Longrightarrow> role_at B s = Some (Phone p r) \<Longrightarrow> role_at B s' = Some (Phone p r') \<Longrightarrow> s' = s"
  using topology_maps(2) [of E B p s] topology_maps(2) [of E B p s'] by auto

text \<open>The state in which a connection has been given a phase.\<close>

definition place :: "sock \<Rightarrow> conn \<Rightarrow> phase \<Rightarrow> broker \<Rightarrow> broker" where
  "place s c ph B = B\<lparr>br_conns := dict_set (br_conns B) s (c\<lparr>cn_phase := ph\<rparr>)\<rparr>"

definition onward_phase :: "onward \<Rightarrow> phase" where
  "onward_phase w = (case w of Stay ph \<Rightarrow> ph | Quit ph \<Rightarrow> ph)"

lemma onward_phase_simps [simp]: "onward_phase (Stay ph) = ph" "onward_phase (Quit ph) = ph"
  by (simp_all add: onward_phase_def)

lemma leave_place: "leave s ip ph B = leave s ip ph (place s c ph B)"
  by (simp add: leave_def place_def dict_del_set Let_def release_phone_def split: phase.splits)

lemma settle_place:
  "settle s c (B, os, w) = (case w of Stay ph \<Rightarrow> (place s c ph B, os) | Quit ph \<Rightarrow> (leave s (cn_ip c) ph (place s c ph B), os))"
  using leave_place by (auto simp: settle_def place_def split: onward.splits)

lemma role_at_place: "role_at (place s c ph B) s' = (if s' = s then Some (role_of ph) else role_at B s')"
  by (auto simp: role_at_def place_def)

text \<open>The maps that mirror the connections.\<close>

definition same_maps :: "broker \<Rightarrow> broker \<Rightarrow> bool" where
  "same_maps B B' \<longleftrightarrow> br_desktops B' = br_desktops B \<and> br_phones B' = br_phones B \<and> br_phone_rooms B' = br_phone_rooms B \<and>
     br_phones_per_desktop B' = br_phones_per_desktop B \<and> br_ip_conns B' = br_ip_conns B \<and> br_conns B' = br_conns B \<and>
     br_accepted B' = br_accepted B \<and> br_minted B \<le> br_minted B'"

lemma same_maps_refl [simp]: "same_maps B B"
  by (simp add: same_maps_def)

lemma same_maps_trans: "same_maps B B' \<Longrightarrow> same_maps B' B'' \<Longrightarrow> same_maps B B''"
  by (simp add: same_maps_def)

lemma same_maps_topology: "topology E B \<Longrightarrow> same_maps B B' \<Longrightarrow> topology E B'"
  unfolding topology_def same_maps_def role_at_def by (fastforce intro: less_le_trans)

lemma same_maps_role: "same_maps B B' \<Longrightarrow> role_at B' s = role_at B s"
  by (simp add: same_maps_def role_at_def)

text \<open>A new phase of the same role changes nothing.\<close>

lemma place_same_role:
  assumes T: "topology E B" and c: "map_of (br_conns B) s = Some c" and r: "role_of ph = role_of (cn_phase c)"
  shows "topology E (place s c ph B)"
proof -
  have role: "role_at (place s c ph B) s' = role_at B s'" for s'
    using c r by (cases "s' = s") (simp_all add: role_at_place, simp_all add: role_at_def)
  have d: "distinct (map fst (br_conns B))" using T by (simp add: topology_def)
  have ip: "count_vals (\<lambda>c. cn_ip c = ip) (br_conns (place s c ph B)) = count_vals (\<lambda>c. cn_ip c = ip) (br_conns B)" for ip
    using count_vals_set [OF d c, of "\<lambda>c. cn_ip c = ip" "c\<lparr>cn_phase := ph\<rparr>"] by (simp add: place_def)
  have room: "count_vals (in_room room) (br_conns (place s c ph B)) = count_vals (in_room room) (br_conns B)" for room
    using count_vals_set [OF d c, of "in_room room" "c\<lparr>cn_phase := ph\<rparr>"] r by (simp add: place_def in_room_def)
  show ?thesis using T distinct_dict_set [OF d] unfolding topology_def role ip room by (simp add: place_def)
qed

lemma place_desktop:
  assumes T: "topology E B" and c: "map_of (br_conns B) s = Some c" and n: "role_of (cn_phase c) = Nobody"
  shows "topology E (place s c (DesktopUp i l) (B\<lparr>br_desktops := dict_set (br_desktops B) i s\<rparr>))"
proof -
  let ?B = "place s c (DesktopUp i l) (B\<lparr>br_desktops := dict_set (br_desktops B) i s\<rparr>)"
  have old: "role_at B s = Some Nobody" using c n by (simp add: role_at_def)
  have role: "role_at ?B s' = (if s' = s then Some (Desk i) else role_at B s')" for s'
    by (simp add: role_at_place) (simp add: role_at_def)
  have phones: "role_at ?B s' = Some (Phone p room) \<longleftrightarrow> role_at B s' = Some (Phone p room)" for s' p room
    using old by (simp add: role)
  have d: "distinct (map fst (br_conns B))" using T by (simp add: topology_def)
  have ip: "count_vals (\<lambda>c. cn_ip c = ip) (br_conns ?B) = count_vals (\<lambda>c. cn_ip c = ip) (br_conns B)" for ip
    using count_vals_set [OF d c, of "\<lambda>c. cn_ip c = ip" "c\<lparr>cn_phase := DesktopUp i l\<rparr>"] by (simp add: place_def)
  have room: "count_vals (in_room room) (br_conns ?B) = count_vals (in_room room) (br_conns B)" for room
    using count_vals_set [OF d c, of "in_room room" "c\<lparr>cn_phase := DesktopUp i l\<rparr>"] n by (simp add: place_def in_room_def)
  have desk: "map_of (br_desktops ?B) j = Some s' \<Longrightarrow> role_at ?B s' = Some (Desk j)" for j s'
  proof -
    assume m: "map_of (br_desktops ?B) j = Some s'"
    show "role_at ?B s' = Some (Desk j)"
    proof (cases "j = i")
      case False
      then have "role_at B s' = Some (Desk j)" using m T by (simp add: place_def topology_def)
      then show ?thesis using old by (auto simp: role)
    next
      case True
      then have "s' = s" using m by (simp add: place_def)
      then show ?thesis using role True by simp
    qed
  qed
  have acc: "role_at ?B s' \<noteq> None \<Longrightarrow> s' < br_accepted B" for s'
    using T old by (auto simp: role topology_def split: if_splits)
  show ?thesis unfolding topology_def ip room phones
    using T desk acc distinct_dict_set [OF d] by (auto simp: topology_def place_def)
qed

lemma place_phone:
  assumes T: "topology E B" and c: "map_of (br_conns B) s = Some c" and n: "role_of (cn_phase c) = Nobody"
    and fresh: "inj (be_phone_token E)" and room: "room \<noteq> []" and p: "p = PHONE_PREFIX @ be_phone_token E (br_minted B)"
  shows "topology E (place s c (PhoneUp p room l) (B\<lparr>br_minted := Suc (br_minted B), br_phones := dict_set (br_phones B) p s,
    br_phone_rooms := dict_set (br_phone_rooms B) p room,
    br_phones_per_desktop := dict_set (br_phones_per_desktop B) room (Suc (dget (br_phones_per_desktop B) room 0))\<rparr>))"
    (is "topology E ?B")
proof -
  have old: "role_at B s = Some Nobody" using c n by (simp add: role_at_def)
  have role: "role_at ?B s' = (if s' = s then Some (Phone p room) else role_at B s')" for s'
    by (simp add: role_at_place) (simp add: role_at_def)
  have unused: "role_at B s' \<noteq> Some (Phone p r)" for s' r
  proof
    assume "role_at B s' = Some (Phone p r)"
    then obtain k where "k < br_minted B" "p = PHONE_PREFIX @ be_phone_token E k" using topology_ident [OF T] by blast
    then show False using fresh p by (auto dest: injD)
  qed
  have d: "distinct (map fst (br_conns B))" using T by (simp add: topology_def)
  have ip: "count_vals (\<lambda>c. cn_ip c = ip) (br_conns ?B) = count_vals (\<lambda>c. cn_ip c = ip) (br_conns B)" for ip
    using count_vals_set [OF d c, of "\<lambda>c. cn_ip c = ip" "c\<lparr>cn_phase := PhoneUp p room l\<rparr>"] by (simp add: place_def)
  have cnt: "count_vals (in_room r) (br_conns ?B) = (if r = room then Suc (count_vals (in_room room) (br_conns B)) else count_vals (in_room r) (br_conns B))" for r
    using count_vals_set [OF d c, of "in_room r" "c\<lparr>cn_phase := PhoneUp p room l\<rparr>"] n by (simp add: place_def in_room_def)
  have counts: "counts_ok (br_phones_per_desktop ?B) (\<lambda>r. count_vals (in_room r) (br_conns ?B))"
    using counts_up [of "br_phones_per_desktop B" "\<lambda>r. count_vals (in_room r) (br_conns B)" _ room] T cnt
    by (simp add: place_def topology_def)
  have desks: "br_desktops ?B = br_desktops B" by (simp add: place_def)
  have desk: "map_of (br_desktops ?B) i = Some s' \<Longrightarrow> role_at ?B s' = Some (Desk i)" for i s'
    using topology_maps(1) [OF T, of i s'] old unfolding role desks by auto
  have acc: "role_at ?B s' \<noteq> None \<Longrightarrow> s' < br_accepted B" for s'
    using T old unfolding role by (auto simp: topology_def split: if_splits)
  have mp: "map_of (br_phones ?B) = (map_of (br_phones B))(p \<mapsto> s)" "map_of (br_phone_rooms ?B) = (map_of (br_phone_rooms B))(p \<mapsto> room)"
    by (simp_all add: place_def)
  have phones: "map_of (br_phones ?B) q = Some s' \<longleftrightarrow> (\<exists>r. role_at ?B s' = Some (Phone q r))" for q s'
    unfolding role mp using topology_maps(2) [OF T, of q s'] old unused [of s'] by (cases "q = p"; cases "s' = s") auto
  have rooms: "map_of (br_phone_rooms ?B) q = Some r \<longleftrightarrow> (\<exists>s'. role_at ?B s' = Some (Phone q r))" for q r
  proof (cases "q = p")
    case True
    then show ?thesis unfolding role mp using unused by auto
  next
    case False
    then have "role_at ?B s' = Some (Phone q r) \<longleftrightarrow> role_at B s' = Some (Phone q r)" for s'
      using old unfolding role by auto
    then show ?thesis using topology_maps(3) [OF T, of q r] False unfolding mp by simp
  qed
  have idents: "role_at ?B s' = Some (Phone q r) \<Longrightarrow> r \<noteq> [] \<and> (\<exists>k < br_minted ?B. q = PHONE_PREFIX @ be_phone_token E k)" for s' q r
  proof -
    assume at: "role_at ?B s' = Some (Phone q r)"
    have mint: "br_minted ?B = Suc (br_minted B)" by (simp add: place_def)
    show "r \<noteq> [] \<and> (\<exists>k < br_minted ?B. q = PHONE_PREFIX @ be_phone_token E k)"
    proof (cases "s' = s")
      case True
      then have "q = p" "r = room" using at unfolding role by simp_all
      then show ?thesis using p room unfolding mint by blast
    next
      case False
      then have "role_at B s' = Some (Phone q r)" using at unfolding role by simp
      then show ?thesis using topology_ident [OF T] less_SucI unfolding mint by blast
    qed
  qed
  show ?thesis unfolding topology_def ip
    using T desk acc phones rooms idents counts distinct_dict_set [OF d] by (simp add: topology_def place_def)
qed

lemma role_at_leave: "role_at (leave s ip ph B) s' = (if s' = s then None else role_at B s')"
  by (auto simp: leave_def role_at_def release_phone_def Let_def split: phase.splits)

lemma leave_topology:
  assumes T: "topology E B" and c: "map_of (br_conns B) s = Some c"
  shows "topology E (leave s (cn_ip c) (cn_phase c) B)" (is "topology E ?B")
proof -
  have conns: "br_conns ?B = dict_del (br_conns B) s" and acc: "br_accepted ?B = br_accepted B" and mint: "br_minted ?B = br_minted B"
    and ips: "br_ip_conns ?B = count_down (br_ip_conns B) (cn_ip c)"
    by (auto simp: leave_def release_phone_def Let_def split: phase.splits)
  have at: "role_at B s = Some (role_of (cn_phase c))" using c by (simp add: role_at_def)
  have role: "role_at ?B s' = (if s' = s then None else role_at B s')" for s' by (rule role_at_leave)
  have d: "distinct (map fst (br_conns B))" using T by (rule topology_maps)
  have del: "count_vals q (br_conns B) = count_vals q (dict_del (br_conns B) s) + of_bool (q c)" for q
    using count_vals_del [OF d c, of q] by simp
  have ip: "counts_ok (br_ip_conns ?B) (\<lambda>ip. count_vals (\<lambda>c. cn_ip c = ip) (br_conns ?B))"
    unfolding conns ips
  proof (rule counts_down)
    show "counts_ok (br_ip_conns B) (\<lambda>ip. count_vals (\<lambda>c. cn_ip c = ip) (br_conns B))" using T by (simp add: topology_def)
  qed (auto simp: del)
  have room: "counts_ok (br_phones_per_desktop ?B) (\<lambda>r. count_vals (in_room r) (br_conns ?B))"
  proof (cases "\<exists>p room. role_of (cn_phase c) = Phone p room")
    case True
    then obtain p room where r: "role_of (cn_phase c) = Phone p room" by blast
    then have "room \<noteq> []" using topology_ident [OF T] at by simp
    then have cd: "br_phones_per_desktop ?B = count_down (br_phones_per_desktop B) room" using r
      by (auto simp: leave_def release_phone_def Let_def split: phase.splits)
    have q: "in_room r c = (r = room)" for r using \<open>role_of (cn_phase c) = Phone p room\<close> by (auto simp: in_room_def)
    show ?thesis unfolding conns cd
    proof (rule counts_down)
      show "counts_ok (br_phones_per_desktop B) (\<lambda>r. count_vals (in_room r) (br_conns B))" using T by (simp add: topology_def)
    qed (auto simp: del q)
  next
    case False
    then have "br_phones_per_desktop ?B = br_phones_per_desktop B" "\<And>r. \<not> in_room r c"
      by (auto simp: leave_def Let_def in_room_def split: phase.splits role.splits)
    then show ?thesis unfolding conns using T by (simp add: topology_def del)
  qed
  have desk: "map_of (br_desktops ?B) i = Some s' \<Longrightarrow> role_at ?B s' = Some (Desk i)" for i s'
    using topology_maps(1) [OF T, of i s'] at unfolding role
    by (auto simp: leave_def release_phone_def Let_def split: phase.splits if_splits)
  have phones: "map_of (br_phones ?B) q = Some s' \<longleftrightarrow> (\<exists>r. role_at ?B s' = Some (Phone q r))" for q s'
    using topology_maps(2) [OF T, of q s'] topology_maps(2) [OF T, of q s] at unfolding role
    by (cases "cn_phase c") (auto simp: leave_def release_phone_def Let_def)
  have rooms: "map_of (br_phone_rooms ?B) q = Some r \<longleftrightarrow> (\<exists>s'. role_at ?B s' = Some (Phone q r))" for q r
  proof (cases "\<exists>room. role_of (cn_phase c) = Phone q room")
    case True
    then have "map_of (br_phone_rooms ?B) q = None"
      by (cases "cn_phase c") (auto simp: leave_def release_phone_def Let_def)
    moreover obtain room where at': "role_at B s = Some (Phone q room)" using True at by auto
    have "role_at ?B s' \<noteq> Some (Phone q r)" for s' using topology_unique [OF T at', of s' r] unfolding role by auto
    ultimately show ?thesis by simp
  next
    case False
    then have "map_of (br_phone_rooms ?B) q = map_of (br_phone_rooms B) q"
      by (cases "cn_phase c") (auto simp: leave_def release_phone_def Let_def)
    moreover have "role_at ?B s' = Some (Phone q r) \<longleftrightarrow> role_at B s' = Some (Phone q r)" for s'
      using False at unfolding role by auto
    ultimately show ?thesis using topology_maps(3) [OF T, of q r] by simp
  qed
  have idents: "role_at ?B s' = Some (Phone q r) \<Longrightarrow> r \<noteq> [] \<and> (\<exists>k < br_minted ?B. q = PHONE_PREFIX @ be_phone_token E k)" for s' q r
    using topology_ident [OF T] unfolding role mint by (auto split: if_splits)
  have below: "role_at ?B s' \<noteq> None \<Longrightarrow> s' < br_accepted ?B" for s'
    using T unfolding role acc topology_def by (auto split: if_splits)
  have dist: "distinct (map fst (br_conns ?B))" unfolding conns using d by (rule distinct_dict_del)
  show ?thesis unfolding topology_def using dist below desk phones rooms idents ip room by blast
qed

section \<open>The handler keeps the maps\<close>

lemma same_maps_updates:
  "same_maps B (save_bindings C t B)" "same_maps B (touch C t i B)" "same_maps B (snd (bind C t i k B))"
  "same_maps B (snd (admit_ip_hello C now ip B))" "same_maps B (snd (admit_desktop C now token B))"
  by (auto simp: same_maps_def save_bindings_def touch_def bind_def admit_ip_hello_def admit_desktop_def Let_def
      split: option.splits jval.splits sum.splits if_splits)

definition kept :: "broker_env \<Rightarrow> sock \<Rightarrow> conn \<Rightarrow> broker \<times> sends \<times> onward \<Rightarrow> bool" where
  "kept E s c r = (case r of (B, os, w) \<Rightarrow> topology E (place s c (onward_phase w) B))"

lemma kept_same:
  "topology E B \<Longrightarrow> map_of (br_conns B) s = Some c \<Longrightarrow> same_maps B B' \<Longrightarrow> role_of (onward_phase w) = role_of (cn_phase c) \<Longrightarrow> kept E s c (B', os, w)"
  using same_maps_topology [of E B B'] place_same_role [of E B' s c "onward_phase w"] by (simp add: kept_def same_maps_def)

lemma kept_refuse:
  "topology E B \<Longrightarrow> map_of (br_conns B) s = Some c \<Longrightarrow> same_maps B B' \<Longrightarrow> role_of (cn_phase c) = Nobody \<Longrightarrow>
     kept E s c (refuse_conn t s d B') \<and> kept E s c (drop_conn B')"
  using kept_same [where w = "Quit AwaitHello"] by (simp add: refuse_conn_def drop_conn_def)

lemma onward_send_on [simp]: "onward_phase (snd (send_on t os ph)) = ph"
  by (simp add: send_on_def)

lemma kept_register:
  assumes "topology E B" and "map_of (br_conns B) s = Some c" and "same_maps B B'" and "role_of (cn_phase c) = Nobody"
  shows "kept E s c (register_desktop C E t s i B')"
proof -
  have "topology E B'" "map_of (br_conns B') s = Some c" using assms same_maps_topology by (auto simp: same_maps_def)
  then show ?thesis using place_desktop [of E B' s c i "[]"] assms(4)
    by (simp add: kept_def register_desktop_def send_on_def)
qed

lemma kept_begin_proof:
  assumes "topology E B" and "map_of (br_conns B) s = Some c" and "same_maps B B'" and "role_of (cn_phase c) = Nobody"
  shows "kept E s c (begin_proof C E t s i key B')"
proof -
  have m: "same_maps B (B'\<lparr>br_minted := Suc (br_minted B')\<rparr>)" using assms(3) by (simp add: same_maps_def)
  show ?thesis
    using kept_register [OF assms] kept_refuse [OF assms] kept_same [OF assms(1,2) m] assms(4)
    by (auto simp: begin_proof_def Let_def send_on_def split: option.splits sum.splits bool.splits onward.splits)
qed

lemma kept_prove:
  assumes "topology E B" and "map_of (br_conns B) s = Some c" and "role_of (cn_phase c) = Nobody"
  shows "kept E s c (on_prove C E t s payload i pub nonce bound B)"
proof -
  have b: "same_maps B B'" if "bind C t i pub B = (ok, B')" for ok B' using same_maps_updates(3) [of B C t i pub] that by simp
  show ?thesis
    using kept_register [OF assms(1,2) same_maps_refl assms(3)] kept_refuse [OF assms(1,2) same_maps_refl assms(3)]
      kept_register [OF assms(1,2) same_maps_updates(2) assms(3)] kept_register [OF assms(1,2) b assms(3)] kept_refuse [OF assms(1,2) b assms(3)]
    by (auto simp: on_prove_def split: option.splits jval.splits prod.splits bool.splits)
qed

lemma kept_enter_phone:
  assumes T: "topology E B" and c: "map_of (br_conns B) s = Some c" and m: "same_maps B B1" and n: "role_of (cn_phase c) = Nobody"
    and a: "admit_phone C now i B1 = (None, B2)" and i: "i \<noteq> []" and fresh: "inj (be_phone_token E)"
  shows "kept E s c (enter_phone C E t s i B2)"
proof -
  obtain x where B2: "B2 = B1\<lparr>br_phones_per_desktop := dict_set (br_phones_per_desktop B1) i (Suc (dget (br_phones_per_desktop B1) i 0)),
      br_phone_connects := x\<rparr>"
    using a by (auto simp: admit_phone_def Let_def split: if_splits)
  let ?B = "B1\<lparr>br_phone_connects := x\<rparr>"
  have m': "same_maps B ?B" using m by (simp add: same_maps_def)
  then have "topology E ?B" "map_of (br_conns ?B) s = Some c" using T c same_maps_topology by (auto simp: same_maps_def)
  from place_phone [OF this n fresh i refl, of "[]"] have
    "topology E (place s c (PhoneUp (PHONE_PREFIX @ be_phone_token E (br_minted B2)) i []) (fst (enter_phone C E t s i B2)))"
    by (cases B1) (simp add: enter_phone_def B2 Let_def)
  then show ?thesis by (simp add: kept_def enter_phone_def Let_def send_on_def)
qed

lemma kept_message:
  assumes T: "topology E B" and c: "map_of (br_conns B) s = Some c" and fresh: "inj (be_phone_token E)"
  shows "kept E s c (on_message C E t s c payload B)"
proof (cases "cn_phase c")
  case AwaitHello
  then have n: "role_of (cn_phase c) = Nobody" by simp
  show ?thesis
  proof (cases "\<exists>hello. payload = Some (JObj hello)")
    case True
    then obtain hello where p: "payload = Some (JObj hello)" by blast
    obtain ok B1 where a: "admit_ip_hello C (mo_mono t) (cn_ip c) B = (ok, B1)" by (cases "admit_ip_hello C (mo_mono t) (cn_ip c) B")
    have m1: "same_maps B B1" using same_maps_updates(4) [of B C "mo_mono t" "cn_ip c"] a by simp
    have m2: "same_maps B B2" if "admit_desktop C (mo_mono t) tok B1 = (r, B2)" for tok r B2
      using same_maps_trans [OF m1 same_maps_updates(5) [of B1 C "mo_mono t" tok]] that by simp
    have m3: "same_maps B B2" if "admit_phone C (mo_mono t) i B1 = (Some d, B2)" for i d B2
      using m1 that by (auto simp: admit_phone_def Let_def split: if_splits)
    note [simp] = kept_refuse [OF T c m1 n] kept_refuse [OF T c m2 n] kept_refuse [OF T c m3 n] kept_begin_proof [OF T c m2 n]
      kept_enter_phone [OF T c m1 n _ _ fresh]
    show ?thesis unfolding on_message_def AwaitHello
      by (simp add: on_hello_def p a Let_def split: bool.splits prod.splits sum.splits option.splits)
  next
    case False
    then show ?thesis using kept_refuse [OF T c same_maps_refl n] unfolding on_message_def AwaitHello
      by (auto simp: on_hello_def split: option.splits jval.splits)
  qed
next
  case (Proving i pub nonce bound)
  then show ?thesis using kept_prove [OF T c] by (simp add: on_message_def)
next
  case (DesktopUp i l)
  have "same_maps B (B\<lparr>br_dropped := n\<rparr>)" for n by (simp add: same_maps_def)
  then show ?thesis using DesktopUp kept_same [OF T c same_maps_refl] kept_same [OF T c, of "B\<lparr>br_dropped := _\<rparr>"]
    by (auto simp: on_message_def desktop_loop_def send_on_def Let_def split: option.splits jval.splits)
next
  case (PhoneUp p i l)
  then show ?thesis using kept_same [OF T c same_maps_refl]
    by (auto simp: on_message_def phone_loop_def send_on_def Let_def split: option.splits jval.splits)
qed

lemma accept_topology:
  assumes T: "topology E B"
  shows "topology E (fst (accept C E t peer fwd B))"
proof -
  let ?s = "br_accepted B"
  have counted: "topology E (B\<lparr>br_accepted := Suc ?s\<rparr>)"
  proof -
    have "role_at (B\<lparr>br_accepted := Suc ?s\<rparr>) = role_at B" by (simp add: role_at_def fun_eq_iff)
    moreover have "\<forall>s. role_at B s \<noteq> None \<longrightarrow> s < Suc ?s" using topology_below [OF T] less_SucI by blast
    ultimately show ?thesis using T unfolding topology_def by simp
  qed
  have new: "map_of (br_conns B) ?s = None"
  proof (cases "map_of (br_conns B) ?s")
    case (Some c)
    then have "role_at B ?s \<noteq> None" by (simp add: role_at_def)
    from topology_below [OF T this] show ?thesis by simp
  qed
  have d: "distinct (map fst (br_conns B))" by (rule topology_maps [OF T])
  show ?thesis
  proof (cases "\<exists>ip. client_ip E (bc_trusted C) peer fwd = Inr ip \<and> dget (br_ip_conns B) ip 0 < bc_max_conns_per_ip C")
    case True
    then obtain ip where ip: "client_ip E (bc_trusted C) peer fwd = Inr ip" "dget (br_ip_conns B) ip 0 < bc_max_conns_per_ip C" by blast
    let ?c = "\<lparr>cn_ip = ip, cn_phase = AwaitHello\<rparr>"
    let ?B = "B\<lparr>br_accepted := Suc ?s, br_ip_conns := dict_set (br_ip_conns B) ip (Suc (dget (br_ip_conns B) ip 0)),
      br_conns := dict_set (br_conns B) ?s ?c\<rparr>"
    have role: "role_at ?B s' = (if s' = ?s then Some Nobody else role_at B s')" for s' by (simp add: role_at_def)
    have old: "role_at B ?s = None" using new by (simp add: role_at_def)
    have "in_room r ?c = False" for r by (simp add: in_room_def)
    then have rooms: "count_vals (in_room r) (br_conns ?B) = count_vals (in_room r) (br_conns B)" for r
      using count_vals_add [OF new, of "in_room r" ?c] by simp
    have ips: "counts_ok (br_ip_conns ?B) (\<lambda>ip. count_vals (\<lambda>c. cn_ip c = ip) (br_conns ?B))"
    proof -
      have "counts_ok (dict_set (br_ip_conns B) ip (Suc (dget (br_ip_conns B) ip 0))) (\<lambda>ip. count_vals (\<lambda>c. cn_ip c = ip) (br_conns ?B))"
      proof (rule counts_up)
        show "counts_ok (br_ip_conns B) (\<lambda>ip. count_vals (\<lambda>c. cn_ip c = ip) (br_conns B))" using T by (simp add: topology_def)
      qed (auto simp: count_vals_add [OF new])
      then show ?thesis by simp
    qed
    have at: "role_at ?B s' = Some (Phone q r) \<longleftrightarrow> role_at B s' = Some (Phone q r)" for s' q r using old unfolding role by auto
    have desk: "map_of (br_desktops B) i = Some s' \<Longrightarrow> role_at ?B s' = Some (Desk i)" for i s'
      using topology_maps(1) [OF T, of i s'] old unfolding role by auto
    have below: "role_at ?B s' \<noteq> None \<Longrightarrow> s' < Suc ?s" for s'
      using T unfolding role topology_def by (auto intro: less_SucI split: if_splits)
    have "topology E ?B" unfolding topology_def at rooms
      using T desk below ips distinct_dict_set [OF d] by (simp add: topology_def)
    then show ?thesis using ip by (simp add: accept_def Let_def)
  qed (use counted in \<open>auto simp: accept_def Let_def split: sum.splits\<close>)
qed

lemma settle_topology:
  assumes "topology E B" and "map_of (br_conns B) s = Some c" and "inj (be_phone_token E)"
  shows "topology E (fst (settle s c (on_message C E t s c payload B)))"
proof -
  obtain B' os w where m: "on_message C E t s c payload B = (B', os, w)" by (cases "on_message C E t s c payload B")
  have k: "topology E (place s c (onward_phase w) B')" using kept_message [OF assms, of C t payload] m by (simp add: kept_def)
  have "map_of (br_conns (place s c (onward_phase w) B')) s = Some (c\<lparr>cn_phase := onward_phase w\<rparr>)" by (simp add: place_def)
  from leave_topology [OF k this] k show ?thesis unfolding m settle_place by (cases w) simp_all
qed

lemma handle_topology:
  "inj (be_phone_token E) \<Longrightarrow> topology E B \<Longrightarrow> topology E (fst (handle C E t ev B))"
  using accept_topology settle_topology leave_topology by (cases ev) (auto simp: handle_def split: option.split)

section \<open>The caps\<close>

definition caps :: "broker_config \<Rightarrow> broker \<Rightarrow> bool" where
  "caps C B \<longleftrightarrow> length (br_phones B) \<le> bc_max_phones C \<and> (\<forall>k. dget (br_phones_per_desktop B) k 0 \<le> bc_max_phones_per_desktop C) \<and>
     (\<forall>k. dget (br_ip_conns B) k 0 \<le> bc_max_conns_per_ip C) \<and> length (br_ip_hellos B) \<le> RATE_MAP_MAX_KEYS \<and>
     length (br_bindings B) \<le> bc_max_desktops C \<and> length (br_desktop_regs B) \<le> bc_reg_rate_limit C"

text \<open>The table of phone connects has no such bound: its sweep only drops what has expired.\<close>

lemma sweep_keeps_live:
  assumes "\<forall>(k, ts) \<in> set m. ts \<noteq> [] \<and> (\<forall>t \<in> set ts. t > now - bc_rate_window C)"
  shows "sweep_rate_map C now m = m"
proof -
  have "prune_buckets (now - bc_rate_window C) xs = xs" if "set xs \<subseteq> set m" for xs
    using that assms
  proof (induction xs)
    case (Cons a xs)
    have "recent (now - bc_rate_window C) (snd a) = snd a" using Cons.prems by (auto simp: recent_def)
    then show ?case using Cons by (auto simp: prune_buckets_def)
  qed (simp add: prune_buckets_def)
  from this [of "take RATE_MAP_MAX_KEYS m"] show ?thesis by (simp add: sweep_rate_map_def set_take_subset)
qed

lemma length_dict_set_le: "length (dict_set d k v) \<le> Suc (length d)"
  by (simp add: length_dict_set)

lemma length_dict_del_le: "length (dict_del d k) \<le> length d"
  by (simp add: dict_del_def)

lemma dget_dict_set: "dget (dict_set d k v) j x = (if j = k then v else dget d j x)"
  by (simp add: dget_def)

lemma dget_count_down: "dget (count_down m k) j 0 \<le> dget m j (0::nat)"
  by (auto simp: count_down_def dget_def split: option.splits)

lemma caps_touch: "caps C B \<Longrightarrow> caps C (touch C t i B)"
proof -
  have "i \<in> fst ` set (br_bindings B)" if "map_of (br_bindings B) i = Some e" for e
    using map_of_SomeD [OF that] by force
  then show "caps C B \<Longrightarrow> caps C (touch C t i B)"
    by (auto simp: caps_def touch_def save_bindings_def length_dict_set Let_def split: option.splits)
qed

lemma caps_bind: "caps C B \<Longrightarrow> caps C (snd (bind C t i k B))"
proof -
  have "length (reclaim (bc_binding_ttl C) (mo_wall t) (br_bindings B)) \<le> length (br_bindings B)" by (simp add: reclaim_def)
  then show "caps C B \<Longrightarrow> caps C (snd (bind C t i k B))"
    by (auto simp: caps_def bind_def save_bindings_def length_dict_set Let_def)
qed

lemma caps_admit:
  assumes "caps C B"
  shows "caps C (snd (admit_ip_hello C now ip B))" and "caps C (snd (admit_desktop C now token B))" and "caps C (snd (admit_phone C now i B))"
proof -
  show "caps C (snd (admit_ip_hello C now ip B))"
    using assms by (auto simp: caps_def admit_ip_hello_def Let_def sweep_ip_hellos_def)
  show "caps C (snd (admit_desktop C now token B))"
    using assms by (auto simp: caps_def admit_desktop_def Let_def last_n_def split: jval.splits sum.splits)
  show "caps C (snd (admit_phone C now i B))"
    using assms by (auto simp: caps_def admit_phone_def Let_def dget_dict_set)
qed

lemma count_down_le: "\<forall>k. dget m k 0 \<le> n \<Longrightarrow> dget (count_down m k') j 0 \<le> (n::nat)"
  using dget_count_down [of m k' j] le_trans by blast

lemma dict_del_le: "length d \<le> n \<Longrightarrow> length (dict_del d k) \<le> n"
  using length_dict_del_le [of d k] by simp

lemma caps_leave: "caps C B \<Longrightarrow> caps C (leave s ip ph B)"
  by (auto simp: caps_def leave_def release_phone_def Let_def intro!: count_down_le dict_del_le split: phase.splits)

lemma caps_conns [simp]: "caps C (B\<lparr>br_conns := x\<rparr>) = caps C B" "caps C (B\<lparr>br_desktops := y\<rparr>) = caps C B"
  "caps C (B\<lparr>br_minted := z\<rparr>) = caps C B" "caps C (B\<lparr>br_dropped := n\<rparr>) = caps C B" "caps C (B\<lparr>br_accepted := n\<rparr>) = caps C B"
  by (simp_all add: caps_def)

lemma caps_register: "caps C B \<Longrightarrow> caps C (fst (register_desktop C E t s i B))"
  by (simp add: register_desktop_def)

lemma caps_begin_proof: "caps C B \<Longrightarrow> caps C (fst (begin_proof C E t s i key B))"
  using caps_register by (auto simp: begin_proof_def Let_def refuse_conn_def drop_conn_def split: option.splits sum.splits bool.splits)

lemma caps_prove: "caps C B \<Longrightarrow> caps C (fst (on_prove C E t s payload i pub nonce bound B))"
proof -
  assume b: "caps C B"
  have k: "caps C B'" if "bind C t i pub B = (ok, B')" for ok B' using caps_bind [OF b, of t i pub] that by simp
  show ?thesis using b k caps_register caps_touch
    by (auto simp: on_prove_def refuse_conn_def drop_conn_def split: option.splits jval.splits prod.splits bool.splits)
qed

lemma caps_enter:
  assumes "caps C B" and "admit_phone C now i B = (None, B')"
  shows "caps C (fst (enter_phone C E t s i B'))"
proof -
  have "length (br_phones B') < bc_max_phones C" using assms(2) by (auto simp: admit_phone_def Let_def split: if_splits)
  moreover have "caps C B'" using caps_admit(3) [OF assms(1), of now i] assms(2) by simp
  ultimately show ?thesis by (simp add: enter_phone_def caps_def Let_def length_dict_set)
qed

lemma caps_hello: "caps C B \<Longrightarrow> caps C (fst (on_hello C E t s ip payload B))"
proof -
  assume b: "caps C B"
  have a1: "caps C B1" if "admit_ip_hello C now ip B = (ok, B1)" for now ok B1 using caps_admit(1) [OF b, of now ip] that by simp
  have a2: "caps C B2" if "caps C B1" "admit_desktop C now tok B1 = (r, B2)" for now tok r B1 B2
    using caps_admit(2) [OF that(1), of now tok] that(2) by simp
  have a3: "caps C B2" if "caps C B1" "admit_phone C now i B1 = (r, B2)" for now i r B1 B2
    using caps_admit(3) [OF that(1), of now i] that(2) by simp
  show ?thesis
    by (auto simp: on_hello_def refuse_conn_def drop_conn_def Let_def b intro!: caps_begin_proof intro: a1 a2 a3 caps_enter
        split: option.splits jval.splits prod.splits bool.splits sum.splits)
qed

lemma handle_caps: "caps C B \<Longrightarrow> caps C (fst (handle C E t ev B))"
proof (cases ev)
  case (Connect peer fwd)
  then show "caps C B \<Longrightarrow> ?thesis"
    by (auto simp: handle_def accept_def Let_def split: sum.splits) (auto simp: caps_def dget_dict_set)
next
  case (Recv s payload)
  have "caps C (fst (on_message C E t s c payload B))" if "caps C B" for c
    using that caps_hello caps_prove
    by (cases "cn_phase c") (auto simp: on_message_def desktop_loop_def phone_loop_def Let_def split: option.splits jval.splits)
  then have "caps C (fst (settle s c (on_message C E t s c payload B)))" if "caps C B" for c
  proof -
    obtain B' os w where m: "on_message C E t s c payload B = (B', os, w)" by (cases "on_message C E t s c payload B")
    then have "caps C B'" using \<open>\<And>c. caps C B \<Longrightarrow> caps C (fst (on_message C E t s c payload B))\<close> [of c] that by simp
    then show ?thesis using m by (cases w) (simp_all add: settle_def caps_leave)
  qed
  then show "caps C B \<Longrightarrow> ?thesis" using Recv by (auto simp: handle_def split: option.splits)
next
  case (Gone s)
  then show "caps C B \<Longrightarrow> ?thesis" by (auto simp: handle_def caps_leave split: option.splits)
qed

end
