(* ===== verification/Broker_Proofs.thy ===== *)
theory Broker_Proofs
  imports Broker_Safety
begin

text \<open>
  What the signalling broker promises: bounds and clean-up, who a message may reach, and who may register an id. The
  facts about runs come from the interpretation of \<open>event_machine\<close>.
\<close>

section \<open>Runs\<close>

text \<open>A challenge that remembers a bound key was sent for that key.\<close>

definition phase_ok :: "phase \<Rightarrow> bool" where
  "phase_ok ph = (case ph of Proving i pub nonce (Some k) \<Rightarrow> k = pub | _ \<Rightarrow> True)"

definition proving_ok :: "broker \<Rightarrow> bool" where
  "proving_ok B \<longleftrightarrow> (\<forall>s c. map_of (br_conns B) s = Some c \<longrightarrow> phase_ok (cn_phase c))"

definition broker_step :: "broker_config \<Rightarrow> broker_env \<Rightarrow> moment \<times> event \<Rightarrow> broker \<Rightarrow> broker" where
  "broker_step C E te B = fst (handle C E (fst te) (snd te) B)"

definition broker_run :: "broker_config \<Rightarrow> broker_env \<Rightarrow> bindings \<Rightarrow> (moment \<times> event) list \<Rightarrow> broker" where
  "broker_run C E m es = fold (broker_step C E) es (start_broker m)"

lemma leave_conns [simp]: "br_conns (leave s ip ph B) = dict_del (br_conns B) s"
  by (simp add: leave_def release_phone_def Let_def split: phase.splits)

lemma same_conns [simp]:
  "br_conns (save_bindings C t B) = br_conns B" "br_conns (touch C t i B) = br_conns B" "br_conns (snd (bind C t i k B)) = br_conns B"
  "br_conns (snd (admit_ip_hello C now ip B)) = br_conns B" "br_conns (snd (admit_desktop C now token B)) = br_conns B"
  using same_maps_updates by (simp_all add: same_maps_def)

lemma bind_conns: "bind C t i k B = (ok, B') \<Longrightarrow> br_conns B' = br_conns B"
  using same_conns(3) [of C t i k B] by (metis snd_conv)

lemma admit_phone_conns [simp]: "br_conns (snd (admit_phone C now i B)) = br_conns B"
  by (simp add: admit_phone_def Let_def)

lemma reply_conns [simp]:
  "br_conns (fst (refuse_conn t s d B)) = br_conns B" "br_conns (fst (drop_conn B)) = br_conns B"
  "br_conns (fst (register_desktop C E t s i B)) = br_conns B" "br_conns (fst (enter_phone C E t s i B)) = br_conns B"
  by (simp_all add: refuse_conn_def drop_conn_def register_desktop_def enter_phone_def Let_def)

text \<open>The ways a handler ends, as rules: one premise for each.\<close>

lemma begin_proof_cases:
  fixes i :: string
  defines "bound \<equiv> \<lambda>B. if startswith i PAIR_PREFIX then None else bind_get (br_bindings B) i"
  assumes "P (drop_conn B)" and "P (refuse_conn t s ''unauthorized'' B)"
    and "str_or_empty E key = [] \<Longrightarrow> bc_allow_legacy C \<Longrightarrow> bound B = None \<Longrightarrow> P (register_desktop C E t s i B)"
    and "\<And>pub nonce w. pub = str_or_empty E key \<Longrightarrow> nonce = be_nonce E (br_minted B) \<Longrightarrow> bound B = None \<or> bound B = Some pub \<Longrightarrow>
      w = Quit AwaitHello \<or> w = Stay (Proving i pub nonce (bound B)) \<Longrightarrow>
      P (B\<lparr>br_minted := Suc (br_minted B)\<rparr>, sent t [(s, Challenge (be_b64e E nonce))], w)"
  shows "P (begin_proof C E t s i key B)"
  using assms(2-) unfolding bound_def begin_proof_def Let_def send_on_def compare_digest_def
  by (auto split: option.split sum.split bool.split)

lemma on_prove_cases:
  assumes "P (drop_conn B)" and "P (refuse_conn t s ''unauthorized'' B)" and "P (refuse_conn t s ''busy'' (snd (bind C t i pub B)))"
    and "\<And>reply B'. payload = Some (JObj reply) \<Longrightarrow> opt_get reply ''type'' JNull = JStr ''prove'' \<Longrightarrow>
      verify_registration E pub (str_or_empty E (opt_get reply ''sig'' JNull)) nonce i \<Longrightarrow>
      startswith i PAIR_PREFIX \<and> B' = B \<or> \<not> startswith i PAIR_PREFIX \<and> bound \<noteq> None \<and> B' = touch C t i B \<or>
        \<not> startswith i PAIR_PREFIX \<and> bound = None \<and> bind C t i pub B = (True, B') \<Longrightarrow>
      P (register_desktop C E t s i B')"
  shows "P (on_prove C E t s payload i pub nonce bound B)"
proof (cases "bind C t i pub B")
  case (Pair ok B')
  then show ?thesis using assms unfolding on_prove_def by (cases ok) (auto split: option.split jval.split)
qed

lemma on_hello_cases:
  fixes C :: broker_config and t :: moment and ip :: string and B :: broker
  defines "B1 \<equiv> snd (admit_ip_hello C (mo_mono t) ip B)"
  assumes "P (drop_conn B)" and "\<And>d. P (refuse_conn t s d B1)"
    and "\<And>token. P (drop_conn (snd (admit_desktop C (mo_mono t) token B1)))"
    and "\<And>token d. P (refuse_conn t s d (snd (admit_desktop C (mo_mono t) token B1)))"
    and "\<And>i d. P (refuse_conn t s d (snd (admit_phone C (mo_mono t) i B1)))"
    and "\<And>hello i token key. payload = Some (JObj hello) \<Longrightarrow> \<not> has_key (br_desktops B) i \<Longrightarrow>
      P (begin_proof C E t s i key (snd (admit_desktop C (mo_mono t) token B1)))"
    and "\<And>i B2. i \<noteq> [] \<Longrightarrow> admit_phone C (mo_mono t) i B1 = (None, B2) \<Longrightarrow> P (enter_phone C E t s i B2)"
  shows "P (on_hello C E t s ip payload B)"
proof (cases "\<exists>hello. payload = Some (JObj hello)")
  case True
  then obtain hello where p: "payload = Some (JObj hello)" by blast
  obtain ok where a: "admit_ip_hello C (mo_mono t) ip B = (ok, B1)" unfolding B1_def by (metis prod.collapse)
  have desks: "br_desktops (snd (admit_desktop C (mo_mono t) token B1)) = br_desktops B" for token
    using same_maps_trans [OF same_maps_updates(4) same_maps_updates(5)] by (simp add: same_maps_def B1_def)
  let ?i = "str_or_empty E (opt_get hello ''desktop_id'' JNull)" and ?tok = "opt_get hello ''token'' JNull"
  obtain r D where d: "admit_desktop C (mo_mono t) ?tok B1 = (r, D)" by (cases "admit_desktop C (mo_mono t) ?tok B1")
  obtain v F where ph: "admit_phone C (mo_mono t) ?i B1 = (v, F)" by (cases "admit_phone C (mo_mono t) ?i B1")
  have desktop: "P (case admit_desktop C (mo_mono t) ?tok B1 of
      (Inl _, B2) \<Rightarrow> drop_conn B2 | (Inr (Some detail), B2) \<Rightarrow> refuse_conn t s detail B2
    | (Inr None, B2) \<Rightarrow> if has_key (br_desktops B2) ?i then refuse_conn t s ''already registered'' B2
        else begin_proof C E t s ?i (opt_get hello ''pubkey'' JNull) B2)"
    using assms(4) [of ?tok] assms(5) [of _ ?tok] assms(7) [OF p, of ?i "opt_get hello ''pubkey'' JNull" ?tok] desks [of ?tok]
    by (auto simp: d split: sum.split option.split)
  have phone: "P (case admit_phone C (mo_mono t) ?i B1 of
      (Some detail, B2) \<Rightarrow> refuse_conn t s detail B2 | (None, B2) \<Rightarrow> enter_phone C E t s ?i B2)" if "?i \<noteq> []"
    using assms(6) [of _ ?i] assms(8) [OF that] by (cases v) (simp_all add: ph)
  show ?thesis unfolding on_hello_def p using assms(3) desktop phone a by (cases ok) (simp_all add: Let_def)
qed (use assms(2) in \<open>auto simp: on_hello_def split: option.split jval.split\<close>)

lemma begin_proof_conns [simp]: "br_conns (fst (begin_proof C E t s i key B)) = br_conns B"
  by (rule begin_proof_cases) simp_all

lemma prove_conns [simp]: "br_conns (fst (on_prove C E t s payload i pub nonce bound B)) = br_conns B"
proof (rule on_prove_cases)
  show "br_conns (fst (register_desktop C E t s i B')) = br_conns B"
    if "startswith i PAIR_PREFIX \<and> B' = B \<or> \<not> startswith i PAIR_PREFIX \<and> bound \<noteq> None \<and> B' = touch C t i B \<or>
      \<not> startswith i PAIR_PREFIX \<and> bound = None \<and> bind C t i pub B = (True, B')" for B'
    using that bind_conns by auto
qed simp_all

lemma hello_conns [simp]: "br_conns (fst (on_hello C E t s ip payload B)) = br_conns B"
proof (rule on_hello_cases)
  show "br_conns (fst (enter_phone C E t s i B2)) = br_conns B"
    if "admit_phone C (mo_mono t) i (snd (admit_ip_hello C (mo_mono t) ip B)) = (None, B2)" for i B2
    using admit_phone_conns [of C "mo_mono t" i "snd (admit_ip_hello C (mo_mono t) ip B)"] that by simp
qed simp_all

lemma loop_conns [simp]:
  "br_conns (fst (phone_loop C t s payload p i l B)) = br_conns B" "br_conns (fst (desktop_loop C E t payload i l B)) = br_conns B"
  by (auto simp: phone_loop_def desktop_loop_def Let_def split: option.splits jval.splits)

lemma message_conns [simp]: "br_conns (fst (on_message C E t s c payload B)) = br_conns B"
  by (simp add: on_message_def split: phase.split)

text \<open>The challenges a handler can leave open.\<close>

definition challenge_ok :: "broker_env \<Rightarrow> broker \<Rightarrow> onward \<Rightarrow> bool" where
  "challenge_ok E B w \<longleftrightarrow> (\<forall>i pub nonce bound. onward_phase w = Proving i pub nonce bound \<longrightarrow>
     bound = (if startswith i PAIR_PREFIX then None else bind_get (br_bindings B) i) \<and> (\<forall>k. bound = Some k \<longrightarrow> k = pub) \<and>
     nonce = be_nonce E (br_minted B))"

lemma challenge_ok_simps [simp]:
  "challenge_ok E B (snd (snd (refuse_conn t s d B')))" "challenge_ok E B (snd (snd (drop_conn B')))"
  "challenge_ok E B (snd (snd (register_desktop C E t s i B')))" "challenge_ok E B (snd (snd (enter_phone C E t s i B')))"
  by (simp_all add: challenge_ok_def refuse_conn_def drop_conn_def register_desktop_def enter_phone_def Let_def)

lemma begin_proof_challenge: "challenge_ok E B (snd (snd (begin_proof C E t s i key B)))"
  by (rule begin_proof_cases) (auto simp: challenge_ok_def refuse_conn_def drop_conn_def register_desktop_def)

lemma prove_challenge: "challenge_ok E B (snd (snd (on_prove C E t s payload i pub nonce bound B)))"
  by (rule on_prove_cases [where P = "\<lambda>r. challenge_ok E B (snd (snd r))"]) (simp_all only: challenge_ok_simps)

lemma challenge_ok_same:
  "br_bindings B' = br_bindings B \<Longrightarrow> br_minted B' = br_minted B \<Longrightarrow> challenge_ok E B' w \<Longrightarrow> challenge_ok E B w"
  by (simp only: challenge_ok_def)

lemma same_bindings:
  "br_bindings (snd (admit_ip_hello C now ip B)) = br_bindings B" "br_bindings (snd (admit_desktop C now token B)) = br_bindings B"
  "br_minted (snd (admit_ip_hello C now ip B)) = br_minted B" "br_minted (snd (admit_desktop C now token B)) = br_minted B"
  by (auto simp: admit_ip_hello_def admit_desktop_def Let_def split: jval.splits sum.splits)

lemma hello_challenge: "challenge_ok E B (snd (snd (on_hello C E t s ip payload B)))"
proof (rule on_hello_cases)
  show "challenge_ok E B (snd (snd (begin_proof C E t s i key (snd (admit_desktop C (mo_mono t) token (snd (admit_ip_hello C (mo_mono t) ip B)))))))"
    for i key token
    using challenge_ok_same [OF _ _ begin_proof_challenge, of "snd (admit_desktop C (mo_mono t) token (snd (admit_ip_hello C (mo_mono t) ip B)))" B]
    by (simp add: same_bindings)
qed simp_all

lemma message_challenge: "challenge_ok E B (snd (snd (on_message C E t s c payload B)))"
  using hello_challenge prove_challenge
  by (auto simp: on_message_def split: phase.split)
    (auto simp: desktop_loop_def phone_loop_def challenge_ok_def Let_def send_on_def split: option.splits jval.splits)

lemma proving_ok_settle:
  assumes ok: "proving_ok B" and c: "map_of (br_conns B) s = Some c"
  shows "proving_ok (fst (settle s c (on_message C E t s c payload B)))"
proof -
  obtain B' os w where m: "on_message C E t s c payload B = (B', os, w)" by (cases "on_message C E t s c payload B")
  have conns: "br_conns B' = br_conns B" using message_conns [of C E t s c payload B] m by simp
  have ch: "challenge_ok E B w" using message_challenge [of E B C t s c payload] m by simp
  have "phase_ok (onward_phase w)" using ch by (cases "onward_phase w") (auto simp: phase_ok_def challenge_ok_def split: option.split)
  then show ?thesis using ok conns unfolding m proving_ok_def by (cases w) (auto simp: settle_def split: if_splits)
qed

lemma proving_ok_handle: "proving_ok B \<Longrightarrow> proving_ok (fst (handle C E t ev B))"
proof (cases ev)
  case (Connect peer fwd)
  then show "proving_ok B \<Longrightarrow> ?thesis"
    by (auto simp: handle_def accept_def Let_def proving_ok_def phase_ok_def split: sum.splits)
next
  case (Recv s payload)
  then show "proving_ok B \<Longrightarrow> ?thesis" using proving_ok_settle by (auto simp: handle_def split: option.split)
next
  case (Gone s)
  then show "proving_ok B \<Longrightarrow> ?thesis" by (auto simp: handle_def proving_ok_def split: option.split)
qed

lemma start_topology: "topology E (start_broker m)"
  by (simp add: topology_def start_broker_def role_at_def counts_ok_def count_vals_def)

lemma start_caps: "length m \<le> bc_max_desktops C \<Longrightarrow> caps C (start_broker m)"
  by (simp add: caps_def start_broker_def dget_def)

text \<open>What every run keeps, when the random tokens do not repeat and the bindings loaded fit.\<close>

definition broker_inv :: "broker_config \<Rightarrow> broker_env \<Rightarrow> bindings \<Rightarrow> broker \<Rightarrow> bool" where
  "broker_inv C E m B \<longleftrightarrow> (inj (be_phone_token E) \<longrightarrow> topology E B) \<and> (length m \<le> bc_max_desktops C \<longrightarrow> caps C B) \<and> proving_ok B"

interpretation broker_machine: event_machine "broker_step C E" "start_broker m" "broker_inv C E m" "\<lambda>_. True"
  for C E m
proof
  show "broker_inv C E m (start_broker m)"
    using start_topology start_caps by (simp add: broker_inv_def proving_ok_def) (simp add: start_broker_def)
  show "broker_inv C E m (broker_step C E e B)" if "broker_inv C E m B" for e B
    using that handle_topology handle_caps proving_ok_handle by (simp add: broker_inv_def broker_step_def)
qed

lemma run_inv: "broker_inv C E m (broker_run C E m es)"
  unfolding broker_run_def by (rule broker_machine.inv_run) simp

lemma run_topology: "inj (be_phone_token E) \<Longrightarrow> topology E (broker_run C E m es)"
  using run_inv [of C E m es] by (simp add: broker_inv_def)

section \<open>Bounds and clean-up\<close>


text \<open>
  C36: The maps hold exactly what is open: a phone's entry and its room are there just while its connection is, an
  id leads only to a connection that registered it, and when the last connection has ended nothing is left in any of them.
\<close>

theorem broker_forgets_what_left:
  assumes "inj (be_phone_token E)" and "B = broker_run C E m es"
  shows "(\<forall>p s. map_of (br_phones B) p = Some s \<longleftrightarrow> (\<exists>room. role_at B s = Some (Phone p room) \<and> map_of (br_phone_rooms B) p = Some room)) \<and>
    (\<forall>i s. map_of (br_desktops B) i = Some s \<longrightarrow> role_at B s = Some (Desk i)) \<and>
    (br_conns B = [] \<longrightarrow> br_desktops B = [] \<and> br_phones B = [] \<and> br_phone_rooms B = [] \<and> br_ip_conns B = [] \<and> br_phones_per_desktop B = [])"
proof -
  have T: "topology E B" using run_topology assms by simp
  have nil: "d = []" if "\<And>k. map_of d k = None" for d :: "('k \<times> 'v) list"
    using that [of "fst (hd d)"] by (cases d) auto
  have none: "role_at B s = None" if "br_conns B = []" for s using that by (simp add: role_at_def)
  have zero: "counts_ok m f \<Longrightarrow> (\<And>k. f k = 0) \<Longrightarrow> m = []" for m f by (rule nil) (simp add: counts_ok_def)
  have "br_desktops B = []" "br_phones B = []" "br_phone_rooms B = []" if e: "br_conns B = []"
    using topology_maps(1,2,3) [OF T] none [OF e] by (auto intro!: nil) (metis not_None_eq option.distinct(1))+
  moreover have "br_ip_conns B = []" "br_phones_per_desktop B = []" if e: "br_conns B = []"
    using T e zero [of "br_ip_conns B" "\<lambda>_. 0"] zero [of "br_phones_per_desktop B" "\<lambda>_. 0"] by (simp_all add: topology_def count_vals_def)
  ultimately show ?thesis using topology_maps(1,2,3) [OF T] topology_unique [OF T] by blast
qed

section \<open>Who a message reaches\<close>

text \<open>
  Where a message of the step that socket \<open>s\<close> woke may go: an offer from a phone to the Desktop of its room, an answer from a
  Desktop to a phone of its room, anything else (challenges, relay credentials, errors) to \<open>s\<close> itself.
\<close>

definition routed :: "broker \<Rightarrow> sock \<Rightarrow> sock \<times> out \<Rightarrow> bool" where
  "routed B s d \<longleftrightarrow> (case snd d of
       Offer p _ \<Rightarrow> \<exists>i. role_at B s = Some (Phone p i) \<and> role_at B (fst d) = Some (Desk i) \<and> map_of (br_desktops B) i = Some (fst d)
     | Answer _ \<Rightarrow> \<exists>p i. role_at B s = Some (Desk i) \<and> role_at B (fst d) = Some (Phone p i)
     | _ \<Rightarrow> fst d = s)"

definition own :: "sock \<Rightarrow> sends \<Rightarrow> bool" where
  "own s os = list_all (\<lambda>d. fst d = s \<and> (case snd d of Offer _ _ \<Rightarrow> False | Answer _ \<Rightarrow> False | _ \<Rightarrow> True)) os"

lemma sent_subset: "set (sent t os) \<subseteq> set os"
  by (auto simp: sent_def dest: set_takeWhileD)

lemma own_sent: "own s os \<Longrightarrow> own s (sent t os)"
  using sent_subset by (fastforce simp: own_def list_all_iff)

lemma own_routed: "own s os \<Longrightarrow> d \<in> set os \<Longrightarrow> routed B s d"
  by (auto simp: own_def list_all_iff routed_def split: out.splits)

lemma own_replies [simp]:
  "own s (fst (snd (refuse_conn t s d B)))" "own s (fst (snd (drop_conn B)))" "own s (fst (snd (register_desktop C E t s i B)))"
  "own s (fst (snd (enter_phone C E t s i B)))" "own s (sent t [(s, Challenge n)])"
  by (auto simp: refuse_conn_def drop_conn_def register_desktop_def enter_phone_def send_on_def Let_def intro!: own_sent)
    (simp_all add: own_def)

lemma own_begin_proof: "own s (fst (snd (begin_proof C E t s i key B)))"
  by (rule begin_proof_cases [where P = "\<lambda>r. own s (fst (snd r))"]) (simp_all only: own_replies fst_conv snd_conv)

lemma own_prove: "own s (fst (snd (on_prove C E t s payload i pub nonce bound B)))"
  by (rule on_prove_cases [where P = "\<lambda>r. own s (fst (snd r))"]) (simp_all only: own_replies)

lemma own_hello: "own s (fst (snd (on_hello C E t s ip payload B)))"
  by (rule on_hello_cases [where P = "\<lambda>r. own s (fst (snd r))"]) (simp_all only: own_replies own_begin_proof)

lemma message_routed:
  assumes T: "topology E B" and c: "map_of (br_conns B) s = Some c" and m: "on_message C E t s c payload B = (B', os, w)" and d: "d \<in> set os"
  shows "routed B s d"
proof (cases "cn_phase c")
  case AwaitHello
  then have "own s os" using own_hello [of s C E t "cn_ip c" payload B] m by (simp add: on_message_def)
  then show ?thesis using d by (rule own_routed)
next
  case (Proving i pub nonce bound)
  then have "own s os" using own_prove [of s C E t payload i pub nonce bound B] m by (simp add: on_message_def)
  then show ?thesis using d by (rule own_routed)
next
  case (DesktopUp i l)
  have at: "role_at B s = Some (Desk i)" using c DesktopUp by (simp add: role_at_def)
  obtain p phone sdp where "map_of (br_phones B) p = Some phone" "map_of (br_phone_rooms B) p = Some i" and os: "d = (phone, Answer sdp)"
    using m d sent_subset unfolding on_message_def DesktopUp
    by (fastforce simp: desktop_loop_def send_on_def Let_def split: option.splits jval.splits if_splits)
  then have "role_at B phone = Some (Phone p i)" using topology_maps(2,3) [OF T] topology_unique [OF T] by metis
  then show ?thesis using at os by (auto simp: routed_def)
next
  case (PhoneUp p i l)
  have at: "role_at B s = Some (Phone p i)" using c PhoneUp by (simp add: role_at_def)
  have "fst d = s \<and> (\<exists>e. snd d = ErrorMsg e) \<or> (\<exists>desk sdp. map_of (br_desktops B) i = Some desk \<and> d = (desk, Offer p sdp))"
    using m d sent_subset unfolding on_message_def PhoneUp
    by (fastforce simp: phone_loop_def send_on_def Let_def split: option.splits jval.splits if_splits)
  then show ?thesis using at topology_maps(1) [OF T] by (auto simp: routed_def)
qed

text \<open>
  C34: A message stays in its room. In every run, what a step sends goes to the socket that woke it, except that a phone's offer
  goes to the Desktop registered for the id the phone dialled, and a Desktop's answer to a phone that dialled that Desktop's
  id; relay credentials and challenges are never sent to another client.
\<close>

theorem messages_stay_in_their_room:
  assumes "inj (be_phone_token E)" and "B = broker_run C E m es" and "handle C E t ev B = (B', os)" and "(dest, msg) \<in> set os"
  shows "\<exists>s. (case ev of Connect _ _ \<Rightarrow> s = br_accepted B | Recv s' _ \<Rightarrow> s = s' | Gone s' \<Rightarrow> s = s') \<and>
    (case msg of
       Offer p _ \<Rightarrow> \<exists>i. role_at B s = Some (Phone p i) \<and> role_at B dest = Some (Desk i) \<and> map_of (br_desktops B) i = Some dest
     | Answer _ \<Rightarrow> \<exists>p i. role_at B s = Some (Desk i) \<and> role_at B dest = Some (Phone p i)
     | _ \<Rightarrow> dest = s)"
proof (cases ev)
  case (Connect peer fwd)
  then have "dest = br_accepted B \<and> msg = ErrorMsg ''busy''" using assms(3,4) sent_subset
    by (fastforce simp: handle_def accept_def Let_def split: sum.splits if_splits)
  then show ?thesis using Connect by simp
next
  case (Recv s payload)
  obtain c where c: "map_of (br_conns B) s = Some c" using assms(3,4) Recv by (auto simp: handle_def split: option.splits)
  obtain B1 os1 w where h: "on_message C E t s c payload B = (B1, os1, w)" by (cases "on_message C E t s c payload B")
  have "os1 = os" using assms(3) Recv c h by (cases w) (auto simp: handle_def settle_def)
  then have "routed B s (dest, msg)" using message_routed [OF run_topology [OF assms(1)]] c h assms(2,4) by blast
  then show ?thesis using Recv unfolding routed_def fst_conv snd_conv by simp
next
  case (Gone s)
  then show ?thesis using assms(3,4) by (auto simp: handle_def split: option.splits)
qed

section \<open>Who may register an id\<close>

lemma same_desks [simp]:
  "br_desktops (save_bindings C t B) = br_desktops B" "br_desktops (touch C t i B) = br_desktops B" "br_desktops (snd (bind C t i k B)) = br_desktops B"
  "br_desktops (snd (admit_ip_hello C now ip B)) = br_desktops B" "br_desktops (snd (admit_desktop C now token B)) = br_desktops B"
  using same_maps_updates by (simp_all add: same_maps_def)

lemma bind_desks: "bind C t i k B = (ok, B') \<Longrightarrow> br_desktops B' = br_desktops B"
  using same_desks(3) [of C t i k B] by (metis snd_conv)

lemma admit_phone_desks [simp]: "br_desktops (snd (admit_phone C now i B)) = br_desktops B"
  by (simp add: admit_phone_def Let_def)

lemma reply_desks [simp]:
  "br_desktops (fst (refuse_conn t s d B)) = br_desktops B" "br_desktops (fst (drop_conn B)) = br_desktops B"
  "br_desktops (fst (enter_phone C E t s i B)) = br_desktops B"
  "br_desktops (fst (register_desktop C E t s i B)) = dict_set (br_desktops B) i s"
  by (simp_all add: refuse_conn_def drop_conn_def register_desktop_def enter_phone_def Let_def)

text \<open>A result that registers nothing new for an id whose binding is known.\<close>

definition quiet :: "string \<Rightarrow> broker \<Rightarrow> broker \<Rightarrow> bool" where
  "quiet i B B' \<longleftrightarrow> map_of (br_desktops B') i = map_of (br_desktops B) i"

lemma quiet_begin_proof:
  assumes "bind_get (br_bindings B0) i = Some k" and "\<not> startswith i PAIR_PREFIX"
    and "br_bindings B = br_bindings B0" and "br_desktops B = br_desktops B0"
  shows "quiet i B0 (fst (begin_proof C E t s j key B))"
  by (rule begin_proof_cases [where P = "\<lambda>r. quiet i B0 (fst r)"]) (use assms in \<open>auto simp: quiet_def\<close>)

lemma quiet_hello:
  assumes "bind_get (br_bindings B) i = Some k" and "\<not> startswith i PAIR_PREFIX"
  shows "quiet i B (fst (on_hello C E t s ip payload B))"
proof (rule on_hello_cases [where P = "\<lambda>r. quiet i B (fst r)"])
  show "quiet i B (fst (enter_phone C E t s j B2))"
    if "admit_phone C (mo_mono t) j (snd (admit_ip_hello C (mo_mono t) ip B)) = (None, B2)" for j B2
    using admit_phone_desks [of C "mo_mono t" j "snd (admit_ip_hello C (mo_mono t) ip B)"] that by (simp add: quiet_def)
qed (auto simp: quiet_def [symmetric] same_bindings intro!: quiet_begin_proof [OF assms], simp_all add: quiet_def)

lemma prove_registers:
  assumes "\<not> quiet i B (fst (on_prove C E t s payload j pub nonce bound B))"
  shows "j = i \<and> (\<exists>reply. payload = Some (JObj reply) \<and> opt_get reply ''type'' JNull = JStr ''prove'' \<and>
    verify_registration E pub (str_or_empty E (opt_get reply ''sig'' JNull)) nonce j)"
proof (rule ccontr)
  assume no: "\<not> ?thesis"
  have "quiet i B (fst (on_prove C E t s payload j pub nonce bound B))"
  proof (rule on_prove_cases [where P = "\<lambda>r. quiet i B (fst r)"])
    fix reply B'
    assume h: "payload = Some (JObj reply)" "opt_get reply ''type'' JNull = JStr ''prove''"
      "verify_registration E pub (str_or_empty E (opt_get reply ''sig'' JNull)) nonce j"
      "startswith j PAIR_PREFIX \<and> B' = B \<or> \<not> startswith j PAIR_PREFIX \<and> bound \<noteq> None \<and> B' = touch C t j B \<or>
        \<not> startswith j PAIR_PREFIX \<and> bound = None \<and> bind C t j pub B = (True, B')"
    then have "j \<noteq> i" using no by blast
    moreover have "br_desktops B' = br_desktops B" using h(4) bind_desks by auto
    ultimately show "quiet i B (fst (register_desktop C E t s j B'))" by (simp add: quiet_def)
  qed (simp_all add: quiet_def)
  then show False using assms by blast
qed

text \<open>No connection is on its way to register the id under another key.\<close>

definition guarded_id :: "string \<Rightarrow> string \<Rightarrow> broker \<Rightarrow> bool" where
  "guarded_id i k B \<longleftrightarrow> (\<forall>s c pub nonce bound. map_of (br_conns B) s = Some c \<longrightarrow> cn_phase c = Proving i pub nonce bound \<longrightarrow> pub = k)"

fun bound_throughout :: "broker_config \<Rightarrow> broker_env \<Rightarrow> string \<Rightarrow> string \<Rightarrow> (moment \<times> event) list \<Rightarrow> broker \<Rightarrow> bool" where
  "bound_throughout C E i k [] B = (bind_get (br_bindings B) i = Some k)"
| "bound_throughout C E i k (te # es) B = (bind_get (br_bindings B) i = Some k \<and> bound_throughout C E i k es (broker_step C E te B))"

lemma guarded_step:
  assumes g: "guarded_id i k B" and b: "bind_get (br_bindings B) i = Some k" and n: "\<not> startswith i PAIR_PREFIX"
  shows "guarded_id i k (broker_step C E te B)"
proof (cases "snd te")
  case (Connect peer fwd)
  then show ?thesis using g
    by (auto simp: broker_step_def handle_def accept_def Let_def guarded_id_def split: sum.splits)
next
  case (Gone s)
  then show ?thesis using g by (auto simp: broker_step_def handle_def guarded_id_def split: option.split)
next
  case (Recv s payload)
  show ?thesis
  proof (cases "map_of (br_conns B) s")
    case (Some c)
    obtain B1 os w where h: "on_message C E (fst te) s c payload B = (B1, os, w)" by (cases "on_message C E (fst te) s c payload B")
    have conns: "br_conns B1 = br_conns B" using message_conns [of C E "fst te" s c payload B] h by simp
    have "pub = k" if "onward_phase w = Proving i pub nonce bound" for pub nonce bound
      using message_challenge [of E B C "fst te" s c payload] h that b n by (auto simp: challenge_ok_def)
    then show ?thesis using g conns Recv Some h
      by (cases w) (auto simp: broker_step_def handle_def settle_def guarded_id_def)
  qed (use g Recv in \<open>simp add: broker_step_def handle_def\<close>)
qed

lemma guarded_run:
  "guarded_id i k B \<Longrightarrow> bound_throughout C E i k es B \<Longrightarrow> \<not> startswith i PAIR_PREFIX \<Longrightarrow>
     guarded_id i k (fold (broker_step C E) es B) \<and> bind_get (br_bindings (fold (broker_step C E) es B)) i = Some k"
  by (induction es arbitrary: B) (auto intro: guarded_step)

lemma leave_desks: "map_of (br_desktops (leave s ip ph B)) i = Some s' \<Longrightarrow> map_of (br_desktops B) i = Some s'"
  by (auto simp: leave_def release_phone_def Let_def split: phase.splits if_splits)

text \<open>
  C33: An id that is bound to a key can only be registered with that key: while the binding stands, and no other key's
  challenge was already open when it began to, whatever happens on the other sockets, a new registration of the id is the
  answer to a challenge, on the same socket, with a valid signature under the bound key over the challenge's nonce and the id.
\<close>

theorem bound_id_needs_its_key:
  assumes "guarded_id i k B0" and "bound_throughout C E i k es B0" and "\<not> startswith i PAIR_PREFIX"
    and "B = fold (broker_step C E) es B0"
    and "map_of (br_desktops (broker_step C E (t, ev) B)) i = Some s" and "map_of (br_desktops B) i \<noteq> Some s"
  shows "\<exists>c nonce bound reply. ev = Recv s (Some (JObj reply)) \<and> map_of (br_conns B) s = Some c \<and> cn_phase c = Proving i k nonce bound \<and>
    verify_registration E k (str_or_empty E (opt_get reply ''sig'' JNull)) nonce i"
proof -
  have g: "guarded_id i k B" and b: "bind_get (br_bindings B) i = Some k" using guarded_run [OF assms(1,2,3)] assms(4) by simp_all
  obtain s' payload c where ev: "ev = Recv s' payload" and c: "map_of (br_conns B) s' = Some c"
    using assms(5,6)
    by (cases ev) (auto simp: broker_step_def handle_def accept_def Let_def dest!: leave_desks split: option.splits sum.splits if_splits)
  obtain B1 os w where h: "on_message C E t s' c payload B = (B1, os, w)" by (cases "on_message C E t s' c payload B")
  have "map_of (br_desktops B1) i = Some s" using assms(5) ev c h
    by (cases w) (auto simp: broker_step_def handle_def settle_def dest!: leave_desks)
  then have nq: "\<not> quiet i B (fst (on_message C E t s' c payload B))" using assms(6) h by (simp add: quiet_def)
  have "cn_phase c \<noteq> AwaitHello" using nq quiet_hello [OF b assms(3)] by (auto simp: on_message_def)
  moreover have "cn_phase c \<noteq> DesktopUp j l" "cn_phase c \<noteq> PhoneUp p j l" for j l p using nq
    by (auto simp: on_message_def desktop_loop_def phone_loop_def quiet_def Let_def split: option.splits jval.splits if_splits)
  ultimately obtain j pub nonce bound where ph: "cn_phase c = Proving j pub nonce bound" by (cases "cn_phase c") blast+
  then have "\<not> quiet i B (fst (on_prove C E t s' payload j pub nonce bound B))" using nq by (simp add: on_message_def)
  from prove_registers [OF this] obtain reply where r: "j = i" "payload = Some (JObj reply)"
    "verify_registration E pub (str_or_empty E (opt_get reply ''sig'' JNull)) nonce i" by blast
  have "pub = k" using g c ph r(1) unfolding guarded_id_def by blast
  moreover have "s' = s"
  proof -
    have "map_of (br_desktops (fst (on_prove C E t s' payload j pub nonce bound B))) i = Some s' \<or> quiet i B (fst (on_prove C E t s' payload j pub nonce bound B))"
    proof (rule on_prove_cases [where P = "\<lambda>r. map_of (br_desktops (fst r)) i = Some s' \<or> quiet i B (fst r)"])
    qed (use r(1) in \<open>simp_all add: quiet_def\<close>)
    then show ?thesis using nq h ph \<open>map_of (br_desktops B1) i = Some s\<close> by (simp add: on_message_def)
  qed
  ultimately show ?thesis using ev c ph r by blast
qed

end
