(* ===== verification/Broker_Bindings.thy ===== *)
theory Broker_Bindings
  imports Broker_Proofs
begin

text \<open>
  The signalling broker's bindings: a live one is never lost and comes back after a restart; what a registration signs;
  concrete runs, among them the two first registrations of one id that cross.
\<close>

section \<open>A live binding stays\<close>

lemma map_of_filter_kept: "map_of d k = Some v \<Longrightarrow> p (k, v) \<Longrightarrow> map_of (filter p d) k = Some v"
  by (induction d) (auto split: if_splits)

text \<open>The binding of \<open>i\<close> is \<open>e\<close>, up to its time, which may have been brought forward to \<open>now\<close>.\<close>

definition still_bound :: "string \<Rightarrow> binding \<Rightarrow> int \<Rightarrow> broker \<Rightarrow> bool" where
  "still_bound i e now B \<longleftrightarrow> (\<exists>e'. map_of (br_bindings B) i = Some e' \<and> bd_pubkey e' = bd_pubkey e \<and> (bd_seen e' = bd_seen e \<or> bd_seen e' = now))"

lemma still_bound_same: "br_bindings B' = br_bindings B \<Longrightarrow> still_bound i e now B \<Longrightarrow> still_bound i e now B'"
  by (simp add: still_bound_def)

lemma still_bound_touch: "map_of (br_bindings B) i = Some e \<Longrightarrow> still_bound i e (mo_wall t) (touch C t j B)"
  by (auto simp: still_bound_def touch_def save_bindings_def Let_def split: option.split)

lemma still_bound_bind:
  assumes "map_of (br_bindings B) i = Some e" and "mo_wall t - bd_seen e \<le> bc_binding_ttl C"
  shows "still_bound i e now (snd (bind C t j k B))"
proof -
  have "map_of (reclaim (bc_binding_ttl C) (mo_wall t) (br_bindings B)) i = Some e"
    unfolding reclaim_def by (rule map_of_filter_kept) (use assms in auto)
  then show ?thesis using assms(1) by (auto simp: still_bound_def bind_def save_bindings_def has_key_iff Let_def)
qed

lemma reply_bindings [simp]:
  "br_bindings (fst (refuse_conn t s d B)) = br_bindings B" "br_bindings (fst (drop_conn B)) = br_bindings B"
  "br_bindings (fst (register_desktop C E t s i B)) = br_bindings B" "br_bindings (fst (enter_phone C E t s i B)) = br_bindings B"
  by (simp_all add: refuse_conn_def drop_conn_def register_desktop_def enter_phone_def Let_def)

lemma admit_phone_bindings [simp]: "br_bindings (snd (admit_phone C now i B)) = br_bindings B"
  by (simp add: admit_phone_def Let_def)

lemma begin_proof_bindings: "br_bindings (fst (begin_proof C E t s i key B)) = br_bindings B"
  by (rule begin_proof_cases [where P = "\<lambda>r. br_bindings (fst r) = br_bindings B"]) simp_all

lemma hello_bindings: "br_bindings (fst (on_hello C E t s ip payload B)) = br_bindings B"
proof (rule on_hello_cases [where P = "\<lambda>r. br_bindings (fst r) = br_bindings B"])
  show "br_bindings (fst (enter_phone C E t s j B2)) = br_bindings B"
    if "admit_phone C (mo_mono t) j (snd (admit_ip_hello C (mo_mono t) ip B)) = (None, B2)" for j B2
    using admit_phone_bindings [of C "mo_mono t" j "snd (admit_ip_hello C (mo_mono t) ip B)"] that by (simp add: same_bindings)
qed (simp_all add: begin_proof_bindings same_bindings)

lemma prove_still_bound:
  assumes "map_of (br_bindings B) i = Some e" and "mo_wall t - bd_seen e \<le> bc_binding_ttl C"
  shows "still_bound i e (mo_wall t) (fst (on_prove C E t s payload j pub nonce bound B))"
proof (rule on_prove_cases [where P = "\<lambda>r. still_bound i e (mo_wall t) (fst r)"])
  have here: "still_bound i e (mo_wall t) B" using assms(1) by (simp add: still_bound_def)
  show "still_bound i e (mo_wall t) (fst (drop_conn B))" "still_bound i e (mo_wall t) (fst (refuse_conn t s ''unauthorized'' B))"
    by (rule still_bound_same [OF _ here], simp)+
  show "still_bound i e (mo_wall t) (fst (refuse_conn t s ''busy'' (snd (bind C t j pub B))))"
    by (rule still_bound_same [OF _ still_bound_bind [OF assms]]) simp
  fix B'
  assume "startswith j PAIR_PREFIX \<and> B' = B \<or> \<not> startswith j PAIR_PREFIX \<and> bound \<noteq> None \<and> B' = touch C t j B \<or>
    \<not> startswith j PAIR_PREFIX \<and> bound = None \<and> bind C t j pub B = (True, B')"
  then have "still_bound i e (mo_wall t) B'"
    using here still_bound_touch [OF assms(1)] still_bound_bind [OF assms, of "mo_wall t" j pub] by auto
  then show "still_bound i e (mo_wall t) (fst (register_desktop C E t s j B'))" by (rule still_bound_same [rotated]) simp
qed

lemma leave_bindings: "br_bindings (leave s ip ph B) = br_bindings B"
  by (simp add: leave_def release_phone_def Let_def split: phase.split)

lemma loop_bindings:
  "br_bindings (fst (phone_loop C t s payload p i l B)) = br_bindings B" "br_bindings (fst (desktop_loop C E t payload i l B)) = br_bindings B"
  by (auto simp: phone_loop_def desktop_loop_def Let_def split: option.splits jval.splits)

text \<open>
  C37: No flood of registrations can push out a live binding: a binding whose Desktop registered within the time to live
  is there, with the same key, after every step of the broker.
\<close>

theorem live_binding_survives:
  assumes "map_of (br_bindings B) i = Some e" and "mo_wall t - bd_seen e \<le> bc_binding_ttl C"
  shows "\<exists>e'. map_of (br_bindings (fst (handle C E t ev B))) i = Some e' \<and> bd_pubkey e' = bd_pubkey e \<and>
    (bd_seen e' = bd_seen e \<or> bd_seen e' = mo_wall t)"
proof -
  have here: "still_bound i e (mo_wall t) B" using assms(1) by (simp add: still_bound_def)
  have msg: "still_bound i e (mo_wall t) (fst (on_message C E t s c payload B))" for s c payload
    using prove_still_bound [OF assms] still_bound_same [OF hello_bindings here] still_bound_same [OF loop_bindings(1) here]
      still_bound_same [OF loop_bindings(2) here] by (simp add: on_message_def split: phase.split)
  have settled: "still_bound i e (mo_wall t) (fst (settle s c (on_message C E t s c payload B)))" for s c payload
  proof -
    obtain B1 os w where m: "on_message C E t s c payload B = (B1, os, w)" by (cases "on_message C E t s c payload B")
    then have "still_bound i e (mo_wall t) B1" using msg [of s c payload] by simp
    then show ?thesis unfolding m by (cases w) (simp_all add: settle_def still_bound_def leave_bindings)
  qed
  have "still_bound i e (mo_wall t) (fst (handle C E t ev B))"
    using here settled
    by (cases ev) (auto simp: handle_def accept_def leave_bindings Let_def split: option.split sum.split intro: still_bound_same [rotated])
  then show ?thesis by (simp add: still_bound_def)
qed

section \<open>The file of bindings\<close>

lemma load_entry:
  assumes "truthy (JFloat (num (bd_seen e))) \<longleftrightarrow> bd_seen e \<noteq> 0" and "float_of (JFloat (num (bd_seen e))) = Some (bd_seen e)"
    and "k \<noteq> []" and "bd_pubkey e \<noteq> []"
  shows "load_entries E float_of ((k, binding_json num e) # items) loaded = load_entries E float_of items (dict_set loaded k e)"
proof -
  have p: "truthy (JStr (bd_pubkey e))" "str_or_empty E (JStr (bd_pubkey e)) = bd_pubkey e"
    using assms(4) by (simp_all add: truthy_def str_or_empty_def)
  show ?thesis using assms(1-3) p by (cases e; cases "bd_seen e = 0") (simp_all add: binding_json_def opt_get_def)
qed

lemma load_entries_json:
  assumes "\<forall>t. truthy (JFloat (num t)) \<longleftrightarrow> t \<noteq> 0" and "\<forall>t. float_of (JFloat (num t)) = Some t"
  shows "distinct (map fst (loaded @ m)) \<Longrightarrow> \<forall>(k, e) \<in> set m. k \<noteq> [] \<and> bd_pubkey e \<noteq> [] \<Longrightarrow>
    load_entries E float_of (map (\<lambda>(k, e). (k, binding_json num e)) m) loaded = Some (loaded @ m)"
proof (induction m arbitrary: loaded)
  case (Cons a m)
  obtain k e where a: "a = (k, e)" by (cases a)
  have new: "dict_set loaded k e = loaded @ [(k, e)]" by (rule dict_set_new) (use Cons.prems a in auto)
  have "load_entries E float_of (map (\<lambda>(k, e). (k, binding_json num e)) m) (loaded @ [(k, e)]) = Some (loaded @ a # m)"
    using Cons.IH [of "loaded @ [(k, e)]"] Cons.prems a by simp
  then show ?case using load_entry [of num e float_of k] assms Cons.prems new by (simp add: a)
qed simp

text \<open>
  Restarting the node unbinds nobody: reading back the file that the broker saves gives the map that was saved, when it
  fits the configured number.
\<close>

theorem bindings_survive_a_restart:
  assumes "\<forall>t. truthy (JFloat (num t)) \<longleftrightarrow> t \<noteq> 0" and "\<forall>t. float_of (JFloat (num t)) = Some t"
    and "distinct (map fst m)" and "\<forall>(k, e) \<in> set m. k \<noteq> [] \<and> bd_pubkey e \<noteq> []" and "length m \<le> n"
  shows "load_bindings E float_of n (Some (bindings_json num m)) = m"
  using load_entries_json [OF assms(1,2), of "[]" m E] assms(3-) by (simp add: load_bindings_def bindings_json_def)

section \<open>What a registration signs\<close>

text \<open>
  A registration's signature is good for one id and one challenge: two signed messages with nonces of the same
  length are equal only when the nonces and the ids are.
\<close>

theorem registration_signs_one_id:
  assumes "length n1 = length n2" and "registration_message n1 i1 = registration_message n2 i2"
  shows "n1 = n2 \<and> i1 = i2"
  using assms utf8_inj by (auto simp: registration_message_def)

section \<open>Runs\<close>

definition demo_broker_config :: broker_config where
  "demo_broker_config = \<lparr>bc_token = ''t'', bc_pair_ice = [], bc_max_phones = 4, bc_max_phones_per_desktop = 2, bc_rate_limit = 3,
     bc_rate_window = 60, bc_open_mode = False, bc_turn_urls = [], bc_turn_secret = [], bc_turn_ttl = 60, bc_max_desktops = 2,
     bc_reg_rate_limit = 5, bc_reg_rate_window = 60, bc_state_file = True, bc_allow_legacy = False, bc_trusted = [], bc_max_conns_per_ip = 2,
     bc_ip_hello_limit = 5, bc_ip_hello_window = 60, bc_offer_limit = 2, bc_offer_window = 60, bc_answer_limit = 2, bc_answer_window = 60,
     bc_binding_ttl = 1000\<rparr>"

definition demo_broker_env :: broker_env where
  "demo_broker_env = \<lparr>be_b64d = (\<lambda>s. Some (replicate (if s = ''sig'' then 64 else 32) 0)), be_b64e = (\<lambda>_. ''n''), be_verify = (\<lambda>_ _ _. True),
     be_hmac_sha1 = (\<lambda>_ _. []), be_sha256_hex = (\<lambda>s. s), be_str = (\<lambda>_. ''?''), be_parse_ip = (\<lambda>_. None), be_nonce = (\<lambda>n. [of_nat n]),
     be_phone_token = (\<lambda>n. replicate n CHR ''a'')\<rparr>"

lemma demo_tokens: "inj (be_phone_token demo_broker_env)"
  by (rule injI) (simp add: demo_broker_env_def replicate_eq_replicate)

definition at_time :: "int \<Rightarrow> moment" where
  "at_time n = \<lparr>mo_mono = n, mo_wall = n, mo_dead = [], mo_disk_ok = True\<rparr>"

definition desktop_hello :: "string \<Rightarrow> string \<Rightarrow> jval option" where
  "desktop_hello i key = Some (JObj [(''role'', JStr ''desktop''), (''desktop_id'', JStr i), (''token'', JStr ''t''), (''pubkey'', JStr key)])"

definition proof_reply :: "jval option" where
  "proof_reply = Some (JObj [(''type'', JStr ''prove''), (''sig'', JStr ''sig'')])"

definition phone_hello :: "string \<Rightarrow> jval option" where
  "phone_hello i = Some (JObj [(''role'', JStr ''phone''), (''desktop_id'', JStr i)])"

text \<open>
  Two first registrations of one id that cross: both hellos are read before either proof, so neither sees a binding, and the
  second proof, under another key, displaces the Desktop whose key was bound.
\<close>

definition crossing :: "(moment \<times> event) list" where
  "crossing = [(at_time 1, Connect ''p'' []), (at_time 1, Connect ''q'' []), (at_time 2, Recv 0 (desktop_hello ''d'' ''A'')),
     (at_time 2, Recv 1 (desktop_hello ''d'' ''B'')), (at_time 3, Recv 0 proof_reply)]"

definition crossed :: broker where
  "crossed = broker_run demo_broker_config demo_broker_env [] crossing"

lemma crossed_facts:
  "bind_get (br_bindings crossed) ''d'' = Some ''A''" "map_of (br_desktops crossed) ''d'' = Some 0"
  "map_option cn_phase (map_of (br_conns crossed) 1) = Some (Proving ''d'' ''B'' [1] None)"
  by code_simp+

lemma crossed_taken:
  "map_of (br_desktops (broker_step demo_broker_config demo_broker_env (at_time 4, Recv 1 proof_reply) crossed)) ''d'' = Some 1"
  "bind_get (br_bindings (broker_step demo_broker_config demo_broker_env (at_time 4, Recv 1 proof_reply) crossed)) ''d'' = Some ''A''"
  by code_simp+

text \<open>
  The first registration of an id does not protect it from a hello that was already read: with two hellos for one id
  before either proof, the key of the first proof is bound, and the second proof, under a key that is not the bound one, still
  registers its socket in place of the Desktop's.
\<close>

theorem first_registrations_cross:
  "bind_get (br_bindings crossed) ''d'' = Some ''A'' \<and> map_of (br_desktops crossed) ''d'' = Some 0 \<and>
   map_option cn_phase (map_of (br_conns crossed) 1) = Some (Proving ''d'' ''B'' [1] None) \<and>
   map_of (br_desktops (broker_step demo_broker_config demo_broker_env (at_time 4, Recv 1 proof_reply) crossed)) ''d'' = Some 1 \<and>
   bind_get (br_bindings (broker_step demo_broker_config demo_broker_env (at_time 4, Recv 1 proof_reply) crossed)) ''d'' = Some ''A''"
  using crossed_facts crossed_taken by blast

text \<open>
  A Desktop that stays connected for longer than the time to live loses its binding to the next new id when the map is full:
  its time is only brought forward when it registers.
\<close>

definition long_connected :: broker where
  "long_connected = fold (broker_step (demo_broker_config\<lparr>bc_max_desktops := 1\<rparr>) demo_broker_env)
     [(at_time 1, Connect ''p'' []), (at_time 1, Recv 0 (desktop_hello ''d'' ''A'')), (at_time 1, Recv 0 proof_reply),
      (at_time 2000, Connect ''q'' []), (at_time 2000, Recv 1 (desktop_hello ''x'' ''B'')), (at_time 2000, Recv 1 proof_reply)]
     (start_broker [])"

lemma long_connected_unbound:
  "map_of (br_desktops long_connected) ''d'' = Some 0" "bind_get (br_bindings long_connected) ''d'' = None"
  by code_simp+

text \<open>An answer to a phone whose socket has just closed ends the Desktop's own connection.\<close>

definition paired :: "(moment \<times> event) list" where
  "paired = [(at_time 1, Connect ''p'' []), (at_time 1, Recv 0 (desktop_hello ''d'' ''A'')), (at_time 1, Recv 0 proof_reply),
     (at_time 2, Connect ''q'' []), (at_time 2, Recv 1 (phone_hello ''d''))]"

definition pair_state :: broker where "pair_state = broker_run demo_broker_config demo_broker_env [] paired"

definition answer_to :: "string \<Rightarrow> jval option" where
  "answer_to p = Some (JObj [(''type'', JStr ''answer''), (''to'', JStr p), (''sdp'', JStr ''v'')])"

definition offer_msg :: "jval option" where
  "offer_msg = Some (JObj [(''type'', JStr ''offer''), (''sdp'', JStr ''o'')])"

lemma answer_to_closed_phone:
  "map_of (br_desktops pair_state) ''d'' = Some 0"
  "br_desktops (broker_step demo_broker_config demo_broker_env ((at_time 3)\<lparr>mo_dead := [1]\<rparr>, Recv 0 (answer_to ''phone:a'')) pair_state) = []"
  by code_simp+

section \<open>Witnesses\<close>


definition emptied :: broker where
  "emptied = broker_run demo_broker_config demo_broker_env [] (paired @ [(at_time 5, Gone 0), (at_time 6, Gone 1)])"

lemma emptied_conns: "br_conns emptied = []"
  by code_simp

theorem broker_forgets_what_left_witness: "br_desktops emptied = [] \<and> br_ip_conns emptied = [] \<and> br_phones_per_desktop emptied = []"
  using broker_forgets_what_left [OF demo_tokens emptied_def] emptied_conns by simp

lemma offer_sent:
  "snd (handle demo_broker_config demo_broker_env (at_time 3) (Recv 1 offer_msg) pair_state) = [(0, Offer ''phone:a'' (JStr ''o''))]"
  by code_simp

theorem messages_stay_in_their_room_witness:
  "\<exists>i. role_at pair_state 1 = Some (Phone ''phone:a'' i) \<and> role_at pair_state 0 = Some (Desk i)"
proof -
  let ?h = "handle demo_broker_config demo_broker_env (at_time 3) (Recv 1 offer_msg) pair_state"
  have "?h = (fst ?h, [(0, Offer ''phone:a'' (JStr ''o''))])" using offer_sent by (metis prod.collapse)
  from messages_stay_in_their_room [OF demo_tokens pair_state_def this, of 0 "Offer ''phone:a'' (JStr ''o'')"]
  show ?thesis by auto
qed

definition bound_start :: broker where "bound_start = start_broker [(''d'', \<lparr>bd_pubkey = ''A'', bd_seen = 0\<rparr>)]"
definition bound_events :: "(moment \<times> event) list" where
  "bound_events = [(at_time 1, Connect ''p'' []), (at_time 2, Recv 0 (desktop_hello ''d'' ''A''))]"
definition bound_later :: broker where "bound_later = fold (broker_step demo_broker_config demo_broker_env) bound_events bound_start"

lemma bound_facts:
  "bound_throughout demo_broker_config demo_broker_env ''d'' ''A'' bound_events bound_start"
  "\<not> startswith ''d'' PAIR_PREFIX"
  "map_of (br_desktops (broker_step demo_broker_config demo_broker_env (at_time 3, Recv 0 proof_reply) bound_later)) ''d'' = Some 0"
  "map_of (br_desktops bound_later) ''d'' \<noteq> Some 0"
  by code_simp+

theorem bound_id_needs_its_key_witness:
  "\<exists>c nonce bound. map_of (br_conns bound_later) 0 = Some c \<and> cn_phase c = Proving ''d'' ''A'' nonce bound"
proof -
  have "guarded_id ''d'' ''A'' bound_start" by (simp add: guarded_id_def bound_start_def start_broker_def)
  from bound_id_needs_its_key [OF this bound_facts(1,2) bound_later_def bound_facts(3,4)] show ?thesis by blast
qed

theorem live_binding_survives_witness:
  "\<exists>e'. map_of (br_bindings (fst (handle demo_broker_config demo_broker_env (at_time 9) (Connect ''p'' []) bound_start))) ''d'' = Some e' \<and>
    bd_pubkey e' = ''A''"
proof -
  have "map_of (br_bindings bound_start) ''d'' = Some \<lparr>bd_pubkey = ''A'', bd_seen = 0\<rparr>" by (simp add: bound_start_def start_broker_def)
  from live_binding_survives [OF this, of "at_time 9" demo_broker_config demo_broker_env "Connect ''p'' []"]
  show ?thesis by (auto simp: at_time_def demo_broker_config_def)
qed

definition unary :: "int \<Rightarrow> string" where
  "unary t = (if t = 0 then ''0.0'' else if t > 0 then replicate (nat t) CHR ''1'' else CHR ''-'' # replicate (nat (- t)) CHR ''1'')"

definition read_unary :: "jval \<Rightarrow> int option" where
  "read_unary v = (case v of JFloat s \<Rightarrow> Some (if s = ''0.0'' then 0 else if hd s = CHR ''-'' then 1 - int (length s) else int (length s)) | _ \<Rightarrow> None)"

lemma unary_ones: "replicate n (CHR ''1'') \<noteq> CHR ''0'' # s" "replicate n (CHR ''1'') \<noteq> CHR ''-'' # s"
  by (cases n; simp)+

lemma unary_reads: "truthy (JFloat (unary t)) \<longleftrightarrow> t \<noteq> 0" "read_unary (JFloat (unary t)) = Some t"
proof -
  have "t > 0 \<Longrightarrow> hd (replicate (nat t) (CHR ''1'')) = CHR ''1''" by simp
  then show "read_unary (JFloat (unary t)) = Some t" by (auto simp: read_unary_def unary_def unary_ones)
  have "replicate n (CHR ''1'') \<noteq> ''0.0''" for n by (cases n) auto
  then show "truthy (JFloat (unary t)) \<longleftrightarrow> t \<noteq> 0" by (auto simp: truthy_def unary_def unary_ones)
qed

theorem bindings_survive_a_restart_witness:
  "load_bindings demo_broker_env read_unary 2 (Some (bindings_json unary [(''d'', \<lparr>bd_pubkey = ''A'', bd_seen = 3\<rparr>)])) =
    [(''d'', \<lparr>bd_pubkey = ''A'', bd_seen = 3\<rparr>)]"
  by (rule bindings_survive_a_restart) (simp_all add: unary_reads)

theorem registration_signs_one_id_witness: "registration_message [1] ''a'' \<noteq> registration_message [1] ''b''"
  using registration_signs_one_id [of "[1]" "[1]" "''a''" "''b''"] by auto

end
