(* ===== verification/Channel_Binding.thy ===== *)
theory Channel_Binding
  imports Prelude
begin

text \<open>
  The channel binding of a paired phone (\<open>app/smartbrain_3000/webrtc_peer.py\<close>): the DTLS fingerprint read from a session
  description, the answer with one fingerprint left in it, and the hash both ends compute. SHA-256 is a parameter.
\<close>

section \<open>Lines\<close>

text \<open>\<open>str.splitlines(keepends=True)\<close>: each line with the characters that end it.\<close>

definition is_break :: "char \<Rightarrow> bool" where
  "is_break c = (ord c \<in> {10, 11, 12, 13, 28, 29, 30, 133})"

abbreviation CR :: char where "CR \<equiv> CHR 0x0D"
abbreviation LF :: char where "LF \<equiv> CHR 0x0A"

function split_lines :: "string \<Rightarrow> (string \<times> string) list" where
  "split_lines s =
     (if s = [] then []
      else let line = takeWhile (\<lambda>c. \<not> is_break c) s in
        case dropWhile (\<lambda>c. \<not> is_break c) s of
          [] \<Rightarrow> [(line, [])]
        | c # rest \<Rightarrow> if c = CR \<and> rest \<noteq> [] \<and> hd rest = LF then (line, [CR, LF]) # split_lines (tl rest)
            else (line, [c]) # split_lines rest)"
  by auto
termination
proof (relation "measure length")
  fix s x c rest
  assume "dropWhile (\<lambda>c. \<not> is_break c) s = c # rest"
  then have "length rest < length s" using length_dropWhile_le [of "\<lambda>c. \<not> is_break c" s] by simp
  then show "(tl rest, s) \<in> measure length" "(rest, s) \<in> measure length" by auto
qed simp

declare split_lines.simps [simp del]

definition join_lines :: "(string \<times> string) list \<Rightarrow> string" where
  "join_lines ls = concat (map (\<lambda>(l, e). l @ e) ls)"

section \<open>Fingerprints\<close>

definition FINGERPRINT :: string where "FINGERPRINT = ''a=fingerprint:''"

definition sdp_fingerprint :: "string \<Rightarrow> string" where
  "sdp_fingerprint sdp = (case List.find (\<lambda>l. startswith l FINGERPRINT) (map fst (split_lines sdp)) of
     Some l \<Rightarrow> py_lower (strip (after (CHR '':'') l)) | None \<Rightarrow> [])"

fun keep_first :: "bool \<Rightarrow> (string \<times> string) list \<Rightarrow> (string \<times> string) list" where
  "keep_first seen [] = []"
| "keep_first seen ((l, e) # ls) =
     (if startswith l FINGERPRINT then (if seen then keep_first True ls else (l, e) # keep_first True ls)
      else (l, e) # keep_first seen ls)"

definition single_fingerprint :: "string \<Rightarrow> string" where
  "single_fingerprint sdp = join_lines (keep_first False (split_lines sdp))"

section \<open>The binding\<close>

fun str_le :: "string \<Rightarrow> string \<Rightarrow> bool" where
  "str_le [] bs = True"
| "str_le (a # as) [] = False"
| "str_le (a # as) (b # bs) = (ord a < ord b \<or> a = b \<and> str_le as bs)"

definition binding_text :: "string \<Rightarrow> string \<Rightarrow> string" where
  "binding_text a b = (if str_le a b then a @ ''|'' @ b else b @ ''|'' @ a)"

definition channel_binding :: "(bytes \<Rightarrow> bytes) \<Rightarrow> string option \<Rightarrow> string option \<Rightarrow> bytes result" where
  "channel_binding sha256 local_sdp remote_sdp =
     (let a = sdp_fingerprint (case local_sdp of None \<Rightarrow> [] | Some s \<Rightarrow> s); b = sdp_fingerprint (case remote_sdp of None \<Rightarrow> [] | Some s \<Rightarrow> s) in
      if a = [] \<or> b = [] then Inl (Assertion ''channel binding needs both DTLS fingerprints'')
      else if \<not> list_all (\<lambda>c. ord c < 128) (binding_text a b) then Inl (OtherErr ''UnicodeEncodeError'')
      else Inr (sha256 (ascii_bytes (binding_text a b))))"

section \<open>Reading a text whose lines were dropped\<close>

definition line_ends :: "string set" where
  "line_ends = {[c] |c. is_break c} \<union> {[CR, LF]}"

fun lines_ok :: "(string \<times> string) list \<Rightarrow> bool" where
  "lines_ok [] = True"
| "lines_ok ((l, e) # ls) = (list_all (\<lambda>c. \<not> is_break c) l \<and> (e \<in> line_ends \<or> e = [] \<and> ls = []) \<and> lines_ok ls)"

lemma break_CR [simp]: "is_break CR" "is_break LF"
  by (simp_all add: is_break_def ord_def)

lemma split_lines_last: "list_all (\<lambda>c. \<not> is_break c) l \<Longrightarrow> split_lines l = (if l = [] then [] else [(l, [])])"
proof -
  assume l: "list_all (\<lambda>c. \<not> is_break c) l"
  then have "takeWhile (\<lambda>c. \<not> is_break c) l = l" "dropWhile (\<lambda>c. \<not> is_break c) l = []" by (induction l) auto
  then show ?thesis by (simp only: split_lines.simps [of l] Let_def list.case)
qed

lemma split_lines_ok: "lines_ok (split_lines s)"
proof (induction s rule: split_lines.induct)
  case (1 s)
  have l: "list_all (\<lambda>c. \<not> is_break c) (takeWhile (\<lambda>c. \<not> is_break c) s)" by (auto simp: list_all_iff dest: set_takeWhileD)
  show ?case
  proof (cases "dropWhile (\<lambda>c. \<not> is_break c) s")
    case Nil
    then have "list_all (\<lambda>c. \<not> is_break c) s" by (simp add: dropWhile_eq_Nil_conv list_all_iff)
    then show ?thesis using split_lines_last [of s] by simp
  next
    case (Cons c rest)
    then have "is_break c" "s \<noteq> []" using hd_dropWhile [of "\<lambda>c. \<not> is_break c" s] by auto
    then show ?thesis using l Cons 1 by (simp add: split_lines.simps [of s] line_ends_def Let_def)
  qed
qed

lemma keep_first_ok: "lines_ok ls \<Longrightarrow> lines_ok (keep_first seen ls)"
  by (induction seen ls rule: keep_first.induct) (auto split: if_splits)

text \<open>The lines that are not empty.\<close>

definition full_lines :: "string \<Rightarrow> string list" where
  "full_lines s = filter (\<lambda>l. l \<noteq> []) (map fst (split_lines s))"

lemma full_lines_LF: "full_lines (LF # s) = full_lines s"
  by (simp add: full_lines_def split_lines.simps [of "LF # s"])

lemma split_lines_step:
  assumes "list_all (\<lambda>c. \<not> is_break c) l" and "is_break c"
  shows "split_lines (l @ c # s) = (if c = CR \<and> s \<noteq> [] \<and> hd s = LF then (l, [CR, LF]) # split_lines (tl s) else (l, [c]) # split_lines s)"
proof -
  have t: "takeWhile (\<lambda>c. \<not> is_break c) (l @ c # s) = l" "dropWhile (\<lambda>c. \<not> is_break c) (l @ c # s) = c # s"
    using assms by (induction l) auto
  show ?thesis by (subst split_lines.simps) (simp add: t)
qed

lemma full_lines_step:
  assumes "list_all (\<lambda>c. \<not> is_break c) l" and "e \<in> line_ends"
  shows "full_lines (l @ e @ s) = (if l = [] then full_lines s else l # full_lines s)"
proof -
  obtain c r where e: "e = c # r" "is_break c" "r = [] \<or> c = CR \<and> r = [LF]"   proof -
    consider c where "e = [c]" "is_break c" | "e = [CR, LF]" using assms(2) unfolding line_ends_def by blast
    then show thesis using that [of CR "[LF]"] that [of _ "[]"] by cases auto
  qed
  have tail: "c = CR \<Longrightarrow> s \<noteq> [] \<Longrightarrow> hd s = LF \<Longrightarrow> full_lines (tl s) = full_lines s"
    using full_lines_LF [of "tl s"] by (cases s) auto
  have q: "full_lines s' = filter (\<lambda>l. l \<noteq> []) (map fst (split_lines s'))" for s' by (simp add: full_lines_def)
  show ?thesis
  proof (cases "r = []")
    case True
    then have "full_lines (l @ e @ s) = (if l = [] then [] else [l]) @ full_lines (if c = CR \<and> s \<noteq> [] \<and> hd s = LF then tl s else s)"
      unfolding q e(1) using split_lines_step [OF assms(1) e(2), of s] by simp
    then show ?thesis using tail by (auto split: if_splits)
  next
    case False
    then have "split_lines (l @ e @ s) = (l, [CR, LF]) # split_lines s"
      using split_lines_step [OF assms(1) e(2), of "LF # s"] e by simp
    then show ?thesis unfolding q by simp
  qed
qed

lemma full_lines_join: "lines_ok ls \<Longrightarrow> full_lines (join_lines ls) = filter (\<lambda>l. l \<noteq> []) (map fst ls)"
proof (induction ls rule: lines_ok.induct)
  case (2 l e ls)
  show ?case
  proof (cases "e = []")
    case True
    then have "ls = []" using 2 by (auto simp: line_ends_def)
    then show ?thesis using True 2 split_lines_last [of l] by (simp add: join_lines_def full_lines_def)
  next
    case False
    then show ?thesis using 2 full_lines_step [of l e "join_lines ls"] by (simp add: join_lines_def)
  qed
qed (simp add: join_lines_def full_lines_def split_lines.simps [of "[]"])

lemma find_full: "\<not> p [] \<Longrightarrow> List.find p (filter (\<lambda>l. l \<noteq> []) ls) = List.find p ls"
  by (induction ls) auto

lemma fingerprint_full: "sdp_fingerprint s = (case List.find (\<lambda>l. startswith l FINGERPRINT) (full_lines s) of
     Some l \<Rightarrow> py_lower (strip (after (CHR '':'') l)) | None \<Rightarrow> [])"
  unfolding full_lines_def by (subst find_full) (simp_all add: sdp_fingerprint_def startswith_def FINGERPRINT_def)

lemma keep_first_find:
  "List.find (\<lambda>l. startswith l FINGERPRINT) (map fst (keep_first False ls)) = List.find (\<lambda>l. startswith l FINGERPRINT) (map fst ls)"
  by (induction ls) auto

lemma single_fingerprint_same: "sdp_fingerprint (single_fingerprint s) = sdp_fingerprint s"
proof -
  have np: "\<not> startswith [] FINGERPRINT" by (simp add: startswith_def FINGERPRINT_def)
  have f: "full_lines (single_fingerprint s) = filter (\<lambda>l. l \<noteq> []) (map fst (keep_first False (split_lines s)))"
    unfolding single_fingerprint_def by (rule full_lines_join [OF keep_first_ok [OF split_lines_ok]])
  show ?thesis unfolding fingerprint_full f full_lines_def [of s] find_full [of "\<lambda>l. startswith l FINGERPRINT", OF np] keep_first_find ..
qed

lemma str_le_total: "str_le a b \<or> str_le b a"
  by (induction a b rule: str_le.induct) (auto simp: ord_def)

lemma str_le_antisym: "str_le a b \<Longrightarrow> str_le b a \<Longrightarrow> a = b"
  by (induction a b rule: str_le.induct) (auto elim: str_le.elims)

lemma binding_text_comm: "binding_text a b = binding_text b a"
  using str_le_total [of a b] str_le_antisym [of a b] by (auto simp: binding_text_def)


text \<open>
  A relay in the middle is noticed: when the hash does not collide and the fingerprints have no bar in them, two
  connections have one binding only when they have the same pair of fingerprints.
\<close>

theorem binding_tells_relays_apart:
  assumes "inj H" and "channel_binding H (Some a) (Some b) = Inr x" and "channel_binding H (Some c) (Some d) = Inr x"
    and "\<forall>s \<in> {a, b, c, d}. CHR ''|'' \<notin> set (sdp_fingerprint s)"
  shows "{sdp_fingerprint a, sdp_fingerprint b} = {sdp_fingerprint c, sdp_fingerprint d}"
proof -
  have ai: "ascii_bytes s = ascii_bytes t \<Longrightarrow> s = t" for s t
  proof -
    have "inj (\<lambda>c. of_nat (ord c) :: 8 word)"
    proof (rule injI)
      fix c d assume "(of_nat (ord c) :: 8 word) = of_nat (ord d)"
      then have "unat (of_nat (ord c) :: 8 word) = unat (of_nat (ord d) :: 8 word)" by simp
      then show "c = d" by (simp add: unat_of_nat ord_def)
    qed
    then show "ascii_bytes s = ascii_bytes t \<Longrightarrow> s = t" by (simp add: ascii_bytes_def inj_map_eq_map)
  qed
  have "H (ascii_bytes (binding_text (sdp_fingerprint a) (sdp_fingerprint b))) = H (ascii_bytes (binding_text (sdp_fingerprint c) (sdp_fingerprint d)))"
    using assms(2,3) by (auto simp: channel_binding_def Let_def split: if_splits)
  then have t: "binding_text (sdp_fingerprint a) (sdp_fingerprint b) = binding_text (sdp_fingerprint c) (sdp_fingerprint d)"
    using assms(1) ai by (auto dest: injD)
  have parts: "\<exists>p q. binding_text u v = p @ ''|'' @ q \<and> (p = u \<and> q = v \<or> p = v \<and> q = u)" for u v
    by (cases "str_le u v") (auto simp: binding_text_def)
  obtain p q where pq: "binding_text (sdp_fingerprint a) (sdp_fingerprint b) = p @ ''|'' @ q"
    "p = sdp_fingerprint a \<and> q = sdp_fingerprint b \<or> p = sdp_fingerprint b \<and> q = sdp_fingerprint a" using parts by metis
  obtain r s where rs: "binding_text (sdp_fingerprint c) (sdp_fingerprint d) = r @ ''|'' @ s"
    "r = sdp_fingerprint c \<and> s = sdp_fingerprint d \<or> r = sdp_fingerprint d \<and> s = sdp_fingerprint c" using parts by metis
  have cut: "CHR ''|'' \<notin> set p \<Longrightarrow> CHR ''|'' \<notin> set r \<Longrightarrow> p @ ''|'' @ q = r @ ''|'' @ s \<Longrightarrow> p = r \<and> q = s" for p q r s :: string
    using before_append [of "CHR ''|''" p q] before_append [of "CHR ''|''" r s] by auto
  have "CHR ''|'' \<notin> set p" "CHR ''|'' \<notin> set r" using assms(4) pq(2) rs(2) by auto
  from cut [OF this, of q s] have "p = r" "q = s" using t pq(1) rs(1) by simp_all
  then show ?thesis using pq(2) rs(2) by auto
qed

theorem binding_tells_relays_apart_witness:
  "{sdp_fingerprint ''a=fingerprint:X'', sdp_fingerprint ''a=fingerprint:Y''} = {sdp_fingerprint ''a=fingerprint:y'', sdp_fingerprint ''a=fingerprint:x''}"
proof (rule binding_tells_relays_apart [where H = id])
  show "channel_binding id (Some ''a=fingerprint:X'') (Some ''a=fingerprint:Y'') = Inr [120, 124, 121]" by code_simp
  show "channel_binding id (Some ''a=fingerprint:y'') (Some ''a=fingerprint:x'') = Inr [120, 124, 121]" by code_simp
  have "list_all (\<lambda>s. CHR ''|'' \<notin> set (sdp_fingerprint s)) [''a=fingerprint:X'', ''a=fingerprint:Y'', ''a=fingerprint:y'', ''a=fingerprint:x'']"
    by code_simp
  then show "\<forall>s \<in> {''a=fingerprint:X'', ''a=fingerprint:Y'', ''a=fingerprint:y'', ''a=fingerprint:x''}. CHR ''|'' \<notin> set (sdp_fingerprint s)"
    by simp
qed simp

end
