(* ===== verification/Canonical_Json.thy ===== *)
theory Canonical_Json
  imports Json_Roundtrip
begin

text \<open>
  The canonical JSON of a vault (\<open>canonical\<close> and \<open>parse_canonical\<close> of \<open>app/smartbrain_3000/vault_format.py\<close>): the bytes a
  signature covers, and the reader that takes nothing else. How Python prints a float is a parameter: \<open>None\<close> for one
  that is not finite.
\<close>

text \<open>The failures of this module are \<open>VaultError\<close>; any other exception escapes its callers.\<close>

datatype vault_fail = VaultError string | Escapes pyerr

type_synonym 'a vault_result = "vault_fail + 'a"

definition vault_error :: "string \<Rightarrow> 'a vault_result" where
  "vault_error m = Inl (VaultError m)"

definition vbind :: "'a vault_result \<Rightarrow> ('a \<Rightarrow> 'b vault_result) \<Rightarrow> 'b vault_result" where
  "vbind r f = (case r of Inl e \<Rightarrow> Inl e | Inr x \<Rightarrow> f x)"

lemma vbind_simps [simp]: "vbind (Inl e) f = Inl e" "vbind (Inr x) f = f x"
  by (simp_all add: vbind_def)

lemma vbind_Inr_iff: "vbind r f = Inr y \<longleftrightarrow> (\<exists>x. r = Inr x \<and> f x = Inr y)"
  by (auto simp: vbind_def split: sum.split)

lemma vault_error_not_Inr [simp]: "vault_error m \<noteq> Inr x" "Inr x \<noteq> vault_error m"
  by (simp_all add: vault_error_def)

section \<open>Writing\<close>

text \<open>\<open>ensure_ascii=False\<close>: only quotes, backslashes and control characters are escaped.\<close>

definition plain_escape :: "char \<Rightarrow> string" where
  "plain_escape c = (if ord c \<ge> 126 then [c] else json_escape c)"

definition plain_quote :: "string \<Rightarrow> string" where
  "plain_quote s = CHR 0x22 # concat (map plain_escape s) @ [CHR 0x22]"

fun print_floats :: "(string \<Rightarrow> string option) \<Rightarrow> jval \<Rightarrow> jval option" where
  "print_floats fr (JFloat t) = map_option JFloat (fr t)"
| "print_floats fr (JList vs) = map_option JList (those (map (print_floats fr) vs))"
| "print_floats fr (JObj d) = map_option (\<lambda>vs. JObj (zip (map fst d) vs)) (those (map (\<lambda>(k, v). print_floats fr v) d))"
| "print_floats fr v = Some v"

definition canonical_text :: "jval \<Rightarrow> string" where
  "canonical_text v = dumps_with '','' '':'' plain_quote v"

definition canonical :: "(string \<Rightarrow> string option) \<Rightarrow> jval \<Rightarrow> bytes result" where
  "canonical fr v = (case print_floats fr (sort_keys v) of
     None \<Rightarrow> Inl (ValueErr ''Out of range float values are not JSON compliant'')
   | Some w \<Rightarrow> Inr (utf8_bytes (canonical_text w)))"

section \<open>Reading\<close>

text \<open>A repeated key and malformed text are one refusal here; the code has a message for each.\<close>

definition no_duplicate_keys :: "jdict \<Rightarrow> jval option" where
  "no_duplicate_keys kvs = (if distinct (map fst kvs) then Some (JObj kvs) else None)"

definition parse_canonical :: "(string \<Rightarrow> string option) \<Rightarrow> bytes \<Rightarrow> jdict vault_result" where
  "parse_canonical fr raw =
     (case utf8_decode raw of
        None \<Rightarrow> vault_error ''vault JSON is malformed''
      | Some s \<Rightarrow> (case json_loads_hook no_duplicate_keys s of
            None \<Rightarrow> vault_error ''vault JSON is malformed''
          | Some (JObj d) \<Rightarrow> (case canonical fr (JObj d) of
                Inl e \<Rightarrow> Inl (Escapes e)
              | Inr c \<Rightarrow> if c \<noteq> raw then vault_error ''vault JSON is not in canonical form (it may have been re-encoded)'' else Inr d)
          | Some _ \<Rightarrow> vault_error ''vault JSON must be an object''))"

section \<open>What is read is what was written\<close>

lemma scan_plain_escape: "scan_string (plain_escape c @ r) = map_option (\<lambda>(s, t). (c # s, t)) (scan_string r)"
proof (cases "ord c \<ge> 126")
  case True
  then have "ord c \<noteq> 34" "\<not> ord c < 32" "ord c \<noteq> 92" by auto
  then show ?thesis using True by (simp add: plain_escape_def)
next
  case False
  then show ?thesis by (simp add: plain_escape_def scan_escape)
qed

lemma scan_plain_quote: "scan_string (concat (map plain_escape s) @ CHR 0x22 # r) = Some (s, r)"
  by (induction s) (simp_all add: scan_plain_escape ord_def)

interpretation canonical_json: json_writer no_duplicate_keys "'',''" "'':''" plain_quote
proof
  show "no_duplicate_keys kvs = Some (JObj kvs)" if "distinct (map fst kvs)" for kvs
    using that by (simp add: no_duplicate_keys_def)
  show "\<exists>q. plain_quote s = CHR 0x22 # q \<and> (\<forall>r. scan_string (q @ r) = Some (s, r))" for s
    by (rule exI [of _ "concat (map plain_escape s) @ [CHR 0x22]"]) (simp add: plain_quote_def scan_plain_quote)
qed simp_all

abbreviation key_le :: "string \<times> jval \<Rightarrow> string \<times> jval \<Rightarrow> bool" where
  "key_le a b \<equiv> fst a \<le> fst b"

lemma order_by_sorted: "sorted_wrt key_le xs \<Longrightarrow> order_by key_le xs = xs"
proof (induction xs)
  case (Cons x xs)
  then show ?case by (cases xs) auto
qed simp

lemma sorted_order_keys: "sorted_wrt key_le (order_by key_le xs)"
  by (rule sorted_order_by) auto

lemma sorted_keys_map: "sorted_wrt key_le xs \<Longrightarrow> sorted_wrt key_le (map (\<lambda>(k, v). (k, f v)) xs)"
  by (simp add: sorted_wrt_map case_prod_beta)

lemma map_insert_by_keys:
  "map (\<lambda>(k, v). (k, f v)) (insert_by key_le x xs) = insert_by key_le (fst x, f (snd x)) (map (\<lambda>(k, v). (k, f v)) xs)"
  by (induction xs) (auto simp: case_prod_beta)

lemma map_order_by_keys: "map (\<lambda>(k, v). (k, f v)) (order_by key_le xs) = order_by key_le (map (\<lambda>(k, v). (k, f v)) xs)"
  by (induction xs) (simp_all add: map_insert_by_keys [unfolded case_prod_beta] case_prod_beta)

lemma sort_keys_idem: "sort_keys (sort_keys v) = sort_keys v"
proof (induction v rule: sort_keys.induct)
  case (1 kvs)
  have "map (\<lambda>(k, v). (k, sort_keys v)) (map (\<lambda>(k, v). (k, sort_keys v)) kvs) = map (\<lambda>(k, v). (k, sort_keys v)) kvs"
    using 1 by (auto simp: case_prod_beta)
  then show ?case
    by (simp only: sort_keys.simps map_order_by_keys) (simp only: order_by_sorted [OF sorted_order_keys])
next
  case (2 vs)
  then show ?case by simp
qed simp_all

lemma sort_keys_ok: "json_ok v \<Longrightarrow> json_ok (sort_keys v)"
proof (induction v rule: sort_keys.induct)
  case (1 kvs)
  then show ?case
    by (auto simp: list_all_iff case_prod_beta comp_def intro!: distinct_map_order_by)
next
  case (2 vs)
  then show ?case by (simp add: list_all_iff)
qed simp_all

text \<open>What the reader relies on in the printing of floats: a number with a fraction or an exponent, printed once and for all.\<close>

definition float_printing :: "(string \<Rightarrow> string option) \<Rightarrow> bool" where
  "float_printing fr \<longleftrightarrow> (\<forall>t u. fr t = Some u \<longrightarrow> float_ok u \<and> fr u = Some u)"

lemma float_printingD: "float_printing fr \<Longrightarrow> fr t = Some u \<Longrightarrow> float_ok u \<and> fr u = Some u"
  by (simp add: float_printing_def)

text \<open>Values as the reader makes them, keys in order at every level, and the values that are their own canonical form.\<close>

fun json_like :: "jval \<Rightarrow> bool" where
  "json_like (JFloat t) = True"
| "json_like (JInt i) = (length (str_nat (nat \<bar>i\<bar>)) \<le> 4300)"
| "json_like (JList vs) = list_all json_like vs"
| "json_like (JObj d) = (distinct (map fst d) \<and> list_all (\<lambda>(k, v). json_like v) d)"
| "json_like v = True"

fun keys_sorted :: "jval \<Rightarrow> bool" where
  "keys_sorted (JList vs) = list_all keys_sorted vs"
| "keys_sorted (JObj d) = (sorted_wrt key_le d \<and> list_all (\<lambda>(k, v). keys_sorted v) d)"
| "keys_sorted v = True"

definition canonical_form :: "(string \<Rightarrow> string option) \<Rightarrow> jval \<Rightarrow> bool" where
  "canonical_form fr v \<longleftrightarrow> json_ok v \<and> keys_sorted v \<and> print_floats fr v = Some v"

lemma keys_sorted_sort: "keys_sorted (sort_keys v)"
proof (induction v rule: sort_keys.induct)
  case (1 kvs)
  then show ?case using sorted_order_keys by (auto simp: list_all_iff case_prod_beta)
next
  case (2 vs)
  then show ?case by (simp add: list_all_iff)
qed simp_all

lemma sort_keys_sorted: "keys_sorted v \<Longrightarrow> sort_keys v = v"
proof (induction v rule: sort_keys.induct)
  case (1 kvs)
  have "map (\<lambda>(k, v). (k, sort_keys v)) kvs = kvs"
    by (rule map_idI) (use 1 in \<open>fastforce simp: list_all_iff\<close>)
  then show ?case using 1 order_by_sorted by simp
next
  case (2 vs)
  then show ?case by (simp add: list_all_iff map_idI)
qed simp_all

lemma json_like_sort: "json_like v \<Longrightarrow> json_like (sort_keys v)"
proof (induction v rule: sort_keys.induct)
  case (1 kvs)
  then show ?case
    by (auto simp: list_all_iff case_prod_beta comp_def intro!: distinct_map_order_by)
next
  case (2 vs)
  then show ?case by (simp add: list_all_iff)
qed simp_all

lemma those_map_iff: "those (map f xs) = Some ys \<longleftrightarrow> list_all2 (\<lambda>x y. f x = Some y) xs ys"
proof (induction xs arbitrary: ys)
  case (Cons x xs)
  then show ?case by (cases ys) (auto split: option.splits)
qed auto

lemma print_floats_obj: "print_floats fr (JObj d) = Some w \<longleftrightarrow>
  (\<exists>e. w = JObj e \<and> list_all2 (\<lambda>p q. fst q = fst p \<and> print_floats fr (snd p) = Some (snd q)) d e)"
proof
  assume "print_floats fr (JObj d) = Some w"
  then obtain vs where v: "those (map (\<lambda>(k, v). print_floats fr v) d) = Some vs" "w = JObj (zip (map fst d) vs)"
    by (auto simp del: map_eq_conv)
  then have l: "list_all2 (\<lambda>x y. (\<lambda>(k, v). print_floats fr v) x = Some y) d vs" by (simp only: those_map_iff)
  then have "list_all2 (\<lambda>p q. fst q = fst p \<and> print_floats fr (snd p) = Some (snd q)) d (zip (map fst d) vs)"
    by (auto simp: list_all2_conv_all_nth case_prod_beta)
  then show "\<exists>e. w = JObj e \<and> list_all2 (\<lambda>p q. fst q = fst p \<and> print_floats fr (snd p) = Some (snd q)) d e" using v(2) by blast
next
  assume "\<exists>e. w = JObj e \<and> list_all2 (\<lambda>p q. fst q = fst p \<and> print_floats fr (snd p) = Some (snd q)) d e"
  then obtain e where e: "w = JObj e" "list_all2 (\<lambda>p q. fst q = fst p \<and> print_floats fr (snd p) = Some (snd q)) d e" by blast
  have k: "map fst e = map fst d" using e(2) by (induction rule: list_all2_induct) auto
  have "list_all2 (\<lambda>x y. (\<lambda>(k, v). print_floats fr v) x = Some y) d (map snd e)"
    using e(2) by (auto simp: list_all2_conv_all_nth case_prod_beta)
  then have "those (map (\<lambda>(k, v). print_floats fr v) d) = Some (map snd e)" by (simp only: those_map_iff)
  then show "print_floats fr (JObj d) = Some w" using e(1) k [symmetric] by (simp add: zip_map_fst_snd)
qed

lemma print_floats_list: "print_floats fr (JList vs) = Some w \<longleftrightarrow>
  (\<exists>ws. w = JList ws \<and> list_all2 (\<lambda>x y. print_floats fr x = Some y) vs ws)"
  by (auto simp: those_map_iff)

lemma list_all2_mem: "list_all2 P xs ys \<Longrightarrow> y \<in> set ys \<Longrightarrow> \<exists>x \<in> set xs. P x y"
  by (induction rule: list_all2_induct) auto

lemma list_all2_fst: "list_all2 (\<lambda>p q. fst q = fst p \<and> P p q) d e \<Longrightarrow> map fst e = map fst d"
  by (induction rule: list_all2_induct) auto

text \<open>Printing gives a canonical form.\<close>

lemma print_floats_canonical:
  assumes fr: "float_printing fr"
  shows "json_like v \<Longrightarrow> keys_sorted v \<Longrightarrow> print_floats fr v = Some w \<Longrightarrow> canonical_form fr w"
proof (induction v arbitrary: w)
  case (JFloat t)
  then show ?case using float_printingD [OF fr] by (auto simp: canonical_form_def)
next
  case (JList vs)
  then obtain ws where w: "w = JList ws" "list_all2 (\<lambda>x y. print_floats fr x = Some y) vs ws" by (auto simp: those_map_iff)
  have "canonical_form fr y" if y: "y \<in> set ws" for y
  proof -
    obtain x where "x \<in> set vs" "print_floats fr x = Some y"
      using list_all2_mem [OF w(2) y] by blast
    then show ?thesis using JList by (auto simp: list_all_iff)
  qed
  then show ?case using w(1) by (auto simp: canonical_form_def list_all_iff those_map_iff list_all2_same)
next
  case (JObj d)
  obtain e where w: "w = JObj e" "list_all2 (\<lambda>p q. fst q = fst p \<and> print_floats fr (snd p) = Some (snd q)) d e"
    using JObj.prems(3) unfolding print_floats_obj by blast
  have k: "map fst e = map fst d" by (rule list_all2_fst [OF w(2)])
  have c: "canonical_form fr (snd q)" if q: "q \<in> set e" for q
  proof -
    obtain p where p: "p \<in> set d" "print_floats fr (snd p) = Some (snd q)"
      using list_all2_mem [OF w(2) q] by blast
    have "snd p \<in> Basic_BNFs.snds p" by (rule Basic_BNFs.snds.intros)
    then show ?thesis using JObj p by (fastforce simp: list_all_iff case_prod_beta)
  qed
  have "sorted_wrt key_le e = sorted_wrt (\<le>) (map fst e)" "sorted_wrt key_le d = sorted_wrt (\<le>) (map fst d)"
    by (simp_all add: sorted_wrt_map)
  then have s: "sorted_wrt key_le e" using JObj.prems(2) k by simp
  have pr: "print_floats fr (JObj e) = Some (JObj e)"
    unfolding print_floats_obj using c by (auto simp: canonical_form_def list_all2_same)
  show ?case
    using JObj.prems(1) k s c pr by (auto simp: w(1) canonical_form_def list_all_iff case_prod_beta simp del: print_floats.simps)
qed (auto simp: canonical_form_def)

text \<open>What the reader makes of a text.\<close>

lemma str_nat_length: "list_all ascii_digit ds \<Longrightarrow> ds \<noteq> [] \<Longrightarrow>
  0 \<le> int_of_digits ds \<and> length (str_nat (nat (int_of_digits ds))) \<le> length ds"
proof (induction ds rule: rev_induct)
  case (snoc c ds)
  have c: "0 \<le> digit_val c" "digit_val c < 10" using snoc.prems by (auto simp: digit_val_def ascii_digit_def Let_def)
  show ?case
  proof (cases "ds = []")
    case True
    then have "int_of_digits (ds @ [c]) = digit_val c" by (simp add: int_of_digits_def)
    moreover have "nat (digit_val c) < 10" using c by linarith
    ultimately show ?thesis using c True by (simp add: str_nat.simps [of "nat (digit_val c)"])
  next
    case False
    let ?m = "int_of_digits ds"
    have ih: "0 \<le> ?m" "length (str_nat (nat ?m)) \<le> length ds" using snoc False by auto
    have e: "int_of_digits (ds @ [c]) = 10 * ?m + digit_val c" by (rule int_of_digits_append)
    have "nat (10 * ?m + digit_val c) div 10 = nat ?m" using ih(1) c by linarith
    then show ?thesis using ih c e str_nat.simps [of "nat (10 * ?m + digit_val c)"] by auto
  qed
qed simp

lemma int_part_digits: "list_all ascii_digit (fst (int_part s))"
  by (cases s) (auto simp: int_part_def list_all_iff ascii_digit_def ord_def dest: set_takeWhileD)

lemma scan_number_like: "scan_number s = Some (v, r) \<Longrightarrow> json_like v"
proof -
  assume n: "scan_number s = Some (v, r)"
  define u where "u = (if take 1 s = ''-'' then tl s else s)"
  obtain ip r1 where i: "int_part u = (ip, r1)" by (cases "int_part u")
  obtain fp r2 where f: "frac_part r1 = (fp, r2)" by (cases "frac_part r1")
  obtain ep r3 where e: "exp_part r2 = (ep, r3)" by (cases "exp_part r2")
  have "ip \<noteq> [] \<and> (length ip \<le> 4300 \<and> v \<in> {JInt (int_of_digits ip), JInt (- int_of_digits ip)} \<or> (\<exists>t. v = JFloat t))"
    using n unfolding scan_number_def Let_def u_def [symmetric] by (auto simp: i f e split: if_splits)
  then show ?thesis using str_nat_length [of ip] int_part_digits [of u] i by auto
qed

lemma scan_word_like: "scan_word s = Some (v, r) \<Longrightarrow> json_like v"
  using scan_number_like by (auto simp: scan_word_def split: if_splits)

lemma parsed_json_like:
  "json_value no_duplicate_keys n s = Some (v, r) \<Longrightarrow> json_like v"
  "json_items no_duplicate_keys n s = Some (vs, r) \<Longrightarrow> list_all json_like vs"
  "json_pairs no_duplicate_keys n s = Some (kvs, r) \<Longrightarrow> list_all (\<lambda>(k, v). json_like v) kvs"
proof (induction n arbitrary: s v r vs kvs)
  case (Suc n)
  have obj: "json_like w" if "no_duplicate_keys d = Some w" "list_all (\<lambda>(k, v). json_like v) d" for d w
    using that by (auto simp: no_duplicate_keys_def split: if_splits)
  {
    case 1
    then show ?case using Suc.IH scan_word_like obj
      by (auto split: list.splits if_splits option.splits)
  next
    case 2
    then show ?case using Suc.IH by (auto split: list.splits if_splits option.splits)
  next
    case 3
    then show ?case using Suc.IH by (auto split: list.splits if_splits option.splits)
  }
qed simp_all

lemma canonical_of_form: "canonical_form fr v \<Longrightarrow> canonical fr v = Inr (utf8_bytes (canonical_text v))"
  by (simp add: canonical_form_def canonical_def sort_keys_sorted)

text \<open>A value can be written when it is a JSON value whose floats are printed as they stand.\<close>

definition writable :: "(string \<Rightarrow> string option) \<Rightarrow> jval \<Rightarrow> bool" where
  "writable fr v \<longleftrightarrow> json_ok v \<and> print_floats fr v = Some v"

lemma print_floats_sort: "print_floats fr v = Some v \<Longrightarrow> print_floats fr (sort_keys v) = Some (sort_keys v)"
proof (induction v rule: sort_keys.induct)
  case (1 kvs)
  have v: "print_floats fr (snd p) = Some (snd p)" if "p \<in> set kvs" for p
    using 1(2) that unfolding print_floats_obj by (auto simp: list_all2_same)
  have "print_floats fr (snd q) = Some (snd q)" if "q \<in> set (order_by key_le (map (\<lambda>(k, v). (k, sort_keys v)) kvs))" for q
    using that 1(1) v by (auto simp: case_prod_beta)
  then show ?case by (simp only: sort_keys.simps print_floats_obj) (auto simp: list_all2_same)
next
  case (2 vs)
  then show ?case by (auto simp: those_map_iff list_all2_same list_all2_map1 list_all2_map2)
qed simp_all

lemma writable_sorted: "writable fr v \<Longrightarrow> canonical_form fr (sort_keys v)"
  by (simp add: writable_def canonical_form_def sort_keys_ok print_floats_sort keys_sorted_sort)

lemma canonical_writable: "writable fr v \<Longrightarrow> canonical fr v = Inr (utf8_bytes (canonical_text (sort_keys v)))"
  using canonical_of_form [OF writable_sorted] by (simp add: canonical_def sort_keys_sorted keys_sorted_sort)

lemma loads_canonical: "json_ok v \<Longrightarrow> json_loads_hook no_duplicate_keys (canonical_text v) = Some v"
  unfolding canonical_text_def by (rule canonical_json.loads_write)

text \<open>
  The reader takes exactly the canonical bytes, and each of them for one value: it returns \<open>d\<close> for some bytes just when
  \<open>d\<close> is in canonical form and the bytes are its text.
\<close>

lemma parse_canonical_iff:
  assumes "float_printing fr"
  shows "parse_canonical fr raw = Inr d \<longleftrightarrow> canonical_form fr (JObj d) \<and> raw = utf8_bytes (canonical_text (JObj d))"
proof
  assume p: "parse_canonical fr raw = Inr d"
  then obtain s where s: "utf8_decode raw = Some s" "json_loads_hook no_duplicate_keys s = Some (JObj d)"
    "canonical fr (JObj d) = Inr raw"
    by (auto simp: parse_canonical_def split: option.splits jval.splits sum.splits if_splits)
  obtain w where w: "print_floats fr (sort_keys (JObj d)) = Some w" "raw = utf8_bytes (canonical_text w)"
    using s(3) by (auto simp: canonical_def simp del: sort_keys.simps split: option.splits)
  have "json_like (JObj d)"
    using s(2) parsed_json_like(1) by (auto simp: json_loads_hook_def simp del: json_like.simps json_value.simps split: option.splits if_splits)
  then have c: "canonical_form fr w"
    using print_floats_canonical [OF assms json_like_sort keys_sorted_sort w(1)] by blast
  have "s = canonical_text w" using s(1) w(2) utf8_decode_bytes by simp
  then have "w = JObj d" using loads_canonical [of w] c s(2) by (simp add: canonical_form_def)
  then show "canonical_form fr (JObj d) \<and> raw = utf8_bytes (canonical_text (JObj d))" using c w(2) by simp
next
  assume c: "canonical_form fr (JObj d) \<and> raw = utf8_bytes (canonical_text (JObj d))"
  then have "json_loads_hook no_duplicate_keys (canonical_text (JObj d)) = Some (JObj d)"
    using loads_canonical by (simp add: canonical_form_def del: json_ok.simps)
  then show "parse_canonical fr raw = Inr d"
    using c canonical_of_form [of fr "JObj d"] by (simp add: parse_canonical_def utf8_decode_bytes)
qed

text \<open>A dict with its keys in order, and what it gives back.\<close>

definition sorted_dict :: "jdict \<Rightarrow> jdict" where
  "sorted_dict d = order_by key_le (map (\<lambda>(k, v). (k, sort_keys v)) d)"

lemma sort_keys_obj: "sort_keys (JObj d) = JObj (sorted_dict d)"
  by (simp add: sorted_dict_def)

lemma map_of_sorted_dict: "distinct (map fst d) \<Longrightarrow> map_of (sorted_dict d) k = map_option sort_keys (map_of d k)"
proof -
  assume d: "distinct (map fst d)"
  let ?e = "map (\<lambda>(k, v). (k, sort_keys v)) d"
  have k: "map fst ?e = map fst d" by (simp add: case_prod_beta comp_def)
  have e: "distinct (map fst ?e)" by (simp only: k d)
  have m: "map_of (order_by key_le ?e) = map_of ?e"
    by (rule iffD2 [OF map_of_inject_set [OF distinct_map_order_by [OF e] e]]) simp
  have "map_of ?e k = map_option sort_keys (map_of d k)" for k by (induction d) auto
  then show ?thesis by (simp only: sorted_dict_def m)
qed

lemma opt_get_sorted_dict: "distinct (map fst d) \<Longrightarrow> opt_get (sorted_dict d) k JNull = sort_keys (opt_get d k JNull)"
  by (simp add: opt_get_def map_of_sorted_dict split: option.split)

lemma has_key_sorted_dict: "has_key (sorted_dict d) k = has_key d k"
  by (force simp: has_key_def sorted_dict_def)

lemma parse_written:
  assumes "float_printing fr" and "writable fr (JObj d)" and "canonical fr (JObj d) = Inr raw"
  shows "parse_canonical fr raw = Inr (sorted_dict d)"
  using parse_canonical_iff [OF assms(1)] writable_sorted [OF assms(2)] canonical_writable [OF assms(2)] assms(3)
  by (simp add: sort_keys_obj del: sort_keys.simps)

text \<open>Two values in canonical form with the same bytes are the same.\<close>

lemma canonical_inj:
  assumes "canonical_form fr v" and "canonical_form fr w" and "canonical fr v = canonical fr w"
  shows "v = w"
proof -
  have "utf8_bytes (canonical_text v) = utf8_bytes (canonical_text w)"
    using assms(3) canonical_of_form [OF assms(1)] canonical_of_form [OF assms(2)] by simp
  then have t: "canonical_text v = canonical_text w" by (rule utf8_inj)
  have "json_loads_hook no_duplicate_keys (canonical_text v) = Some v" "json_loads_hook no_duplicate_keys (canonical_text w) = Some w"
    by (rule loads_canonical, use assms(1,2) in \<open>simp add: canonical_form_def\<close>)+
  then show ?thesis unfolding t by simp
qed

end
