(* ===== verification/Base64.thy ===== *)
theory Base64
  imports Recovery_Key
begin

text \<open>
  Base64 as \<open>base64.b64encode\<close> and \<open>base64.b64decode\<close> do it, over the bits of the bytes. Without \<open>validate\<close> a character
  outside the alphabet is skipped and what follows a complete padding is ignored; with it either is an error. \<open>None\<close>
  stands for the \<open>ValueError\<close>.
\<close>

definition b64_char :: "nat \<Rightarrow> char" where
  "b64_char v = char_of (if v < 26 then 65 + v else if v < 52 then 71 + v else if v < 62 then v - 4 else if v = 62 then 43 else 47)"

definition b64_value :: "char \<Rightarrow> nat option" where
  "b64_value c = (let n = ord c in
     if ascii_upper c then Some (n - 65) else if ascii_lower c then Some (n - 71) else if ascii_digit c then Some (n + 4)
     else if n = 43 then Some 62 else if n = 47 then Some 63 else None)"

definition b64encode :: "bytes \<Rightarrow> string" where
  "b64encode raw = pad_to 4 (CHR ''='') (map b64_char (bit_values 6 raw))"

text \<open>The reader's state: the values so far, the pads since the last of them, whether padding has begun.\<close>

fun b64_scan :: "bool \<Rightarrow> nat list \<Rightarrow> nat \<Rightarrow> bool \<Rightarrow> string \<Rightarrow> nat list option" where
  "b64_scan strict vs pads begun [] = (if length vs mod 4 = 0 then Some vs else None)"
| "b64_scan strict vs pads begun (c # cs) =
     (let quad = length vs mod 4 in
      if c = CHR ''='' then
        (if strict \<and> quad = 0 then None
         else if 2 \<le> quad \<and> 4 \<le> quad + (pads + 1) then (if strict \<and> cs \<noteq> [] then None else Some vs)
         else b64_scan strict vs (if 2 \<le> quad then pads + 1 else pads) True cs)
      else case b64_value c of
          None \<Rightarrow> if strict then None else b64_scan strict vs pads begun cs
        | Some v \<Rightarrow> if strict \<and> begun then None else b64_scan strict (vs @ [v]) 0 begun cs)"

definition b64decode :: "bool \<Rightarrow> string \<Rightarrow> bytes option" where
  "b64decode strict s =
     (if \<not> list_all (\<lambda>c. ord c < 128) s then None
      else map_option (values_bytes 6) (b64_scan strict [] 0 False s))"

section \<open>What one reader takes the other takes\<close>

lemma b64_scan_lax: "b64_scan True vs pads begun s = Some us \<Longrightarrow> b64_scan False vs pads begun s = Some us"
  by (induction True vs pads begun s rule: b64_scan.induct) (auto simp: Let_def split: if_splits option.splits)

lemma b64decode_lax: "b64decode True s = Some b \<Longrightarrow> b64decode False s = Some b"
  using b64_scan_lax by (fastforce simp: b64decode_def split: if_splits)

section \<open>Round trip\<close>

lemma b64_value_char: "v < 64 \<Longrightarrow> b64_value (b64_char v) = Some v"
  by (auto simp: b64_value_def b64_char_def ascii_upper_def ascii_lower_def ascii_digit_def ord_def Let_def)

lemma b64_char_plain: "v < 64 \<Longrightarrow> ord (b64_char v) < 128 \<and> b64_char v \<noteq> CHR ''=''"
proof -
  assume v: "v < 64"
  then have "ord (b64_char v) < 128 \<and> ord (b64_char v) \<noteq> 61" by (auto simp: b64_char_def ord_def)
  then show ?thesis by (auto simp: ord_def)
qed

lemma b64_scan_symbols: "list_all (\<lambda>v. v < 64) us \<Longrightarrow> b64_scan strict vs 0 False (map b64_char us @ r) = b64_scan strict (vs @ us) 0 False r"
  by (induction us arbitrary: vs) (simp_all add: b64_value_char b64_char_plain Let_def)

lemma b64_count:
  defines "n \<equiv> \<lambda>raw. length (bit_values 6 raw)"
  shows "n raw mod 4 \<noteq> 1" and "6 * n raw div 8 = length raw"
proof -
  have k: "6 * n raw = 8 * length raw + (6 - 8 * length raw mod 6) mod 6"
    using length_bit_values [of 6 raw] by (simp add: n_def pad_to_def)
  moreover have "(6 - 8 * length raw mod 6) mod 6 < 6" by simp
  ultimately show "6 * n raw div 8 = length raw" by linarith
  show "n raw mod 4 \<noteq> 1"
  proof
    assume "n raw mod 4 = 1"
    then obtain q where "n raw = 4 * q + 1" by (metis mult_div_mod_eq)
    then have "8 * length raw + (6 - 8 * length raw mod 6) mod 6 = 24 * q + 6" using k by simp
    moreover have "(6 - 8 * length raw mod 6) mod 6 < 6" by simp
    ultimately have "8 * length raw \<le> 24 * q + 6" "24 * q < 8 * length raw" by linarith+
    then have "3 * q < length raw" by linarith
    then have "3 * q + 1 \<le> length raw" by linarith
    then show False using \<open>8 * length raw \<le> 24 * q + 6\<close> by linarith
  qed
qed

theorem b64_roundtrip: "b64decode strict (b64encode raw) = Some raw"
proof -
  let ?vs = "bit_values 6 raw"
  have small: "list_all (\<lambda>v. v < 64) ?vs" using bit_values_small [of 6 _ raw] by (auto simp: list_all_iff)
  define k where "k = (4 - length ?vs mod 4) mod 4"
  have e: "b64encode raw = map b64_char ?vs @ replicate k (CHR ''='')" by (simp add: b64encode_def pad_to_def k_def)
  have quad: "length ?vs mod 4 = 0 \<and> k = 0 \<or> length ?vs mod 4 = 2 \<and> k = 2 \<or> length ?vs mod 4 = 3 \<and> k = 1"
  proof -
    have "length ?vs mod 4 < 4" by simp
    then show ?thesis using b64_count(1) [of raw] unfolding k_def by (cases "length ?vs mod 4 = 0"; cases "length ?vs mod 4 = 2") auto
  qed
  have "b64_scan strict ?vs 0 False (replicate k (CHR ''='')) = Some ?vs"
    using quad by (auto simp: numeral_2_eq_2 Let_def)
  then have s: "b64_scan strict [] 0 False (b64encode raw) = Some ?vs" using b64_scan_symbols [OF small] by (simp add: e)
  have "list_all (\<lambda>c. ord c < 128) (b64encode raw)"
    using small b64_char_plain by (auto simp: e list_all_iff ord_def)
  then show ?thesis using s values_bytes_values [of 6 raw] b64_count(2) [of raw] by (simp add: b64decode_def)
qed

end
