(* ===== verification/Vault_Format.thy ===== *)
theory Vault_Format
  imports Canonical_Json Base64 Identity
begin

text \<open>
  The vault container (\<open>app/smartbrain_3000/vault_format.py\<close>): what a publisher packs and what a recipient takes out of
  a file from a stranger. SHA-256 and HMAC, the key derivation and the cipher, Ed25519 and the printing of floats are
  parameters. A file is what \<open>zipfile\<close> finds in it: its entries in the order of the central directory, with the sizes
  they declare. Of an error's text only what does not depend on the file is kept.
\<close>

section \<open>Bounds\<close>

definition FORMAT_VERSION :: int where "FORMAT_VERSION = 1"
definition MAX_VAULT_DOCS :: nat where "MAX_VAULT_DOCS = 10000"
definition MAX_VAULT_BYTES :: nat where "MAX_VAULT_BYTES = 512 * 1024 * 1024"
definition MAX_MANIFEST_BYTES :: nat where "MAX_MANIFEST_BYTES = 256 * 1024"
definition MAX_INDEX_BYTES :: nat where "MAX_INDEX_BYTES = 16 * 1024 * 1024"
definition MAX_ZIP_EXPANSION :: nat where "MAX_ZIP_EXPANSION = 100"
definition MAX_TITLE :: nat where "MAX_TITLE = 300"
definition MAX_PAGES :: nat where "MAX_PAGES = 1000"
definition MAX_TEXT :: nat where "MAX_TEXT = 4000000"
definition MAX_DIM :: nat where "MAX_DIM = 4096"
definition MAX_CHUNKS :: nat where "MAX_CHUNKS = 1000"
definition MAX_DOC_OBJECT_BYTES :: nat where "MAX_DOC_OBJECT_BYTES = 6 * MAX_TEXT + 1024 * 1024"
definition MAX_VEC_OBJECT_BYTES :: nat where "MAX_VEC_OBJECT_BYTES = 12 + MAX_CHUNKS * MAX_DIM * 4 + 16"

definition MANIFEST :: string where "MANIFEST = ''manifest.json''"
definition INDEX :: string where "INDEX = ''index.bin''"
definition VEC_MAGIC :: bytes where "VEC_MAGIC = ascii_bytes ''SBVEC1''"
definition KEY_PREFIX :: string where "KEY_PREFIX = ''SBVK1-''"
definition SIG_PREFIX :: bytes where "SIG_PREFIX = ascii_bytes (''sbvault-sig:v1'' @ [CHR 0x0A])"

record vault_env =
  ve_sha256 :: "bytes \<Rightarrow> bytes"
  ve_hmac :: "bytes \<Rightarrow> bytes \<Rightarrow> bytes"
  ve_hkdf :: "bytes \<Rightarrow> bytes \<Rightarrow> bytes \<Rightarrow> bytes"
  ve_seal :: "bytes \<Rightarrow> bytes \<Rightarrow> bytes \<Rightarrow> bytes \<Rightarrow> bytes"
  ve_unseal :: "bytes \<Rightarrow> bytes \<Rightarrow> bytes \<Rightarrow> bytes \<Rightarrow> bytes option"
  ve_float :: "string \<Rightarrow> string option"
  ve_float_is :: "string \<Rightarrow> int \<Rightarrow> bool"
  ve_sign :: sign_env

text \<open>\<open>_DATE_RE\<close>, and the hexadecimal form of a digest.\<close>

definition date_shape :: "string \<Rightarrow> bool" where
  "date_shape s = (length s = 10 \<and> s ! 4 = CHR ''-'' \<and> s ! 7 = CHR ''-'' \<and>
     list_all ascii_digit (take 4 s @ take 2 (drop 5 s) @ drop 8 s))"

definition hex_byte :: "8 word \<Rightarrow> string" where
  "hex_byte w = [hex_digit (unat w div 16), hex_digit (unat w mod 16)]"

definition hex :: "bytes \<Rightarrow> string" where
  "hex raw = concat (map hex_byte raw)"

definition sha_hex :: "vault_env \<Rightarrow> bytes \<Rightarrow> string" where
  "sha_hex E raw = hex (ve_sha256 E raw)"

section \<open>Keys\<close>

definition derive_sub :: "vault_env \<Rightarrow> bytes \<Rightarrow> string \<Rightarrow> string \<Rightarrow> bytes" where
  "derive_sub E vault_key vault_id info = ve_hkdf E vault_key (utf8_bytes vault_id) (ascii_bytes info)"

definition derive_name_key :: "vault_env \<Rightarrow> bytes \<Rightarrow> string \<Rightarrow> bytes" where
  "derive_name_key E vault_key vault_id = derive_sub E vault_key vault_id ''sbvault/v1/objname''"

definition encode_vault_key :: "bytes \<Rightarrow> string vault_result" where
  "encode_vault_key raw =
     (if length raw \<noteq> 32 then Inl (Escapes (Assertion ''vault key must be 32 bytes''))
      else Inr (KEY_PREFIX @ join ''-'' (split_every 4 (rstrip_eq (b32encode raw)))))"

definition shout :: "string \<Rightarrow> string" where
  "shout d = concat (map Recovery_Key.py_upper_char (strip d))"

definition decode_vault_key :: "string \<Rightarrow> bytes vault_result" where
  "decode_vault_key display =
     (if display = [] \<or> \<not> startswith (shout display) KEY_PREFIX
      then vault_error ''that is not a vault key - a vault key starts with SBVK1-''
      else let body = filter (\<lambda>c. c \<noteq> CHR '' '') (filter (\<lambda>c. c \<noteq> CHR ''-'') (drop (length KEY_PREFIX) (shout display)))
        in case b32decode (body @ replicate ((8 - length body mod 8) mod 8) (CHR ''='')) of
             Inl _ \<Rightarrow> vault_error ''that vault key is not valid''
           | Inr raw \<Rightarrow> if length raw \<noteq> 32 then vault_error ''that vault key is not valid'' else Inr raw)"

definition fingerprint :: "vault_env \<Rightarrow> string \<Rightarrow> string result" where
  "fingerprint E pubkey = (case b64decode False pubkey of
       None \<Rightarrow> Inl (ValueErr ''base64'')
     | Some key \<Rightarrow> Inr (''SB-'' @ join ''-'' (split_every 4 (take 16 (rstrip_eq (b32encode (take 10 (ve_sha256 E key))))))))"

text \<open>\<open>str.isprintable\<close> below 256, and the name a publisher chose made fit for a trusted sentence.\<close>

definition printable :: "char \<Rightarrow> bool" where
  "printable c = (let n = ord c in 32 \<le> n \<and> n < 127 \<or> 161 \<le> n \<and> n \<noteq> 173)"

definition sanitize_name :: "string \<Rightarrow> nat \<Rightarrow> string result" where
  "sanitize_name name cap =
     (if cap = 0 then Inl (Assertion ''cap must be positive'')
      else Inr (take cap (map (\<lambda>c. if printable c \<and> c \<notin> {CHR ''['', CHR '']'', CHR 0x27} then c else CHR '' '') name)))"

section \<open>Object names, nonces and bodies\<close>

definition tagged :: "string \<Rightarrow> string \<Rightarrow> string \<Rightarrow> bytes" where
  "tagged kind uid digest = ascii_bytes kind @ ascii_bytes ''|'' @ utf8_bytes uid @ ascii_bytes ''|'' @ utf8_bytes digest"

definition obj_name :: "vault_env \<Rightarrow> bytes \<Rightarrow> string \<Rightarrow> string \<Rightarrow> string \<Rightarrow> string" where
  "obj_name E k_name kind uid digest = hex (take 16 (ve_hmac E k_name (tagged kind uid digest)))"

definition nonce_for :: "vault_env \<Rightarrow> bytes \<Rightarrow> string \<Rightarrow> string \<Rightarrow> string \<Rightarrow> bytes" where
  "nonce_for E k_nonce kind uid digest = take 12 (ve_hmac E k_nonce (tagged kind uid digest))"

definition doc_aad :: "string \<Rightarrow> string \<Rightarrow> string \<Rightarrow> bytes" where
  "doc_aad kind vault_id uid = ascii_bytes (''sbvault:'' @ kind @ '':v1|'') @ utf8_bytes vault_id @ ascii_bytes ''|'' @ utf8_bytes uid"

definition index_aad :: "string \<Rightarrow> bytes" where
  "index_aad vault_id = ascii_bytes ''sbvault:index:v1|'' @ utf8_bytes vault_id"

definition obj_entry :: "string \<Rightarrow> string" where
  "obj_entry obj = ''objects/'' @ obj @ ''.bin''"

definition doc_object :: "vault_env \<Rightarrow> string \<Rightarrow> string \<Rightarrow> jdict \<Rightarrow> bytes result" where
  "doc_object E title content meta =
     canonical (ve_float E) (JObj [(''content'', JStr content), (''meta'', JObj meta), (''title'', JStr title)])"

text \<open>A float is its 32-bit pattern, little-endian; the header fields are unsigned 16-bit.\<close>

definition le16 :: "nat \<Rightarrow> bytes" where
  "le16 n = [of_nat (n mod 256), of_nat (n div 256)]"

definition of_le16 :: "bytes \<Rightarrow> nat" where
  "of_le16 b = unat (b ! 0) + 256 * unat (b ! 1)"

definition float_bytes :: "32 word \<Rightarrow> bytes" where
  "float_bytes w = map (\<lambda>i. ucast (drop_bit (8 * i) w)) [0, 1, 2, 3]"

definition float_of :: "bytes \<Rightarrow> 32 word" where
  "float_of b = foldr (\<lambda>x w. ucast x + 256 * w) b 0"

definition float_finite :: "32 word \<Rightarrow> bool" where
  "float_finite w = (unat (drop_bit 23 w) mod 256 \<noteq> 255)"

definition vec_object :: "32 word list list \<Rightarrow> bytes result" where
  "vec_object vectors = (case vectors of
       [] \<Rightarrow> Inl (OtherErr ''IndexError'')
     | v # _ \<Rightarrow>
         (let dim = length v; chunks = length vectors in
          if 65536 \<le> dim \<or> 65536 \<le> chunks then Inl (OtherErr ''struct.error'')
          else if \<not> list_all (\<lambda>u. length u = dim) vectors then Inl (OtherErr ''struct.error'')
          else Inr (VEC_MAGIC @ le16 dim @ le16 chunks @ le16 0 @ concat (map (\<lambda>u. concat (map float_bytes u)) vectors))))"

definition read_vec_object :: "bytes \<Rightarrow> 32 word list list vault_result" where
  "read_vec_object raw =
     (if length raw < 12 \<or> take 6 raw \<noteq> VEC_MAGIC then vault_error ''vector object is malformed''
      else let dim = of_le16 (take 2 (drop 6 raw)); chunks = of_le16 (take 2 (drop 8 raw)) in
        if \<not> (1 \<le> dim \<and> dim \<le> MAX_DIM) \<or> \<not> (1 \<le> chunks \<and> chunks \<le> MAX_CHUNKS)
        then vault_error ''vector object declares an out-of-range shape''
        else if length raw \<noteq> 12 + chunks * dim * 4 then vault_error ''vector object length does not match its header''
        else let out = map (\<lambda>row. map float_of (split_every 4 row)) (split_every (dim * 4) (drop 12 raw)) in
          if \<not> list_all (list_all float_finite) out then vault_error ''vector object contains a non-finite value'' else Inr out)"

section \<open>Provenance from a stranger\<close>

definition PAGE_LABELS :: "string list" where
  "PAGE_LABELS = [[], ''page'', ''slide'', ''sheet'']"

text \<open>The loop over \<open>pages\<close>, with the last value seen.\<close>

fun clean_pages :: "int \<Rightarrow> jval list \<Rightarrow> jval list vault_result" where
  "clean_pages least [] = Inr []"
| "clean_pages least (p # ps) = (case p of
       JInt n \<Rightarrow> if n < least then vault_error ''document page map must be non-negative and non-decreasing''
         else vbind (clean_pages n ps) (\<lambda>qs. Inr (JInt n # qs))
     | _ \<Rightarrow> vault_error ''document page map must be non-negative and non-decreasing'')"

definition clean_text :: "jdict \<Rightarrow> string \<Rightarrow> jdict" where
  "clean_text meta k = (case map_of meta k of Some (JStr s) \<Rightarrow> [(k, JStr (take 2048 s))] | _ \<Rightarrow> [])"

definition clean_page_label :: "jdict \<Rightarrow> jdict" where
  "clean_page_label meta = (case map_of meta ''page_label'' of
       None \<Rightarrow> []
     | Some v \<Rightarrow> [(''page_label'', if v \<in> JStr ` set PAGE_LABELS then v else JStr [])])"

definition clean_page_list :: "jdict \<Rightarrow> jdict vault_result" where
  "clean_page_list meta = (case map_of meta ''pages'' of
       None \<Rightarrow> Inr []
     | Some (JList ps) \<Rightarrow> if MAX_PAGES < length ps then vault_error ''document page map is malformed or too long''
         else vbind (clean_pages 0 ps) (\<lambda>qs. Inr [(''pages'', JList qs)])
     | Some _ \<Rightarrow> vault_error ''document page map is malformed or too long'')"

definition clean_meta :: "jval \<Rightarrow> jdict vault_result" where
  "clean_meta v = (case v of
       JObj meta \<Rightarrow> vbind (clean_page_list meta) (\<lambda>pages. Inr (clean_text meta ''filename'' @ clean_text meta ''source_url'' @
         clean_text meta ''mime'' @ clean_page_label meta @ pages))
     | _ \<Rightarrow> Inr [])"

section \<open>The container\<close>

text \<open>An entry: its name, the sizes it declares, and what reading it gives (\<open>None\<close>: the checksum fails).\<close>

record zip_entry =
  ze_name :: string
  ze_size :: nat
  ze_packed :: nat
  ze_data :: "bytes option"

record vault_file =
  vf_bytes :: nat
  vf_zip :: "zip_entry list option"

text \<open>\<open>getinfo\<close>: of several entries with a name the last one counts.\<close>

definition getinfo :: "zip_entry list \<Rightarrow> string \<Rightarrow> zip_entry option" where
  "getinfo z name = find (\<lambda>e. ze_name e = name) (rev z)"

definition entry :: "zip_entry list \<Rightarrow> string \<Rightarrow> nat \<Rightarrow> bytes vault_result" where
  "entry z name limit = (case getinfo z name of
       None \<Rightarrow> vault_error ''vault is missing an object it references''
     | Some e \<Rightarrow>
         if limit < ze_size e then vault_error ''entry is larger than allowed''
         else if ze_packed e \<noteq> 0 \<and> ze_packed e * MAX_ZIP_EXPANSION < ze_size e
         then vault_error ''entry expands suspiciously (possible zip bomb)''
         else case ze_data e of None \<Rightarrow> vault_error ''vault entry is corrupted'' | Some b \<Rightarrow> Inr b)"

definition endswith :: "string \<Rightarrow> string \<Rightarrow> bool" where
  "endswith s t = startswith (rev s) (rev t)"

definition allowed_entry :: "string \<Rightarrow> bool" where
  "allowed_entry n = (n = MANIFEST \<or> n = INDEX \<or>
     (startswith n ''objects/'' \<and> endswith n ''.bin'' \<and> length n = 8 + 32 + 4))"

definition open_container :: "vault_file \<Rightarrow> zip_entry list vault_result" where
  "open_container data =
     (if MAX_VAULT_BYTES < vf_bytes data then vault_error ''that vault file is too large''
      else case vf_zip data of
        None \<Rightarrow> vault_error ''that file is not a vault (it is not a valid archive)''
      | Some z \<Rightarrow>
          (let names = map ze_name z in
           if MANIFEST \<notin> set names \<or> INDEX \<notin> set names then vault_error ''that file is not a vault (no manifest)''
           else if \<not> list_all allowed_entry names then vault_error ''vault contains an unexpected entry'' else Inr z))"

definition manifest_entry :: "vault_file \<Rightarrow> bytes vault_result" where
  "manifest_entry data = vbind (open_container data) (\<lambda>z. entry z MANIFEST MAX_MANIFEST_BYTES)"

section \<open>The manifest\<close>

text \<open>
  \<open>envelope.get("sbvault")\<close> and \<open>(envelope.get("sig") or {}).get("value")\<close>, when they are a dict and a string. A truthy
  \<open>sig\<close> that is no dict has no \<open>get\<close>: that is an \<open>AttributeError\<close>, which neither caller catches.
\<close>

definition signed_parts :: "jdict \<Rightarrow> (jdict \<times> string) option vault_result" where
  "signed_parts envelope = (case opt_get envelope ''sbvault'' JNull of
       JObj payload \<Rightarrow>
         (let sig = opt_get envelope ''sig'' JNull in
          case if truthy sig then sig else JObj [] of
            JObj d \<Rightarrow> (case opt_get d ''value'' JNull of JStr v \<Rightarrow> Inr (Some (payload, v)) | _ \<Rightarrow> Inr None)
          | _ \<Rightarrow> Inl (Escapes (OtherErr ''AttributeError'')))
     | _ \<Rightarrow> Inr None)"

text \<open>\<open>identity.verify\<close> over what the signature covers.\<close>

definition signature_ok :: "vault_env \<Rightarrow> string \<Rightarrow> jdict \<Rightarrow> string \<Rightarrow> bool vault_result" where
  "signature_ok E pubkey payload sig = (case canonical (ve_float E) (JObj payload) of
       Inl e \<Rightarrow> Inl (Escapes e)
     | Inr raw \<Rightarrow> Inr (verify_signature (ve_sign E) pubkey (SIG_PREFIX @ raw) sig))"

definition manifest_signed_by :: "vault_env \<Rightarrow> bytes \<Rightarrow> string \<Rightarrow> bool vault_result" where
  "manifest_signed_by E raw pubkey =
     (if pubkey = [] then Inl (Escapes (Assertion ''pinned pubkey required''))
      else case parse_canonical (ve_float E) raw of
        Inl (VaultError _) \<Rightarrow> Inr False
      | Inl (Escapes e) \<Rightarrow> Inl (Escapes e)
      | Inr envelope \<Rightarrow> vbind (signed_parts envelope) (\<lambda>parts. case parts of
          None \<Rightarrow> Inr False | Some (payload, sig) \<Rightarrow> signature_ok E pubkey payload sig))"

text \<open>\<open>isinstance(v, int)\<close> with and without \<open>bool\<close>, and the number such a value is.\<close>

definition int_like :: "jval \<Rightarrow> int option" where
  "int_like v = (case v of JInt n \<Rightarrow> Some n | JBool b \<Rightarrow> Some (of_bool b) | _ \<Rightarrow> None)"

definition count_of :: "jval \<Rightarrow> int option" where
  "count_of v = (case v of JInt n \<Rightarrow> if 0 \<le> n then Some n else None | _ \<Rightarrow> None)"

definition text_of :: "jval \<Rightarrow> string option" where
  "text_of v = (case v of JStr s \<Rightarrow> Some s | _ \<Rightarrow> None)"

text \<open>\<open>d.get(k)\<close> where a string is required.\<close>

definition get_text :: "jdict \<Rightarrow> string \<Rightarrow> string option" where
  "get_text d k = text_of (opt_get d k JNull)"

text \<open>A dict within: \<open>(d.get(k) or {}).get(j)\<close>, a string or nothing.\<close>

definition inner_text :: "jdict \<Rightarrow> string \<Rightarrow> string \<Rightarrow> string option" where
  "inner_text d k j = (case opt_get d k JNull of JObj i \<Rightarrow> get_text i j | _ \<Rightarrow> None)"

text \<open>The fields every later step reads, and those that go with the mode.\<close>

definition fields_error :: "jdict \<Rightarrow> string option" where
  "fields_error p =
     (if (case get_text p ''vault_id'' of None \<Rightarrow> True | Some v \<Rightarrow> v = [] \<or> 100 < length v)
      then Some ''vault manifest is malformed (vault_id)''
      else if count_of (opt_get p ''seq'' JNull) = None then Some ''vault manifest is malformed (seq)''
      else if count_of (opt_get p ''doc_count'' JNull) = None then Some ''vault manifest is malformed (doc_count)''
      else if (case inner_text p ''index'' ''hash'' of None \<Rightarrow> True | Some h \<Rightarrow> length h \<noteq> 64)
      then Some ''vault manifest is malformed (index)''
      else if has_key p ''published_at'' \<and> (case get_text p ''published_at'' of None \<Rightarrow> True | Some v \<Rightarrow> \<not> date_shape v)
      then Some ''vault manifest is malformed (published_at)''
      else if has_key p ''retired'' \<and> opt_get p ''retired'' JNull \<noteq> JBool True then Some ''vault manifest is malformed (retired)''
      else None)"

definition mode_error :: "jdict \<Rightarrow> string option" where
  "mode_error p =
     (if opt_get p ''mode'' JNull = JStr ''sealed'' then
        (if \<not> is_dict (opt_get p ''crypto'' JNull) then Some ''this sealed vault is missing its encryption parameters''
         else if \<not> list_all (\<lambda>k. \<not> has_key p k) [''name'', ''description'', ''name_key'']
         then Some ''a sealed vault must not carry its name in the plaintext manifest'' else None)
      else if opt_get p ''mode'' JNull = JStr ''open'' then
        (if has_key p ''crypto'' then Some ''an open vault must not carry encryption parameters''
         else case get_text p ''name_key'' of
             None \<Rightarrow> Some ''this open vault is missing its object-naming key''
           | Some t \<Rightarrow> (case b64decode True t of
               None \<Rightarrow> Some ''the object-naming key of this open vault is not valid base64''
             | Some k \<Rightarrow> if length k \<noteq> 32 then Some ''the object-naming key of this open vault is the wrong length'' else None))
      else Some ''this vault uses a mode this version does not understand'')"

definition format_error :: "jdict \<Rightarrow> string option" where
  "format_error p =
     (if opt_get p ''format'' JNull \<noteq> JStr ''sbvault'' then Some ''that file is not a vault''
      else if (case int_like (opt_get p ''format_version'' JNull) of None \<Rightarrow> True | Some n \<Rightarrow> FORMAT_VERSION < n)
      then Some ''this vault was made by a newer version of SmartBrain''
      else if truthy (opt_get p ''requires'' JNull) then Some ''this vault needs features this version does not support''
      else if opt_get p ''publisher'' JNull \<noteq> JNull \<and> \<not> is_dict (opt_get p ''publisher'' JNull)
      then Some ''vault manifest is malformed (publisher)'' else None)"

definition refuse :: "string option \<Rightarrow> 'a vault_result \<Rightarrow> 'a vault_result" where
  "refuse e r = (case e of Some m \<Rightarrow> vault_error m | None \<Rightarrow> r)"

definition read_manifest_bytes :: "vault_env \<Rightarrow> bytes \<Rightarrow> jdict vault_result" where
  "read_manifest_bytes E raw =
     (if MAX_MANIFEST_BYTES < length raw then vault_error ''vault manifest is larger than allowed''
      else vbind (parse_canonical (ve_float E) raw) (\<lambda>envelope. vbind (signed_parts envelope) (\<lambda>parts. case parts of
          None \<Rightarrow> vault_error ''vault manifest is malformed''
        | Some (p, sig) \<Rightarrow> refuse (format_error p)
            (case inner_text p ''publisher'' ''pubkey'' of
               None \<Rightarrow> vault_error ''the signature of this vault is invalid''
             | Some pubkey \<Rightarrow> vbind (signature_ok E pubkey p sig) (\<lambda>ok.
                 if \<not> ok then vault_error ''the signature of this vault is invalid''
                 else refuse (fields_error p) (refuse (mode_error p) (Inr p)))))))"

definition read_manifest :: "vault_env \<Rightarrow> vault_file \<Rightarrow> jdict vault_result" where
  "read_manifest E data = vbind (manifest_entry data) (read_manifest_bytes E)"

end
