(* ===== verification/Vault_Open.thy ===== *)
theory Vault_Open
  imports Vault_Format
begin

text \<open>
  Opening a vault (\<open>read_index\<close>, \<open>read_doc_object\<close>, \<open>read_vec_body\<close> and \<open>open_vault\<close> of
  \<open>app/smartbrain_3000/vault_format.py\<close>) and packing one (\<open>pack\<close>). The publisher's private key, which the code takes
  from its secret store, is an argument of \<open>pack\<close>, whose result is the archive's entries in the order they are written.
\<close>

section \<open>The index\<close>

text \<open>The keys of a row the code reads again later: the last is the vectors' object and hash, when it has them.\<close>

record index_row =
  ir_uid :: string
  ir_hash :: string
  ir_obj :: string
  ir_vec :: "(string \<times> string) option"

text \<open>Python's \<open>==\<close> between a JSON value and an integer.\<close>

definition num_is :: "vault_env \<Rightarrow> jval \<Rightarrow> jval \<Rightarrow> bool" where
  "num_is E v w = (case int_like w of
       None \<Rightarrow> False
     | Some n \<Rightarrow> (case v of JFloat t \<Rightarrow> ve_float_is E t n | _ \<Rightarrow> int_like v = Some n))"

definition read_vec_ref :: "vault_env \<Rightarrow> bytes \<Rightarrow> string \<Rightarrow> jdict \<Rightarrow> (string \<times> string) option vault_result" where
  "read_vec_ref E k_name uid row = (case opt_get row ''vec'' JNull of
       JObj vec \<Rightarrow> (case get_text vec ''obj'' of
           None \<Rightarrow> Inr None
         | Some vobj \<Rightarrow> (case get_text vec ''hash'' of
             None \<Rightarrow> vault_error ''the vectors of a vault are misnamed''
           | Some vhash \<Rightarrow> if obj_name E k_name ''vec'' uid vhash \<noteq> vobj then vault_error ''the vectors of a vault are misnamed''
               else Inr (Some (vobj, vhash))))
     | _ \<Rightarrow> Inr None)"

definition read_row :: "vault_env \<Rightarrow> bytes \<Rightarrow> string list \<Rightarrow> jval \<Rightarrow> index_row vault_result" where
  "read_row E k_name seen v = (case v of
       JObj row \<Rightarrow> (case (get_text row ''uid'', get_text row ''hash'', get_text row ''obj'') of
           (Some uid, Some digest, Some obj) \<Rightarrow>
             if uid \<in> set seen then vault_error ''vault index names the same document twice''
             else if obj_name E k_name ''doc'' uid digest \<noteq> obj then vault_error ''a vault object is misnamed''
             else vbind (read_vec_ref E k_name uid row)
               (\<lambda>vec. Inr \<lparr>ir_uid = uid, ir_hash = digest, ir_obj = obj, ir_vec = vec\<rparr>)
         | _ \<Rightarrow> vault_error ''vault index entry is malformed'')
     | _ \<Rightarrow> vault_error ''vault index entry is malformed'')"

fun read_rows :: "vault_env \<Rightarrow> bytes \<Rightarrow> string list \<Rightarrow> jval list \<Rightarrow> index_row list vault_result" where
  "read_rows E k_name seen [] = Inr []"
| "read_rows E k_name seen (v # vs) = vbind (read_row E k_name seen v)
     (\<lambda>r. vbind (read_rows E k_name (ir_uid r # seen) vs) (\<lambda>rs. Inr (r # rs)))"

definition read_index :: "vault_env \<Rightarrow> jdict \<Rightarrow> bytes \<Rightarrow> bytes \<Rightarrow> index_row list vault_result" where
  "read_index E p index_raw k_name =
     (if length k_name \<noteq> 32 then Inl (Escapes (Assertion ''object-naming key must be 32 bytes''))
      else if inner_text p ''index'' ''hash'' \<noteq> Some (sha_hex E index_raw) then vault_error ''vault index does not match its signed hash''
      else vbind (parse_canonical (ve_float E) index_raw) (\<lambda>index.
        if opt_get index ''vault_id'' JNull \<noteq> opt_get p ''vault_id'' JNull \<or>
           \<not> num_is E (opt_get index ''seq'' JNull) (opt_get p ''seq'' JNull)
        then vault_error ''vault index disagrees with its manifest''
        else case opt_get index ''docs'' JNull of
            JList rows \<Rightarrow> if MAX_VAULT_DOCS < length rows \<or> int_like (opt_get p ''doc_count'' JNull) \<noteq> Some (int (length rows))
              then vault_error ''vault index is malformed'' else read_rows E k_name [] rows
          | _ \<Rightarrow> vault_error ''vault index is malformed''))"

section \<open>The documents\<close>

record vault_doc =
  vd_uid :: string
  vd_title :: string
  vd_content :: string
  vd_meta :: jdict
  vd_hash :: string
  vd_vectors :: "32 word list list option"

definition read_doc_object :: "vault_env \<Rightarrow> bytes \<Rightarrow> index_row \<Rightarrow> vault_doc vault_result" where
  "read_doc_object E body row =
     (if sha_hex E body \<noteq> ir_hash row then vault_error ''a vault document does not match its signed hash''
      else vbind (parse_canonical (ve_float E) body) (\<lambda>d.
        case (get_text d ''title'', get_text d ''content'') of
          (Some title, Some content) \<Rightarrow>
            if MAX_TEXT < length content then vault_error ''a vault document is malformed or too large''
            else vbind (clean_meta (opt_get d ''meta'' JNull)) (\<lambda>meta. Inr
              \<lparr>vd_uid = ir_uid row, vd_title = (if take MAX_TITLE title = [] then ''Untitled'' else take MAX_TITLE title),
               vd_content = content, vd_meta = meta, vd_hash = ir_hash row, vd_vectors = None\<rparr>)
        | _ \<Rightarrow> vault_error ''a vault document is malformed or too large''))"

definition read_vec_body :: "vault_env \<Rightarrow> bytes \<Rightarrow> string \<Rightarrow> 32 word list list vault_result" where
  "read_vec_body E vbody vhash =
     (if sha_hex E vbody \<noteq> vhash then vault_error ''the vectors of a vault do not match their signed hash''
      else read_vec_object vbody)"

text \<open>\<open>doc_hash\<close> and \<open>docs_fingerprint\<close>: what a document and a set of documents hash to.\<close>

definition doc_hash :: "vault_env \<Rightarrow> string \<Rightarrow> string \<Rightarrow> jdict \<Rightarrow> string result" where
  "doc_hash E title content meta = rmap1 (sha_hex E) (doc_object E title content meta)"

section \<open>Opening\<close>

text \<open>The keys a mode works with: in open mode there is no cipher, and the naming key stands in the manifest.\<close>

record vault_keys =
  vk_content :: "(bytes \<times> bytes) option"
  vk_name :: bytes

text \<open>\<open>_derive\<close>d keys: content and nonce key, and the naming key.\<close>

definition sealed_keys :: "vault_env \<Rightarrow> bytes \<Rightarrow> string \<Rightarrow> vault_keys" where
  "sealed_keys E key vault_id =
     \<lparr>vk_content = Some (derive_sub E key vault_id ''sbvault/v1/content'', derive_sub E key vault_id ''sbvault/v1/nonce''),
      vk_name = derive_name_key E key vault_id\<rparr>"

definition keys_for :: "vault_env \<Rightarrow> jdict \<Rightarrow> string \<Rightarrow> bytes option \<Rightarrow> vault_keys vault_result" where
  "keys_for E p vault_id vault_key =
     (if opt_get p ''mode'' JNull = JStr ''sealed'' then
        (case vault_key of
           None \<Rightarrow> vault_error ''this vault is sealed - it needs a key to open''
         | Some key \<Rightarrow> Inr (sealed_keys E key vault_id))
      else case get_text p ''name_key'' of
          None \<Rightarrow> Inl (Escapes (OtherErr ''KeyError''))
        | Some t \<Rightarrow> (case b64decode False t of
            None \<Rightarrow> Inl (Escapes (ValueErr ''base64'')) | Some k \<Rightarrow> Inr \<lparr>vk_content = None, vk_name = k\<rparr>))"

text \<open>A stored body: decrypted under its nonce and associated data, or as it is.\<close>

definition unlock_body :: "vault_env \<Rightarrow> vault_keys \<Rightarrow> string \<Rightarrow> string \<Rightarrow> string \<Rightarrow> bytes \<Rightarrow> string \<Rightarrow> bytes \<Rightarrow> bytes vault_result" where
  "unlock_body E K kind uid digest aad msg raw = (case vk_content K of
       None \<Rightarrow> Inr raw
     | Some (cek, k_nonce) \<Rightarrow> (case ve_unseal E cek (nonce_for E k_nonce kind uid digest) raw aad of
         None \<Rightarrow> vault_error msg | Some body \<Rightarrow> Inr body))"

definition open_vectors :: "vault_env \<Rightarrow> vault_keys \<Rightarrow> string \<Rightarrow> zip_entry list \<Rightarrow> index_row \<Rightarrow> 32 word list list option vault_result" where
  "open_vectors E K vault_id z row = (case ir_vec row of
       None \<Rightarrow> Inr None
     | Some (vobj, vhash) \<Rightarrow>
         vbind (entry z (obj_entry vobj) MAX_VEC_OBJECT_BYTES) (\<lambda>raw.
         vbind (unlock_body E K ''vec'' (ir_uid row) vhash (doc_aad ''vec'' vault_id (ir_uid row))
           ''the vectors of a vault failed their integrity check'' raw) (\<lambda>vbody.
         vbind (read_vec_body E vbody vhash) (\<lambda>vs. Inr (Some vs)))))"

definition open_doc :: "vault_env \<Rightarrow> vault_keys \<Rightarrow> string \<Rightarrow> zip_entry list \<Rightarrow> index_row \<Rightarrow> vault_doc vault_result" where
  "open_doc E K vault_id z row =
     vbind (entry z (obj_entry (ir_obj row)) MAX_DOC_OBJECT_BYTES) (\<lambda>raw.
     vbind (unlock_body E K ''doc'' (ir_uid row) (ir_hash row) (doc_aad ''doc'' vault_id (ir_uid row))
       ''a vault document failed its integrity check'' raw) (\<lambda>body.
     vbind (read_doc_object E body row) (\<lambda>d.
     vbind (open_vectors E K vault_id z row) (\<lambda>vs. Inr (d\<lparr>vd_vectors := vs\<rparr>)))))"

fun vmap :: "('a \<Rightarrow> 'b vault_result) \<Rightarrow> 'a list \<Rightarrow> 'b list vault_result" where
  "vmap f [] = Inr []"
| "vmap f (x # xs) = vbind (f x) (\<lambda>y. vbind (vmap f xs) (\<lambda>ys. Inr (y # ys)))"

definition referenced :: "index_row list \<Rightarrow> string list" where
  "referenced rows = concat (map (\<lambda>r. obj_entry (ir_obj r) #
     (case ir_vec r of None \<Rightarrow> [] | Some (vobj, _) \<Rightarrow> [obj_entry vobj])) rows)"

definition shown_text :: "jdict \<Rightarrow> string \<Rightarrow> string" where
  "shown_text src k = (case get_text src k of Some s \<Rightarrow> take MAX_TITLE s | None \<Rightarrow> [])"

definition with_title :: "vault_env \<Rightarrow> jdict \<Rightarrow> bytes \<Rightarrow> jdict vault_result" where
  "with_title E p index_raw =
     vbind (if opt_get p ''mode'' JNull = JStr ''open'' then Inr p else parse_canonical (ve_float E) index_raw) (\<lambda>src.
       Inr (dict_set p ''_sealed'' (JObj [(''name'', JStr (shown_text src ''name'')),
         (''description'', JStr (shown_text src ''description''))])))"

definition open_vault :: "vault_env \<Rightarrow> vault_file \<Rightarrow> bytes option \<Rightarrow> (jdict \<times> vault_doc list) vault_result" where
  "open_vault E data vault_key = vbind (read_manifest E data) (\<lambda>p.
     case (get_text p ''vault_id'', inner_text p ''index'' ''hash'', vf_zip data) of
       (Some vault_id, Some ihash, Some z) \<Rightarrow>
         vbind (keys_for E p vault_id vault_key) (\<lambda>K.
         vbind (entry z INDEX MAX_INDEX_BYTES) (\<lambda>index_ct.
         vbind (unlock_body E K ''index'' vault_id ihash (index_aad vault_id) ''that key does not open this vault'' index_ct) (\<lambda>index_raw.
         vbind (read_index E p index_raw (vk_name K)) (\<lambda>rows.
         vbind (with_title E p index_raw) (\<lambda>p'.
         vbind (vmap (open_doc E K vault_id z) rows) (\<lambda>docs.
           if \<not> list_all (\<lambda>n. startswith n ''objects/'' \<longrightarrow> n \<in> set (referenced rows)) (map ze_name z)
           then vault_error ''vault contains an object its index does not reference'' else Inr (p', docs)))))))
     | _ \<Rightarrow> Inl (Escapes (OtherErr ''KeyError'')))"

end
