(* ===== verification/Vault_Pack.thy ===== *)
theory Vault_Pack
  imports Vault_Open
begin

text \<open>
  Packing a vault (\<open>pack\<close> of \<open>app/smartbrain_3000/vault_format.py\<close>): the entries of the archive, and the file a
  recipient finds in the bytes \<open>zipfile\<close> writes for them. The publisher's private key, which the code takes from its
  secret store, is an argument.
\<close>

record pack_doc =
  pd_uid :: string
  pd_title :: string
  pd_content :: string
  pd_meta :: jdict
  pd_chunks :: "int option"
  pd_vectors :: "32 word list list"

record pack_args =
  pk_vault_id :: string
  pk_name :: string
  pk_description :: string
  pk_seq :: int
  pk_docs :: "pack_doc list"
  pk_vault_key :: "bytes option"
  pk_name_key :: "bytes option"
  pk_mode :: string
  pk_model :: string
  pk_label :: string
  pk_published :: "string option"
  pk_retired :: bool

definition lift_result :: "'a result \<Rightarrow> 'a vault_result" where
  "lift_result r = (case r of Inl e \<Rightarrow> Inl (Escapes e) | Inr x \<Rightarrow> Inr x)"

text \<open>\<open>aes.encrypt\<close> in sealed mode; in open mode the body as it is.\<close>

definition lock_body :: "vault_env \<Rightarrow> vault_keys \<Rightarrow> string \<Rightarrow> string \<Rightarrow> string \<Rightarrow> bytes \<Rightarrow> bytes \<Rightarrow> bytes" where
  "lock_body E K kind uid digest aad body = (case vk_content K of
       None \<Rightarrow> body
     | Some (cek, k_nonce) \<Rightarrow> ve_seal E cek (nonce_for E k_nonce kind uid digest) body aad)"

text \<open>What one document adds: its entries and its row.\<close>

definition pack_vectors :: "vault_env \<Rightarrow> vault_keys \<Rightarrow> string \<Rightarrow> pack_doc \<Rightarrow> ((string \<times> bytes) list \<times> jdict) vault_result" where
  "pack_vectors E K vault_id d =
     (if pd_vectors d = [] then Inr ([], [])
      else vbind (lift_result (vec_object (pd_vectors d))) (\<lambda>vbody.
        let vdigest = sha_hex E vbody; vobj = obj_name E (vk_name K) ''vec'' (pd_uid d) vdigest
        in Inr ([(obj_entry vobj, lock_body E K ''vec'' (pd_uid d) vdigest (doc_aad ''vec'' vault_id (pd_uid d)) vbody)],
          [(''vec'', JObj [(''obj'', JStr vobj), (''hash'', JStr vdigest), (''bytes'', JInt (int (length vbody)))])])))"

definition pack_one :: "vault_env \<Rightarrow> vault_keys \<Rightarrow> string \<Rightarrow> pack_doc \<Rightarrow> ((string \<times> bytes) list \<times> jval) vault_result" where
  "pack_one E K vault_id d =
     (let title = take MAX_TITLE (pd_title d) in
      vbind (lift_result (doc_object E title (pd_content d) (pd_meta d))) (\<lambda>body.
        let digest = sha_hex E body; obj = obj_name E (vk_name K) ''doc'' (pd_uid d) digest;
            row = [(''uid'', JStr (pd_uid d)), (''title'', JStr title), (''hash'', JStr digest), (''obj'', JStr obj),
              (''bytes'', JInt (int (length body))),
              (''chunks'', JInt (case pd_chunks d of None \<Rightarrow> 1 | Some n \<Rightarrow> if n = 0 then 1 else n))]
        in vbind (pack_vectors E K vault_id d) (\<lambda>(ventries, vrow).
          Inr ((obj_entry obj, lock_body E K ''doc'' (pd_uid d) digest (doc_aad ''doc'' vault_id (pd_uid d)) body) # ventries,
            JObj (row @ vrow)))))"

definition index_payload :: "pack_args \<Rightarrow> jval list \<Rightarrow> jdict" where
  "index_payload a rows = [(''format_version'', JInt FORMAT_VERSION), (''vault_id'', JStr (pk_vault_id a)),
     (''seq'', JInt (pk_seq a)), (''name'', JStr (pk_name a)), (''description'', JStr (pk_description a)), (''docs'', JList rows)]"

definition embeddings_block :: "pack_args \<Rightarrow> jval" where
  "embeddings_block a =
     (let dims = map (\<lambda>d. length (hd (pd_vectors d))) (filter (\<lambda>d. pd_vectors d \<noteq> []) (pk_docs a)) in
      if dims = [] \<or> pk_model a = [] then JNull
      else JObj [(''model'', JStr (pk_model a)), (''dim'', JInt (int (Min (set dims)))),
        (''chunking'', JObj [(''scheme'', JStr ''sb-chunk-v1''), (''chunk_chars'', JInt 4000),
          (''max_chunks'', JInt (int MAX_CHUNKS)), (''title_prefix'', JBool True)])])"

definition mode_fields :: "pack_args \<Rightarrow> bytes \<Rightarrow> jdict" where
  "mode_fields a name_key =
     (if pk_mode a = ''sealed'' then
        [(''crypto'', JObj [(''alg'', JStr ''AES-256-GCM''), (''kdf'', JStr ''hkdf-sha256''), (''key_epoch'', JInt 1),
           (''key_wraps'', JList [JObj [(''type'', JStr ''direct'')]])])]
      else [(''name'', JStr (pk_name a)), (''description'', JStr (pk_description a)), (''name_key'', JStr (b64encode name_key))])"

definition manifest_payload :: "vault_env \<Rightarrow> bytes \<Rightarrow> pack_args \<Rightarrow> bytes \<Rightarrow> bytes \<Rightarrow> jdict" where
  "manifest_payload E signer a name_key index_raw =
     [(''format'', JStr ''sbvault''), (''format_version'', JInt FORMAT_VERSION), (''requires'', JList []),
      (''vault_id'', JStr (pk_vault_id a)), (''seq'', JInt (pk_seq a)), (''mode'', JStr (pk_mode a)),
      (''publisher'', JObj [(''alg'', JStr ''ed25519''), (''pubkey'', JStr (sg_b64e (ve_sign E) (sg_public (ve_sign E) signer))),
         (''label'', JStr (take 100 (pk_label a)))]),
      (''doc_count'', JInt (int (length (pk_docs a)))),
      (''index'', JObj [(''hash'', JStr (sha_hex E index_raw)), (''bytes'', JInt (int (length index_raw)))]),
      (''embeddings'', embeddings_block a)] @
     mode_fields a name_key @
     (case pk_published a of None \<Rightarrow> [] | Some day \<Rightarrow> [(''published_at'', JStr day)]) @
     (if pk_retired a then [(''retired'', JBool True)] else [])"

text \<open>The guards, and the keys of the mode.\<close>

definition pack_keys :: "vault_env \<Rightarrow> pack_args \<Rightarrow> vault_keys vault_result" where
  "pack_keys E a =
     (if pk_mode a \<noteq> ''sealed'' \<and> pk_mode a \<noteq> ''open'' then vault_error ''unknown vault mode''
      else if MAX_VAULT_DOCS < length (pk_docs a) then vault_error ''a vault holds at most 10000 documents''
      else if (case pk_published a of None \<Rightarrow> False | Some day \<Rightarrow> \<not> date_shape day)
      then vault_error ''published_at must be a YYYY-MM-DD calendar date''
      else if pk_mode a = ''sealed'' then
        (case pk_vault_key a of
           None \<Rightarrow> Inl (Escapes (Assertion ''sealed pack requires a vault key''))
         | Some key \<Rightarrow> Inr (sealed_keys E key (pk_vault_id a)))
      else (case pk_name_key a of
           None \<Rightarrow> Inl (Escapes (Assertion ''open pack requires a 32-byte name_key''))
         | Some k \<Rightarrow> if length k \<noteq> 32 then Inl (Escapes (Assertion ''open pack requires a 32-byte name_key''))
             else Inr \<lparr>vk_content = None, vk_name = k\<rparr>))"

definition set_entries :: "(string \<times> bytes) list \<Rightarrow> (string \<times> bytes) list" where
  "set_entries ps = fold (\<lambda>(n, b) es. dict_set es n b) ps []"

text \<open>Up to what is signed: the keys, what the documents gave, the index and the manifest's payload, as bytes.\<close>

record packed_parts =
  pp_keys :: vault_keys
  pp_docs :: "((string \<times> bytes) list \<times> jval) list"
  pp_index :: bytes
  pp_payload :: jdict
  pp_signed :: bytes

definition pack_parts :: "vault_env \<Rightarrow> bytes \<Rightarrow> pack_args \<Rightarrow> packed_parts vault_result" where
  "pack_parts E signer a = vbind (pack_keys E a) (\<lambda>K.
     vbind (vmap (pack_one E K (pk_vault_id a)) (pk_docs a)) (\<lambda>packed.
     vbind (lift_result (canonical (ve_float E) (JObj (index_payload a (map snd packed))))) (\<lambda>index_raw.
     let payload = manifest_payload E signer a (vk_name K) index_raw
     in vbind (lift_result (canonical (ve_float E) (JObj payload))) (\<lambda>manifest_raw.
       Inr \<lparr>pp_keys = K, pp_docs = packed, pp_index = index_raw, pp_payload = payload, pp_signed = manifest_raw\<rparr>))))"

text \<open>The archive in writing order: the manifest, the index, the objects by name.\<close>

definition envelope_of :: "jdict \<Rightarrow> string \<Rightarrow> jdict" where
  "envelope_of payload sig = [(''sbvault'', JObj payload), (''sig'', JObj [(''alg'', JStr ''ed25519''), (''value'', JStr sig)])]"

definition pack :: "vault_env \<Rightarrow> bytes \<Rightarrow> pack_args \<Rightarrow> (string \<times> bytes) list vault_result" where
  "pack E signer a = vbind (pack_parts E signer a) (\<lambda>P.
     let sig = sg_b64e (ve_sign E) (sg_sign (ve_sign E) signer (SIG_PREFIX @ pp_signed P))
     in vbind (lift_result (canonical (ve_float E) (JObj (envelope_of (pp_payload P) sig)))) (\<lambda>envelope.
       Inr ([(MANIFEST, envelope),
         (INDEX, lock_body E (pp_keys P) ''index'' (pk_vault_id a) (sha_hex E (pp_index P)) (index_aad (pk_vault_id a)) (pp_index P))] @
         order_by (\<lambda>x y. fst x \<le> fst y) (set_entries (concat (map fst (pp_docs P)))))))"

section \<open>The archive\<close>

text \<open>
  What \<open>zipfile\<close> reads back from an archive it wrote: the entries with their bytes, stored ones at their own size and
  the deflated manifest at whatever size it came out at.
\<close>

definition stored :: "nat \<Rightarrow> string \<times> bytes \<Rightarrow> zip_entry" where
  "stored deflated e = (case e of (n, b) \<Rightarrow>
     \<lparr>ze_name = n, ze_size = length b, ze_packed = (if n = MANIFEST then deflated else length b), ze_data = Some b\<rparr>)"

definition archive_of :: "nat \<Rightarrow> nat \<Rightarrow> (string \<times> bytes) list \<Rightarrow> vault_file" where
  "archive_of nbytes deflated es = \<lparr>vf_bytes = nbytes, vf_zip = Some (map (stored deflated) es)\<rparr>"

definition pack_rows :: "vault_env \<Rightarrow> pack_doc \<Rightarrow> (string \<times> string) result" where
  "pack_rows E d = rmap1 (\<lambda>h. (pd_uid d, h)) (doc_hash E (pd_title d) (pd_content d) (pd_meta d))"

definition pair_le :: "string \<times> string \<Rightarrow> string \<times> string \<Rightarrow> bool" where
  "pair_le x y = (fst x < fst y \<or> (fst x = fst y \<and> snd x \<le> snd y))"

definition docs_fingerprint :: "vault_env \<Rightarrow> pack_doc list \<Rightarrow> string result" where
  "docs_fingerprint E ds = rbind (rmap (pack_rows E) ds) (\<lambda>rows.
     rmap1 (sha_hex E) (canonical (ve_float E) (JList (map (\<lambda>(u, h). JList [JStr u, JStr h]) (order_by pair_le rows)))))"

end
