(* ===== verification/Vault_Integrity.thy ===== *)
theory Vault_Integrity
  imports Vault_Pack
begin

section \<open>Inverting an opening\<close>

lemma refuse_Inr [simp]: "refuse e r = Inr x \<longleftrightarrow> e = None \<and> r = Inr x"
  by (cases e) (auto simp: refuse_def)

lemma vmap_Inr: "vmap f xs = Inr ys \<longleftrightarrow> list_all2 (\<lambda>x y. f x = Inr y) xs ys"
proof (induction xs arbitrary: ys)
  case (Cons x xs)
  then show ?case by (cases ys) (auto simp: vbind_Inr_iff)
qed auto

lemma hex_byte_inj: "hex_byte a = hex_byte b \<Longrightarrow> a = b"
proof -
  assume h: "hex_byte a = hex_byte b"
  have small: "unat w div 16 < 16" "unat w mod 16 < 16" for w :: "8 word"
  proof -
    have "(unsigned w :: nat) < 2 ^ LENGTH(8)" by (rule unsigned_less)
    then show "unat w div 16 < 16" "unat w mod 16 < 16" by (simp_all add: less_mult_imp_div_less)
  qed
  have d: "m < 16 \<Longrightarrow> n < 16 \<Longrightarrow> hex_digit m = hex_digit n \<Longrightarrow> m = n" for m n
    using hex_digit_val [of m] hex_digit_val [of n] by metis
  have "unat a div 16 = unat b div 16" "unat a mod 16 = unat b mod 16"
    using h d small by (auto simp: hex_byte_def)
  then have "unat a = unat b" by (metis div_mult_mod_eq)
  then show ?thesis using word_unat_eq_iff by blast
qed

lemma hex_inj: "hex a = hex b \<Longrightarrow> a = b"
proof (induction a arbitrary: b)
  case Nil
  then show ?case by (cases b) (simp_all add: hex_def hex_byte_def)
next
  case (Cons x a)
  then obtain y c where b: "b = y # c" by (cases b) (simp_all add: hex_def hex_byte_def)
  have "hex_byte x @ hex a = hex_byte y @ hex c" using Cons.prems by (simp add: b hex_def)
  then have "hex_byte x = hex_byte y" "hex a = hex c" by (simp_all add: hex_byte_def)
  then show ?case using Cons.IH hex_byte_inj b by simp
qed

text \<open>Everything a reader of a file may hash: what an entry holds, and what the cipher makes of it under any key.\<close>

definition readable :: "vault_env \<Rightarrow> vault_file \<Rightarrow> bytes set" where
  "readable E f = {b. \<exists>z e raw. vf_zip f = Some z \<and> e \<in> set z \<and> ze_data e = Some raw \<and>
     (b = raw \<or> (\<exists>key nonce aad. ve_unseal E key nonce raw aad = Some b))}"

lemma sha_hex_inj: "inj_on (ve_sha256 E) B \<Longrightarrow> b \<in> B \<Longrightarrow> c \<in> B \<Longrightarrow> sha_hex E b = sha_hex E c \<Longrightarrow> b = c"
  using hex_inj inj_onD by (fastforce simp: sha_hex_def)

lemma entry_readable:
  assumes "vf_zip f = Some z" and "entry z n limit = Inr raw" and "unlock_body E K kind uid digest aad msg raw = Inr body"
  shows "body \<in> readable E f"
proof -
  obtain e where e: "getinfo z n = Some e" "ze_data e = Some raw"
    using assms(2) by (auto simp: entry_def split: option.splits if_splits)
  then have "e \<in> set z" by (auto simp: getinfo_def find_Some_iff) (metis nth_mem length_rev set_rev)
  moreover have "body = raw \<or> (\<exists>key nonce aad. ve_unseal E key nonce raw aad = Some body)"
    using assms(3) by (auto simp: unlock_body_def split: option.splits prod.splits)
  ultimately show ?thesis using e(2) assms(1) unfolding readable_def by blast
qed

lemma read_row_fields:
  "read_row E k seen v = Inr r \<Longrightarrow> read_row E k' seen' v = Inr r' \<Longrightarrow> r' = r"
  by (auto simp: read_row_def read_vec_ref_def vbind_Inr_iff split: jval.splits option.splits if_splits)

lemma read_rows_det: "read_rows E k seen vs = Inr rs \<Longrightarrow> read_rows E k' seen' vs = Inr rs' \<Longrightarrow> rs' = rs"
proof (induction vs arbitrary: seen seen' rs rs')
  case (Cons v vs)
  then obtain r rs1 r' rs1' where
    "rs = r # rs1" "rs' = r' # rs1'" "read_row E k seen v = Inr r" "read_row E k' seen' v = Inr r'"
    "read_rows E k (ir_uid r # seen) vs = Inr rs1" "read_rows E k' (ir_uid r' # seen') vs = Inr rs1'"
    by (auto simp: vbind_Inr_iff)
  then show ?case using Cons.IH read_row_fields by metis
qed simp

text \<open>What an opening went through.\<close>

definition opens :: "vault_env \<Rightarrow> vault_file \<Rightarrow> bytes option \<Rightarrow> jdict \<Rightarrow> string \<Rightarrow> zip_entry list \<Rightarrow> vault_keys \<Rightarrow> bytes \<Rightarrow>
    index_row list \<Rightarrow> vault_doc list \<Rightarrow> bool" where
  "opens E f key p vault_id z K index_raw rows docs \<longleftrightarrow>
     read_manifest E f = Inr p \<and> get_text p ''vault_id'' = Some vault_id \<and> vf_zip f = Some z \<and>
     keys_for E p vault_id key = Inr K \<and> index_raw \<in> readable E f \<and>
     read_index E p index_raw (vk_name K) = Inr rows \<and> vmap (open_doc E K vault_id z) rows = Inr docs"

lemma open_vault_opens:
  assumes "open_vault E f key = Inr (p', docs)"
  shows "\<exists>p vault_id z K index_raw rows. opens E f key p vault_id z K index_raw rows docs \<and>
    with_title E p index_raw = Inr p'"
proof -
  obtain p where p: "read_manifest E f = Inr p" using assms by (auto simp: open_vault_def vbind_Inr_iff)
  obtain vault_id ihash z where f: "get_text p ''vault_id'' = Some vault_id" "inner_text p ''index'' ''hash'' = Some ihash" "vf_zip f = Some z"
    using assms p by (auto simp: open_vault_def split: option.splits)
  obtain K raw index_raw rows where
    "keys_for E p vault_id key = Inr K" "entry z INDEX MAX_INDEX_BYTES = Inr raw"
    "unlock_body E K ''index'' vault_id ihash (index_aad vault_id) ''that key does not open this vault'' raw = Inr index_raw"
    "read_index E p index_raw (vk_name K) = Inr rows" "with_title E p index_raw = Inr p'"
    "vmap (open_doc E K vault_id z) rows = Inr docs"
    using assms p f by (auto simp: open_vault_def vbind_Inr_iff split: if_splits)
  then show ?thesis using p f entry_readable [OF f(3)] unfolding opens_def by blast
qed

text \<open>The document of a row is fixed by the row's hashes.\<close>

lemma open_doc_det:
  assumes col: "inj_on (ve_sha256 E) (readable E f \<union> readable E f')"
    and "vf_zip f = Some z" and "vf_zip f' = Some z'"
    and d: "open_doc E K vault_id z r = Inr d" and d': "open_doc E K' vault_id' z' r = Inr d'"
  shows "d' = d"
proof -
  obtain body d0 vs where b: "body \<in> readable E f" "read_doc_object E body r = Inr d0" "open_vectors E K vault_id z r = Inr vs" "d = d0\<lparr>vd_vectors := vs\<rparr>"
    using d entry_readable [OF assms(2)] unfolding open_doc_def vbind_Inr_iff by blast
  obtain body' d0' vs' where b': "body' \<in> readable E f'" "read_doc_object E body' r = Inr d0'" "open_vectors E K' vault_id' z' r = Inr vs'" "d' = d0'\<lparr>vd_vectors := vs'\<rparr>"
    using d' entry_readable [OF assms(3)] unfolding open_doc_def vbind_Inr_iff by blast
  have "sha_hex E body = ir_hash r" "sha_hex E body' = ir_hash r"
    using b(2) b'(2) by (auto simp: read_doc_object_def split: if_splits)
  then have "body = body'" using sha_hex_inj [OF col] b(1) b'(1) by simp
  moreover have "vs = vs'"
  proof (cases "ir_vec r")
    case None
    then show ?thesis using b(3) b'(3) by (simp add: open_vectors_def)
  next
    case (Some vr)
    obtain vobj vhash where vr: "vr = (vobj, vhash)" by (cases vr)
    obtain vb u where v: "vb \<in> readable E f" "read_vec_body E vb vhash = Inr u" "vs = Some u"
      using b(3) entry_readable [OF assms(2)] unfolding open_vectors_def Some vr option.case prod.case vbind_Inr_iff by blast
    obtain vb' u' where v': "vb' \<in> readable E f'" "read_vec_body E vb' vhash = Inr u'" "vs' = Some u'"
      using b'(3) entry_readable [OF assms(3)] unfolding open_vectors_def Some vr option.case prod.case vbind_Inr_iff by blast
    have "sha_hex E vb = vhash" "sha_hex E vb' = vhash" using v(2) v'(2) by (auto simp: read_vec_body_def split: if_splits)
    then have "vb = vb'" using sha_hex_inj [OF col] v(1) v'(1) by simp
    then show ?thesis using v v' by simp
  qed
  ultimately show ?thesis using b b' by simp
qed

lemma open_docs_det:
  assumes "inj_on (ve_sha256 E) (readable E f \<union> readable E f')" and "vf_zip f = Some z" and "vf_zip f' = Some z'"
  shows "vmap (open_doc E K vault_id z) rows = Inr docs \<Longrightarrow> vmap (open_doc E K' vault_id' z') rows = Inr docs' \<Longrightarrow> docs' = docs"
proof (induction rows arbitrary: docs docs')
  case (Cons r rows)
  then show ?case using open_doc_det [OF assms] unfolding vmap.simps vbind_Inr_iff by blast
qed simp

lemma read_index_hash: "read_index E p index_raw k = Inr rows \<Longrightarrow> inner_text p ''index'' ''hash'' = Some (sha_hex E index_raw)"
  by (auto simp: read_index_def split: if_splits)

lemma read_index_rows: "read_index E p index_raw k = Inr rows \<Longrightarrow>
  \<exists>index vs. parse_canonical (ve_float E) index_raw = Inr index \<and> opt_get index ''docs'' JNull = JList vs \<and>
    read_rows E k [] vs = Inr rows"
  by (auto simp: read_index_def vbind_Inr_iff split: if_splits jval.splits)

text \<open>The signed hash of the index fixes the documents, whatever the files hold otherwise and whatever key opened them.\<close>

lemma index_hash_fixes_docs:
  assumes col: "inj_on (ve_sha256 E) (readable E f \<union> readable E f')"
    and o: "opens E f key p vault_id z K index_raw rows docs"
    and o': "opens E f' key' p' vault_id' z' K' index_raw' rows' docs'"
    and h: "inner_text p ''index'' ''hash'' = inner_text p' ''index'' ''hash''"
  shows "docs' = docs"
proof -
  have r: "read_index E p index_raw (vk_name K) = Inr rows" "read_index E p' index_raw' (vk_name K') = Inr rows'"
    "vf_zip f = Some z" "vf_zip f' = Some z'" "vmap (open_doc E K vault_id z) rows = Inr docs"
    "vmap (open_doc E K' vault_id' z') rows' = Inr docs'" "index_raw \<in> readable E f" "index_raw' \<in> readable E f'"
    using o o' unfolding opens_def by blast+
  have "sha_hex E index_raw = sha_hex E index_raw'"
    using h read_index_hash [OF r(1)] read_index_hash [OF r(2)] by simp
  then have i: "index_raw = index_raw'" using sha_hex_inj [OF col] r(7,8) by simp
  have "rows' = rows"
    using read_index_rows [OF r(1)] read_index_rows [OF r(2)] read_rows_det i by fastforce
  then show ?thesis using open_docs_det [OF col r(3,4)] r(5,6) by simp
qed

section \<open>Reading back what was packed\<close>

definition doc_dict :: "pack_doc \<Rightarrow> jdict" where
  "doc_dict d = [(''content'', JStr (pd_content d)), (''meta'', JObj (pd_meta d)), (''title'', JStr (take MAX_TITLE (pd_title d)))]"

definition doc_body :: "vault_env \<Rightarrow> pack_doc \<Rightarrow> bytes" where
  "doc_body E d = (case doc_object E (take MAX_TITLE (pd_title d)) (pd_content d) (pd_meta d) of Inr b \<Rightarrow> b | Inl _ \<Rightarrow> [])"

definition vec_body :: "pack_doc \<Rightarrow> bytes" where
  "vec_body d = (case vec_object (pd_vectors d) of Inr b \<Rightarrow> b | Inl _ \<Rightarrow> [])"

definition packed_row :: "vault_env \<Rightarrow> bytes \<Rightarrow> pack_doc \<Rightarrow> index_row" where
  "packed_row E k d = (let digest = sha_hex E (doc_body E d); vdigest = sha_hex E (vec_body d) in
     \<lparr>ir_uid = pd_uid d, ir_hash = digest, ir_obj = obj_name E k ''doc'' (pd_uid d) digest,
      ir_vec = (if pd_vectors d = [] then None else Some (obj_name E k ''vec'' (pd_uid d) vdigest, vdigest))\<rparr>)"

lemma lift_Inr [simp]: "lift_result r = Inr x \<longleftrightarrow> r = Inr x"
  by (auto simp: lift_result_def split: sum.split)

lemma pack_vectors_row:
  assumes "pack_vectors E K vid d = Inr (es, vrow)"
  shows "vrow = (if pd_vectors d = [] then [] else [(''vec'', JObj [(''obj'', JStr (obj_name E (vk_name K) ''vec'' (pd_uid d) (sha_hex E (vec_body d)))),
      (''hash'', JStr (sha_hex E (vec_body d))), (''bytes'', JInt (int (length (vec_body d))))])])"
  using assms by (auto simp: pack_vectors_def vec_body_def vbind_Inr_iff Let_def)

lemma pack_one_row:
  assumes "pack_one E K vid d = Inr (es, v)" and "pd_uid d \<notin> set seen"
  shows "read_row E (vk_name K) seen (sort_keys v) = Inr (packed_row E (vk_name K) d)"
proof -
  obtain body ves vrow where b: "doc_object E (take MAX_TITLE (pd_title d)) (pd_content d) (pd_meta d) = Inr body"
    "pack_vectors E K vid d = Inr (ves, vrow)"
    using assms(1) by (auto simp: pack_one_def vbind_Inr_iff Let_def)
  let ?digest = "sha_hex E (doc_body E d)"
  have body: "body = doc_body E d" using b(1) by (simp add: doc_body_def)
  define row where "row = [(''uid'', JStr (pd_uid d)), (''title'', JStr (take MAX_TITLE (pd_title d))), (''hash'', JStr ?digest),
      (''obj'', JStr (obj_name E (vk_name K) ''doc'' (pd_uid d) ?digest)), (''bytes'', JInt (int (length (doc_body E d)))),
      (''chunks'', JInt (case pd_chunks d of None \<Rightarrow> 1 | Some n \<Rightarrow> if n = 0 then 1 else n))] @ vrow"
  have v: "v = JObj row" using assms(1) b body by (auto simp: pack_one_def vbind_Inr_iff Let_def row_def)
  note vrow = pack_vectors_row [OF b(2)]
  have dist: "distinct (map fst row)" by (simp add: row_def vrow)
  have g: "get_text (sorted_dict row) k = text_of (sort_keys (opt_get row k JNull))" for k
    by (simp add: get_text_def opt_get_sorted_dict [OF dist])
  have vec: "read_vec_ref E (vk_name K) (pd_uid d) (sorted_dict row) = Inr (ir_vec (packed_row E (vk_name K) d))"
  proof (cases "pd_vectors d = []")
    case True
    then have "opt_get (sorted_dict row) ''vec'' JNull = JNull"
      by (simp add: opt_get_sorted_dict [OF dist]) (simp add: row_def vrow opt_get_def)
    then show ?thesis using True by (simp add: read_vec_ref_def packed_row_def Let_def)
  next
    case False
    let ?vd = "[(''obj'', JStr (obj_name E (vk_name K) ''vec'' (pd_uid d) (sha_hex E (vec_body d)))),
      (''hash'', JStr (sha_hex E (vec_body d))), (''bytes'', JInt (int (length (vec_body d))))]"
    have dv: "distinct (map fst ?vd)" by simp
    have "opt_get (sorted_dict row) ''vec'' JNull = JObj (sorted_dict ?vd)"
      using False unfolding opt_get_sorted_dict [OF dist] sort_keys_obj [symmetric]
      by (simp add: row_def vrow opt_get_def del: sort_keys.simps)
    moreover have "get_text (sorted_dict ?vd) ''obj'' = Some (obj_name E (vk_name K) ''vec'' (pd_uid d) (sha_hex E (vec_body d)))"
      "get_text (sorted_dict ?vd) ''hash'' = Some (sha_hex E (vec_body d))"
      unfolding get_text_def opt_get_sorted_dict [OF dv] by (simp_all add: opt_get_def text_of_def)
    ultimately show ?thesis using False by (simp add: read_vec_ref_def packed_row_def Let_def)
  qed
  have f: "get_text (sorted_dict row) ''uid'' = Some (pd_uid d)" "get_text (sorted_dict row) ''hash'' = Some ?digest"
    "get_text (sorted_dict row) ''obj'' = Some (obj_name E (vk_name K) ''doc'' (pd_uid d) ?digest)"
    unfolding g by (simp_all add: row_def opt_get_def text_of_def)
  show ?thesis
    unfolding v sort_keys_obj using assms(2) by (simp add: read_row_def f vec) (simp add: packed_row_def Let_def)
qed

lemma packed_rows_fields:
  assumes "list_all2 (\<lambda>d p. pack_one E K vid d = Inr p) ds ps"
  shows "read_rows E k seen (map (\<lambda>p. sort_keys (snd p)) ps) = Inr rs \<Longrightarrow> rs = map (packed_row E (vk_name K)) ds"
  using assms
proof (induction ds ps arbitrary: seen rs rule: list_all2_induct)
  case (Cons d ds p ps)
  obtain es v where p: "p = (es, v)" by (cases p)
  obtain r rs1 where r: "rs = r # rs1" "read_row E k seen (sort_keys v) = Inr r"
    "read_rows E k (ir_uid r # seen) (map (\<lambda>p. sort_keys (snd p)) ps) = Inr rs1"
    using Cons.prems p by (auto simp: vbind_Inr_iff)
  have "read_row E (vk_name K) [] (sort_keys v) = Inr (packed_row E (vk_name K) d)"
    by (rule pack_one_row [of E K vid]) (use Cons.hyps p in auto)
  then show ?case using read_row_fields [OF _ r(2)] Cons.IH [OF r(3)] r(1) by simp
qed simp

lemma packed_rows_accepted:
  assumes "list_all2 (\<lambda>d p. pack_one E K vid d = Inr p) ds ps"
  shows "distinct (map pd_uid ds) \<Longrightarrow> set (map pd_uid ds) \<inter> set seen = {} \<Longrightarrow>
    read_rows E (vk_name K) seen (map (\<lambda>p. sort_keys (snd p)) ps) = Inr (map (packed_row E (vk_name K)) ds)"
  using assms
proof (induction ds ps arbitrary: seen rule: list_all2_induct)
  case (Cons d ds p ps)
  obtain es v where p: "p = (es, v)" by (cases p)
  have "read_row E (vk_name K) seen (sort_keys v) = Inr (packed_row E (vk_name K) d)"
    by (rule pack_one_row [of E K vid]) (use Cons.hyps Cons.prems p in auto)
  moreover have "ir_uid (packed_row E (vk_name K) d) = pd_uid d" by (simp add: packed_row_def Let_def)
  ultimately show ?case using Cons.IH [of "pd_uid d # seen"] Cons.prems p by auto
qed simp

text \<open>The page map and the other fields of the provenance survive sorting.\<close>

lemma clean_pages_sorted: "clean_pages n (map sort_keys ps) = clean_pages n ps"
  by (induction ps arbitrary: n) (auto split: jval.split)

lemma clean_meta_sorted: "distinct (map fst m) \<Longrightarrow> clean_meta (JObj (sorted_dict m)) = clean_meta (JObj m)"
proof -
  assume d: "distinct (map fst m)"
  have "clean_text (sorted_dict m) k = clean_text m k" for k
    unfolding clean_text_def map_of_sorted_dict [OF d] by (auto split: option.split jval.split)
  moreover have "clean_page_list (sorted_dict m) = clean_page_list m"
    unfolding clean_page_list_def map_of_sorted_dict [OF d] by (auto simp: clean_pages_sorted split: option.split jval.split)
  moreover have "sort_keys v \<in> JStr ` A \<longleftrightarrow> v \<in> JStr ` A" "v \<in> JStr ` A \<Longrightarrow> sort_keys v = v" for v A
    by (cases v; auto)+
  then have "clean_page_label (sorted_dict m) = clean_page_label m"
    unfolding clean_page_label_def map_of_sorted_dict [OF d] by (auto split: option.split)
  ultimately show ?thesis by (simp add: clean_meta_def)
qed

section \<open>Vectors\<close>

lemma le16_of: "n < 65536 \<Longrightarrow> of_le16 (le16 n) = n"
proof -
  assume n: "n < 65536"
  have "n div 256 < 256" using n by (simp add: less_mult_imp_div_less)
  then show ?thesis using unat_byte [of "n mod 256"] unat_byte [of "n div 256"] by (simp add: of_le16_def le16_def)
qed

lemma four_bytes: "d3 = n3 \<Longrightarrow> n2 = 256 * n3 + d2 \<Longrightarrow> n1 = 256 * n2 + d1 \<Longrightarrow> n = 256 * n1 + d0 \<Longrightarrow>
  d0 + 256 * (d1 + 256 * (d2 + 256 * d3)) = (n :: nat)"
  by simp

lemma float_of_bytes: "float_of (float_bytes w) = w"
proof -
  let ?n = "unat w"
  have n: "?n < 2 ^ 32"
  proof -
    have "(unsigned w :: nat) < 2 ^ LENGTH(32)" by (rule unsigned_less)
    then show ?thesis by simp
  qed
  have shift: "unat (drop_bit k w) = ?n div 2 ^ k" for k
    using n by (simp only: unsigned_drop_bit_eq drop_bit_eq_div [where 'a = nat]) (simp add: take_bit_eq_mod)
  have byte: "(ucast (ucast (drop_bit k w) :: 8 word) :: 32 word) = of_nat (?n div 2 ^ k mod 256)" for k
  proof -
    have "unat (ucast (drop_bit k w) :: 8 word) = ?n div 2 ^ k mod 256"
      by (simp add: unsigned_ucast_eq take_bit_eq_mod shift)
    moreover have "(ucast b :: 32 word) = of_nat (unat b)" for b :: "8 word" by simp
    ultimately show ?thesis by metis
  qed
  let ?m = "?n div 2 ^ 0 mod 256 + 256 * (?n div 2 ^ 8 mod 256 + 256 * (?n div 2 ^ 16 mod 256 + 256 * (?n div 2 ^ 24 mod 256)))"
  have "float_of (float_bytes w) = of_nat ?m"
    by (simp add: float_of_def float_bytes_def byte del: drop_bit_0)
  moreover have "?m = ?n"
  proof (rule four_bytes)
    show "?n div 2 ^ 24 mod 256 = ?n div 2 ^ 24" using n by (simp add: less_mult_imp_div_less)
    show "?n div 2 ^ 16 = 256 * (?n div 2 ^ 24) + ?n div 2 ^ 16 mod 256" by (simp add: div_mult2_eq [of _ "2 ^ 16" 256, simplified])
    show "?n div 2 ^ 8 = 256 * (?n div 2 ^ 16) + ?n div 2 ^ 8 mod 256" by (simp add: div_mult2_eq [of _ "2 ^ 8" 256, simplified])
    show "?n = 256 * (?n div 2 ^ 8) + ?n div 2 ^ 0 mod 256" by simp
  qed
  ultimately have "float_of (float_bytes w) = of_nat ?n" by (simp only:)
  then show ?thesis by simp
qed

lemma length_float_bytes [simp]: "length (float_bytes w) = 4"
  by (simp add: float_bytes_def)

lemma floats_read: "map float_of (split_every 4 (concat (map float_bytes u))) = u"
proof -
  have "split_every 4 (concat (map float_bytes u)) = map float_bytes u"
    by (rule split_every_concat) auto
  then show ?thesis by (simp add: float_of_bytes comp_def)
qed

text \<open>What was packed reads back when its shape is within bounds and every value is finite; otherwise it is refused.\<close>

lemma read_vec_packed:
  assumes v: "vec_object vs = Inr raw"
  shows "read_vec_object raw =
    (if length (hd vs) = 0 \<or> MAX_DIM < length (hd vs) \<or> MAX_CHUNKS < length vs
     then vault_error ''vector object declares an out-of-range shape''
     else if \<not> list_all (list_all float_finite) vs then vault_error ''vector object contains a non-finite value'' else Inr vs)"
proof -
  obtain u us where vs: "vs = u # us" using v by (cases vs) (auto simp: vec_object_def)
  let ?dim = "length u" and ?body = "concat (map (\<lambda>u. concat (map float_bytes u)) vs)"
  have b: "?dim < 65536" "length vs < 65536" "\<And>w. w \<in> set vs \<Longrightarrow> length w = ?dim"
    and raw: "raw = VEC_MAGIC @ le16 ?dim @ le16 (length vs) @ le16 0 @ ?body"
    using v by (auto simp: vec_object_def vs Let_def list_all_iff split: if_splits)
  have m: "length VEC_MAGIC = 6" "length (le16 n) = 2" for n by (simp_all add: VEC_MAGIC_def ascii_bytes_def le16_def)
  have row: "length (concat (map float_bytes w)) = ?dim * 4" if "w \<in> set vs" for w
  proof -
    have "length (concat (map float_bytes w)) = length w * 4" by (induction w) simp_all
    then show ?thesis using b(3) [OF that] by simp
  qed
  have "length (concat (map (\<lambda>u. concat (map float_bytes u)) ws)) = length ws * (?dim * 4)" if "set ws \<subseteq> set vs" for ws
    using that row by (induction ws) auto
  then have len: "length ?body = length vs * ?dim * 4" by simp
  have t: "take 6 raw = VEC_MAGIC" "take 2 (drop 6 raw) = le16 ?dim" "take 2 (drop 8 raw) = le16 (length vs)" "drop 12 raw = ?body"
    using m by (simp_all add: raw)
  have l: "length raw = 12 + length vs * ?dim * 4" using len m by (simp add: raw)
  have n: "1 \<le> length vs" by (simp add: vs)
  show ?thesis
  proof (cases "?dim = 0 \<or> MAX_DIM < ?dim \<or> MAX_CHUNKS < length vs")
    case True
    then have "\<not> (1 \<le> ?dim \<and> ?dim \<le> MAX_DIM) \<or> \<not> (1 \<le> length vs \<and> length vs \<le> MAX_CHUNKS)" by auto
    then have "read_vec_object raw = vault_error ''vector object declares an out-of-range shape''"
      using l unfolding read_vec_object_def Let_def t le16_of [OF b(1)] le16_of [OF b(2)] by simp
    then show ?thesis using True by (simp add: vs)
  next
    case False
    have "split_every (?dim * 4) ?body = map (\<lambda>u. concat (map float_bytes u)) vs"
    proof (rule split_every_concat)
      show "0 < ?dim * 4" using False by simp
      show "length c = ?dim * 4" if "c \<in> set (map (\<lambda>u. concat (map float_bytes u)) vs)" for c
        using that row by auto
    qed
    then have o: "map (\<lambda>row. map float_of (split_every 4 row)) (split_every (?dim * 4) (drop 12 raw)) = vs"
      unfolding t by (simp add: floats_read comp_def)
    have "1 \<le> ?dim" using False by (cases u) simp_all
    then have ok: "\<not> (\<not> (1 \<le> ?dim \<and> ?dim \<le> MAX_DIM) \<or> \<not> (1 \<le> length vs \<and> length vs \<le> MAX_CHUNKS))" using False n by auto
    have "read_vec_object raw = (if \<not> list_all (list_all float_finite) vs
        then vault_error ''vector object contains a non-finite value'' else Inr vs)"
      unfolding read_vec_object_def Let_def le16_of [OF b(1)] le16_of [OF b(2)] t(1-3) if_not_P [OF ok] o using l by simp
    then show ?thesis using False by (simp add: vs)
  qed
qed

end
