(* ===== verification/Vault_Checks.thy ===== *)
theory Vault_Checks
  imports Vault_Integrity
begin

section \<open>The canonical form\<close>

text \<open>
  C27: a signature covers one object only. The reader of a vault's JSON takes a file exactly when it is the canonical
  text of the object it returns: keys in order and none twice, no blanks, no other spelling of a string or a number.
  So no two files are read as one object, and what was verified is what is used.
\<close>

theorem canonical_bytes_are_unambiguous:
  assumes "float_printing (ve_float E)"
  shows "parse_canonical (ve_float E) raw = Inr d \<longleftrightarrow>
    canonical_form (ve_float E) (JObj d) \<and> canonical (ve_float E) (JObj d) = Inr raw"
  using parse_canonical_iff [OF assms, of raw d] canonical_of_form [of "ve_float E" "JObj d"] by auto

definition demo_floats :: "string \<Rightarrow> string option" where
  "demo_floats t = (if t = ''1.5'' \<or> t = ''1.50'' then Some ''1.5'' else None)"

lemma demo_float: "float_ok ''1.5''"
  by (simp add: float_ok_def scan_number_def int_part_def frac_part_def exp_part_def ascii_digit_def ord_def Let_def)

lemma demo_floats_ok: "float_printing demo_floats"
  using demo_float by (simp add: float_printing_def demo_floats_def)

definition demo_vault_env :: vault_env where
  "demo_vault_env = \<lparr>ve_sha256 = (\<lambda>b. take 32 (b @ replicate 32 0)), ve_hmac = (\<lambda>k m. take 32 (m @ replicate 32 0)),
     ve_hkdf = (\<lambda>k s i. take 32 (i @ replicate 32 0)), ve_seal = (\<lambda>k n b a. b), ve_unseal = (\<lambda>k n c a. None),
     ve_float = demo_floats, ve_float_is = (\<lambda>t n. False), ve_sign = demo_sign\<rparr>"

theorem canonical_bytes_are_unambiguous_witness:
  "parse_canonical (ve_float demo_vault_env) (utf8_bytes (canonical_text (JObj [(''a'', JFloat ''1.5''), (''b'', JInt 7)]))) =
     Inr [(''a'', JFloat ''1.5''), (''b'', JInt 7)]"
proof -
  have fr: "float_printing (ve_float demo_vault_env)" using demo_floats_ok by (simp add: demo_vault_env_def)
  have c: "canonical_form (ve_float demo_vault_env) (JObj [(''a'', JFloat ''1.5''), (''b'', JInt 7)])"
    using demo_float by (simp add: canonical_form_def demo_vault_env_def demo_floats_def str_nat.simps)
  then show ?thesis
    using canonical_bytes_are_unambiguous [OF fr] canonical_of_form [OF c] by blast
qed

section \<open>What an opened vault is\<close>

lemma read_manifest_bytes_Inr:
  assumes "read_manifest_bytes E raw = Inr p"
  shows "\<exists>env sig pub. parse_canonical (ve_float E) raw = Inr env \<and> signed_parts env = Inr (Some (p, sig)) \<and>
    inner_text p ''publisher'' ''pubkey'' = Some pub \<and> signature_ok E pub p sig = Inr True \<and>
    format_error p = None \<and> fields_error p = None \<and> mode_error p = None"
proof -
  have size: "\<not> MAX_MANIFEST_BYTES < length raw"
    using assms by (simp add: read_manifest_bytes_def split: if_splits)
  obtain env parts where env: "parse_canonical (ve_float E) raw = Inr env" "signed_parts env = Inr parts"
    "(case parts of None \<Rightarrow> vault_error ''vault manifest is malformed''
      | Some (p, sig) \<Rightarrow> refuse (format_error p)
          (case inner_text p ''publisher'' ''pubkey'' of None \<Rightarrow> vault_error ''the signature of this vault is invalid''
           | Some pubkey \<Rightarrow> vbind (signature_ok E pubkey p sig) (\<lambda>ok.
               if \<not> ok then vault_error ''the signature of this vault is invalid''
               else refuse (fields_error p) (refuse (mode_error p) (Inr p))))) = Inr p"
    using assms unfolding read_manifest_bytes_def if_not_P [OF size] vbind_Inr_iff by blast
  obtain q sig where q: "parts = Some (q, sig)" using env(3) by (cases parts) auto
  have r: "format_error q = None" "(case inner_text q ''publisher'' ''pubkey'' of None \<Rightarrow> vault_error ''the signature of this vault is invalid''
      | Some pubkey \<Rightarrow> vbind (signature_ok E pubkey q sig) (\<lambda>ok. if \<not> ok then vault_error ''the signature of this vault is invalid''
          else refuse (fields_error q) (refuse (mode_error q) (Inr q)))) = Inr p"
    using env(3) unfolding q option.case prod.case refuse_Inr by blast+
  obtain pub where pub: "inner_text q ''publisher'' ''pubkey'' = Some pub"
    using r(2) by (cases "inner_text q ''publisher'' ''pubkey''") simp_all
  obtain ok where ok: "signature_ok E pub q sig = Inr ok"
    "(if \<not> ok then vault_error ''the signature of this vault is invalid'' else refuse (fields_error q) (refuse (mode_error q) (Inr q))) = Inr p"
    using r(2) unfolding pub option.case vbind_Inr_iff by blast
  then have "ok \<and> fields_error q = None \<and> mode_error q = None \<and> p = q" by (auto split: if_splits)
  then show ?thesis
    using env(1,2) q r(1) pub ok(1) by (intro exI [of _ env] exI [of _ sig] exI [of _ pub]) simp
qed

lemma read_doc_Inr:
  assumes "read_doc_object E body r = Inr d"
  shows "\<exists>dd title content meta. sha_hex E body = ir_hash r \<and> parse_canonical (ve_float E) body = Inr dd \<and>
    get_text dd ''title'' = Some title \<and> get_text dd ''content'' = Some content \<and> length content \<le> MAX_TEXT \<and>
    clean_meta (opt_get dd ''meta'' JNull) = Inr meta \<and>
    d = \<lparr>vd_uid = ir_uid r, vd_title = (if take MAX_TITLE title = [] then ''Untitled'' else take MAX_TITLE title),
      vd_content = content, vd_meta = meta, vd_hash = ir_hash r, vd_vectors = None\<rparr>"
proof -
  obtain dd where dd: "sha_hex E body = ir_hash r" "parse_canonical (ve_float E) body = Inr dd"
    using assms by (auto simp: read_doc_object_def vbind_Inr_iff split: if_splits)
  obtain title content where t: "get_text dd ''title'' = Some title" "get_text dd ''content'' = Some content"
    using assms dd by (auto simp: read_doc_object_def split: option.splits)
  show ?thesis using assms dd t by (auto simp: read_doc_object_def vbind_Inr_iff split: if_splits)
qed

lemma open_doc_fields:
  assumes "open_doc E K vid z r = Inr d"
  shows "vd_uid d = ir_uid r \<and> vd_hash d = ir_hash r \<and> 0 < length (vd_title d) \<and> length (vd_title d) \<le> MAX_TITLE \<and>
    length (vd_content d) \<le> MAX_TEXT \<and> (\<exists>v. clean_meta v = Inr (vd_meta d))"
proof -
  obtain body d0 vs where "read_doc_object E body r = Inr d0" "d = d0\<lparr>vd_vectors := vs\<rparr>"
    using assms unfolding open_doc_def vbind_Inr_iff by blast
  then show ?thesis using read_doc_Inr [of E body r d0] by (auto simp: MAX_TITLE_def split: if_splits)
qed

lemma read_rows_distinct: "read_rows E k seen vs = Inr rs \<Longrightarrow>
  length rs = length vs \<and> distinct (map ir_uid rs) \<and> set (map ir_uid rs) \<inter> set seen = {}"
proof (induction vs arbitrary: seen rs)
  case (Cons v vs)
  then obtain r rs1 where r: "rs = r # rs1" "read_row E k seen v = Inr r" "read_rows E k (ir_uid r # seen) vs = Inr rs1"
    by (auto simp: vbind_Inr_iff)
  have "ir_uid r \<notin> set seen"
    using r(2) by (auto simp: read_row_def vbind_Inr_iff split: jval.splits option.splits prod.splits if_splits)
  then show ?case using Cons.IH [OF r(3)] r(1) by auto
qed simp


section \<open>Provenance\<close>

lemma clean_pages_sound: "clean_pages n ps = Inr qs \<Longrightarrow>
  \<exists>ns. qs = map JInt ns \<and> sorted ns \<and> (\<forall>m \<in> set ns. n \<le> m) \<and> length ns = length ps"
proof (induction ps arbitrary: n qs)
  case (Cons p ps)
  then obtain m rs where m: "p = JInt m" "n \<le> m" "clean_pages m ps = Inr rs" "qs = JInt m # rs"
    by (auto simp: vbind_Inr_iff split: jval.splits if_splits)
  obtain ns where "rs = map JInt ns" "sorted ns" "\<forall>k \<in> set ns. m \<le> k" "length ns = length ps"
    using Cons.IH [OF m(3)] by blast
  then show ?case using m by (intro exI [of _ "m # ns"]) fastforce
qed simp

text \<open>
  C28: provenance from a stranger is bounded. Whatever a vault's document carries as its meta, what the importer keeps
  of it has only the five known keys, strings of at most 2048 characters, a page label of the list, and a page map of
  at most 1000 offsets that start at zero or later and never decrease.
\<close>

theorem provenance_is_bounded:
  assumes "clean_meta v = Inr m"
  shows "set (map fst m) \<subseteq> {''filename'', ''source_url'', ''mime'', ''page_label'', ''pages''} \<and>
    (\<forall>k s. map_of m k = Some (JStr s) \<longrightarrow> length s \<le> 2048) \<and>
    (\<forall>w. map_of m ''page_label'' = Some w \<longrightarrow> w \<in> JStr ` set PAGE_LABELS) \<and>
    (\<forall>w. map_of m ''pages'' = Some w \<longrightarrow>
      (\<exists>ns. w = JList (map JInt ns) \<and> sorted ns \<and> (\<forall>n \<in> set ns. 0 \<le> n) \<and> length ns \<le> MAX_PAGES))"
proof (cases v)
  case (JObj d)
  then obtain pages where p: "clean_page_list d = Inr pages"
    "m = clean_text d ''filename'' @ clean_text d ''source_url'' @ clean_text d ''mime'' @ clean_page_label d @ pages"
    using assms by (auto simp: clean_meta_def vbind_Inr_iff)
  have t: "clean_text d k = [] \<or> (\<exists>s. clean_text d k = [(k, JStr s)] \<and> length s \<le> 2048)" for k
    by (auto simp: clean_text_def split: option.split jval.split)
  have l: "clean_page_label d = [] \<or> (\<exists>s \<in> set PAGE_LABELS. clean_page_label d = [(''page_label'', JStr s)] \<and> length s \<le> 2048)"
    by (auto simp: clean_page_label_def PAGE_LABELS_def split: option.split)
  have g: "pages = [] \<or> (\<exists>ns. pages = [(''pages'', JList (map JInt ns))] \<and> sorted ns \<and> (\<forall>n \<in> set ns. 0 \<le> n) \<and> length ns \<le> MAX_PAGES)"
    using p(1) clean_pages_sound by (fastforce simp: clean_page_list_def vbind_Inr_iff split: option.splits jval.splits if_splits)
  have all: "k \<in> {''filename'', ''source_url'', ''mime'', ''page_label'', ''pages''} \<and> (\<forall>s. w = JStr s \<longrightarrow> length s \<le> 2048) \<and>
      (k = ''page_label'' \<longrightarrow> w \<in> JStr ` set PAGE_LABELS) \<and>
      (k = ''pages'' \<longrightarrow> (\<exists>ns. w = JList (map JInt ns) \<and> sorted ns \<and> (\<forall>n \<in> set ns. 0 \<le> n) \<and> length ns \<le> MAX_PAGES))"
    if mem: "(k, w) \<in> set m" for k w
  proof -
    consider "(k, w) \<in> set (clean_text d ''filename'')" | "(k, w) \<in> set (clean_text d ''source_url'')"
      | "(k, w) \<in> set (clean_text d ''mime'')" | "(k, w) \<in> set (clean_page_label d)" | "(k, w) \<in> set pages"
      using mem unfolding p(2) by auto
    then show ?thesis
    proof cases
      case 1
      then show ?thesis using t [of "''filename''"] by auto
    next
      case 2
      then show ?thesis using t [of "''source_url''"] by auto
    next
      case 3
      then show ?thesis using t [of "''mime''"] by auto
    next
      case 4
      then show ?thesis using l by auto
    next
      case 5
      then show ?thesis using g by auto
    qed
  qed
  have "set (map fst m) \<subseteq> {''filename'', ''source_url'', ''mime'', ''page_label'', ''pages''}" using all by fastforce
  then show ?thesis using all map_of_SomeD [of m] by blast
next
qed (use assms in \<open>auto simp: clean_meta_def\<close>)

section \<open>An envelope that is not an envelope\<close>

text \<open>
  C30: a manifest whose \<open>sig\<close> is neither a dict nor empty is not answered with \<open>not signed by this
  key\<close>, as the comment on the pin check says of a malformed envelope: reading its value raises
  \<open>AttributeError\<close>, which the function lets through.
\<close>

theorem malformed_signature_escapes:
  assumes "float_printing (ve_float E)" and "canonical_form (ve_float E) (JObj [(''sbvault'', JObj p), (''sig'', v)])"
    and "truthy v" and "\<not> is_dict v" and "pubkey \<noteq> []"
  shows "manifest_signed_by E (utf8_bytes (canonical_text (JObj [(''sbvault'', JObj p), (''sig'', v)]))) pubkey =
    Inl (Escapes (OtherErr ''AttributeError''))"
proof -
  have "parse_canonical (ve_float E) (utf8_bytes (canonical_text (JObj [(''sbvault'', JObj p), (''sig'', v)]))) =
      Inr [(''sbvault'', JObj p), (''sig'', v)]"
    using parse_canonical_iff [OF assms(1)] assms(2) by blast
  moreover have "signed_parts [(''sbvault'', JObj p), (''sig'', v)] = Inl (Escapes (OtherErr ''AttributeError''))"
    using assms(3,4) by (auto simp: signed_parts_def opt_get_def is_dict_def Let_def split: jval.split)
  ultimately show ?thesis using assms(5) by (simp add: manifest_signed_by_def)
qed

theorem malformed_signature_escapes_witness:
  "manifest_signed_by demo_vault_env (utf8_bytes (canonical_text (JObj [(''sbvault'', JObj []), (''sig'', JStr ''x'')]))) ''key'' =
    Inl (Escapes (OtherErr ''AttributeError''))"
  by (rule malformed_signature_escapes)
    (use demo_floats_ok in \<open>simp_all add: demo_vault_env_def canonical_form_def truthy_def is_dict_def\<close>)

section \<open>Vectors\<close>

text \<open>
  C29: vectors survive the trip bit by bit. A vector object that was packed reads back as the same 32-bit patterns, row
  by row; a reader refuses it exactly when its shape is out of range or a value is not finite.
\<close>

theorem vectors_read_as_packed:
  assumes "vec_object vs = Inr raw"
  shows "read_vec_object raw =
    (if length (hd vs) = 0 \<or> MAX_DIM < length (hd vs) \<or> MAX_CHUNKS < length vs
     then vault_error ''vector object declares an out-of-range shape''
     else if \<not> list_all (list_all float_finite) vs then vault_error ''vector object contains a non-finite value'' else Inr vs)"
  by (rule read_vec_packed [OF assms])

theorem vectors_read_as_packed_witness:
  "\<exists>raw. vec_object [[0x3F800000, 0], [0x40490FDB, 0x80000000]] = Inr raw \<and>
     read_vec_object raw = Inr [[0x3F800000, 0], [0x40490FDB, 0x80000000]]"
proof -
  let ?vs = "[[0x3F800000, 0], [0x40490FDB, 0x80000000]] :: 32 word list list"
  obtain raw where raw: "vec_object ?vs = Inr raw" by (simp add: vec_object_def)
  have "list_all (list_all float_finite) ?vs" by (simp add: float_finite_def)
  then show ?thesis using vectors_read_as_packed [OF raw] raw by (simp add: MAX_DIM_def MAX_CHUNKS_def)
qed

section \<open>Keys for people\<close>

lemma set_join: "set (join sep xs) \<subseteq> set sep \<union> set (concat xs)"
  by (induction sep xs rule: join.induct) auto

lemma shown_chars: "c \<in> set (join ''-'' (split_every 4 (key_symbols raw))) \<Longrightarrow> c = CHR ''-'' \<or> c \<in> set (key_symbols raw)"
  using set_join [of "''-''" "split_every 4 (key_symbols raw)"] by (auto simp: concat_split_every)

lemma symbol_loud: "c \<in> set (key_symbols raw) \<Longrightarrow> \<not> py_isspace c \<and> py_upper_char c = [c] \<and> c \<noteq> CHR ''1''"
proof -
  assume c: "c \<in> set (key_symbols raw)"
  then have "b32_value c \<noteq> None" "py_upper_char c = [c]" using key_symbols_plain by auto
  then show ?thesis by (auto simp: b32_value_def py_isspace_def ascii_upper_def ord_def Let_def split: if_splits)
qed

lemma shout_loud: "list_all (\<lambda>c. \<not> py_isspace c \<and> py_upper_char c = [c]) s \<Longrightarrow> shout s = s"
proof -
  assume s: "list_all (\<lambda>c. \<not> py_isspace c \<and> py_upper_char c = [c]) s"
  have d: "dropWhile py_isspace u = u" if "list_all (\<lambda>c. \<not> py_isspace c) u" for u using that by (cases u) auto
  have "strip s = s" using s d [of s] d [of "rev s"] by (simp add: strip_def lstrip_def list_all_iff)
  moreover have "concat (map py_upper_char s) = s" using s by (induction s) auto
  ultimately show ?thesis by (simp add: shout_def)
qed

lemma shown_loud: "list_all (\<lambda>c. \<not> py_isspace c \<and> py_upper_char c = [c]) (join ''-'' (split_every 4 (key_symbols raw)))"
proof -
  have "\<not> py_isspace (CHR ''-'')" "py_upper_char (CHR ''-'') = ''-''"
    by (simp_all add: py_isspace_def Recovery_Key.py_upper_char_def ascii_lower_def ord_def Let_def)
  then show ?thesis using shown_chars symbol_loud unfolding list_all_iff by blast
qed

text \<open>
  a Vault Key can be typed back, and a Recovery Key cannot be taken for one. The display form of 32 bytes decodes
  to them; the same bytes shown as a Recovery Key are refused, since they lack the prefix.
\<close>

theorem vault_key_is_not_a_recovery_key:
  assumes "length raw = 32"
  shows "(\<exists>shown. encode_vault_key raw = Inr shown \<and> decode_vault_key shown = Inr raw) \<and>
    (\<exists>recovery. encode_recovery raw = Inr recovery \<and>
      decode_vault_key recovery = vault_error ''that is not a vault key - a vault key starts with SBVK1-'')"
proof
  let ?body = "join ''-'' (split_every 4 (key_symbols raw))"
  have l: "length raw = KEY_BYTES" using assms by (simp add: KEY_BYTES_def)
  have p: "list_all (\<lambda>c. \<not> py_isspace c \<and> py_upper_char c = [c]) KEY_PREFIX"
    by (simp add: KEY_PREFIX_def py_isspace_def Recovery_Key.py_upper_char_def ascii_lower_def ord_def Let_def)
  have sh: "shout (KEY_PREFIX @ ?body) = KEY_PREFIX @ ?body" by (rule shout_loud) (use p shown_loud in simp)
  have "encode_vault_key raw = Inr (KEY_PREFIX @ ?body)" using assms by (simp add: encode_vault_key_def rstrip_b32encode)
  moreover have "decode_vault_key (KEY_PREFIX @ ?body) = Inr raw"
  proof -
    have dash: "filter (\<lambda>c. c \<noteq> CHR ''-'') ?body = key_symbols raw"
      using filter_join [of "CHR ''-''" "split_every 4 (key_symbols raw)"] key_symbols_plain [of _ raw]
      by (auto simp: concat_split_every)
    have f: "filter (\<lambda>c. c \<noteq> CHR '' '') (filter (\<lambda>c. c \<noteq> CHR ''-'') ?body) = key_symbols raw"
      unfolding dash using key_symbols_plain by (auto simp: filter_id_conv)
    have "KEY_PREFIX @ ?body \<noteq> []" "startswith (KEY_PREFIX @ ?body) KEY_PREFIX" "drop (length KEY_PREFIX) (KEY_PREFIX @ ?body) = ?body"
      by (simp_all add: KEY_PREFIX_def startswith_def)
    then show ?thesis
      using b32decode_symbols [OF l] key_symbols_count [OF l] assms by (simp only: decode_vault_key_def sh Let_def f) simp
  qed
  ultimately show "\<exists>shown. encode_vault_key raw = Inr shown \<and> decode_vault_key shown = Inr raw" by blast
  have "\<not> startswith ?body KEY_PREFIX"
  proof
    assume "startswith ?body KEY_PREFIX"
    then have "take (length KEY_PREFIX) ?body = KEY_PREFIX" by (simp only: startswith_def)
    moreover have "CHR ''1'' \<in> set KEY_PREFIX" by (simp add: KEY_PREFIX_def)
    ultimately have "CHR ''1'' \<in> set (take (length KEY_PREFIX) ?body)" by (simp only:)
    then have "CHR ''1'' \<in> set ?body" by (rule in_set_takeD)
    then show False using shown_chars symbol_loud by fastforce
  qed
  then have "decode_vault_key ?body = vault_error ''that is not a vault key - a vault key starts with SBVK1-''"
    by (simp add: decode_vault_key_def shout_loud [OF shown_loud])
  then show "\<exists>recovery. encode_recovery raw = Inr recovery \<and>
      decode_vault_key recovery = vault_error ''that is not a vault key - a vault key starts with SBVK1-''"
    using encode_recovery_eq [OF l] by blast
qed

theorem vault_key_is_not_a_recovery_key_witness:
  "\<exists>shown. encode_vault_key (replicate 32 7) = Inr shown \<and> decode_vault_key shown = Inr (replicate 32 7)"
  using vault_key_is_not_a_recovery_key [of "replicate 32 7"] by simp

section \<open>The fingerprint of a set of documents\<close>

lemma sorted_unique:
  assumes anti: "\<And>a b. le a b \<Longrightarrow> le b a \<Longrightarrow> a = b"
  shows "sorted_wrt le xs \<Longrightarrow> sorted_wrt le ys \<Longrightarrow> mset xs = mset ys \<Longrightarrow> xs = ys"
proof (induction xs arbitrary: ys)
  case (Cons x xs)
  then obtain y zs where y: "ys = y # zs" by (cases ys) auto
  have "set (x # xs) = set (y # zs)" using Cons.prems(3) y by (metis mset_eq_setD)
  then have "x = y \<or> le x y \<and> le y x" using Cons.prems(1,2) y by auto
  then have "x = y" using anti by blast
  then show ?case using Cons y by auto
qed simp

lemma order_by_mset:
  assumes "\<And>a b. le a b \<or> le b a" and "\<And>a b c. le a b \<Longrightarrow> le b c \<Longrightarrow> le a c" and "\<And>a b. le a b \<Longrightarrow> le b a \<Longrightarrow> a = b"
    and "mset xs = mset ys"
  shows "order_by le xs = order_by le ys"
proof (rule sorted_unique [of le])
  show "sorted_wrt le (order_by le xs)" "sorted_wrt le (order_by le ys)"
    by (rule sorted_order_by; use assms(1,2) in blast)+
qed (use assms(3,4) in auto)

lemma pair_le_order: "order_by pair_le xs = order_by pair_le ys" if "mset xs = mset ys"
  by (rule order_by_mset [OF _ _ _ that]) (auto simp: pair_le_def prod_eq_iff)

text \<open>Mapping over a list whose failures are all alike depends on its members only.\<close>

lemma rmap_alike:
  assumes "\<And>x e. f x = Inl e \<Longrightarrow> e = err"
  shows "rmap f xs = (if \<forall>x \<in> set xs. isl (f x) = False then Inr (map (projr \<circ> f) xs) else Inl err)"
proof (induction xs)
  case (Cons x xs)
  show ?case
  proof (cases "f x")
    case (Inl e)
    then show ?thesis using assms by auto
  next
    case (Inr y)
    then show ?thesis using Cons.IH by simp
  qed
qed simp

lemma pack_rows_alike: "pack_rows E d = Inl e \<Longrightarrow> e = ValueErr ''Out of range float values are not JSON compliant''"
  by (auto simp: pack_rows_def doc_hash_def doc_object_def canonical_def rmap1_def split: sum.splits option.splits)

text \<open>
  the fingerprint by which an unchanged republish is recognised does not depend on the order the documents are
  given in, also when it raises.
\<close>

theorem fingerprint_ignores_order:
  assumes "mset ds = mset ds'"
  shows "docs_fingerprint E ds = docs_fingerprint E ds'"
proof -
  have s: "set ds = set ds'" using assms by (rule mset_eq_setD)
  have "mset (map (projr \<circ> pack_rows E) ds) = mset (map (projr \<circ> pack_rows E) ds')" using assms by simp
  from pair_le_order [OF this] show ?thesis
    by (simp add: docs_fingerprint_def rmap_alike [of "pack_rows E", OF pack_rows_alike] s)
qed

end
