(* ===== verification/Vault_Trust.thy ===== *)
theory Vault_Trust
  imports Vault_Checks
begin

section \<open>What a publisher signs\<close>

lemma lift_result_simps [simp]: "lift_result (Inr x) = Inr x" "lift_result (Inl e) = Inl (Escapes e)"
  by (simp_all add: lift_result_def)

lemma writable_dict: "writable fr (JObj d) \<Longrightarrow> distinct (map fst d)"
  by (simp add: writable_def)

lemma canonical_form_get: "canonical_form fr (JObj d) \<Longrightarrow> canonical_form fr (opt_get d k JNull)"
proof -
  assume c: "canonical_form fr (JObj d)"
  have p: "list_all2 (\<lambda>p q. fst q = fst p \<and> print_floats fr (snd p) = Some (snd q)) d d"
    using c print_floats_obj [of fr d "JObj d"] by (auto simp: canonical_form_def)
  have "canonical_form fr v" if "(k, v) \<in> set d" for k v
    using c p that by (auto simp: canonical_form_def list_all_iff list_all2_same)
  then show ?thesis
    by (auto simp: opt_get_def canonical_form_def [of fr JNull] split: option.split dest: map_of_SomeD)
qed

lemma signed_parts_payload: "signed_parts env = Inr (Some (p, sig)) \<Longrightarrow> opt_get env ''sbvault'' JNull = JObj p"
  by (auto simp: signed_parts_def Let_def split: jval.splits if_splits)

lemma pack_parts_Inr:
  assumes "pack_parts E signer a = Inr P"
  shows "pack_keys E a = Inr (pp_keys P) \<and>
    list_all2 (\<lambda>d q. pack_one E (pp_keys P) (pk_vault_id a) d = Inr q) (pk_docs a) (pp_docs P) \<and>
    canonical (ve_float E) (JObj (index_payload a (map snd (pp_docs P)))) = Inr (pp_index P) \<and>
    pp_payload P = manifest_payload E signer a (vk_name (pp_keys P)) (pp_index P) \<and>
    canonical (ve_float E) (JObj (pp_payload P)) = Inr (pp_signed P)"
  using assms by (auto simp: pack_parts_def vbind_Inr_iff vmap_Inr Let_def)

text \<open>Everything packed is JSON that says everything: integers of at most 4300 digits, no key twice, floats as printed.\<close>

definition json_pack :: "vault_env \<Rightarrow> bytes \<Rightarrow> pack_args \<Rightarrow> bool" where
  "json_pack E signer a = (case pack_parts E signer a of Inl _ \<Rightarrow> False
     | Inr P \<Rightarrow> writable (ve_float E) (JObj (pp_payload P)) \<and>
         writable (ve_float E) (JObj (index_payload a (map snd (pp_docs P)))) \<and>
         list_all (\<lambda>d. writable (ve_float E) (JObj (doc_dict d))) (pk_docs a))"

definition packed_bytes :: "vault_env \<Rightarrow> bytes \<Rightarrow> pack_args \<Rightarrow> bytes set" where
  "packed_bytes E signer a = (case pack_parts E signer a of Inl _ \<Rightarrow> {} | Inr P \<Rightarrow> {pp_index P}) \<union>
     doc_body E ` set (pk_docs a) \<union> vec_body ` set (pk_docs a)"

text \<open>The holder of the key has signed the manifests of the packs \<open>A\<close> and nothing else.\<close>

definition only_published :: "vault_env \<Rightarrow> bytes \<Rightarrow> pack_args set \<Rightarrow> string \<Rightarrow> bool" where
  "only_published E signer A pub \<longleftrightarrow> (\<forall>m sig. verify_signature (ve_sign E) pub m sig \<longrightarrow>
     (\<exists>a \<in> A. \<exists>P. pack_parts E signer a = Inr P \<and> m = SIG_PREFIX @ pp_signed P))"

text \<open>A document as the recipient gets it.\<close>

definition doc_matches :: "pack_doc \<Rightarrow> vault_doc \<Rightarrow> bool" where
  "doc_matches d v \<longleftrightarrow> vd_uid v = pd_uid d \<and>
     vd_title v = (if take MAX_TITLE (pd_title d) = [] then ''Untitled'' else take MAX_TITLE (pd_title d)) \<and>
     vd_content v = pd_content d \<and> clean_meta (JObj (pd_meta d)) = Inr (vd_meta v) \<and>
     vd_vectors v = (if pd_vectors d = [] then None else Some (pd_vectors d))"

lemma payload_index_hash:
  "inner_text (sorted_dict (manifest_payload E signer a k index_raw)) ''index'' ''hash'' = Some (sha_hex E index_raw)"
  if "distinct (map fst (manifest_payload E signer a k index_raw))"
proof -
  let ?i = "[(''hash'', JStr (sha_hex E index_raw)), (''bytes'', JInt (int (length index_raw)))]"
  have "opt_get (manifest_payload E signer a k index_raw) ''index'' JNull = JObj ?i"
    by (simp add: manifest_payload_def opt_get_def)
  moreover have "get_text (sorted_dict ?i) ''hash'' = Some (sha_hex E index_raw)"
    using opt_get_sorted_dict [of ?i "''hash''"] by (simp add: get_text_def opt_get_def text_of_def)
  ultimately show ?thesis
    by (simp add: inner_text_def opt_get_sorted_dict [OF that] sort_keys_obj del: sort_keys.simps)
qed

lemma index_docs:
  "opt_get (sorted_dict (index_payload a rows)) ''docs'' JNull = JList (map sort_keys rows)"
  using opt_get_sorted_dict [of "index_payload a rows" "''docs''"] by (simp add: index_payload_def opt_get_def)

text \<open>The document of a packed row, once its hash leaves no choice of bodies.\<close>

lemma packed_doc_read:
  assumes fr: "float_printing (ve_float E)" and w: "writable (ve_float E) (JObj (doc_dict d))"
    and one: "pack_one E K0 vid0 d = Inr q"
    and col: "inj_on (ve_sha256 E) B" and B: "readable E f \<subseteq> B" "doc_body E d \<in> B" "vec_body d \<in> B"
    and z: "vf_zip f = Some z" and o: "open_doc E K vid z (packed_row E k d) = Inr v"
  shows "doc_matches d v"
proof -
  obtain body d0 vs where b: "body \<in> readable E f" "read_doc_object E body (packed_row E k d) = Inr d0"
    "open_vectors E K vid z (packed_row E k d) = Inr vs" "v = d0\<lparr>vd_vectors := vs\<rparr>"
    using o entry_readable [OF z] unfolding open_doc_def vbind_Inr_iff by blast
  obtain dd title content meta where r: "sha_hex E body = sha_hex E (doc_body E d)" "parse_canonical (ve_float E) body = Inr dd"
    "get_text dd ''title'' = Some title" "get_text dd ''content'' = Some content" "clean_meta (opt_get dd ''meta'' JNull) = Inr meta"
    "d0 = \<lparr>vd_uid = pd_uid d, vd_title = (if take MAX_TITLE title = [] then ''Untitled'' else take MAX_TITLE title),
      vd_content = content, vd_meta = meta, vd_hash = sha_hex E (doc_body E d), vd_vectors = None\<rparr>"
    using read_doc_Inr [OF b(2)] by (auto simp: packed_row_def Let_def)
  have body: "body = doc_body E d" using sha_hex_inj [OF col] b(1) B r(1) by blast
  obtain raw where "doc_object E (take MAX_TITLE (pd_title d)) (pd_content d) (pd_meta d) = Inr raw"
    using one by (auto simp: pack_one_def vbind_Inr_iff Let_def)
  then have "canonical (ve_float E) (JObj (doc_dict d)) = Inr (doc_body E d)"
    by (simp add: doc_object_def doc_dict_def doc_body_def)
  then have dd: "dd = sorted_dict (doc_dict d)" using parse_written [OF fr w] r(2) body by simp
  have dist: "distinct (map fst (doc_dict d))" by (simp add: doc_dict_def)
  have "distinct (map fst (pd_meta d))" using w by (simp add: writable_def doc_dict_def)
  note cm = clean_meta_sorted [OF this]
  have g: "title = take MAX_TITLE (pd_title d)" "content = pd_content d" "clean_meta (JObj (pd_meta d)) = Inr meta"
    using r(3-5) cm unfolding dd get_text_def opt_get_sorted_dict [OF dist]
    by (simp_all add: doc_dict_def opt_get_def text_of_def sorted_dict_def)
  have "vs = (if pd_vectors d = [] then None else Some (pd_vectors d))"
  proof (cases "pd_vectors d = []")
    case True
    then show ?thesis using b(3) by (simp add: open_vectors_def packed_row_def Let_def)
  next
    case False
    define vhash where "vhash = sha_hex E (vec_body d)"
    define vobj where "vobj = obj_name E k ''vec'' (pd_uid d) vhash"
    have vr: "ir_vec (packed_row E k d) = Some (vobj, vhash)" using False by (simp add: packed_row_def Let_def vobj_def vhash_def)
    obtain vb u where vb: "vb \<in> readable E f" "read_vec_body E vb vhash = Inr u" "vs = Some u"
      using b(3) entry_readable [OF z] unfolding open_vectors_def vr option.case prod.case vbind_Inr_iff by blast
    have h: "sha_hex E vb = sha_hex E (vec_body d)" "read_vec_object vb = Inr u"
      using vb(2) by (auto simp: read_vec_body_def vhash_def split: if_splits)
    have "vb = vec_body d" using sha_hex_inj [OF col] vb(1) B h(1) by blast
    moreover obtain raw where "vec_object (pd_vectors d) = Inr raw"
      using one False by (auto simp: pack_one_def pack_vectors_def vbind_Inr_iff Let_def)
    ultimately have "read_vec_object vb = Inr u" "vec_object (pd_vectors d) = Inr vb" using h(2) by (simp_all add: vec_body_def)
    then show ?thesis using read_vec_packed [of "pd_vectors d" vb] vb(3) False by (auto split: if_splits)
  qed
  then show ?thesis using g b(4) r(6) by (simp add: doc_matches_def MAX_TITLE_def)
qed

text \<open>
  C24: an update is what the publisher published. Take a recipient who checks a file against a pinned key before
  opening it, and a key whose owner has signed nothing with the vault's prefix but manifests of vaults it packed. If
  the digests of what is involved do not collide, then whatever host served the file, what is opened is document for
  document one of the publisher's packs: uid, title, text, provenance and vectors.
\<close>

theorem opened_is_what_was_published:
  assumes fr: "float_printing (ve_float E)"
    and signed: "only_published E signer A pub"
    and json: "\<And>a. a \<in> A \<Longrightarrow> json_pack E signer a"
    and col: "inj_on (ve_sha256 E) (readable E f \<union> (\<Union>a \<in> A. packed_bytes E signer a))"
    and raw: "manifest_entry f = Inr raw" and pin: "manifest_signed_by E raw pub = Inr True"
    and opn: "open_vault E f key = Inr (p', docs)"
  shows "\<exists>a \<in> A. list_all2 doc_matches (pk_docs a) docs"
proof -
  let ?B = "readable E f \<union> (\<Union>a \<in> A. packed_bytes E signer a)"
  obtain p vid z K index_raw rows where o: "opens E f key p vid z K index_raw rows docs"
    using open_vault_opens [OF opn] by blast
  then have r: "read_manifest E f = Inr p" "read_index E p index_raw (vk_name K) = Inr rows" "vmap (open_doc E K vid z) rows = Inr docs"
    "vf_zip f = Some z" "index_raw \<in> readable E f"
    by (simp_all add: opens_def)
  have "read_manifest_bytes E raw = Inr p" using r(1) raw by (simp add: read_manifest_def)
  then obtain env sig where env: "parse_canonical (ve_float E) raw = Inr env" "signed_parts env = Inr (Some (p, sig))"
    using read_manifest_bytes_Inr by blast
  have "signature_ok E pub p sig = Inr True"
    using pin env by (simp add: manifest_signed_by_def split: if_splits)
  then obtain m where m: "canonical (ve_float E) (JObj p) = Inr m" "verify_signature (ve_sign E) pub (SIG_PREFIX @ m) sig"
    by (auto simp: signature_ok_def split: sum.splits)
  obtain a P where a: "a \<in> A" "pack_parts E signer a = Inr P" "m = pp_signed P"
    using signed m(2) unfolding only_published_def by blast
  note P = pack_parts_Inr [OF a(2)]
  have w: "writable (ve_float E) (JObj (pp_payload P))" "writable (ve_float E) (JObj (index_payload a (map snd (pp_docs P))))"
    "list_all (\<lambda>d. writable (ve_float E) (JObj (doc_dict d))) (pk_docs a)"
    using json [OF a(1)] a(2) by (simp_all add: json_pack_def)
  have "canonical_form (ve_float E) (JObj env)" using env(1) parse_canonical_iff [OF fr] by blast
  then have cp: "canonical_form (ve_float E) (JObj p)"
    using canonical_form_get [of _ env "''sbvault''"] signed_parts_payload [OF env(2)] by simp
  have "JObj p = JObj (sorted_dict (pp_payload P))"
  proof (rule canonical_inj [OF cp])
    show c: "canonical_form (ve_float E) (JObj (sorted_dict (pp_payload P)))"
      using writable_sorted [OF w(1)] by (simp only: sort_keys_obj)
    have "canonical (ve_float E) (JObj (sorted_dict (pp_payload P))) = canonical (ve_float E) (JObj (pp_payload P))"
      using canonical_of_form [OF c] canonical_writable [OF w(1)] by (simp only: sort_keys_obj)
    also have "\<dots> = Inr m" using P a(3) by blast
    finally show "canonical (ve_float E) (JObj p) = canonical (ve_float E) (JObj (sorted_dict (pp_payload P)))"
      unfolding m(1) by (rule sym)
  qed
  then have "inner_text p ''index'' ''hash'' = Some (sha_hex E (pp_index P))"
    using payload_index_hash writable_dict [OF w(1)] P by simp
  then have "sha_hex E index_raw = sha_hex E (pp_index P)" using read_index_hash [OF r(2)] by simp
  moreover have "pp_index P \<in> packed_bytes E signer a" by (simp add: packed_bytes_def a(2))
  ultimately have i: "index_raw = pp_index P" using sha_hex_inj [OF col] r(5) a(1) by blast
  have "parse_canonical (ve_float E) index_raw = Inr (sorted_dict (index_payload a (map snd (pp_docs P))))"
    using parse_written [OF fr w(2)] P i by simp
  then have "read_rows E (vk_name K) [] (map (\<lambda>p. sort_keys (snd p)) (pp_docs P)) = Inr rows"
    using read_index_rows [OF r(2)] index_docs [of a "map snd (pp_docs P)"] by (auto simp: comp_def)
  then have rows: "rows = map (packed_row E (vk_name (pp_keys P))) (pk_docs a)"
    using packed_rows_fields [of E "pp_keys P" "pk_vault_id a" "pk_docs a" "pp_docs P"] P by blast
  have one: "\<exists>q. pack_one E (pp_keys P) (pk_vault_id a) d = Inr q" if "d \<in> set (pk_docs a)" for d
    using P that by (auto simp: list_all2_conv_all_nth in_set_conv_nth)
  have B: "doc_body E d \<in> ?B" "vec_body d \<in> ?B" if "d \<in> set (pk_docs a)" for d
    using that a(1) by (auto simp: packed_bytes_def)
  have "list_all2 (\<lambda>r v. open_doc E K vid z r = Inr v) rows docs" using r(3) by (simp only: vmap_Inr)
  then have l: "list_all2 (\<lambda>d v. open_doc E K vid z (packed_row E (vk_name (pp_keys P)) d) = Inr v) (pk_docs a) docs"
    unfolding rows by (simp add: list_all2_map1)
  have "list_all2 doc_matches (pk_docs a) docs"
  proof (rule list.rel_mono_strong [OF l])
    fix d v
    assume d: "d \<in> set (pk_docs a)" and o: "open_doc E K vid z (packed_row E (vk_name (pp_keys P)) d) = Inr v"
    have wd: "writable (ve_float E) (JObj (doc_dict d))" using w(3) d by (simp add: list_all_iff)
    obtain q where q: "pack_one E (pp_keys P) (pk_vault_id a) d = Inr q" using one [OF d] by blast
    show "doc_matches d v"
      by (rule packed_doc_read [OF fr wd q col _ B(1) [OF d] B(2) [OF d] r(4) o]) simp
  qed
  then show ?thesis using a(1) by blast
qed

section \<open>An honest vault opens\<close>

text \<open>The cipher gives back what it sealed, the digests and keys are 32 bytes, base64 comes back.\<close>

definition vault_env_ok :: "vault_env \<Rightarrow> bool" where
  "vault_env_ok E \<longleftrightarrow> float_printing (ve_float E) \<and>
     (\<forall>b. length (ve_sha256 E b) = 32) \<and> (\<forall>k m. length (ve_hmac E k m) = 32) \<and> (\<forall>k s i. length (ve_hkdf E k s i) = 32) \<and>
     (\<forall>k n b aad. ve_unseal E k n (ve_seal E k n b aad) aad = Some b)"

text \<open>A document within the bounds a recipient holds it to.\<close>

definition doc_within :: "pack_doc \<Rightarrow> bool" where
  "doc_within d \<longleftrightarrow> length (pd_content d) \<le> MAX_TEXT \<and> (\<exists>m. clean_meta (JObj (pd_meta d)) = Inr m) \<and>
     (pd_vectors d \<noteq> [] \<longrightarrow> hd (pd_vectors d) \<noteq> [] \<and> length (hd (pd_vectors d)) \<le> MAX_DIM \<and> length (pd_vectors d) \<le> MAX_CHUNKS \<and>
       list_all (list_all float_finite) (pd_vectors d))"

definition args_within :: "pack_args \<Rightarrow> bool" where
  "args_within a \<longleftrightarrow> pk_vault_id a \<noteq> [] \<and> length (pk_vault_id a) \<le> 100 \<and> 0 \<le> pk_seq a \<and>
     distinct (map pd_uid (pk_docs a)) \<and> list_all doc_within (pk_docs a)"

text \<open>The entries are within the limits of their kind, and no two objects got one name.\<close>

definition parts_within :: "packed_parts \<Rightarrow> bool" where
  "parts_within P \<longleftrightarrow> distinct (map fst (concat (map fst (pp_docs P)))) \<and>
     list_all (\<lambda>(es, _). length (snd (hd es)) \<le> MAX_DOC_OBJECT_BYTES \<and>
       list_all (\<lambda>e. length (snd e) \<le> MAX_VEC_OBJECT_BYTES) (tl es)) (pp_docs P)"

lemma length_hex: "length (hex b) = 2 * length b"
  by (induction b) (simp_all add: hex_def hex_byte_def)

lemma obj_entry_name:
  assumes "vault_env_ok E"
  shows "allowed_entry (obj_entry (obj_name E k kind uid digest))" "startswith (obj_entry o') ''objects/''"
    "obj_entry o' \<noteq> MANIFEST" "obj_entry o' \<noteq> INDEX"
proof -
  have "length (obj_name E k kind uid digest) = 32" using assms by (simp add: obj_name_def length_hex vault_env_ok_def)
  then show "allowed_entry (obj_entry (obj_name E k kind uid digest))"
    by (simp add: allowed_entry_def obj_entry_def startswith_def endswith_def)
  show "startswith (obj_entry o') ''objects/''" by (simp add: obj_entry_def startswith_def)
  show "obj_entry o' \<noteq> MANIFEST" "obj_entry o' \<noteq> INDEX" by (simp_all add: obj_entry_def MANIFEST_def INDEX_def)
qed

lemma getinfo_stored: "distinct (map fst es) \<Longrightarrow> (n, b) \<in> set es \<Longrightarrow> getinfo (map (stored m) es) n = Some (stored m (n, b))"
proof -
  have name: "ze_name (stored m e) = fst e" for e by (simp add: stored_def split: prod.split)
  have "find (\<lambda>e. ze_name e = n) (map (stored m) us) = Some (stored m (n, b))"
    if "distinct (map fst us)" "(n, b) \<in> set us" for us
    using that by (induction us) (force simp: name)+
  from this [of "rev es"] show "distinct (map fst es) \<Longrightarrow> (n, b) \<in> set es \<Longrightarrow> getinfo (map (stored m) es) n = Some (stored m (n, b))"
    by (simp only: getinfo_def rev_map [of "stored m"] rev_map [of fst, symmetric] distinct_rev set_rev)
qed

lemma entry_stored:
  assumes "distinct (map fst es)" and "(n, b) \<in> set es" and "length b \<le> limit"
    and "n = MANIFEST \<Longrightarrow> m = 0 \<or> length b \<le> m * MAX_ZIP_EXPANSION"
  shows "entry (map (stored m) es) n limit = Inr b"
  using getinfo_stored [OF assms(1,2), of m] assms(3,4) by (auto simp: entry_def stored_def MAX_ZIP_EXPANSION_def)

lemma set_entries_distinct: "distinct (map fst ps) \<Longrightarrow> set_entries ps = ps"
  using fold_dict_set [of ps "[]"] by (simp add: set_entries_def)

lemma unlock_lock:
  "vault_env_ok E \<Longrightarrow> unlock_body E K kind uid digest aad msg (lock_body E K kind uid digest aad body) = Inr body"
  by (auto simp: unlock_body_def lock_body_def vault_env_ok_def split: option.split prod.split)

text \<open>The manifest a pack writes is accepted, and is the payload with its keys in order.\<close>

lemma distinct_payload: "distinct (map fst (manifest_payload E signer a k index_raw))"
  by (auto simp: manifest_payload_def mode_fields_def split: option.split)

lemma payload_get:
  "opt_get (sorted_dict (manifest_payload E signer a k i)) key JNull = sort_keys (opt_get (manifest_payload E signer a k i) key JNull)"
  by (rule opt_get_sorted_dict [OF distinct_payload])

lemma date_text: "get_text (sorted_dict (manifest_payload E signer a k i)) ''published_at'' = pk_published a"
  unfolding get_text_def payload_get
  by (cases "pk_published a"; cases "pk_mode a = ''sealed''")
    (simp_all add: text_of_def manifest_payload_def mode_fields_def opt_get_def)

lemma payload_fields:
  fixes signer i :: bytes
  assumes E: "vault_env_ok E" and w: "args_within a" and K: "pack_keys E a = Inr K"
  defines "p \<equiv> sorted_dict (manifest_payload E signer a (vk_name K) i)"
  shows "format_error p = None" "fields_error p = None" "mode_error p = None"
    and "inner_text p ''publisher'' ''pubkey'' = Some (sg_b64e (ve_sign E) (sg_public (ve_sign E) signer))"
    and "get_text p ''vault_id'' = Some (pk_vault_id a)" and "inner_text p ''index'' ''hash'' = Some (sha_hex E i)"
    and "opt_get p ''seq'' JNull = JInt (pk_seq a)" and "opt_get p ''doc_count'' JNull = JInt (int (length (pk_docs a)))"
    and "opt_get p ''mode'' JNull = JStr (pk_mode a)"
    and "pk_mode a \<noteq> ''sealed'' \<Longrightarrow> get_text p ''name_key'' = Some (b64encode (vk_name K))"
proof -
  note g = payload_get [of E signer a "vk_name K" i] get_text_def text_of_def
  note b = manifest_payload_def opt_get_def
  let ?pub = "[(''alg'', JStr ''ed25519''), (''pubkey'', JStr (sg_b64e (ve_sign E) (sg_public (ve_sign E) signer))),
         (''label'', JStr (take 100 (pk_label a)))]"
  have "opt_get p ''publisher'' JNull = JObj (sorted_dict ?pub)"
    unfolding p_def g(1) sort_keys_obj [symmetric] by (simp add: b del: sort_keys.simps)
  moreover have "get_text (sorted_dict ?pub) ''pubkey'' = Some (sg_b64e (ve_sign E) (sg_public (ve_sign E) signer))"
    using opt_get_sorted_dict [of ?pub "''pubkey''"] by (simp add: g(2,3) opt_get_def)
  ultimately show pk: "inner_text p ''publisher'' ''pubkey'' = Some (sg_b64e (ve_sign E) (sg_public (ve_sign E) signer))"
    by (simp add: inner_text_def)
  then have pub: "is_dict (opt_get p ''publisher'' JNull)" by (auto simp: inner_text_def is_dict_def split: jval.splits)
  show vid: "get_text p ''vault_id'' = Some (pk_vault_id a)" unfolding p_def g by (simp add: b)
  show ih: "inner_text p ''index'' ''hash'' = Some (sha_hex E i)" unfolding p_def by (rule payload_index_hash [OF distinct_payload])
  show sq: "opt_get p ''seq'' JNull = JInt (pk_seq a)" unfolding p_def g by (simp add: b)
  show dc: "opt_get p ''doc_count'' JNull = JInt (int (length (pk_docs a)))" unfolding p_def g by (simp add: b)
  show md: "opt_get p ''mode'' JNull = JStr (pk_mode a)" unfolding p_def g by (simp add: b)
  have fmt: "opt_get p ''format'' JNull = JStr ''sbvault''" "opt_get p ''format_version'' JNull = JInt FORMAT_VERSION"
    "opt_get p ''requires'' JNull = JList []" unfolding p_def g by (simp_all add: b)
  show "format_error p = None" using pub by (simp add: format_error_def fmt int_like_def truthy_def)
  have l: "length (sha_hex E i) = 64" using E by (simp add: sha_hex_def length_hex vault_env_ok_def)
  have pa: "case pk_published a of None \<Rightarrow> True | Some day \<Rightarrow> date_shape day"
    using K by (auto simp: pack_keys_def split: if_splits option.splits)
  have hp: "has_key p ''published_at'' \<longleftrightarrow> pk_published a \<noteq> None"
    unfolding p_def has_key_sorted_dict by (cases "pk_published a") (auto simp: has_key_def manifest_payload_def mode_fields_def)
  have gp: "get_text p ''published_at'' = pk_published a" unfolding p_def by (rule date_text)
  have rt: "has_key p ''retired'' \<longrightarrow> opt_get p ''retired'' JNull = JBool True"
    unfolding p_def has_key_sorted_dict g(1)
    by (auto simp: has_key_def manifest_payload_def mode_fields_def opt_get_def split: option.splits)
  show "fields_error p = None"
    using w l pa rt hp by (auto simp: fields_error_def vid ih sq dc gp count_of_def args_within_def split: option.splits)
  have mode: "pk_mode a = ''sealed'' \<or> pk_mode a = ''open''" using K by (auto simp: pack_keys_def split: if_splits)
  show nk: "get_text p ''name_key'' = Some (b64encode (vk_name K))" if "pk_mode a \<noteq> ''sealed''"
    unfolding p_def g using that by (cases "pk_published a") (simp_all add: b mode_fields_def)
  show "mode_error p = None"
  proof (cases "pk_mode a = ''sealed''")
    case True
    have "is_dict (opt_get p ''crypto'' JNull)" unfolding p_def g(1) using True by (simp add: b mode_fields_def is_dict_def)
    moreover have "\<not> has_key p ''name''" "\<not> has_key p ''description''" "\<not> has_key p ''name_key''"
      unfolding p_def has_key_sorted_dict using True
      by (auto simp: has_key_def manifest_payload_def mode_fields_def split: option.splits if_splits)
    ultimately show ?thesis using True md by (simp add: mode_error_def)
  next
    case False
    have "length (vk_name K) = 32" using K False by (auto simp: pack_keys_def split: if_splits option.splits)
    moreover have "\<not> has_key p ''crypto''"
      unfolding p_def has_key_sorted_dict using False
      by (auto simp: has_key_def manifest_payload_def mode_fields_def split: option.splits if_splits)
    ultimately show ?thesis using False mode md nk by (simp add: mode_error_def b64_roundtrip)
  qed
qed

text \<open>A packed document is read back from its own entries.\<close>

lemma packed_doc_opens:
  assumes E: "vault_env_ok E" and w: "writable (ve_float E) (JObj (doc_dict d))" and ok: "doc_within d"
    and one: "pack_one E K vid d = Inr (es, v)"
    and doc: "\<And>n b. (n, b) \<in> set (take 1 es) \<Longrightarrow> entry z n MAX_DOC_OBJECT_BYTES = Inr b"
    and vec: "\<And>n b. (n, b) \<in> set (drop 1 es) \<Longrightarrow> entry z n MAX_VEC_OBJECT_BYTES = Inr b"
  shows "\<exists>x. open_doc E K vid z (packed_row E (vk_name K) d) = Inr x \<and> doc_matches d x"
proof -
  have fr: "float_printing (ve_float E)" using E by (simp add: vault_env_ok_def)
  obtain body ves vrow where p: "doc_object E (take MAX_TITLE (pd_title d)) (pd_content d) (pd_meta d) = Inr body"
    "pack_vectors E K vid d = Inr (ves, vrow)"
    using one by (auto simp: pack_one_def vbind_Inr_iff Let_def)
  have body: "body = doc_body E d" using p(1) by (simp add: doc_body_def)
  let ?digest = "sha_hex E (doc_body E d)"
  let ?obj = "obj_name E (vk_name K) ''doc'' (pd_uid d) ?digest"
  have es: "es = (obj_entry ?obj, lock_body E K ''doc'' (pd_uid d) ?digest (doc_aad ''doc'' vid (pd_uid d)) (doc_body E d)) # ves"
    using one p body by (auto simp: pack_one_def Let_def)
  have row: "ir_uid (packed_row E (vk_name K) d) = pd_uid d" "ir_hash (packed_row E (vk_name K) d) = ?digest"
    "ir_obj (packed_row E (vk_name K) d) = ?obj" by (simp_all add: packed_row_def Let_def)
  have e: "entry z (obj_entry ?obj) MAX_DOC_OBJECT_BYTES =
      Inr (lock_body E K ''doc'' (pd_uid d) ?digest (doc_aad ''doc'' vid (pd_uid d)) (doc_body E d))"
    by (rule doc) (simp add: es)
  have dist: "distinct (map fst (doc_dict d))" by (simp add: doc_dict_def)
  have dm: "distinct (map fst (pd_meta d))" using w by (simp add: writable_def doc_dict_def)
  obtain meta where meta: "clean_meta (JObj (pd_meta d)) = Inr meta" using ok by (auto simp: doc_within_def)
  have "canonical (ve_float E) (JObj (doc_dict d)) = Inr (doc_body E d)"
    using p(1) body by (simp add: doc_object_def doc_dict_def)
  note pc = parse_written [OF fr w this]
  have f: "get_text (sorted_dict (doc_dict d)) ''title'' = Some (take MAX_TITLE (pd_title d))"
    "get_text (sorted_dict (doc_dict d)) ''content'' = Some (pd_content d)"
    "opt_get (sorted_dict (doc_dict d)) ''meta'' JNull = JObj (sorted_dict (pd_meta d))"
    unfolding get_text_def opt_get_sorted_dict [OF dist] sort_keys_obj [symmetric]
    by (simp_all add: doc_dict_def opt_get_def text_of_def)
  define d0 where "d0 = \<lparr>vd_uid = pd_uid d, vd_title = (if take MAX_TITLE (take MAX_TITLE (pd_title d)) = [] then ''Untitled'' else take MAX_TITLE (take MAX_TITLE (pd_title d))),
      vd_content = pd_content d, vd_meta = meta, vd_hash = ?digest, vd_vectors = None\<rparr>"
  have c: "\<not> MAX_TEXT < length (pd_content d)" using ok by (simp add: doc_within_def)
  have rd: "read_doc_object E (doc_body E d) (packed_row E (vk_name K) d) = Inr d0"
    unfolding read_doc_object_def row pc vbind_simps f prod.case option.case clean_meta_sorted [OF dm] meta if_not_P [OF c]
    by (simp add: d0_def)
  have vs: "open_vectors E K vid z (packed_row E (vk_name K) d) = Inr (if pd_vectors d = [] then None else Some (pd_vectors d))"
  proof (cases "pd_vectors d = []")
    case True
    then show ?thesis by (simp add: open_vectors_def packed_row_def Let_def)
  next
    case False
    let ?vd = "sha_hex E (vec_body d)"
    let ?vobj = "obj_name E (vk_name K) ''vec'' (pd_uid d) ?vd"
    have vr: "ir_vec (packed_row E (vk_name K) d) = Some (?vobj, ?vd)" using False by (simp add: packed_row_def Let_def)
    obtain raw where raw: "vec_object (pd_vectors d) = Inr raw"
      using p(2) False by (auto simp: pack_vectors_def vbind_Inr_iff)
    then have vb: "raw = vec_body d" by (simp add: vec_body_def)
    have "ves = [(obj_entry ?vobj, lock_body E K ''vec'' (pd_uid d) ?vd (doc_aad ''vec'' vid (pd_uid d)) (vec_body d))]"
      using p(2) False raw vb by (auto simp: pack_vectors_def Let_def)
    then have ve: "entry z (obj_entry ?vobj) MAX_VEC_OBJECT_BYTES =
        Inr (lock_body E K ''vec'' (pd_uid d) ?vd (doc_aad ''vec'' vid (pd_uid d)) (vec_body d))"
      by (intro vec) (simp add: es)
    have "read_vec_object (vec_body d) = Inr (pd_vectors d)"
      using read_vec_packed [OF raw] vb ok False by (simp add: doc_within_def)
    then have "read_vec_body E (vec_body d) ?vd = Inr (pd_vectors d)" by (simp add: read_vec_body_def)
    then show ?thesis using False by (simp add: open_vectors_def vr row ve unlock_lock [OF E])
  qed
  have "open_doc E K vid z (packed_row E (vk_name K) d) = Inr (d0\<lparr>vd_vectors := (if pd_vectors d = [] then None else Some (pd_vectors d))\<rparr>)"
    unfolding open_doc_def row e vbind_simps unlock_lock [OF E] rd vs by simp
  then show ?thesis using meta by (auto simp: doc_matches_def d0_def)
qed

lemma list_all2_ex: "list_all2 P xs ys \<Longrightarrow> (\<And>x y. x \<in> set xs \<Longrightarrow> y \<in> set ys \<Longrightarrow> P x y \<Longrightarrow> \<exists>z. f x = Inr z \<and> Q x z) \<Longrightarrow>
  \<exists>zs. vmap f xs = Inr zs \<and> list_all2 Q xs zs"
proof (induction rule: list_all2_induct)
  case (Cons x xs y ys)
  obtain z where z: "f x = Inr z" "Q x z" using Cons.prems [of x y] Cons.hyps(1) by auto
  have "\<exists>zs. vmap f xs = Inr zs \<and> list_all2 Q xs zs" by (rule Cons.IH) (use Cons.prems in auto)
  then show ?case using z by auto
qed simp

lemma packed_names:
  assumes "pack_one E K vid d = Inr (es, v)"
  shows "map fst es = map obj_entry (ir_obj (packed_row E (vk_name K) d) #
    (case ir_vec (packed_row E (vk_name K) d) of None \<Rightarrow> [] | Some (vobj, _) \<Rightarrow> [vobj]))"
proof -
  obtain ves vrow where p: "doc_object E (take MAX_TITLE (pd_title d)) (pd_content d) (pd_meta d) = Inr (doc_body E d)"
    "pack_vectors E K vid d = Inr (ves, vrow)"
    using assms by (auto simp: pack_one_def vbind_Inr_iff Let_def doc_body_def)
  show ?thesis
  proof (cases "pd_vectors d = []")
    case True
    then show ?thesis using assms p by (auto simp: pack_one_def pack_vectors_def packed_row_def Let_def)
  next
    case False
    then obtain raw where "vec_object (pd_vectors d) = Inr raw" "raw = vec_body d"
      using p(2) by (auto simp: pack_vectors_def vbind_Inr_iff vec_body_def)
    then show ?thesis using False assms p by (auto simp: pack_one_def pack_vectors_def packed_row_def Let_def)
  qed
qed

lemma packed_referenced:
  assumes "list_all2 (\<lambda>d q. pack_one E K vid d = Inr q) ds qs"
  shows "map fst (concat (map fst qs)) = referenced (map (packed_row E (vk_name K)) ds)"
  using assms
proof (induction rule: list_all2_induct)
  case (Cons d ds q qs)
  obtain es v where "q = (es, v)" by (cases q)
  then show ?case using Cons packed_names [of E K vid d es v] by (auto simp: referenced_def split: option.split prod.split)
qed (simp add: referenced_def)

lemma packed_entry_names:
  assumes E: "vault_env_ok E" and "list_all2 (\<lambda>d q. pack_one E K vid d = Inr q) ds qs" and "n \<in> set (map fst (concat (map fst qs)))"
  shows "allowed_entry n" "startswith n ''objects/''" "n \<noteq> MANIFEST" "n \<noteq> INDEX"
proof -
  obtain d where d: "d \<in> set ds" "n \<in> set (referenced [packed_row E (vk_name K) d])"
    using assms(3) unfolding packed_referenced [OF assms(2)] by (auto simp: referenced_def)
  then obtain kind digest where "n = obj_entry (obj_name E (vk_name K) kind (pd_uid d) digest)"
    by (auto simp: referenced_def packed_row_def Let_def split: if_splits)
  then show "allowed_entry n" "startswith n ''objects/''" "n \<noteq> MANIFEST" "n \<noteq> INDEX"
    using obj_entry_name [OF E] by auto
qed

text \<open>The manifest a pack writes passes every check of the reader.\<close>

definition pack_signature :: "vault_env \<Rightarrow> bytes \<Rightarrow> packed_parts \<Rightarrow> string" where
  "pack_signature E signer P = sg_b64e (ve_sign E) (sg_sign (ve_sign E) signer (SIG_PREFIX @ pp_signed P))"

definition signature_checks :: "vault_env \<Rightarrow> bytes \<Rightarrow> packed_parts \<Rightarrow> bool" where
  "signature_checks E signer P \<longleftrightarrow> verify_signature (ve_sign E) (sg_b64e (ve_sign E) (sg_public (ve_sign E) signer))
     (SIG_PREFIX @ pp_signed P) (pack_signature E signer P)"

lemma signature_checks: "b64_ok (ve_sign E) \<Longrightarrow> ed25519_ok (ve_sign E) \<Longrightarrow> signature_checks E signer P"
  by (simp add: signature_checks_def verify_signature_def b64_ok_def ed25519_ok_def pack_signature_def)

lemma packed_manifest:
  assumes E: "vault_env_ok E" and w: "args_within a" and P: "pack_parts E signer a = Inr P" and sg: "signature_checks E signer P"
    and json: "writable (ve_float E) (JObj (pp_payload P))"
    and env: "canonical (ve_float E) (JObj (envelope_of (pp_payload P) (pack_signature E signer P))) = Inr raw"
    and small: "length raw \<le> MAX_MANIFEST_BYTES"
  shows "read_manifest_bytes E raw = Inr (sorted_dict (pp_payload P))"
    and "sg_b64e (ve_sign E) (sg_public (ve_sign E) signer) \<noteq> [] \<Longrightarrow>
      manifest_signed_by E raw (sg_b64e (ve_sign E) (sg_public (ve_sign E) signer)) = Inr True"
proof -
  have fr: "float_printing (ve_float E)" using E by (simp add: vault_env_ok_def)
  note pp = pack_parts_Inr [OF P]
  let ?sig = "pack_signature E signer P" and ?p = "sorted_dict (pp_payload P)"
  let ?pub = "sg_b64e (ve_sign E) (sg_public (ve_sign E) signer)"
  let ?s = "[(''alg'', JStr ''ed25519''), (''value'', JStr ?sig)]"
  have wp: "print_floats (ve_float E) (JObj (pp_payload P)) = Some (JObj (pp_payload P))"
    "print_floats (ve_float E) (JObj ?s) = Some (JObj ?s)"
    using json by (simp add: writable_def, simp)
  have "print_floats (ve_float E) (JObj (envelope_of (pp_payload P) ?sig)) = Some (JObj (envelope_of (pp_payload P) ?sig))"
    unfolding print_floats_obj by (simp add: envelope_of_def wp del: print_floats.simps)
  then have "writable (ve_float E) (JObj (envelope_of (pp_payload P) ?sig))"
    using json by (simp add: writable_def envelope_of_def del: print_floats.simps)
  note pc = parse_written [OF fr this env]
  have dist: "distinct (map fst (envelope_of (pp_payload P) ?sig))" by (simp add: envelope_of_def)
  have e: "opt_get (sorted_dict (envelope_of (pp_payload P) ?sig)) ''sbvault'' JNull = JObj ?p"
    "opt_get (sorted_dict (envelope_of (pp_payload P) ?sig)) ''sig'' JNull = JObj (sorted_dict ?s)"
    unfolding opt_get_sorted_dict [OF dist] sort_keys_obj [symmetric] by (simp_all add: envelope_of_def opt_get_def del: sort_keys.simps)
  have s: "opt_get (sorted_dict ?s) ''value'' JNull = JStr ?sig" using opt_get_sorted_dict [of ?s "''value''"] by (simp add: opt_get_def)
  have "sorted_dict ?s \<noteq> []" using arg_cong [of _ _ length] by (auto simp: sorted_dict_def dest: arg_cong [of _ _ length])
  then have parts: "signed_parts (sorted_dict (envelope_of (pp_payload P) ?sig)) = Inr (Some (?p, ?sig))"
    by (simp add: signed_parts_def e s truthy_def)
  have "canonical_form (ve_float E) (JObj ?p)" using writable_sorted [OF json] by (simp only: sort_keys_obj)
  then have "canonical (ve_float E) (JObj ?p) = canonical (ve_float E) (JObj (pp_payload P))"
    using canonical_of_form [of "ve_float E" "JObj ?p"] canonical_writable [OF json] by (simp only: sort_keys_obj)
  also have "\<dots> = Inr (pp_signed P)" using pp by blast
  finally have c: "canonical (ve_float E) (JObj ?p) = Inr (pp_signed P)" .
  have "verify_signature (ve_sign E) ?pub (SIG_PREFIX @ pp_signed P) ?sig"
    using sg by (simp add: signature_checks_def)
  then have so: "signature_ok E ?pub ?p ?sig = Inr True" by (simp add: signature_ok_def c)
  have K: "pack_keys E a = Inr (pp_keys P)" and pay: "pp_payload P = manifest_payload E signer a (vk_name (pp_keys P)) (pp_index P)"
    using pp by blast+
  note f = payload_fields [OF E w K, where signer = signer and i = "pp_index P", folded pay]
  show "read_manifest_bytes E raw = Inr ?p"
    using small by (simp add: read_manifest_bytes_def pc parts f so refuse_def)
  show "?pub \<noteq> [] \<Longrightarrow> manifest_signed_by E raw ?pub = Inr True"
    by (simp add: manifest_signed_by_def pc parts so)
qed

lemma pack_keys_cases:
  assumes "pack_keys E a = Inr K"
  shows "pk_mode a = ''sealed'' \<and> (\<exists>key. pk_vault_key a = Some key \<and> K = sealed_keys E key (pk_vault_id a)) \<or>
    pk_mode a = ''open'' \<and> (\<exists>k. pk_name_key a = Some k \<and> length k = 32 \<and> K = \<lparr>vk_content = None, vk_name = k\<rparr>)"
  using assms by (auto simp: pack_keys_def split: if_splits option.splits)

lemma packed_index_reads:
  assumes E: "vault_env_ok E" and w: "args_within a" and P: "pack_parts E signer a = Inr P"
    and json: "writable (ve_float E) (JObj (index_payload a (map snd (pp_docs P))))"
  shows "read_index E (sorted_dict (pp_payload P)) (pp_index P) (vk_name (pp_keys P)) =
      Inr (map (packed_row E (vk_name (pp_keys P))) (pk_docs a))"
    and "parse_canonical (ve_float E) (pp_index P) = Inr (sorted_dict (index_payload a (map snd (pp_docs P))))"
proof -
  have fr: "float_printing (ve_float E)" using E by (simp add: vault_env_ok_def)
  have K: "pack_keys E a = Inr (pp_keys P)" and pay: "pp_payload P = manifest_payload E signer a (vk_name (pp_keys P)) (pp_index P)"
    and docs: "list_all2 (\<lambda>d q. pack_one E (pp_keys P) (pk_vault_id a) d = Inr q) (pk_docs a) (pp_docs P)"
    and can: "canonical (ve_float E) (JObj (index_payload a (map snd (pp_docs P)))) = Inr (pp_index P)"
    using pack_parts_Inr [OF P] by blast+
  note f = payload_fields [OF E w K, where signer = signer and i = "pp_index P", folded pay]
  show pc: "parse_canonical (ve_float E) (pp_index P) = Inr (sorted_dict (index_payload a (map snd (pp_docs P))))"
    by (rule parse_written [OF fr json can])
  let ?ix = "index_payload a (map snd (pp_docs P))"
  have dist: "distinct (map fst ?ix)" by (simp add: index_payload_def)
  have ix: "opt_get (sorted_dict ?ix) ''vault_id'' JNull = JStr (pk_vault_id a)"
    "opt_get (sorted_dict ?ix) ''seq'' JNull = JInt (pk_seq a)"
    "opt_get (sorted_dict ?ix) ''docs'' JNull = JList (map (\<lambda>q. sort_keys (snd q)) (pp_docs P))"
    unfolding opt_get_sorted_dict [OF dist] by (simp_all add: index_payload_def opt_get_def comp_def)
  have vid: "opt_get (sorted_dict (pp_payload P)) ''vault_id'' JNull = JStr (pk_vault_id a)"
    using f(5) by (auto simp: get_text_def text_of_def split: jval.splits)
  have k: "length (vk_name (pp_keys P)) = 32"
    using pack_keys_cases [OF K] E
    by (elim disjE conjE exE) (simp_all add: sealed_keys_def derive_name_key_def derive_sub_def vault_env_ok_def)
  have n: "length (pk_docs a) \<le> MAX_VAULT_DOCS" using K by (auto simp: pack_keys_def split: if_splits)
  have rows: "read_rows E (vk_name (pp_keys P)) [] (map (\<lambda>q. sort_keys (snd q)) (pp_docs P)) =
      Inr (map (packed_row E (vk_name (pp_keys P))) (pk_docs a))"
    by (rule packed_rows_accepted [OF docs]) (use w in \<open>simp_all add: args_within_def\<close>)
  have "length (pp_docs P) = length (pk_docs a)" using docs by (simp add: list_all2_lengthD)
  then show "read_index E (sorted_dict (pp_payload P)) (pp_index P) (vk_name (pp_keys P)) =
      Inr (map (packed_row E (vk_name (pp_keys P))) (pk_docs a))"
    using k n rows by (simp add: read_index_def f pc ix vid num_is_def int_like_def)
qed

text \<open>A recipient with the key of a sealed vault, or anyone for an open one.\<close>

lemma packed_keys_for:
  assumes E: "vault_env_ok E" and w: "args_within a" and P: "pack_parts E signer a = Inr P"
    and key: "pk_mode a = ''sealed'' \<Longrightarrow> key = pk_vault_key a"
  shows "keys_for E (sorted_dict (pp_payload P)) (pk_vault_id a) key = Inr (pp_keys P)"
proof -
  have K: "pack_keys E a = Inr (pp_keys P)" and pay: "pp_payload P = manifest_payload E signer a (vk_name (pp_keys P)) (pp_index P)"
    using pack_parts_Inr [OF P] by blast+
  note f = payload_fields [OF E w K, where signer = signer and i = "pp_index P", folded pay]
  show ?thesis
  proof (cases "pk_mode a = ''sealed''")
    case True
    then show ?thesis using key pack_keys_cases [OF K] f(9) by (auto simp: keys_for_def)
  next
    case False
    then obtain k where k: "pp_keys P = \<lparr>vk_content = None, vk_name = k\<rparr>" using pack_keys_cases [OF K] by auto
    show ?thesis using False f(9) f(10) [OF False] by (simp add: keys_for_def b64_roundtrip k)
  qed
qed

text \<open>
  The archive of a pack within the bounds, at any deflated size of the manifest the expansion limit allows, opens for
  whoever has the key: every document comes out as it went in.
\<close>

lemma packed_vault_opens:
  assumes E: "vault_env_ok E" and w: "args_within a" and P: "pack_parts E signer a = Inr P" and pk: "pack E signer a = Inr es"
    and sg: "signature_checks E signer P"
    and json: "json_pack E signer a" and within: "parts_within P"
    and small: "length (snd (es ! 0)) \<le> MAX_MANIFEST_BYTES" "length (snd (es ! 1)) \<le> MAX_INDEX_BYTES" "nbytes \<le> MAX_VAULT_BYTES"
    and zip: "m = 0 \<or> length (snd (es ! 0)) \<le> m * MAX_ZIP_EXPANSION"
    and key: "pk_mode a = ''sealed'' \<Longrightarrow> key = pk_vault_key a"
  shows "\<exists>p docs. open_vault E (archive_of nbytes m es) key = Inr (p, docs) \<and> list_all2 doc_matches (pk_docs a) docs"
    and "manifest_entry (archive_of nbytes m es) = Inr (snd (es ! 0))"
    and "canonical (ve_float E) (JObj (envelope_of (pp_payload P) (pack_signature E signer P))) = Inr (snd (es ! 0))"
proof -
  let ?K = "pp_keys P" and ?vid = "pk_vault_id a" and ?p = "sorted_dict (pp_payload P)" and ?k = "vk_name (pp_keys P)"
  have K: "pack_keys E a = Inr ?K" and pay: "pp_payload P = manifest_payload E signer a ?k (pp_index P)"
    and docs: "list_all2 (\<lambda>d q. pack_one E ?K ?vid d = Inr q) (pk_docs a) (pp_docs P)"
    using pack_parts_Inr [OF P] by blast+
  have js: "writable (ve_float E) (JObj (pp_payload P))" "writable (ve_float E) (JObj (index_payload a (map snd (pp_docs P))))"
    "\<And>d. d \<in> set (pk_docs a) \<Longrightarrow> writable (ve_float E) (JObj (doc_dict d))"
    using json P by (simp_all add: json_pack_def list_all_iff)
  define all where "all = concat (map fst (pp_docs P))"
  have da: "distinct (map fst all)" using within by (simp add: parts_within_def all_def)
  define objs where "objs = order_by (\<lambda>x y. fst x \<le> fst y) all"
  obtain envb where envb: "canonical (ve_float E) (JObj (envelope_of (pp_payload P) (pack_signature E signer P))) = Inr envb"
    and es: "es = [(MANIFEST, envb), (INDEX, lock_body E ?K ''index'' ?vid (sha_hex E (pp_index P)) (index_aad ?vid) (pp_index P))] @ objs"
    using pk P set_entries_distinct [OF da] by (auto simp: pack_def vbind_Inr_iff Let_def pack_signature_def objs_def all_def)
  show "canonical (ve_float E) (JObj (envelope_of (pp_payload P) (pack_signature E signer P))) = Inr (snd (es ! 0))"
    using envb es by simp
  have so: "set objs = set all" by (simp add: objs_def)
  have names: "allowed_entry n" "startswith n ''objects/''" "n \<noteq> MANIFEST" "n \<noteq> INDEX" if "n \<in> fst ` set all" for n
    using packed_entry_names [OF E docs, of n] that by (simp_all add: all_def)
  have mi: "MANIFEST \<noteq> INDEX" by (simp add: MANIFEST_def INDEX_def)
  have "distinct (map fst objs)" unfolding objs_def by (rule distinct_map_order_by [OF da])
  then have des: "distinct (map fst es)" using names(3,4) so mi by (auto simp: es)
  let ?z = "map (stored m) es"
  have zn: "map ze_name ?z = map fst es" by (simp add: stored_def split: prod.split)
  have am: "allowed_entry MANIFEST" "allowed_entry INDEX" by (simp_all add: allowed_entry_def)
  have "list_all allowed_entry (map fst es)" using names(1) so am by (auto simp: es list_all_iff)
  moreover have "MANIFEST \<in> set (map fst es)" "INDEX \<in> set (map fst es)" by (simp_all add: es)
  ultimately have oc: "open_container (archive_of nbytes m es) = Inr ?z"
    using small(3) unfolding open_container_def archive_of_def vault_file.simps option.case Let_def zn by (simp only: not_less) simp
  have entry_of: "entry ?z n limit = Inr b" if "(n, b) \<in> set es" "length b \<le> limit" "n \<noteq> MANIFEST" for n b limit
    by (rule entry_stored [OF des that(1,2)]) (use that(3) in simp)
  have em: "entry ?z MANIFEST MAX_MANIFEST_BYTES = Inr envb"
    by (rule entry_stored [OF des]) (use small(1) zip in \<open>simp_all add: es\<close>)
  show me: "manifest_entry (archive_of nbytes m es) = Inr (snd (es ! 0))"
    using oc em by (simp add: manifest_entry_def es)
  have rm: "read_manifest E (archive_of nbytes m es) = Inr ?p"
    using packed_manifest(1) [OF E w P sg js(1) envb] small(1) me by (simp add: read_manifest_def es)
  note f = payload_fields [OF E w K, where signer = signer and i = "pp_index P", folded pay]
  note ri = packed_index_reads [OF E w P js(2)]
  have ei: "entry ?z INDEX MAX_INDEX_BYTES = Inr (lock_body E ?K ''index'' ?vid (sha_hex E (pp_index P)) (index_aad ?vid) (pp_index P))"
    by (rule entry_of) (use small(2) mi in \<open>simp_all add: es\<close>)
  have each: "\<exists>x. open_doc E ?K ?vid ?z (packed_row E ?k d) = Inr x \<and> doc_matches d x"
    if d: "d \<in> set (pk_docs a)" and q: "q \<in> set (pp_docs P)" and one: "pack_one E ?K ?vid d = Inr q" for d q
  proof -
    obtain qs v where qv: "q = (qs, v)" by (cases q)
    have mem: "(n, b) \<in> set es" "n \<noteq> MANIFEST" if "(n, b) \<in> set qs" for n b
      using that q qv so names(3) by (force simp: es all_def)+
    have "qs \<noteq> []" using packed_names [of E ?K ?vid d qs v] one qv by auto
    then have lim: "length (snd (hd qs)) \<le> MAX_DOC_OBJECT_BYTES" "list_all (\<lambda>e. length (snd e) \<le> MAX_VEC_OBJECT_BYTES) (tl qs)"
      "take 1 qs = [hd qs]" "drop 1 qs = tl qs" using within q qv by (auto simp: parts_within_def list_all_iff neq_Nil_conv)
    show ?thesis
    proof (rule packed_doc_opens [OF E js(3) [OF d] _ one [unfolded qv]])
      show "doc_within d" using w d by (simp add: args_within_def list_all_iff)
      show "entry ?z n MAX_DOC_OBJECT_BYTES = Inr b" if "(n, b) \<in> set (take 1 qs)" for n b
      proof (rule entry_of)
        have "hd qs = (n, b)" using that lim(3) by simp
        then show "length b \<le> MAX_DOC_OBJECT_BYTES" using lim(1) by simp
      qed (use mem [OF in_set_takeD [OF that]] in simp_all)
      show "entry ?z n MAX_VEC_OBJECT_BYTES = Inr b" if "(n, b) \<in> set (drop 1 qs)" for n b
      proof (rule entry_of)
        show "length b \<le> MAX_VEC_OBJECT_BYTES" using that lim(2) unfolding lim(4) by (auto simp: list_all_iff)
      qed (use mem [OF in_set_dropD [OF that]] in simp_all)
    qed
  qed
  have "\<exists>ds. vmap (\<lambda>d. open_doc E ?K ?vid ?z (packed_row E ?k d)) (pk_docs a) = Inr ds \<and> list_all2 doc_matches (pk_docs a) ds"
    by (rule list_all2_ex [OF docs]) (rule each)
  then obtain ds where ds: "vmap (\<lambda>d. open_doc E ?K ?vid ?z (packed_row E ?k d)) (pk_docs a) = Inr ds" "list_all2 doc_matches (pk_docs a) ds"
    by blast
  have vm: "vmap (open_doc E ?K ?vid ?z) (map (packed_row E ?k) (pk_docs a)) = Inr ds"
    using ds(1) by (simp only: vmap_Inr list_all2_map1)
  have stray: "list_all (\<lambda>n. startswith n ''objects/'' \<longrightarrow> n \<in> set (referenced (map (packed_row E ?k) (pk_docs a)))) (map ze_name ?z)"
  proof -
    have "\<not> startswith MANIFEST ''objects/''" "\<not> startswith INDEX ''objects/''" by (simp_all add: startswith_def MANIFEST_def INDEX_def)
    moreover have "referenced (map (packed_row E ?k) (pk_docs a)) = map fst all"
      using packed_referenced [OF docs] unfolding all_def by (rule sym)
    ultimately show ?thesis using so unfolding zn by (auto simp: es list_all_iff)
  qed
  have vz: "vf_zip (archive_of nbytes m es) = Some ?z" by (simp add: archive_of_def)
  have "\<exists>p'. with_title E ?p (pp_index P) = Inr p'"
    by (cases "opt_get ?p ''mode'' JNull = JStr ''open''") (simp_all add: with_title_def ri(2))
  then obtain p' where wt: "with_title E ?p (pp_index P) = Inr p'" by blast
  have kf: "keys_for E ?p ?vid key = Inr ?K" by (rule packed_keys_for [OF E w P key])
  have "open_vault E (archive_of nbytes m es) key = Inr (p', ds)"
    unfolding open_vault_def rm vbind_simps f(5) f(6) vz prod.case option.case kf ei
      unlock_lock [OF E] ri(1) wt vm using stray by simp
  then show "\<exists>p docs. open_vault E (archive_of nbytes m es) key = Inr (p, docs) \<and> list_all2 doc_matches (pk_docs a) docs"
    using ds(2) by blast
qed

text \<open>
  C25: what is published can be opened. A vault packed from documents within the limits, sealed or open, opens from the
  archive it is written to, with the key it was sealed with, to the documents it was packed from: none refused, none
  changed but for a missing title and a trimmed provenance.
\<close>

theorem published_vault_opens:
  assumes "vault_env_ok E" and "b64_ok (ve_sign E)" and "ed25519_ok (ve_sign E)" and "args_within a"
    and "pack_parts E signer a = Inr P" and "pack E signer a = Inr es" and "json_pack E signer a" and "parts_within P"
    and "length (snd (es ! 0)) \<le> MAX_MANIFEST_BYTES" and "length (snd (es ! 1)) \<le> MAX_INDEX_BYTES" and "nbytes \<le> MAX_VAULT_BYTES"
    and "m = 0 \<or> length (snd (es ! 0)) \<le> m * MAX_ZIP_EXPANSION"
    and "pk_mode a = ''sealed'' \<Longrightarrow> key = pk_vault_key a"
  shows "\<exists>p docs. open_vault E (archive_of nbytes m es) key = Inr (p, docs) \<and> list_all2 doc_matches (pk_docs a) docs"
  by (rule packed_vault_opens(1) [OF assms(1,4-6) signature_checks [OF assms(2,3)] assms(7-13)])

end
