(* ===== verification/Vault_Demo.thy ===== *)
theory Vault_Demo
  imports Vault_Trust
begin

section \<open>Bounds on what is written\<close>

lemma length_utf8: "length (utf8_bytes s) \<le> 2 * length s"
  by (induction s) (auto simp: utf8_bytes_def utf8_char_def Let_def)

lemma length_plain_quote: "length (plain_quote s) \<le> 6 * length s + 2"
proof -
  have "length (plain_escape c) \<le> 6" for c by (simp add: plain_escape_def json_escape_def Let_def)
  then have "length (concat (map plain_escape s)) \<le> 6 * length s"
  proof (induction s)
    case (Cons c s)
    from Cons.prems [of c] Cons.IH [OF Cons.prems] show ?case by simp
  qed simp
  then show ?thesis by (simp add: plain_quote_def)
qed

lemma length_str_nat: "length (str_nat n) \<le> n div 10 + 1"
proof (induction n rule: str_nat.induct)
  case (1 n)
  show ?case
  proof (cases "n < 10")
    case True
    then show ?thesis by (simp add: str_nat.simps [of n])
  next
    case False
    then have "length (str_nat (n div 10)) \<le> n div 10 div 10 + 1" using 1 by blast
    moreover have "n div 10 div 10 + 1 \<le> n div 10" using False by linarith
    ultimately show ?thesis using False by (simp add: str_nat.simps [of n])
  qed
qed

fun text_bound :: "jval \<Rightarrow> nat" where
  "text_bound JNull = 4"
| "text_bound (JBool b) = 5"
| "text_bound (JInt i) = 2 + nat \<bar>i\<bar> div 10"
| "text_bound (JFloat t) = length t"
| "text_bound (JStr s) = 6 * length s + 2"
| "text_bound (JList vs) = 2 + sum_list (map (\<lambda>v. text_bound v + 1) vs)"
| "text_bound (JObj d) = 2 + sum_list (map (\<lambda>(k, v). 6 * length k + 4 + text_bound v) d)"

lemma length_join: "length (join [c] xs) \<le> sum_list (map (\<lambda>x. length x + 1) xs)"
  by (induction "[c]" xs rule: join.induct) auto

lemma text_bound: "length (canonical_text v) \<le> text_bound v"
proof (induction v)
  case (JInt i)
  have "length (str_int i) \<le> 1 + length (str_nat (nat \<bar>i\<bar>))" by (simp add: str_int_def)
  then show ?case using length_str_nat [of "nat \<bar>i\<bar>"] by (simp add: canonical_text_def)
next
  case (JStr s)
  then show ?case using length_plain_quote [of s] by (simp add: canonical_text_def)
next
  case (JList vs)
  have "sum_list (map (\<lambda>x. length x + 1) (map canonical_text vs)) \<le> sum_list (map (\<lambda>v. text_bound v + 1) vs)"
    using JList by (simp add: comp_def) (intro sum_list_mono, simp)
  then show ?case using length_join [of "CHR '',''" "map canonical_text vs"] by (simp add: canonical_text_def [abs_def] comp_def)
next
  case (JObj d)
  let ?f = "\<lambda>(k, v). plain_quote k @ '':'' @ canonical_text v"
  have "length (?f p) + 1 \<le> (\<lambda>(k, v). 6 * length k + 4 + text_bound v) p" if "p \<in> set d" for p
  proof -
    have "length (canonical_text (snd p)) \<le> text_bound (snd p)"
      by (rule JObj [OF that]) (rule Basic_BNFs.snds.intros)
    then show ?thesis using length_plain_quote [of "fst p"] by (simp add: case_prod_beta)
  qed
  then have "sum_list (map (\<lambda>p. length (?f p) + 1) d) \<le> sum_list (map (\<lambda>(k, v). 6 * length k + 4 + text_bound v) d)"
    by (intro sum_list_mono) simp
  then show ?case using length_join [of "CHR '',''" "map ?f d"] by (simp add: canonical_text_def [abs_def] comp_def case_prod_beta)
qed (simp_all add: canonical_text_def)

lemma text_bound_sort: "text_bound (sort_keys v) = text_bound v"
proof (induction v rule: sort_keys.induct)
  case (1 kvs)
  let ?g = "\<lambda>(k, v). 6 * length k + 4 + text_bound v"
  have "sum_list (map ?g (order_by key_le (map (\<lambda>(k, v). (k, sort_keys v)) kvs))) = sum_list (map ?g (map (\<lambda>(k, v). (k, sort_keys v)) kvs))"
    by (simp only: sum_mset_sum_list [symmetric] mset_map mset_order_by)
  also have "map ?g (map (\<lambda>(k, v). (k, sort_keys v)) kvs) = map ?g kvs" using 1 by (auto simp: case_prod_beta)
  finally show ?case by simp
next
  case (2 vs)
  then have "map (\<lambda>v. text_bound v + 1) (map sort_keys vs) = map (\<lambda>v. text_bound v + 1) vs" by simp
  then show ?case by (simp only: sort_keys.simps text_bound.simps)
qed simp_all

lemma canonical_length: "writable fr v \<Longrightarrow> canonical fr v = Inr raw \<Longrightarrow> length raw \<le> 2 * text_bound v"
  using canonical_writable [of fr v] length_utf8 [of "canonical_text (sort_keys v)"] text_bound [of "sort_keys v"]
  by (simp add: text_bound_sort)

text \<open>The first letter of the first key stands third.\<close>

lemma canonical_third:
  assumes "writable fr (JObj d)" and "canonical fr (JObj d) = Inr raw" and "sorted_dict d = ((c # k), v) # e"
    and "ord c < 126" and "plain_escape c = [c]"
  shows "raw ! 2 = of_nat (ord c)" and "2 < length raw"
proof -
  have raw: "raw = utf8_bytes (canonical_text (JObj (((c # k), v) # e)))"
    using canonical_writable [OF assms(1)] assms(2,3) by (simp add: sort_keys_obj del: sort_keys.simps)
  have "\<exists>t. canonical_text (JObj (((c # k), v) # e)) = CHR ''{'' # CHR 0x22 # c # t"
    using assms(5) by (cases e) (simp_all add: canonical_text_def plain_quote_def)
  then obtain t where t: "canonical_text (JObj (((c # k), v) # e)) = CHR ''{'' # CHR 0x22 # c # t" by blast
  have "utf8_bytes (CHR ''{'' # CHR 0x22 # c # t) = [of_nat 123, of_nat 34, of_nat (ord c)] @ utf8_bytes t"
    using assms(4) by (simp add: utf8_bytes_def utf8_char_def Let_def ord_def)
  then show "raw ! 2 = of_nat (ord c)" "2 < length raw" by (simp_all add: raw t)
qed

section \<open>A small vault\<close>

text \<open>Stand-ins for the primitives: a digest repeats the third byte, a MAC the first, the cipher is the identity.\<close>

definition demo_env :: "sign_env \<Rightarrow> vault_env" where
  "demo_env G = \<lparr>ve_sha256 = (\<lambda>b. replicate 32 (if 2 < length b then b ! 2 else 0)),
     ve_hmac = (\<lambda>k m. replicate 32 (case m of [] \<Rightarrow> 0 | x # _ \<Rightarrow> x)), ve_hkdf = (\<lambda>k s i. replicate 32 0),
     ve_seal = (\<lambda>k n b a. b), ve_unseal = (\<lambda>k n c a. Some c), ve_float = demo_floats, ve_float_is = (\<lambda>t n. False), ve_sign = G\<rparr>"

definition demo_doc :: pack_doc where
  "demo_doc = \<lparr>pd_uid = ''d1'', pd_title = ''T'', pd_content = ''hi'', pd_meta = [(''pages'', JList [JInt 0, JInt 5])],
     pd_chunks = None, pd_vectors = [[0x3F800000]]\<rparr>"

definition demo_pack :: pack_args where
  "demo_pack = \<lparr>pk_vault_id = ''v'', pk_name = ''n'', pk_description = [], pk_seq = 1, pk_docs = [demo_doc],
     pk_vault_key = Some (replicate 32 1), pk_name_key = None, pk_mode = ''sealed'', pk_model = ''m'', pk_label = ''me'',
     pk_published = None, pk_retired = False\<rparr>"

text \<open>Signatures that say whose they are: base64, keys and signatures as in \<open>demo_sign\<close>, whatever they are checked by.\<close>

definition plain_signer :: "sign_env \<Rightarrow> bool" where
  "plain_signer G \<longleftrightarrow> sg_b64e G = sg_b64e demo_sign \<and> sg_b64d G = sg_b64d demo_sign \<and> sg_sign G = sg_sign demo_sign \<and> sg_public G = sg_public demo_sign"

lemma demo_env_ok: "vault_env_ok (demo_env G)"
  using demo_floats_ok by (simp add: vault_env_ok_def demo_env_def)

lemma demo_float_env: "ve_float (demo_env G) = demo_floats"
  by (simp add: demo_env_def)

lemma short_nat: "n \<le> 40000 \<Longrightarrow> length (str_nat n) \<le> 4300"
  using length_str_nat [of n] by simp

lemma demo_doc_writable: "writable demo_floats (JObj (doc_dict demo_doc))"
  by (simp add: writable_def doc_dict_def demo_doc_def str_nat.simps MAX_TITLE_def)

lemma demo_body: "canonical demo_floats (JObj (doc_dict demo_doc)) = Inr (doc_body (demo_env G) demo_doc)"
  using canonical_writable [OF demo_doc_writable] by (simp add: doc_body_def doc_object_def doc_dict_def demo_float_env)

lemma demo_body_length: "length (doc_body (demo_env G) demo_doc) \<le> 400"
  using canonical_length [OF demo_doc_writable demo_body, of G] by (simp add: doc_dict_def demo_doc_def MAX_TITLE_def)

lemma demo_vec: "vec_object (pd_vectors demo_doc) = Inr (vec_body demo_doc)" "length (vec_body demo_doc) = 16" "vec_body demo_doc ! 2 = 0x56"
proof -
  show v: "vec_object (pd_vectors demo_doc) = Inr (vec_body demo_doc)" by (simp add: vec_body_def demo_doc_def vec_object_def Let_def)
  show "length (vec_body demo_doc) = 16" "vec_body demo_doc ! 2 = 0x56"
    by (simp_all add: vec_body_def demo_doc_def vec_object_def Let_def VEC_MAGIC_def ascii_bytes_def le16_def float_bytes_def ord_def)
qed

lemma demo_hex: "length (sha_hex (demo_env G) b) = 64"
  using demo_env_ok [of G] by (simp add: sha_hex_def length_hex vault_env_ok_def)

lemma demo_obj: "length (obj_name (demo_env G) k kind uid digest) = 32"
  using demo_env_ok [of G] by (simp add: obj_name_def length_hex vault_env_ok_def)

definition demo_row :: "vault_env \<Rightarrow> bytes \<Rightarrow> jdict" where
  "demo_row E k = [(''uid'', JStr ''d1''), (''title'', JStr ''T''), (''hash'', JStr (sha_hex E (doc_body E demo_doc))),
     (''obj'', JStr (obj_name E k ''doc'' ''d1'' (sha_hex E (doc_body E demo_doc)))),
     (''bytes'', JInt (int (length (doc_body E demo_doc)))), (''chunks'', JInt 1),
     (''vec'', JObj [(''obj'', JStr (obj_name E k ''vec'' ''d1'' (sha_hex E (vec_body demo_doc)))),
       (''hash'', JStr (sha_hex E (vec_body demo_doc))), (''bytes'', JInt (int (length (vec_body demo_doc))))])]"

lemma demo_one:
  "\<exists>es. pack_one (demo_env G) K vid demo_doc = Inr (es, JObj (demo_row (demo_env G) (vk_name K))) \<and>
    map snd es = map (\<lambda>(kind, b). lock_body (demo_env G) K kind ''d1'' (sha_hex (demo_env G) b) (doc_aad kind vid ''d1'') b)
      [(''doc'', doc_body (demo_env G) demo_doc), (''vec'', vec_body demo_doc)] \<and>
    map fst es = map obj_entry [obj_name (demo_env G) (vk_name K) ''doc'' ''d1'' (sha_hex (demo_env G) (doc_body (demo_env G) demo_doc)),
      obj_name (demo_env G) (vk_name K) ''vec'' ''d1'' (sha_hex (demo_env G) (vec_body demo_doc))]"
proof -
  have d: "doc_object (demo_env G) (take MAX_TITLE (pd_title demo_doc)) (pd_content demo_doc) (pd_meta demo_doc) = Inr (doc_body (demo_env G) demo_doc)"
    using demo_body [of G] by (simp add: doc_object_def doc_dict_def demo_float_env)
  have f: "pd_uid demo_doc = ''d1''" "take MAX_TITLE (pd_title demo_doc) = ''T''" "pd_chunks demo_doc = None" "pd_vectors demo_doc \<noteq> []"
    by (simp_all add: demo_doc_def MAX_TITLE_def)
  show ?thesis
    by (simp add: pack_one_def pack_vectors_def d [unfolded f] demo_vec(1) f Let_def demo_row_def)
qed

lemma demo_lock: "lock_body (demo_env G) (sealed_keys E k v) kind uid digest aad b = b"
  by (simp add: lock_body_def sealed_keys_def demo_env_def)

lemma demo_keys: "pack_keys (demo_env G) demo_pack = Inr (sealed_keys (demo_env G) (replicate 32 1) ''v'')"
  by (simp add: pack_keys_def demo_pack_def MAX_VAULT_DOCS_def)

lemma demo_row_writable: "writable demo_floats (JObj (index_payload demo_pack [JObj (demo_row (demo_env G) k)]))"
  using demo_body_length [of G] demo_vec(2)
  by (simp add: writable_def index_payload_def demo_pack_def demo_row_def FORMAT_VERSION_def short_nat)

lemma demo_index_length:
  assumes "canonical demo_floats (JObj (index_payload demo_pack [JObj (demo_row (demo_env G) k)])) = Inr ix"
  shows "length ix \<le> 10000"
proof -
  have "text_bound (JObj (index_payload demo_pack [JObj (demo_row (demo_env G) k)])) \<le> 5000"
    using demo_body_length [of G] demo_vec(2)
    by (simp add: index_payload_def demo_pack_def demo_row_def FORMAT_VERSION_def demo_hex demo_obj)
  then show ?thesis using canonical_length [OF demo_row_writable assms] by simp
qed

lemma demo_pub_length: "plain_signer G \<Longrightarrow> length (sg_b64e G (sg_public G s)) = 32"
  by (simp add: plain_signer_def demo_sign_def)

lemma demo_embeddings: "embeddings_block demo_pack =
  JObj [(''model'', JStr ''m''), (''dim'', JInt 1), (''chunking'', JObj [(''scheme'', JStr ''sb-chunk-v1''), (''chunk_chars'', JInt 4000),
    (''max_chunks'', JInt 1000), (''title_prefix'', JBool True)])]"
  by (simp add: embeddings_block_def demo_pack_def demo_doc_def MAX_CHUNKS_def)

lemma demo_payload_eq: "manifest_payload (demo_env G) s demo_pack k ix =
  [(''format'', JStr ''sbvault''), (''format_version'', JInt 1), (''requires'', JList []), (''vault_id'', JStr ''v''), (''seq'', JInt 1),
   (''mode'', JStr ''sealed''),
   (''publisher'', JObj [(''alg'', JStr ''ed25519''), (''pubkey'', JStr (sg_b64e G (sg_public G s))), (''label'', JStr ''me'')]),
   (''doc_count'', JInt 1), (''index'', JObj [(''hash'', JStr (sha_hex (demo_env G) ix)), (''bytes'', JInt (int (length ix)))]),
   (''embeddings'', embeddings_block demo_pack),
   (''crypto'', JObj [(''alg'', JStr ''AES-256-GCM''), (''kdf'', JStr ''hkdf-sha256''), (''key_epoch'', JInt 1),
      (''key_wraps'', JList [JObj [(''type'', JStr ''direct'')]])])]"
  by (simp add: manifest_payload_def mode_fields_def demo_env_def [of G] FORMAT_VERSION_def) (simp add: demo_pack_def)

lemma demo_payload:
  assumes ix: "length ix \<le> 10000" and G: "plain_signer G"
  shows "writable demo_floats (JObj (manifest_payload (demo_env G) s demo_pack k ix))"
    and "text_bound (JObj (manifest_payload (demo_env G) s demo_pack k ix)) \<le> 6000"
proof -
  have "length (str_nat (length ix)) \<le> 4300" by (rule short_nat) (use ix in simp)
  then show "writable demo_floats (JObj (manifest_payload (demo_env G) s demo_pack k ix))"
    unfolding demo_payload_eq demo_embeddings by (simp add: writable_def str_nat.simps)
  show "text_bound (JObj (manifest_payload (demo_env G) s demo_pack k ix)) \<le> 6000"
    unfolding demo_payload_eq demo_embeddings using ix demo_pub_length [OF G, of s] by (simp add: demo_hex)
qed

lemma demo_entry_names: "obj_entry (obj_name (demo_env G) k ''doc'' ''d1'' h) \<noteq> obj_entry (obj_name (demo_env G) k ''vec'' ''d1'' h')"
proof
  assume "obj_entry (obj_name (demo_env G) k ''doc'' ''d1'' h) = obj_entry (obj_name (demo_env G) k ''vec'' ''d1'' h')"
  then have "hex (replicate 16 0x64) = hex (replicate 16 0x76)"
    by (simp add: obj_entry_def obj_name_def demo_env_def tagged_def ascii_bytes_def ord_def)
  then have "replicate 16 (0x64 :: 8 word) = replicate 16 0x76" by (rule hex_inj)
  then show False by simp
qed

lemma demo_first_key: "\<exists>v e. sorted_dict (index_payload demo_pack rows) = ((CHR ''d'' # ''escription''), v) # e"
  by (simp add: sorted_dict_def index_payload_def)

lemma demo_parts_ex:
  assumes G: "plain_signer G"
  shows "\<exists>P. pack_parts (demo_env G) s demo_pack = Inr P \<and> json_pack (demo_env G) s demo_pack \<and> parts_within P \<and>
    length (pp_index P) \<le> 10000 \<and> pp_index P ! 2 = 0x64 \<and> 2 < length (pp_index P) \<and>
    text_bound (JObj (pp_payload P)) \<le> 6000 \<and> map (map snd \<circ> fst) (pp_docs P) = [[doc_body (demo_env G) demo_doc, vec_body demo_doc]] \<and>
    pp_keys P = sealed_keys (demo_env G) (replicate 32 1) ''v''"
proof -
  let ?E = "demo_env G" and ?K = "sealed_keys (demo_env G) (replicate 32 1) ''v''"
  obtain es where es: "pack_one ?E ?K ''v'' demo_doc = Inr (es, JObj (demo_row ?E (vk_name ?K)))"
    "map snd es = [doc_body ?E demo_doc, vec_body demo_doc]"
    "map fst es = map obj_entry [obj_name ?E (vk_name ?K) ''doc'' ''d1'' (sha_hex ?E (doc_body ?E demo_doc)),
      obj_name ?E (vk_name ?K) ''vec'' ''d1'' (sha_hex ?E (vec_body demo_doc))]"
    using demo_one [of G ?K "''v''"] by (auto simp: demo_lock)
  have d: "pk_docs demo_pack = [demo_doc]" "pk_vault_id demo_pack = ''v''" by (simp_all add: demo_pack_def)
  let ?ip = "index_payload demo_pack [JObj (demo_row ?E (vk_name ?K))]"
  obtain ix where ix: "canonical demo_floats (JObj ?ip) = Inr ix"
    using canonical_writable [OF demo_row_writable] by blast
  have il: "length ix \<le> 10000" by (rule demo_index_length [OF ix])
  let ?pay = "manifest_payload ?E s demo_pack (vk_name ?K) ix"
  note pay = demo_payload [OF il G, of s "vk_name ?K"]
  obtain sd where sd: "canonical demo_floats (JObj ?pay) = Inr sd" using canonical_writable [OF pay(1)] by blast
  define P where "P = \<lparr>pp_keys = ?K, pp_docs = [(es, JObj (demo_row ?E (vk_name ?K)))], pp_index = ix, pp_payload = ?pay, pp_signed = sd\<rparr>"
  have P: "pack_parts ?E s demo_pack = Inr P"
    by (simp add: pack_parts_def demo_keys d es(1) demo_float_env ix sd P_def)
  have j: "json_pack ?E s demo_pack"
    using pay(1) demo_row_writable demo_doc_writable by (simp add: json_pack_def P demo_float_env d) (simp add: P_def)
  have w: "parts_within P"
  proof -
    obtain e1 e2 where e: "es = [e1, e2]" using es(2) by (auto simp: map_eq_Cons_conv)
    then show ?thesis using es(2,3) demo_entry_names demo_body_length [of G] demo_vec(2)
      by (simp add: parts_within_def P_def MAX_DOC_OBJECT_BYTES_def MAX_VEC_OBJECT_BYTES_def MAX_TEXT_def MAX_CHUNKS_def MAX_DIM_def)
  qed
  obtain v e where "sorted_dict ?ip = ((CHR ''d'' # ''escription''), v) # e" using demo_first_key by blast
  note third = canonical_third [OF demo_row_writable ix this]
  have "ix ! 2 = 0x64" "2 < length ix" using third by (simp_all add: ord_def plain_escape_def json_escape_def Let_def)
  then show ?thesis using P j w il pay(2) es(2) by (intro exI [of _ P]) (simp add: P_def)
qed

lemma demo_parts:
  assumes G: "plain_signer G" and P: "pack_parts (demo_env G) s demo_pack = Inr P"
  shows "json_pack (demo_env G) s demo_pack" "parts_within P" "length (pp_index P) \<le> 10000" "pp_index P ! 2 = 0x64" "2 < length (pp_index P)"
    "text_bound (JObj (pp_payload P)) \<le> 6000" "map (map snd \<circ> fst) (pp_docs P) = [[doc_body (demo_env G) demo_doc, vec_body demo_doc]]"
    "pp_keys P = sealed_keys (demo_env G) (replicate 32 1) ''v''"
proof -
  obtain P' where p: "pack_parts (demo_env G) s demo_pack = Inr P' \<and> json_pack (demo_env G) s demo_pack \<and> parts_within P' \<and>
    length (pp_index P') \<le> 10000 \<and> pp_index P' ! 2 = 0x64 \<and> 2 < length (pp_index P') \<and>
    text_bound (JObj (pp_payload P')) \<le> 6000 \<and> map (map snd \<circ> fst) (pp_docs P') = [[doc_body (demo_env G) demo_doc, vec_body demo_doc]] \<and>
    pp_keys P' = sealed_keys (demo_env G) (replicate 32 1) ''v''"
    by (rule exE [OF demo_parts_ex [OF G, of s]])
  have "Inr P' = (Inr P :: packed_parts vault_result)" unfolding P [symmetric] by (rule sym, rule conjunct1 [OF p])
  then have "P' = P" by (simp only: sum.inject)
  then show "json_pack (demo_env G) s demo_pack" "parts_within P" "length (pp_index P) \<le> 10000" "pp_index P ! 2 = 0x64" "2 < length (pp_index P)"
    "text_bound (JObj (pp_payload P)) \<le> 6000" "map (map snd \<circ> fst) (pp_docs P) = [[doc_body (demo_env G) demo_doc, vec_body demo_doc]]"
    "pp_keys P = sealed_keys (demo_env G) (replicate 32 1) ''v''"
    using p by simp_all
qed

text \<open>Its archive, and the third byte of everything in it.\<close>

lemma demo_archive:
  assumes G: "plain_signer G" and P: "pack_parts (demo_env G) s demo_pack = Inr P"
  shows "\<exists>es env. pack (demo_env G) s demo_pack = Inr es \<and> length (snd (es ! 0)) \<le> MAX_MANIFEST_BYTES \<and>
    length (snd (es ! 1)) \<le> MAX_INDEX_BYTES \<and> snd ` set es = {env, pp_index P, doc_body (demo_env G) demo_doc, vec_body demo_doc} \<and>
    env ! 2 = 0x73 \<and> 2 < length env"
proof -
  let ?E = "demo_env G"
  note p = demo_parts [OF G P]
  have wp: "writable demo_floats (JObj (pp_payload P))" using p(1) by (simp add: json_pack_def P demo_float_env)
  have "canonical demo_floats (JObj (pp_payload P)) = Inr (pp_signed P)" using pack_parts_Inr [OF P] unfolding demo_float_env by blast
  then have "length (pp_signed P) \<le> 2 * text_bound (JObj (pp_payload P))" by (rule canonical_length [OF wp])
  then have "length (pp_signed P) \<le> 12000" using p(6) by linarith
  then have sl: "length (pack_signature ?E s P) \<le> 12016"
    using G by (simp add: pack_signature_def demo_env_def plain_signer_def demo_sign_def SIG_PREFIX_def ascii_bytes_def)
  let ?ed = "envelope_of (pp_payload P) (pack_signature ?E s P)"
  have pf: "print_floats demo_floats (JObj (pp_payload P)) = Some (JObj (pp_payload P))" using wp unfolding writable_def by (rule conjunct2)
  let ?sd = "[(''alg'', JStr ''ed25519''), (''value'', JStr (pack_signature ?E s P))]"
  have "print_floats demo_floats (JObj ?sd) = Some (JObj ?sd)" by simp
  then have "print_floats demo_floats (JObj ?ed) = Some (JObj ?ed)"
    using pf by (simp only: print_floats_obj [of _ "(k, v) # d" for k v d] envelope_of_def list_all2_Cons1 list_all2_Nil) auto
  then have we: "writable demo_floats (JObj ?ed)" using wp by (simp add: writable_def envelope_of_def del: print_floats.simps)
  obtain env where env: "canonical demo_floats (JObj ?ed) = Inr env" using canonical_writable [OF we] by blast
  have "text_bound (JObj [(''sbvault'', v), (''sig'', JObj [(''alg'', JStr ''ed25519''), (''value'', JStr sg)])]) \<le> text_bound v + 6 * length sg + 200"
    for v sg by simp
  from this [of "JObj (pp_payload P)" "pack_signature ?E s P"] have "text_bound (JObj ?ed) \<le> 6000 + 6 * 12016 + 200"
    using p(6) sl unfolding envelope_of_def by linarith
  then have el: "length env \<le> MAX_MANIFEST_BYTES" using canonical_length [OF we env] unfolding MAX_MANIFEST_BYTES_def by linarith
  obtain v e where "sorted_dict ?ed = ((CHR ''s'' # ''bvault''), v) # e"
    by (simp add: sorted_dict_def envelope_of_def del: sort_keys.simps)
  note third = canonical_third [OF we env this]
  define objs where "objs = order_by (\<lambda>x y. fst x \<le> fst y) (set_entries (concat (map fst (pp_docs P))))"
  have pk: "pack ?E s demo_pack = Inr ([(MANIFEST, env), (INDEX, pp_index P)] @ objs)"
    using env by (simp add: pack_def P demo_float_env pack_signature_def Let_def objs_def p(8) demo_lock)
  have "distinct (map fst (concat (map fst (pp_docs P))))" using p(2) unfolding parts_within_def by (rule conjunct1)
  then have "set objs = set (concat (map fst (pp_docs P)))" unfolding objs_def set_order_by by (simp only: set_entries_distinct)
  moreover have "snd ` set (concat (map fst (pp_docs P))) = {doc_body ?E demo_doc, vec_body demo_doc}"
  proof -
    obtain es v where "pp_docs P = [(es, v)]" "map snd es = [doc_body ?E demo_doc, vec_body demo_doc]"
      using p(7) by (cases "pp_docs P") auto
    then show ?thesis by (auto simp: map_eq_Cons_conv)
  qed
  ultimately have "snd ` set ([(MANIFEST, env), (INDEX, pp_index P)] @ objs) = {env, pp_index P, doc_body ?E demo_doc, vec_body demo_doc}" by auto
  moreover have "env ! 2 = 0x73" "2 < length env" using third by (simp_all add: ord_def plain_escape_def json_escape_def Let_def)
  moreover have "length (pp_index P) \<le> MAX_INDEX_BYTES" using p(3) unfolding MAX_INDEX_BYTES_def by linarith
  ultimately show ?thesis using pk el
    by (intro exI [of _ "[(MANIFEST, env), (INDEX, pp_index P)] @ objs"] exI [of _ env]) simp
qed

lemma demo_args: "args_within demo_pack"
  by (simp add: args_within_def demo_pack_def doc_within_def demo_doc_def MAX_TEXT_def clean_meta_def clean_page_list_def
    MAX_PAGES_def MAX_DIM_def MAX_CHUNKS_def float_finite_def)

theorem published_vault_opens_witness:
  "\<exists>es p docs. pack (demo_env demo_sign) [] demo_pack = Inr es \<and>
    open_vault (demo_env demo_sign) (archive_of 100000 0 es) (Some (replicate 32 1)) = Inr (p, docs) \<and> list_all2 doc_matches [demo_doc] docs"
proof -
  have G: "plain_signer demo_sign" by (simp add: plain_signer_def)
  have s: "ve_sign (demo_env demo_sign) = demo_sign" by (simp add: demo_env_def)
  obtain P where P: "pack_parts (demo_env demo_sign) [] demo_pack = Inr P"
    by (rule exE [OF demo_parts_ex [OF G, of "[]"]]) (elim conjE, rule that)
  note p = demo_parts [OF G P]
  obtain es where es: "pack (demo_env demo_sign) [] demo_pack = Inr es" "length (snd (es ! 0)) \<le> MAX_MANIFEST_BYTES" "length (snd (es ! 1)) \<le> MAX_INDEX_BYTES"
    using demo_archive [OF G P] by blast
  have "\<exists>p docs. open_vault (demo_env demo_sign) (archive_of 100000 0 es) (Some (replicate 32 1)) = Inr (p, docs) \<and>
      list_all2 doc_matches (pk_docs demo_pack) docs"
    by (rule published_vault_opens [OF demo_env_ok _ _ demo_args P es(1) p(1,2) es(2,3)])
      (simp_all add: s demo_sign_ok MAX_VAULT_BYTES_def demo_pack_def)
  then show ?thesis using es(1) by (simp add: demo_pack_def)
qed

text \<open>The same vault where the key has signed nothing but its manifest.\<close>

definition demo_message :: bytes where
  "demo_message = (case pack_parts (demo_env demo_sign) [] demo_pack of Inr P \<Rightarrow> pp_signed P | Inl _ \<Rightarrow> [])"

definition once_signer :: sign_env where
  "once_signer = demo_sign\<lparr>sg_verify := (\<lambda>p m s. m = SIG_PREFIX @ demo_message)\<rparr>"

lemma once_plain: "plain_signer once_signer"
  by (simp add: plain_signer_def once_signer_def)

lemma demo_parts_alike: "plain_signer G \<Longrightarrow> pack_parts (demo_env G) s demo_pack = pack_parts (demo_env demo_sign) s demo_pack"
proof -
  assume G: "plain_signer G"
  have "sealed_keys (demo_env G) key v = sealed_keys (demo_env demo_sign) key v" for key v
    by (simp add: sealed_keys_def derive_sub_def derive_name_key_def demo_env_def)
  then have k: "pack_keys (demo_env G) demo_pack = pack_keys (demo_env demo_sign) demo_pack" by (simp only: demo_keys)
  have "doc_object (demo_env G) x y z = doc_object (demo_env demo_sign) x y z" "sha_hex (demo_env G) b = sha_hex (demo_env demo_sign) b"
    "obj_name (demo_env G) c kind uid digest = obj_name (demo_env demo_sign) c kind uid digest"
    "lock_body (demo_env G) K kind uid digest aad body = lock_body (demo_env demo_sign) K kind uid digest aad body" for x y z b c kind uid digest K aad body
    by (simp_all add: doc_object_def sha_hex_def obj_name_def lock_body_def nonce_for_def demo_env_def split: option.split)
  then have o: "pack_one (demo_env G) K vid d = pack_one (demo_env demo_sign) K vid d" for K vid d
    by (simp add: pack_one_def pack_vectors_def)
  have m: "manifest_payload (demo_env G) s demo_pack c i = manifest_payload (demo_env demo_sign) s demo_pack c i" for c i
    using G by (simp add: manifest_payload_def mode_fields_def sha_hex_def demo_env_def plain_signer_def)
  have "pack_one (demo_env G) K vid = pack_one (demo_env demo_sign) K vid" for K vid using o by blast
  then show ?thesis by (simp add: pack_parts_def k m demo_float_env)
qed

lemma demo_body_third: "doc_body (demo_env G) demo_doc ! 2 = 0x63" "2 < length (doc_body (demo_env G) demo_doc)"
proof -
  obtain v e where "sorted_dict (doc_dict demo_doc) = ((CHR ''c'' # ''ontent''), v) # e"
    by (simp add: sorted_dict_def doc_dict_def del: sort_keys.simps)
  note third = canonical_third [OF demo_doc_writable demo_body [of G] this]
  show "doc_body (demo_env G) demo_doc ! 2 = 0x63" "2 < length (doc_body (demo_env G) demo_doc)"
    using third by (simp_all add: ord_def plain_escape_def json_escape_def Let_def)
qed

theorem opened_is_what_was_published_witness:
  "\<exists>f p docs. open_vault (demo_env once_signer) f (Some (replicate 32 1)) = Inr (p, docs) \<and>
    (\<exists>a \<in> {demo_pack}. list_all2 doc_matches (pk_docs a) docs)"
proof -
  let ?E = "demo_env once_signer" and ?pub = "sg_b64e demo_sign (sg_public demo_sign [])"
  have sv: "ve_sign ?E = once_signer" by (simp add: demo_env_def)
  obtain P where P: "pack_parts ?E [] demo_pack = Inr P"
    by (rule exE [OF demo_parts_ex [OF once_plain, of "[]"]]) (elim conjE, rule that)
  note p = demo_parts [OF once_plain P]
  have msg: "demo_message = pp_signed P" using P demo_parts_alike [OF once_plain] by (simp add: demo_message_def)
  obtain es env where es: "pack ?E [] demo_pack = Inr es" "length (snd (es ! 0)) \<le> MAX_MANIFEST_BYTES" "length (snd (es ! 1)) \<le> MAX_INDEX_BYTES"
    "snd ` set es = {env, pp_index P, doc_body ?E demo_doc, vec_body demo_doc}" "env ! 2 = 0x73" "2 < length env"
    using demo_archive [OF once_plain P] by (elim exE conjE) (rule that)
  have ver: "verify_signature once_signer ?pub m sig \<longleftrightarrow> m = SIG_PREFIX @ pp_signed P" for m sig
    using demo_sign_ok by (simp add: verify_signature_def once_signer_def msg b64_ok_def ed25519_ok_def) (simp add: demo_sign_def)
  have pub: "sg_b64e (ve_sign ?E) (sg_public (ve_sign ?E) []) = ?pub" using once_plain by (simp add: sv plain_signer_def)
  have sg: "signature_checks ?E [] P" unfolding signature_checks_def pub unfolding sv ver by (rule refl)
  let ?f = "archive_of 100000 0 es"
  note opened = packed_vault_opens [OF demo_env_ok demo_args P es(1) sg p(1,2) es(2,3), of 100000 0 "Some (replicate 32 1)"]
  have lim: "(100000 :: nat) \<le> MAX_VAULT_BYTES" by (simp add: MAX_VAULT_BYTES_def)
  obtain q docs where q: "open_vault ?E ?f (Some (replicate 32 1)) = Inr (q, docs)" using opened(1) lim by (auto simp: demo_pack_def)
  have me: "manifest_entry ?f = Inr (snd (es ! 0))" using opened(2) lim by (simp add: demo_pack_def)
  have ce: "canonical (ve_float ?E) (JObj (envelope_of (pp_payload P) (pack_signature ?E [] P))) = Inr (snd (es ! 0))"
    using opened(3) lim by (simp add: demo_pack_def)
  have wp: "writable (ve_float ?E) (JObj (pp_payload P))" using p(1) P by (simp add: json_pack_def)
  have "?pub \<noteq> []" by (simp add: demo_sign_def)
  then have pin: "manifest_signed_by ?E (snd (es ! 0)) ?pub = Inr True"
    using packed_manifest(2) [OF demo_env_ok demo_args P sg wp ce es(2)] by (simp add: pub)
  have only: "only_published ?E [] {demo_pack} ?pub" by (simp add: only_published_def sv ver P)
  have im: "b \<in> snd ` set es" if "(n, b) \<in> set es" for n b by (rule image_eqI [OF _ that]) simp
  have "readable ?E ?f \<subseteq> snd ` set es"
    by (auto simp: readable_def archive_of_def stored_def demo_env_def split: prod.splits intro: im)
  then have sub: "readable ?E ?f \<union> (\<Union>a \<in> {demo_pack}. packed_bytes ?E [] a) \<subseteq> {env, pp_index P, doc_body ?E demo_doc, vec_body demo_doc}"
    unfolding es(4) by (simp add: packed_bytes_def P) (auto simp: demo_pack_def)
  have "inj_on (ve_sha256 ?E) {env, pp_index P, doc_body ?E demo_doc, vec_body demo_doc}"
    using es(5,6) p(4,5) demo_body_third [of once_signer] demo_vec(2,3) by (auto simp: inj_on_def demo_env_def)
  then have col: "inj_on (ve_sha256 ?E) (readable ?E ?f \<union> (\<Union>a \<in> {demo_pack}. packed_bytes ?E [] a))"
    using sub by (rule inj_on_subset)
  have "\<exists>a \<in> {demo_pack}. list_all2 doc_matches (pk_docs a) docs"
    by (rule opened_is_what_was_published [OF _ only _ col me pin q]) (use demo_floats_ok p(1) in \<open>simp_all add: demo_float_env\<close>)
  then show ?thesis using q by blast
qed


theorem provenance_is_bounded_witness:
  "\<exists>m. clean_meta (JObj [(''page_label'', JStr ''chapter''), (''pages'', JList [JInt 0, JInt 5]), (''other'', JNull)]) = Inr m \<and>
    m = [(''page_label'', JStr []), (''pages'', JList [JInt 0, JInt 5])] \<and>
    set (map fst m) \<subseteq> {''filename'', ''source_url'', ''mime'', ''page_label'', ''pages''}"
proof -
  let ?v = "JObj [(''page_label'', JStr ''chapter''), (''pages'', JList [JInt 0, JInt 5]), (''other'', JNull)]"
  have m: "clean_meta ?v = Inr [(''page_label'', JStr []), (''pages'', JList [JInt 0, JInt 5])]"
    by (simp add: clean_meta_def clean_page_list_def clean_text_def clean_page_label_def PAGE_LABELS_def MAX_PAGES_def)
  show ?thesis by (intro exI conjI, rule m, rule refl, rule conjunct1 [OF provenance_is_bounded [OF m]])
qed

theorem fingerprint_ignores_order_witness:
  "docs_fingerprint (demo_env demo_sign) [demo_doc, demo_doc\<lparr>pd_uid := ''d2''\<rparr>] =
   docs_fingerprint (demo_env demo_sign) [demo_doc\<lparr>pd_uid := ''d2''\<rparr>, demo_doc]"
  by (rule fingerprint_ignores_order) simp

end
