(* ===== verification/Spec2Isabelle.thy ===== *)
theory Spec2Isabelle
  imports Agent_Turn Scheduler Planner History Memory_Store Account Remote_Channel Net_Guard Broker_Bindings Channel_Binding Vault_Demo
begin

text \<open>
  A model of SmartBrain_3000, a personal assistant that runs on its owner's machine: a language model proposes tool
  calls, the owner approves the dangerous ones, and everything it keeps is sealed under a master key. The sources
  are under \<open>src/app/smartbrain_3000\<close>; a theory names the file it models in its opening text, and its definitions
  keep the names of the functions there.

  Parts, in the order they build on each other:
  \<^item> \<open>Prelude\<close>: results and errors, Python values and strings, sealed values, tables. \<open>Calendar\<close>: dates and timestamps.
    \<open>Json\<close> and \<open>Json_Roundtrip\<close>: the reader of JSON text, and that it undoes the writer of \<open>Tool_Args\<close>.
    \<open>Keyset\<close>: paging through a listing by the key of its last row.
  \<^item> Tools: \<open>Tool_Registry\<close> (the table of tools, their tiers and schemas), \<open>Tool_Args\<close> (coercion and validation of a
    call's arguments, redaction), \<open>Consent\<close> (remembered permissions), \<open>Audit_Log\<close>, \<open>Approvals\<close> (the queue of parked
    calls), \<open>Tool_Run\<close> (the one place a tool runs), \<open>Approve_Route\<close> (approve and deny).
  \<^item> The agent: \<open>Agent_Sources\<close> (citations and the closing prompt), \<open>Agent_Turn\<close> (the bounded loop of a turn, inline
    and parked calls, resume).
  \<^item> Stores: \<open>Planner\<close>, \<open>Scheduler\<close>, \<open>History\<close>, \<open>Memory_Store\<close>, \<open>Secret_Store\<close>.
  \<^item> Keys and people: \<open>Recovery_Key\<close>, \<open>Keyvault\<close>, \<open>Auth\<close> (sessions and the guards of every request), \<open>Account\<close>
    (set-up, unlock, passphrase changes), \<open>Devices\<close> (paired phones), \<open>Identity\<close> (signing keys).
  \<^item> Remote access: \<open>Bridge\<close> (a phone's frame as a local request), \<open>Remote_Channel\<close> (authentication, requests, chunking),
    \<open>Channel_Binding\<close> (what both ends sign).
  \<^item> The signalling broker, a program of its own (\<open>src/signaling/server.py\<close>): \<open>Broker\<close> (its state, admission, the handler of
    a connection as steps between its waits), \<open>Broker_Safety\<close> (the maps agree with the open connections, the caps),
    \<open>Broker_Proofs\<close> (bounds, clean-up, who a message reaches, who may register an id), \<open>Broker_Bindings\<close> (bindings and
    their file, concrete runs).
  \<^item> Reaching the network: \<open>Url\<close> (the part of Python's \<open>urllib.parse\<close> the sources use), \<open>Address_Guard\<close> (which addresses are
    refused), \<open>Net_Guard\<close> (the guarded fetch: pinning, redirects, capped reads, the checks of a body).
  \<^item> Vaults, the signed archives by which people share documents: \<open>Canonical_Json\<close> (the bytes a signature covers), \<open>Base64\<close>,
    \<open>Vault_Format\<close> (the container, its manifest, keys and vectors), \<open>Vault_Open\<close> (the index and the documents), \<open>Vault_Pack\<close>
    (what a publisher writes), \<open>Vault_Integrity\<close> (what the chain of digests commits to), \<open>Vault_Checks\<close> (one property per
    reader), \<open>Vault_Trust\<close> (what a recipient opens is what the publisher packed, and it opens), \<open>Vault_Demo\<close> (a small vault at
    which these are applied).

  What the lemmas show. Each store has the invariant of its tables and is refined from a simple specification (a map, a
  list, a state machine) over any sequence of its operations; parsers and encoders are inverse; the chokepoint, the
  routes and the loop run a tool only with the permission the tier demands and record it; the guards give a request
  the authority its credential carries; the limits hold. Interfaces are locales, interpreted on the model where they
  are provided: the keyed store of \<open>Secret_Store\<close>, the pages of \<open>Keyset\<close>, and those of the tool chokepoint.

  Conventions. A raised exception is \<open>Inl\<close> of an error that names the class; an assertion that fails is \<open>Assertion\<close>.
  A call that keeps its effects when it raises is a function from the state to a result and the state (\<open>eff\<close> in
  \<open>Devices\<close>). Characters are Latin-1; a dash or an arrow of a message is written with ASCII. A timestamp is a number of
  microseconds, random values and the clock are arguments. AES-GCM is an abstract sealed box (\<open>aead\<close>) with the laws
  named \<open>aead_roundtrip\<close> and \<open>aead_authentic\<close>; the resolver and the HTTP client, HMAC, SHA-256, Argon2id, HKDF, Ed25519, the model server, the tool
  handlers and the database's casts of foreign text are parameters, with what is relied on of each as a named
  hypothesis. Tables are lists of rows in insertion order.

  Bounds. Loops are structural, or by a measure; the turn loop carries the source's own step limit as its fuel, so it
  always ends, and the guarded fetch the source's bound on redirects. Lengths and counts are unbounded numbers, as they are in Python.

  Not modelled: everything that is I/O or another package (the model gateway, the browsers, speech, e-mail, the web
  client, the installer), the Neural Interface engine, the knowledge base and its index, the routes that only pass a
  request to a store, decoding a fetched body to text and the politeness towards its host, and concurrency inside one store (each operation is one database transaction).
\<close>

end
